(* ===== verification/Prelude.thy ===== *)
theory Prelude
  imports Main "HOL-Library.Word"
begin

section \<open>Prelude: machine integers, fallible state transformers, ledgers\<close>

text \<open>
  What every component of the development shares:
  \<^item> names for the Rust and alloy integer types and Rust's checked, saturating and
    converting arithmetic on them, with the lemmas that turn every successful checked
    operation into an equation between natural numbers (collection \<open>checked\<close>);
  \<^item> the state transformers the precompiles are written in. A Rust method of type
    \<open>fn f(&mut self, ..) -> Result<T>\<close> is a function from a state to a result and a state.
    The state is returned on the error branch as well, because a Rust method that returns
    \<open>Err\<close> keeps the writes it has made: only the transaction boundary (\<open>commit\<close> below)
    rolls them back;
  \<^item> finite sums of balances and how an update changes them;
  \<^item> the locale of transition systems with an invariant, interpreted by each component.
\<close>

named_theorems checked \<open>successful checked arithmetic as equations between naturals\<close>
named_theorems run \<open>running the primitive state transformers\<close>
named_theorems kept \<open>rules for the parts of the state an operation leaves alone\<close>

subsection \<open>Integer types\<close>

type_synonym u8 = "8 word"
type_synonym u32 = "32 word"
type_synonym u64 = "64 word"
type_synonym u128 = "128 word"
type_synonym u256 = "256 word"
type_synonym b256 = "256 word"
type_synonym address = "160 word"

abbreviation ZERO_ADDRESS :: address where
  "ZERO_ADDRESS \<equiv> 0"

text \<open>The largest value of a width, Rust's \<open>T::MAX\<close>.\<close>

abbreviation MAX_WORD :: "'a::len word" where
  "MAX_WORD \<equiv> - 1"

subsection \<open>Checked, saturating and converting arithmetic\<close>

definition checked_add :: "'a::len word \<Rightarrow> 'a word \<Rightarrow> 'a word option" where
  "checked_add a b = (if unat a + unat b < 2 ^ LENGTH('a) then Some (a + b) else None)"

definition checked_sub :: "'a::len word \<Rightarrow> 'a word \<Rightarrow> 'a word option" where
  "checked_sub a b = (if b \<le> a then Some (a - b) else None)"

definition checked_mul :: "'a::len word \<Rightarrow> 'a word \<Rightarrow> 'a word option" where
  "checked_mul a b = (if unat a * unat b < 2 ^ LENGTH('a) then Some (a * b) else None)"

definition checked_div :: "'a::len word \<Rightarrow> 'a word \<Rightarrow> 'a word option" where
  "checked_div a b = (if b = 0 then None else Some (a div b))"

definition saturating_sub :: "'a::len word \<Rightarrow> 'a word \<Rightarrow> 'a word" where
  "saturating_sub a b = (if b \<le> a then a - b else 0)"

definition saturating_add :: "'a::len word \<Rightarrow> 'a word \<Rightarrow> 'a word" where
  "saturating_add a b = (if unat a + unat b < 2 ^ LENGTH('a) then a + b else MAX_WORD)"

text \<open>\<open>TryFrom\<close> between widths (\<open>None\<close> when the value does not fit), the lossless
  \<open>From\<close> of a narrower type, and alloy's \<open>saturating_to\<close>.\<close>

definition try_into :: "'a::len word \<Rightarrow> 'b::len word option" where
  "try_into x = (if unat x < 2 ^ LENGTH('b) then Some (ucast x) else None)"

definition widen :: "u128 \<Rightarrow> u256" where
  "widen x = ucast x"

definition saturating_to :: "'a::len word \<Rightarrow> 'b::len word" where
  "saturating_to x = (if unat x < 2 ^ LENGTH('b) then ucast x else MAX_WORD)"

lemma checked_add_Some [checked]:
  "checked_add a b = Some c \<longleftrightarrow> unat c = unat a + unat b" for a b c :: "'a::len word"
proof
  assume "checked_add a b = Some c"
  then show "unat c = unat a + unat b"
    by (auto simp: checked_add_def unat_word_ariths split: if_splits)
next
  assume c: "unat c = unat a + unat b"
  then have "unat a + unat b < 2 ^ LENGTH('a)"
    using unsigned_less [of c, where ?'a = nat] by simp
  moreover from c have "c = a + b"
    by (metis of_nat_add of_nat_unat ucast_id)
  ultimately show "checked_add a b = Some c"
    by (simp add: checked_add_def)
qed

lemma checked_sub_Some [checked]:
  "checked_sub a b = Some c \<longleftrightarrow> unat a = unat b + unat c" for a b c :: "'a::len word"
proof
  assume "checked_sub a b = Some c"
  then have "b \<le> a" "c = a - b"
    by (auto simp: checked_sub_def split: if_splits)
  then show "unat a = unat b + unat c"
    by (simp add: unat_sub word_le_nat_alt)
next
  assume c: "unat a = unat b + unat c"
  then have "b \<le> a"
    by (simp add: word_le_nat_alt)
  moreover from c have "a = b + c"
    by (metis of_nat_add of_nat_unat ucast_id)
  ultimately show "checked_sub a b = Some c"
    by (simp add: checked_sub_def)
qed

lemma checked_mul_Some [checked]:
  "checked_mul a b = Some c \<longleftrightarrow> unat c = unat a * unat b" for a b c :: "'a::len word"
proof
  assume "checked_mul a b = Some c"
  then show "unat c = unat a * unat b"
    by (auto simp: checked_mul_def unat_word_ariths split: if_splits)
next
  assume c: "unat c = unat a * unat b"
  then have "unat a * unat b < 2 ^ LENGTH('a)"
    using unsigned_less [of c, where ?'a = nat] by simp
  moreover from c have "c = a * b"
    by (metis of_nat_mult of_nat_unat ucast_id)
  ultimately show "checked_mul a b = Some c"
    by (simp add: checked_mul_def)
qed

lemma checked_div_Some [checked]:
  "checked_div a b = Some c \<longleftrightarrow> b \<noteq> 0 \<and> unat c = unat a div unat b" for a b c :: "'a::len word"
  by (auto simp: checked_div_def unat_div intro: word_unat_eq_iff [THEN iffD2])

lemma try_into_Some [checked]:
  "try_into x = Some y \<longleftrightarrow> unat y = unat x" for x :: "'a::len word" and y :: "'b::len word"
proof
  assume "try_into x = Some y"
  then have "unat x < 2 ^ LENGTH('b)" "y = ucast x"
    by (auto simp: try_into_def split: if_splits)
  then show "unat y = unat x"
    by (simp add: unsigned_ucast_eq take_bit_eq_mod)
next
  assume y: "unat y = unat x"
  then have "unat x < 2 ^ LENGTH('b)"
    using unsigned_less [of y, where ?'a = nat] by simp
  moreover from this y have "y = ucast x"
    by (simp add: word_unat_eq_iff unsigned_ucast_eq take_bit_eq_mod)
  ultimately show "try_into x = Some y"
    by (simp add: try_into_def)
qed

lemma unat_widen [simp]: "unat (widen x) = unat x"
  using unsigned_less [of x, where ?'a = nat] by (simp add: widen_def unsigned_ucast_eq take_bit_eq_mod)

lemma unat_saturating_sub [simp]: "unat (saturating_sub a b) = unat a - unat b"
  by (auto simp: saturating_sub_def unat_sub word_le_nat_alt)

lemma unat_saturating_add: "unat (saturating_add a b) = min (unat a + unat b) (2 ^ LENGTH('a) - 1)"
  for a b :: "'a::len word"
proof (cases "unat a + unat b < 2 ^ LENGTH('a)")
  case True
  then show ?thesis
    by (simp add: saturating_add_def unat_word_ariths)
next
  case False
  then show ?thesis
    by (simp add: saturating_add_def unsigned_minus_1_eq_mask mask_eq_exp_minus_1)
qed

lemmas word_order_nat = word_le_nat_alt word_less_nat_alt

subsection \<open>Fallible state transformers\<close>

type_synonym ('s, 'e, 'a) pre = "'s \<Rightarrow> ('e + 'a) \<times> 's"

definition eret :: "'a \<Rightarrow> ('s, 'e, 'a) pre" where
  "eret x s = (Inr x, s)"

definition efail :: "'e \<Rightarrow> ('s, 'e, 'a) pre" where
  "efail e s = (Inl e, s)"

definition ebind :: "('s, 'e, 'a) pre \<Rightarrow> ('a \<Rightarrow> ('s, 'e, 'b) pre) \<Rightarrow> ('s, 'e, 'b) pre" where
  "ebind m f s = (case m s of (Inl e, s') \<Rightarrow> (Inl e, s') | (Inr x, s') \<Rightarrow> f x s')"

text \<open>Reading the state, writing it, failing unless a condition holds, \<open>Option::ok_or\<close>,
  a \<open>for\<close> loop over a list, and \<open>let _ = f()\<close>, which drops an error but keeps the writes.\<close>

definition egets :: "('s \<Rightarrow> 'a) \<Rightarrow> ('s, 'e, 'a) pre" where
  "egets g s = (Inr (g s), s)"

definition emodify :: "('s \<Rightarrow> 's) \<Rightarrow> ('s, 'e, unit) pre" where
  "emodify g s = (Inr (), g s)"

definition erequire :: "bool \<Rightarrow> 'e \<Rightarrow> ('s, 'e, unit) pre" where
  "erequire c e = (if c then eret () else efail e)"

definition eok_or :: "'a option \<Rightarrow> 'e \<Rightarrow> ('s, 'e, 'a) pre" where
  "eok_or x e = (case x of None \<Rightarrow> efail e | Some y \<Rightarrow> eret y)"

fun efor :: "'a list \<Rightarrow> ('a \<Rightarrow> ('s, 'e, unit) pre) \<Rightarrow> ('s, 'e, unit) pre" where
  "efor [] f = eret ()"
| "efor (x # xs) f = ebind (f x) (\<lambda>_. efor xs f)"

definition eignore :: "('s, 'e, 'a) pre \<Rightarrow> ('s, 'e, unit) pre" where
  "eignore m s = (Inr (), snd (m s))"

text \<open>A component's operation inside a larger state.\<close>

definition ezoom :: "('w \<Rightarrow> 's) \<Rightarrow> ('s \<Rightarrow> 'w \<Rightarrow> 'w) \<Rightarrow> ('s, 'e, 'a) pre \<Rightarrow> ('w, 'e, 'a) pre" where
  "ezoom get put m w = (let (r, s') = m (get w) in (r, put s' w))"

text \<open>The transaction boundary: an error reverts every write of the call.\<close>

definition commit :: "('s, 'e, 'a) pre \<Rightarrow> 's \<Rightarrow> 's" where
  "commit m s = (case m s of (Inl e, s') \<Rightarrow> s | (Inr x, s') \<Rightarrow> s')"

lemma eret_run [run]: "eret x s = (Inr x, s)"
  by (simp add: eret_def)

lemma efail_run [run]: "efail e s = (Inl e, s)"
  by (simp add: efail_def)

lemma egets_run [run]: "egets g s = (Inr (g s), s)"
  by (simp add: egets_def)

lemma emodify_run [run]: "emodify g s = (Inr (), g s)"
  by (simp add: emodify_def)

lemma erequire_run [run]: "erequire c e s = (if c then Inr () else Inl e, s)"
  by (simp add: erequire_def run)

lemma eok_or_run [run]: "eok_or x e s = (case x of None \<Rightarrow> Inl e | Some y \<Rightarrow> Inr y, s)"
  by (simp add: eok_or_def run split: option.splits)

lemma ebind_run [run]:
  "ebind m f s = (case m s of (Inl e, s') \<Rightarrow> (Inl e, s') | (Inr x, s') \<Rightarrow> f x s')"
  by (simp add: ebind_def)

lemma ebind_ok: "ebind m f s = (Inr v, s'') \<longleftrightarrow> (\<exists>x s'. m s = (Inr x, s') \<and> f x s' = (Inr v, s''))"
  by (auto simp: ebind_def split: prod.splits sum.splits)

lemma egets_ok: "egets g s = (Inr v, s') \<longleftrightarrow> v = g s \<and> s' = s"
  by (auto simp: run)

lemma emodify_ok: "emodify g s = (Inr v, s') \<longleftrightarrow> s' = g s"
  by (auto simp: run)

lemma eret_ok: "eret x s = (Inr v, s') \<longleftrightarrow> v = x \<and> s' = s"
  by (auto simp: run)

lemma efail_ok: "efail e s = (Inr v, s') \<longleftrightarrow> False"
  by (auto simp: run)

lemma erequire_ok: "erequire c e s = (Inr v, s') \<longleftrightarrow> c \<and> s' = s"
  by (auto simp: run)

lemma eok_or_ok: "eok_or x e s = (Inr v, s') \<longleftrightarrow> x = Some v \<and> s' = s"
  by (auto simp: run split: option.splits)

lemma ezoom_ok:
  "ezoom get put m w = (Inr v, w') \<longleftrightarrow> (\<exists>s'. m (get w) = (Inr v, s') \<and> w' = put s' w)"
  by (auto simp: ezoom_def Let_def split: prod.splits)

lemma if_ok: "(if c then m else n) s = (Inr v, s') \<longleftrightarrow> (if c then m s = (Inr v, s') else n s = (Inr v, s'))"
  by simp

text \<open>Inverting a successful run: what each step read, checked and wrote.\<close>

lemmas ok = ebind_ok egets_ok emodify_ok eret_ok efail_ok erequire_ok eok_or_ok ezoom_ok if_ok

lemma commit_error: "m s = (Inl e, s') \<Longrightarrow> commit m s = s"
  by (simp add: commit_def)

lemma commit_cases: "commit m s = s \<or> (\<exists>v. m s = (Inr v, commit m s))"
  by (auto simp: commit_def split: prod.splits sum.splits)

lemma efor_keeps:
  assumes "\<And>x s s'. x \<in> set xs \<Longrightarrow> P s \<Longrightarrow> f x s = (Inr (), s') \<Longrightarrow> P s'"
  shows "P s \<Longrightarrow> efor xs f s = (Inr u, s') \<Longrightarrow> P s'"
  using assms
proof (induction xs arbitrary: s)
  case Nil
  then show ?case by (simp add: ok)
next
  case (Cons x xs)
  then obtain s1 where "f x s = (Inr (), s1)" "efor xs f s1 = (Inr u, s')"
    by (auto simp: ok)
  with Cons show ?case
    by (metis list.set_intros(1) list.set_intros(2))
qed

subsection \<open>Parts of the state that an operation leaves alone\<close>

text \<open>\<open>keeps f m\<close>: the part \<open>f\<close> of the state is the same after \<open>m\<close>, whether it succeeds or fails.
  The rules follow the structure of the program, so a proof unfolds the operation and
  applies them.\<close>

definition keeps :: "('s \<Rightarrow> 'b) \<Rightarrow> ('s, 'e, 'a) pre \<Rightarrow> bool" where
  "keeps f m \<longleftrightarrow> (\<forall>s. f (snd (m s)) = f s)"

lemma keeps_run: "keeps f m \<Longrightarrow> m s = (r, s') \<Longrightarrow> f s' = f s"
  by (auto simp: keeps_def dest: spec [of _ s])

lemma keeps_pure [kept]:
  "keeps f (eret x)" "keeps f (efail e)" "keeps f (egets g)" "keeps f (erequire c e)" "keeps f (eok_or v e)"
  by (auto simp: keeps_def run)

lemma keeps_ebind [kept]: "keeps f m \<Longrightarrow> (\<And>x. keeps f (g x)) \<Longrightarrow> keeps f (ebind m g)"
  by (auto simp: keeps_def run split: prod.split sum.split) (metis snd_conv)+

lemma keeps_if [kept]: "keeps f m \<Longrightarrow> keeps f n \<Longrightarrow> keeps f (if c then m else n)"
  by simp

lemma keeps_case [kept]:
  "(\<And>a b. keeps f (g a b)) \<Longrightarrow> keeps f (case p of (a, b) \<Rightarrow> g a b)"
  "keeps f m \<Longrightarrow> (\<And>x. keeps f (h x)) \<Longrightarrow> keeps f (case v of None \<Rightarrow> m | Some x \<Rightarrow> h x)"
  by (auto split: prod.split option.split)

lemma keeps_let [kept]: "(\<And>x. keeps f (g x)) \<Longrightarrow> keeps f (let x = v in g x)"
  by (simp add: Let_def)

lemma keeps_emodify [kept]: "(\<And>s. f (g s) = f s) \<Longrightarrow> keeps f (emodify g)"
  by (simp add: keeps_def run)

lemma keeps_efor [kept]: "(\<And>x. keeps f (g x)) \<Longrightarrow> keeps f (efor xs g)"
  by (induction xs) (auto intro: kept)

lemma keeps_eignore [kept]: "keeps f m \<Longrightarrow> keeps f (eignore m)"
  by (simp add: keeps_def eignore_def)

lemma keeps_ezoom: "(\<And>w s. f (put s w) = f w) \<Longrightarrow> keeps f (ezoom get put m)"
  by (simp add: keeps_def ezoom_def Let_def split: prod.split)

subsection \<open>Sums of balances\<close>

text \<open>Addresses are a finite type, so the total of a balance mapping is a finite sum.\<close>

definition total_of :: "('a::finite \<Rightarrow> 'b::len word) \<Rightarrow> nat" where
  "total_of f = (\<Sum>a\<in>UNIV. unat (f a))"

lemma sum_fun_upd:
  "(\<Sum>a\<in>UNIV. (f(x := v)) a) + f x = (\<Sum>a\<in>UNIV. f a) + v"
  for f :: "'a::finite \<Rightarrow> nat"
proof -
  have "(\<Sum>a\<in>UNIV - {x}. (f(x := v)) a) = (\<Sum>a\<in>UNIV - {x}. f a)"
    by (intro sum.cong) auto
  moreover have "(\<Sum>a\<in>UNIV. (f(x := v)) a) = v + (\<Sum>a\<in>UNIV - {x}. (f(x := v)) a)"
    by (subst sum.remove [of UNIV x]) simp_all
  moreover have "(\<Sum>a\<in>UNIV. f a) = f x + (\<Sum>a\<in>UNIV - {x}. f a)"
    by (rule sum.remove) simp_all
  ultimately show ?thesis by linarith
qed

lemma total_upd: "total_of (f(x := v)) + unat (f x) = total_of f + unat v"
proof -
  have "(\<lambda>a. unat ((f(x := v)) a)) = (\<lambda>a. unat (f a))(x := unat v)"
    by auto
  then show ?thesis
    using sum_fun_upd [of "\<lambda>a. unat (f a)" x "unat v"] by (simp only: total_of_def)
qed

lemma total_zero [simp]: "total_of (\<lambda>_. 0) = 0"
  by (simp add: total_of_def)

lemma le_total: "unat (f x) \<le> total_of f"
  unfolding total_of_def by (rule member_le_sum) auto

lemma le_total2: "x \<noteq> y \<Longrightarrow> unat (f x) + unat (f y) \<le> total_of f"
proof -
  assume "x \<noteq> y"
  then have "unat (f x) + unat (f y) = (\<Sum>a\<in>{x, y}. unat (f a))"
    by simp
  also have "\<dots> \<le> (\<Sum>a\<in>UNIV. unat (f a))"
    by (rule sum_mono2) auto
  finally show ?thesis by (simp add: total_of_def)
qed

subsection \<open>Transition systems with an invariant\<close>

text \<open>A component whose calls are executed one after the other, each either committed or
  reverted. A call may be restricted (\<open>ok\<close>) to the callers the runtime lets through.\<close>

locale invariant_system =
  fixes exec :: "'c \<Rightarrow> 's \<Rightarrow> 's"
    and admissible :: "'c \<Rightarrow> bool"
    and I :: "'s \<Rightarrow> bool"
  assumes exec_keeps: "admissible c \<Longrightarrow> I s \<Longrightarrow> I (exec c s)"
begin

lemma fold_keeps: "list_all admissible cs \<Longrightarrow> I s \<Longrightarrow> I (fold exec cs s)"
  by (induction cs arbitrary: s) (auto simp: exec_keeps)

lemma prefix_keeps:
  "list_all admissible (cs @ ds) \<Longrightarrow> I s \<Longrightarrow> I (fold exec cs s) \<and> I (fold exec (cs @ ds) s)"
  by (simp add: fold_keeps)

end

end
