(* ===== verification/Errors.thy ===== *)
theory Errors
  imports Prelude
begin

section \<open>Error values and the execution environment of the precompiles\<close>

text \<open>
  The error enums of \<open>contracts/src/precompiles/*.rs\<close>, one datatype per Solidity interface
  with the interface's constructors in order, and \<open>TempoPrecompileError\<close> of
  \<open>precompiles/src/error.rs\<close>, which wraps them. \<open>OutOfGas\<close> and \<open>Fatal\<close> come from the
  storage provider only; the model's storage reads and writes do not fail. \<open>OutOfGas\<close> is what a
  loop returns whose reads exceed the gas bound it is given.

  The environment record holds what the precompiles take from outside the repository:
  the \<open>keccak256\<close> of alloy, the block timestamp and hardfork flag of the EVM context, and
  the two conversions that alloy's \<open>sol!\<close> macro generates for the \<open>PolicyType\<close> enum.
\<close>

datatype tip20_error =
    TIP20_InsufficientBalance u256 u256 address
  | TIP20_InsufficientAllowance
  | TIP20_SupplyCapExceeded
  | TIP20_InvalidSupplyCap
  | TIP20_InvalidPayload
  | TIP20_StringTooLong
  | TIP20_PolicyForbids
  | TIP20_InvalidRecipient
  | TIP20_ContractPaused
  | TIP20_InvalidCurrency
  | TIP20_InvalidQuoteToken
  | TIP20_TransfersDisabled
  | TIP20_InvalidAmount
  | TIP20_NoOptedInSupply
  | TIP20_Unauthorized
  | TIP20_ProtectedAddress
  | TIP20_InvalidToken
  | TIP20_Uninitialized
  | TIP20_InvalidTransferPolicyId

datatype roles_auth_error = Roles_Unauthorized

datatype tip403_error = TIP403_Unauthorized | TIP403_IncompatiblePolicyType | TIP403_PolicyNotFound

datatype nonce_error =
    Nonce_ProtocolNonceNotSupported
  | Nonce_InvalidNonceKey
  | Nonce_NonceOverflow
  | Nonce_ExpiringNonceReplay
  | Nonce_ExpiringNonceSetFull
  | Nonce_InvalidExpiringNonceExpiry

datatype keychain_error =
    Key_UnauthorizedCaller
  | Key_KeyAlreadyExists
  | Key_KeyNotFound
  | Key_KeyExpired
  | Key_SpendingLimitExceeded
  | Key_InvalidSignatureType
  | Key_ZeroPublicKey
  | Key_ExpiryInPast
  | Key_KeyAlreadyRevoked
  | Key_SignatureTypeMismatch u8 u8

datatype fee_manager_error =
    Fee_OnlyValidator
  | Fee_OnlySystemContract
  | Fee_InvalidToken
  | Fee_PoolDoesNotExist
  | Fee_InsufficientFeeTokenBalance
  | Fee_InternalError
  | Fee_CannotChangeWithinBlock
  | Fee_CannotChangeWithPendingFees
  | Fee_TokenPolicyForbids

datatype fee_amm_error =
    AMM_IdenticalAddresses
  | AMM_InvalidToken
  | AMM_InsufficientLiquidity
  | AMM_InsufficientReserves
  | AMM_InvalidAmount
  | AMM_DivisionByZero
  | AMM_InvalidSwapCalculation

datatype dex_error =
    DEX_Unauthorized
  | DEX_PairDoesNotExist
  | DEX_PairAlreadyExists
  | DEX_OrderDoesNotExist
  | DEX_IdenticalTokens
  | DEX_InvalidToken
  | DEX_TickOutOfBounds int
  | DEX_InvalidTick
  | DEX_InvalidFlipTick
  | DEX_InsufficientBalance
  | DEX_InsufficientLiquidity
  | DEX_InsufficientOutput
  | DEX_MaxInputExceeded
  | DEX_BelowMinimumOrderSize u128
  | DEX_InvalidBaseToken
  | DEX_OrderNotStale

datatype factory_error =
    Factory_AddressReserved
  | Factory_AddressNotReserved
  | Factory_InvalidQuoteToken
  | Factory_TokenAlreadyExists address

datatype validator_config_error =
    Validator_Unauthorized
  | Validator_AlreadyExists
  | Validator_NotFound
  | Validator_InvalidPublicKey
  | Validator_NotHostPort string string string
  | Validator_NotIpPort string string string

datatype panic_kind = UnderOverflow | ArrayOutOfBounds

datatype tempo_error =
    StablecoinDEX dex_error
  | TIP20 tip20_error
  | TIP20Factory factory_error
  | RolesAuthError roles_auth_error
  | TIP403RegistryError tip403_error
  | FeeManagerError fee_manager_error
  | TIPFeeAMMError fee_amm_error
  | NonceError nonce_error
  | Panic panic_kind
  | ValidatorConfigError validator_config_error
  | AccountKeychainError keychain_error
  | OutOfGas
  | UnknownFunctionSelector "u8 list"
  | Fatal string

definition under_overflow :: tempo_error where
  "under_overflow = Panic UnderOverflow"

definition array_oob :: tempo_error where
  "array_oob = Panic ArrayOutOfBounds"

subsection \<open>Environment\<close>

datatype policy_type = WHITELIST | BLACKLIST | Invalid_PolicyType

record env =
  keccak256 :: "u8 list \<Rightarrow> b256"
  block_timestamp :: u256
  spec_is_t0 :: bool
  policy_type_as_u8 :: "policy_type \<Rightarrow> u8"
  policy_type_try_from :: "u8 \<Rightarrow> policy_type option"

text \<open>What the registry relies on of the generated conversions: a declared variant that is
  stored as its byte is read back as that variant.\<close>

definition policy_codec :: "env \<Rightarrow> bool" where
  "policy_codec env \<longleftrightarrow>
     policy_type_try_from env (policy_type_as_u8 env WHITELIST) = Some WHITELIST \<and>
     policy_type_try_from env (policy_type_as_u8 env BLACKLIST) = Some BLACKLIST"

lemma policy_codec_distinct:
  "policy_codec env \<Longrightarrow> policy_type_as_u8 env WHITELIST \<noteq> policy_type_as_u8 env BLACKLIST"
  by (auto simp: policy_codec_def)

text \<open>A concrete environment, at which the properties are instantiated.\<close>

definition sample_env :: env where
  "sample_env = \<lparr>
     keccak256 = (\<lambda>bs. fold (\<lambda>b h. h * 257 + ucast b + 1) bs 0),
     block_timestamp = 1000,
     spec_is_t0 = True,
     policy_type_as_u8 = (\<lambda>ty. case ty of WHITELIST \<Rightarrow> 0 | BLACKLIST \<Rightarrow> 1 | Invalid_PolicyType \<Rightarrow> 255),
     policy_type_try_from = (\<lambda>b. if b = 0 then Some WHITELIST else if b = 1 then Some BLACKLIST else None)\<rparr>"

lemma policy_codec_sample: "policy_codec sample_env"
  by (simp add: policy_codec_def sample_env_def)

subsection \<open>Addresses\<close>

text \<open>Bytes of an address, most significant first (\<open>Address::as_slice\<close>), and the well-known
  addresses of \<open>contracts/src/precompiles/mod.rs\<close>.\<close>

definition address_bytes :: "address \<Rightarrow> u8 list" where
  "address_bytes a = map (\<lambda>i. ucast (drop_bit (8 * (19 - i)) a)) [0..<20]"

definition TIP_FEE_MANAGER_ADDRESS :: address where
  "TIP_FEE_MANAGER_ADDRESS = 0xfeec000000000000000000000000000000000000"

definition PATH_USD_ADDRESS :: address where
  "PATH_USD_ADDRESS = 0x20C0000000000000000000000000000000000000"

definition DEFAULT_FEE_TOKEN :: address where
  "DEFAULT_FEE_TOKEN = PATH_USD_ADDRESS"

definition STABLECOIN_DEX_ADDRESS :: address where
  "STABLECOIN_DEX_ADDRESS = 0xdec0000000000000000000000000000000000000"

text \<open>\<open>token.as_slice().starts_with(&TIP20_TOKEN_PREFIX)\<close>: the first 12 bytes are
  \<open>20C000000000000000000000\<close>.\<close>

definition TIP20_TOKEN_PREFIX :: "u8 list" where
  "TIP20_TOKEN_PREFIX = [0x20, 0xC0, 0, 0, 0, 0, 0, 0, 0, 0, 0, 0]"

definition is_tip20_prefix :: "address \<Rightarrow> bool" where
  "is_tip20_prefix token \<longleftrightarrow> take 12 (address_bytes token) = TIP20_TOKEN_PREFIX"

lemma is_tip20_prefix_system [simp]:
  "is_tip20_prefix PATH_USD_ADDRESS"
  "\<not> is_tip20_prefix TIP_FEE_MANAGER_ADDRESS"
  "\<not> is_tip20_prefix STABLECOIN_DEX_ADDRESS"
  "\<not> is_tip20_prefix 0"
  by (simp_all add: is_tip20_prefix_def address_bytes_def TIP20_TOKEN_PREFIX_def
      PATH_USD_ADDRESS_def TIP_FEE_MANAGER_ADDRESS_def STABLECOIN_DEX_ADDRESS_def upt_rec)

lemma system_addresses_distinct [simp]:
  "TIP_FEE_MANAGER_ADDRESS \<noteq> 0" "STABLECOIN_DEX_ADDRESS \<noteq> 0" "PATH_USD_ADDRESS \<noteq> 0"
  "TIP_FEE_MANAGER_ADDRESS \<noteq> STABLECOIN_DEX_ADDRESS"
  by (simp_all add: PATH_USD_ADDRESS_def TIP_FEE_MANAGER_ADDRESS_def STABLECOIN_DEX_ADDRESS_def)

end
