(* ===== verification/Tip403.thy ===== *)
theory Tip403
  imports Errors
begin

section \<open>The TIP-403 transfer-policy registry\<close>

text \<open>
  Model of \<open>precompiles/src/tip403_registry/mod.rs\<close>. The contract's storage is the record
  \<open>registry\<close>; a Solidity mapping is a total function whose default is the value an unwritten
  storage slot decodes to. Events are appended to the contract's own log. Every public
  operation of the contract is one definition, in the order of the file.
\<close>

subsection \<open>State\<close>

record policy_data =
  policy_type :: u8
  policy_admin :: address

datatype tip403_event =
    PolicyCreated u64 address policy_type
  | PolicyAdminUpdated u64 address address
  | WhitelistUpdated u64 address address bool
  | BlacklistUpdated u64 address address bool

record registry =
  policy_id_counter_slot :: u64
  policy_data_slot :: "u64 \<Rightarrow> policy_data"
  policy_set :: "u64 \<Rightarrow> address \<Rightarrow> bool"
  registry_log :: "tip403_event list"

definition empty_registry :: registry where
  "empty_registry =
     \<lparr>policy_id_counter_slot = 0, policy_data_slot = (\<lambda>_. \<lparr>policy_type = 0, policy_admin = 0\<rparr>),
      policy_set = (\<lambda>_ _. False), registry_log = []\<rparr>"

type_synonym 'a reg = "(registry, tempo_error, 'a) pre"

definition emit_reg :: "tip403_event \<Rightarrow> unit reg" where
  "emit_reg e = emodify (\<lambda>r. r\<lparr>registry_log := registry_log r @ [e]\<rparr>)"

subsection \<open>Views and internal helpers\<close>

definition policy_id_counter :: "registry \<Rightarrow> u64" where
  "policy_id_counter r = max (policy_id_counter_slot r) 2"

definition policy_exists :: "registry \<Rightarrow> u64 \<Rightarrow> bool" where
  "policy_exists r policy_id = (if policy_id < 2 then True else policy_id < policy_id_counter r)"

definition get_policy_data :: "registry \<Rightarrow> u64 \<Rightarrow> policy_data" where
  "get_policy_data r policy_id = policy_data_slot r policy_id"

definition set_policy_data :: "u64 \<Rightarrow> policy_data \<Rightarrow> unit reg" where
  "set_policy_data policy_id data =
     emodify (\<lambda>r. r\<lparr>policy_data_slot := (policy_data_slot r)(policy_id := data)\<rparr>)"

definition set_policy_set :: "u64 \<Rightarrow> address \<Rightarrow> bool \<Rightarrow> unit reg" where
  "set_policy_set policy_id account value =
     emodify (\<lambda>r. r\<lparr>policy_set := (policy_set r)(policy_id := (policy_set r policy_id)(account := value))\<rparr>)"

definition policy_data_view :: "env \<Rightarrow> u64 \<Rightarrow> (policy_type \<times> address) reg" where
  "policy_data_view env policy_id =
     ebind (egets (\<lambda>r. policy_exists r policy_id)) (\<lambda>exists.
     ebind (erequire exists (TIP403RegistryError TIP403_PolicyNotFound)) (\<lambda>_.
     ebind (egets (\<lambda>r. get_policy_data r policy_id)) (\<lambda>data.
     ebind (eok_or (policy_type_try_from env (policy_type data)) under_overflow) (\<lambda>ty.
     eret (ty, policy_admin data)))))"

definition is_authorized_internal :: "env \<Rightarrow> u64 \<Rightarrow> address \<Rightarrow> bool reg" where
  "is_authorized_internal env policy_id user =
     (if policy_id < 2 then eret (policy_id = 1)
      else
        ebind (egets (\<lambda>r. get_policy_data r policy_id)) (\<lambda>data.
        ebind (egets (\<lambda>r. policy_set r policy_id user)) (\<lambda>is_in_set.
        ebind (eok_or (policy_type_try_from env (policy_type data)) under_overflow) (\<lambda>ty.
        eret (case ty of
            WHITELIST \<Rightarrow> is_in_set
          | BLACKLIST \<Rightarrow> \<not> is_in_set
          | Invalid_PolicyType \<Rightarrow> False)))))"

definition is_authorized :: "env \<Rightarrow> u64 \<Rightarrow> address \<Rightarrow> bool reg" where
  "is_authorized env policy_id user = is_authorized_internal env policy_id user"

subsection \<open>State-changing operations\<close>

definition create_policy :: "env \<Rightarrow> address \<Rightarrow> address \<Rightarrow> policy_type \<Rightarrow> u64 reg" where
  "create_policy env msg_sender admin ty =
     ebind (egets policy_id_counter) (\<lambda>new_policy_id.
     ebind (eok_or (checked_add new_policy_id 1) under_overflow) (\<lambda>next.
     ebind (emodify (\<lambda>r. r\<lparr>policy_id_counter_slot := next\<rparr>)) (\<lambda>_.
     ebind (emodify (\<lambda>r. r\<lparr>policy_data_slot := (policy_data_slot r)
              (new_policy_id := \<lparr>policy_type = policy_type_as_u8 env ty, policy_admin = admin\<rparr>)\<rparr>)) (\<lambda>_.
     ebind (emit_reg (PolicyCreated new_policy_id msg_sender ty)) (\<lambda>_.
     ebind (emit_reg (PolicyAdminUpdated new_policy_id msg_sender admin)) (\<lambda>_.
     eret new_policy_id))))))"

definition set_initial_account :: "address \<Rightarrow> u64 \<Rightarrow> policy_type \<Rightarrow> address \<Rightarrow> unit reg" where
  "set_initial_account msg_sender new_policy_id ty account =
     ebind (set_policy_set new_policy_id account True) (\<lambda>_.
     (case ty of
        WHITELIST \<Rightarrow> emit_reg (WhitelistUpdated new_policy_id msg_sender account True)
      | BLACKLIST \<Rightarrow> emit_reg (BlacklistUpdated new_policy_id msg_sender account True)
      | Invalid_PolicyType \<Rightarrow> efail (TIP403RegistryError TIP403_IncompatiblePolicyType)))"

definition create_policy_with_accounts ::
  "env \<Rightarrow> address \<Rightarrow> address \<Rightarrow> policy_type \<Rightarrow> address list \<Rightarrow> u64 reg" where
  "create_policy_with_accounts env msg_sender admin ty accounts =
     ebind (egets policy_id_counter) (\<lambda>new_policy_id.
     ebind (eok_or (checked_add new_policy_id 1) under_overflow) (\<lambda>next.
     ebind (emodify (\<lambda>r. r\<lparr>policy_id_counter_slot := next\<rparr>)) (\<lambda>_.
     ebind (set_policy_data new_policy_id
              \<lparr>policy_type = policy_type_as_u8 env ty, policy_admin = admin\<rparr>) (\<lambda>_.
     ebind (efor accounts (set_initial_account msg_sender new_policy_id ty)) (\<lambda>_.
     ebind (emit_reg (PolicyCreated new_policy_id msg_sender ty)) (\<lambda>_.
     ebind (emit_reg (PolicyAdminUpdated new_policy_id msg_sender admin)) (\<lambda>_.
     eret new_policy_id)))))))"

definition set_policy_admin :: "address \<Rightarrow> u64 \<Rightarrow> address \<Rightarrow> unit reg" where
  "set_policy_admin msg_sender policy_id admin =
     ebind (egets (\<lambda>r. get_policy_data r policy_id)) (\<lambda>data.
     ebind (erequire (policy_admin data = msg_sender) (TIP403RegistryError TIP403_Unauthorized)) (\<lambda>_.
     ebind (set_policy_data policy_id (data\<lparr>policy_admin := admin\<rparr>)) (\<lambda>_.
     emit_reg (PolicyAdminUpdated policy_id msg_sender admin))))"

definition modify_policy_whitelist :: "env \<Rightarrow> address \<Rightarrow> u64 \<Rightarrow> address \<Rightarrow> bool \<Rightarrow> unit reg" where
  "modify_policy_whitelist env msg_sender policy_id account allowed =
     ebind (egets (\<lambda>r. get_policy_data r policy_id)) (\<lambda>data.
     ebind (erequire (policy_admin data = msg_sender) (TIP403RegistryError TIP403_Unauthorized)) (\<lambda>_.
     ebind (erequire (policy_type data = policy_type_as_u8 env WHITELIST)
              (TIP403RegistryError TIP403_IncompatiblePolicyType)) (\<lambda>_.
     ebind (set_policy_set policy_id account allowed) (\<lambda>_.
     emit_reg (WhitelistUpdated policy_id msg_sender account allowed)))))"

definition modify_policy_blacklist :: "env \<Rightarrow> address \<Rightarrow> u64 \<Rightarrow> address \<Rightarrow> bool \<Rightarrow> unit reg" where
  "modify_policy_blacklist env msg_sender policy_id account restricted =
     ebind (egets (\<lambda>r. get_policy_data r policy_id)) (\<lambda>data.
     ebind (erequire (policy_admin data = msg_sender) (TIP403RegistryError TIP403_Unauthorized)) (\<lambda>_.
     ebind (erequire (policy_type data = policy_type_as_u8 env BLACKLIST)
              (TIP403RegistryError TIP403_IncompatiblePolicyType)) (\<lambda>_.
     ebind (set_policy_set policy_id account restricted) (\<lambda>_.
     emit_reg (BlacklistUpdated policy_id msg_sender account restricted)))))"

subsection \<open>Calls\<close>

text \<open>The calls a transaction can make to the registry, each committed or reverted.\<close>

datatype registry_call =
    CreatePolicy address policy_type
  | CreatePolicyWithAccounts address policy_type "address list"
  | SetPolicyAdmin u64 address
  | ModifyPolicyWhitelist u64 address bool
  | ModifyPolicyBlacklist u64 address bool

fun registry_op :: "env \<Rightarrow> address \<Rightarrow> registry_call \<Rightarrow> unit reg" where
  "registry_op env sender (CreatePolicy admin ty) =
     ebind (create_policy env sender admin ty) (\<lambda>_. eret ())"
| "registry_op env sender (CreatePolicyWithAccounts admin ty accounts) =
     ebind (create_policy_with_accounts env sender admin ty accounts) (\<lambda>_. eret ())"
| "registry_op env sender (SetPolicyAdmin pid admin) = set_policy_admin sender pid admin"
| "registry_op env sender (ModifyPolicyWhitelist pid account allowed) =
     modify_policy_whitelist env sender pid account allowed"
| "registry_op env sender (ModifyPolicyBlacklist pid account restricted) =
     modify_policy_blacklist env sender pid account restricted"

definition registry_exec :: "env \<Rightarrow> address \<times> registry_call \<Rightarrow> registry \<Rightarrow> registry" where
  "registry_exec env c = commit (registry_op env (fst c) (snd c))"

subsection \<open>Effect of each operation\<close>

lemmas registry_defs = create_policy_def create_policy_with_accounts_def set_policy_admin_def
  modify_policy_whitelist_def modify_policy_blacklist_def set_policy_data_def set_policy_set_def
  emit_reg_def get_policy_data_def set_initial_account_def

lemma set_initial_accounts_effect:
  assumes "efor accounts (set_initial_account sender pid ty) r = (Inr (), r')"
  shows "policy_id_counter_slot r' = policy_id_counter_slot r \<and>
    policy_data_slot r' = policy_data_slot r \<and>
    policy_set r' = (policy_set r)(pid := (\<lambda>a. a \<in> set accounts \<or> policy_set r pid a))"
  using assms
proof (induction accounts arbitrary: r)
  case Nil
  then show ?case by (simp add: ok)
next
  case (Cons a accounts)
  then obtain r1 where r1: "set_initial_account sender pid ty a r = (Inr (), r1)"
    and r': "efor accounts (set_initial_account sender pid ty) r1 = (Inr (), r')"
    by (auto simp: ok)
  from r1 have "policy_id_counter_slot r1 = policy_id_counter_slot r"
    "policy_data_slot r1 = policy_data_slot r"
    "policy_set r1 = (policy_set r)(pid := (policy_set r pid)(a := True))"
    by (auto simp: registry_defs ok split: policy_type.splits)
  with Cons.IH [OF r'] show ?case
    by (auto simp: fun_eq_iff)
qed

lemma create_policy_effect:
  assumes "create_policy env sender admin ty r = (Inr pid, r')"
  shows "pid = policy_id_counter r \<and> unat (policy_id_counter_slot r') = unat pid + 1 \<and>
    policy_data_slot r' = (policy_data_slot r)
      (pid := \<lparr>policy_type = policy_type_as_u8 env ty, policy_admin = admin\<rparr>) \<and>
    policy_set r' = policy_set r"
  using assms by (auto simp: registry_defs ok checked)

lemma create_policy_with_accounts_effect:
  assumes "create_policy_with_accounts env sender admin ty accounts r = (Inr pid, r')"
  shows "pid = policy_id_counter r \<and> unat (policy_id_counter_slot r') = unat pid + 1 \<and>
    policy_data_slot r' = (policy_data_slot r)
      (pid := \<lparr>policy_type = policy_type_as_u8 env ty, policy_admin = admin\<rparr>) \<and>
    policy_set r' = (policy_set r)(pid := (\<lambda>a. a \<in> set accounts \<or> policy_set r pid a))"
proof -
  from assms obtain nxt r1 r2 where pid: "pid = policy_id_counter r"
    and nxt: "unat nxt = unat pid + 1"
    and r1: "r1 = r\<lparr>policy_id_counter_slot := nxt, policy_data_slot := (policy_data_slot r)
      (pid := \<lparr>policy_type = policy_type_as_u8 env ty, policy_admin = admin\<rparr>)\<rparr>"
    and r2: "efor accounts (set_initial_account sender pid ty) r1 = (Inr (), r2)"
    and r': "r' = r2\<lparr>registry_log := registry_log r'\<rparr>"
    by (auto simp: create_policy_with_accounts_def set_policy_data_def emit_reg_def ok checked)
  from set_initial_accounts_effect [OF r2] r1 nxt pid show ?thesis
    by (subst r', subst r', subst r') auto
qed

lemma policy_id_counter_ge [simp]: "2 \<le> policy_id_counter r"
  by (simp add: policy_id_counter_def)

lemma policy_id_counter_Suc:
  assumes "unat (policy_id_counter_slot r') = unat (policy_id_counter r) + 1"
  shows "unat (policy_id_counter r') = unat (policy_id_counter r) + 1"
proof -
  have "2 \<le> unat (policy_id_counter r)"
    using policy_id_counter_ge [of r] unfolding word_le_nat_alt by simp
  with assms have "2 \<le> policy_id_counter_slot r'"
    by (simp add: word_le_nat_alt)
  with assms show ?thesis
    by (simp add: policy_id_counter_def max_def)
qed

subsection \<open>Well-formedness\<close>

text \<open>Identifiers that have not been handed out yet have untouched storage: no data and an
  empty account set. The code relies on it when it hands out the next identifier without
  clearing its set.\<close>

definition registry_wf :: "registry \<Rightarrow> bool" where
  "registry_wf r \<longleftrightarrow> (\<forall>pid \<ge> policy_id_counter r.
     policy_admin (policy_data_slot r pid) = 0 \<and> policy_set r pid = (\<lambda>_. False))"

lemma registry_wf_empty: "registry_wf empty_registry"
  by (simp add: registry_wf_def empty_registry_def)

lemma registry_op_wf:
  assumes "sender \<noteq> 0" "registry_wf r" "registry_op env sender c r = (Inr u, r')"
  shows "registry_wf r'"
proof -
  have fresh: "registry_wf r'"
    if eff: "pid = policy_id_counter r" "unat (policy_id_counter_slot r') = unat pid + 1"
      "policy_data_slot r' = (policy_data_slot r)(pid := d)"
      "\<forall>q. q \<noteq> pid \<longrightarrow> policy_set r' q = policy_set r q" for pid d
  proof -
    have "q \<noteq> pid \<and> policy_id_counter r \<le> q" if "policy_id_counter r' \<le> q" for q
      using that policy_id_counter_Suc [of r' r] eff by (auto simp: word_le_nat_alt)
    with eff assms(2) show ?thesis
      by (simp add: registry_wf_def)
  qed
  have kept: "registry_wf r'"
    if eff: "policy_admin (policy_data_slot r pid) = sender" "policy_id_counter_slot r' = policy_id_counter_slot r"
      "\<forall>q. q \<noteq> pid \<longrightarrow> policy_data_slot r' q = policy_data_slot r q"
      "\<forall>q. q \<noteq> pid \<longrightarrow> policy_set r' q = policy_set r q" for pid
    using that assms(1,2) by (auto simp: registry_wf_def policy_id_counter_def)
  show ?thesis
  proof (cases c)
    case (CreatePolicy admin ty)
    with assms(3) show ?thesis
      by (auto simp: ok dest!: create_policy_effect intro!: fresh)
  next
    case (CreatePolicyWithAccounts admin ty accounts)
    with assms(3) show ?thesis
      by (auto simp: ok dest!: create_policy_with_accounts_effect intro!: fresh)
  next
    case (SetPolicyAdmin pid admin)
    with assms(3) show ?thesis
      by (intro kept [of pid]) (auto simp: registry_defs ok)
  next
    case (ModifyPolicyWhitelist pid account allowed)
    with assms(3) show ?thesis
      by (intro kept [of pid]) (auto simp: registry_defs ok)
  next
    case (ModifyPolicyBlacklist pid account restricted)
    with assms(3) show ?thesis
      by (intro kept [of pid]) (auto simp: registry_defs ok)
  qed
qed

interpretation reg_sys: invariant_system "registry_exec env" "\<lambda>c. fst c \<noteq> 0" registry_wf for env
proof unfold_locales
  fix c :: "address \<times> registry_call" and r
  assume "fst c \<noteq> 0" "registry_wf r"
  then show "registry_wf (registry_exec env c r)"
    using commit_cases [of "registry_op env (fst c) (snd c)" r]
    by (auto simp: registry_exec_def intro: registry_op_wf)
qed

subsection \<open>Policies as sets: the abstract view\<close>

datatype policy = AllowOnly "address set" | AllowExcept "address set" | Unreadable

definition policy_view :: "env \<Rightarrow> registry \<Rightarrow> u64 \<Rightarrow> policy" where
  "policy_view env r pid =
     (case policy_type_try_from env (policy_type (policy_data_slot r pid)) of
        Some WHITELIST \<Rightarrow> AllowOnly {a. policy_set r pid a}
      | Some BLACKLIST \<Rightarrow> AllowExcept {a. policy_set r pid a}
      | _ \<Rightarrow> Unreadable)"

fun allows :: "policy \<Rightarrow> address \<Rightarrow> bool" where
  "allows (AllowOnly A) a \<longleftrightarrow> a \<in> A"
| "allows (AllowExcept A) a \<longleftrightarrow> a \<notin> A"
| "allows Unreadable a \<longleftrightarrow> False"

definition new_policy :: "policy_type \<Rightarrow> address set \<Rightarrow> policy" where
  "new_policy ty A = (case ty of WHITELIST \<Rightarrow> AllowOnly A | BLACKLIST \<Rightarrow> AllowExcept A
     | Invalid_PolicyType \<Rightarrow> Unreadable)"

lemma is_authorized_view:
  assumes "2 \<le> pid" "policy_view env r pid \<noteq> Unreadable"
  shows "is_authorized env pid a r = (Inr (allows (policy_view env r pid) a), r)"
proof -
  have "\<not> pid < 2" using assms(1) by simp
  with assms(2) show ?thesis
    by (auto simp: is_authorized_def is_authorized_internal_def get_policy_data_def policy_view_def run
        split: option.splits policy_type.splits)
qed

lemma is_authorized_state: "snd (is_authorized env pid a r) = r"
  by (auto simp: is_authorized_def is_authorized_internal_def run split: option.splits)

lemma is_authorized_pure: "is_authorized env pid a r = (v, r') \<Longrightarrow> r' = r"
  using is_authorized_state [of env pid a r] by simp

lemma policy_view_frame:
  assumes "registry_op env sender c r = (Inr u, r')" "pid < policy_id_counter r"
    "policy_admin (policy_data_slot r pid) \<noteq> sender"
  shows "policy_data_slot r' pid = policy_data_slot r pid \<and> policy_set r' pid = policy_set r pid \<and>
    pid < policy_id_counter r'"
proof -
  have grow: "pid \<noteq> policy_id_counter r \<and> pid < policy_id_counter r'"
    if "unat (policy_id_counter_slot r') = unat (policy_id_counter r) + 1"
    using policy_id_counter_Suc [OF that] assms(2) by (auto simp: word_less_nat_alt)
  show ?thesis
  proof (cases c)
    case (CreatePolicy admin ty)
    with assms(1) grow show ?thesis
      by (auto simp: ok dest!: create_policy_effect)
  next
    case (CreatePolicyWithAccounts admin ty accounts)
    with assms(1) grow show ?thesis
      by (auto simp: ok dest!: create_policy_with_accounts_effect)
  next
    case (SetPolicyAdmin q admin)
    with assms show ?thesis by (auto simp: registry_defs ok policy_id_counter_def)
  next
    case (ModifyPolicyWhitelist q account allowed)
    with assms show ?thesis by (auto simp: registry_defs ok policy_id_counter_def)
  next
    case (ModifyPolicyBlacklist q account restricted)
    with assms show ?thesis by (auto simp: registry_defs ok policy_id_counter_def)
  qed
qed

interpretation reg_frame: invariant_system "registry_exec env" "\<lambda>c. fst c \<noteq> admin"
  "\<lambda>r. pid < policy_id_counter r \<and> policy_data_slot r pid = d \<and> policy_set r pid = A \<and>
     policy_admin d = admin" for env admin pid d A
proof unfold_locales
  fix c :: "address \<times> registry_call" and r
  assume "fst c \<noteq> admin" "pid < policy_id_counter r \<and> policy_data_slot r pid = d \<and>
    policy_set r pid = A \<and> policy_admin d = admin"
  then show "pid < policy_id_counter (registry_exec env c r) \<and>
    policy_data_slot (registry_exec env c r) pid = d \<and> policy_set (registry_exec env c r) pid = A \<and>
    policy_admin d = admin"
    using commit_cases [of "registry_op env (fst c) (snd c)" r]
      policy_view_frame [of env "fst c" "snd c" r _ "registry_exec env c r" pid]
    by (auto simp: registry_exec_def)
qed

subsection \<open>Properties\<close>

text \<open>C24. Only the admin of a policy can change who it allows: for every sequence of registry
  calls, from any callers other than the policy's admin, the admin, the type and the account
  set of an existing policy stay what they were.\<close>

theorem policy_changed_by_admin_only:
  assumes "pid < policy_id_counter r"
    and "list_all (\<lambda>c. fst c \<noteq> policy_admin (policy_data_slot r pid)) cs"
  shows "policy_data_slot (fold (registry_exec env) cs r) pid = policy_data_slot r pid \<and>
    policy_set (fold (registry_exec env) cs r) pid = policy_set r pid"
  using reg_frame.fold_keeps [of "policy_admin (policy_data_slot r pid)" cs pid r
      "policy_data_slot r pid" "policy_set r pid" env] assms
  by simp

definition sample_registry :: registry where
  "sample_registry = registry_exec sample_env (7, CreatePolicy 7 WHITELIST) empty_registry"

lemmas registry_eval = registry_exec_def commit_def run registry_defs empty_registry_def
  sample_env_def policy_id_counter_def checked_add_def

lemma sample_registry_eq:
  "sample_registry = \<lparr>policy_id_counter_slot = 3,
     policy_data_slot = (\<lambda>_. \<lparr>policy_type = 0, policy_admin = 0\<rparr>)(2 := \<lparr>policy_type = 0, policy_admin = 7\<rparr>),
     policy_set = (\<lambda>_ _. False), registry_log = [PolicyCreated 2 7 WHITELIST, PolicyAdminUpdated 2 7 7]\<rparr>"
  by (simp add: sample_registry_def registry_eval max_def)

theorem policy_changed_by_admin_only_witness:
  "\<not> policy_set (fold (registry_exec sample_env) [(9, ModifyPolicyWhitelist 2 5 True)] sample_registry) 2 5"
proof -
  have "2 < policy_id_counter sample_registry"
    "list_all (\<lambda>c. fst c \<noteq> policy_admin (policy_data_slot sample_registry 2))
      [(9, ModifyPolicyWhitelist 2 5 True)]"
    "\<not> policy_set sample_registry 2 5"
    by (simp_all add: sample_registry_eq policy_id_counter_def max_def)
  then show ?thesis
    using policy_changed_by_admin_only [of 2 sample_registry "[(9, ModifyPolicyWhitelist 2 5 True)]" sample_env]
    by simp
qed

text \<open>A policy created with accounts allows exactly the accounts it should: after
  \<open>createPolicyWithAccounts\<close> returns identifier \<open>pid\<close> in a registry reached by any sequence of
  calls from genesis, a whitelist allows exactly the listed accounts and a blacklist everyone
  else, and \<open>isAuthorized\<close> answers so without failing.\<close>

theorem created_policy_allows:
  assumes "policy_codec env" "ty \<noteq> Invalid_PolicyType"
    and "list_all (\<lambda>c. fst c \<noteq> 0) cs"
    and "create_policy_with_accounts env sender admin ty accounts
      (fold (registry_exec env) cs empty_registry) = (Inr pid, r')"
  shows "is_authorized env pid a r' = (Inr (allows (new_policy ty (set accounts)) a), r')"
proof -
  let ?r = "fold (registry_exec env) cs empty_registry"
  have "registry_wf ?r"
    by (rule reg_sys.fold_keeps [OF assms(3) registry_wf_empty])
  with create_policy_with_accounts_effect [OF assms(4)] have
    eff: "policy_set r' pid = (\<lambda>a. a \<in> set accounts)"
      "policy_type (policy_data_slot r' pid) = policy_type_as_u8 env ty" "2 \<le> pid"
    by (auto simp: registry_wf_def)
  then have "policy_view env r' pid = new_policy ty (set accounts)"
    using assms(1,2) by (cases ty) (auto simp: policy_view_def new_policy_def policy_codec_def)
  with is_authorized_view [OF eff(3), of env r' a] assms(2) show ?thesis
    by (cases ty) (auto simp: new_policy_def)
qed

theorem created_policy_allows_witness:
  "is_authorized sample_env 2 5 (snd (create_policy_with_accounts sample_env 7 7 BLACKLIST [5] empty_registry))
    = (Inr False, snd (create_policy_with_accounts sample_env 7 7 BLACKLIST [5] empty_registry))"
proof -
  have "create_policy_with_accounts sample_env 7 7 BLACKLIST [5] (fold (registry_exec sample_env) [] empty_registry)
    = (Inr 2, snd (create_policy_with_accounts sample_env 7 7 BLACKLIST [5] empty_registry))"
    by (simp add: registry_eval max_def)
  from created_policy_allows [OF policy_codec_sample _ _ this, of 5] show ?thesis
    by (simp add: new_policy_def)
qed

end
