(* ===== verification/Keychain.thy ===== *)
theory Keychain
  imports Errors
begin

section \<open>The account keychain: access keys and spending limits\<close>

text \<open>
  Model of \<open>precompiles/src/account_keychain/mod.rs\<close>. An account's main key may authorize
  secondary keys with an expiry and per-token spending limits. The two transient slots
  (\<open>transaction_key\<close>, \<open>tx_origin\<close>) are fields of the state, written by the transaction
  handler before the transaction runs. Spending limits are stored under the hash of the
  account and the key, as in the code; a property that needs two such hashes to differ says
  so for the pairs it is about.
\<close>

datatype signature_type = Secp256k1 | P256 | WebAuthn | Invalid_SignatureType

record authorized_key =
  signature_type :: u8
  expiry :: u64
  enforce_limits :: bool
  is_revoked :: bool

definition default_key :: authorized_key where
  "default_key = \<lparr>signature_type = 0, expiry = 0, enforce_limits = False, is_revoked = False\<rparr>"

datatype keychain_event =
    KeyAuthorized address address u8 u64
  | KeyRevoked address address
  | SpendingLimitUpdated address address address u256

record keychain =
  keys :: "address \<Rightarrow> address \<Rightarrow> authorized_key"
  spending_limits :: "b256 \<Rightarrow> address \<Rightarrow> u256"
  transaction_key :: address
  tx_origin :: address
  keychain_log :: "keychain_event list"

definition empty_keychain :: keychain where
  "empty_keychain = \<lparr>keys = (\<lambda>_ _. default_key), spending_limits = (\<lambda>_ _. 0),
     transaction_key = 0, tx_origin = 0, keychain_log = []\<rparr>"

record key_info =
  ki_signatureType :: signature_type
  ki_keyId :: address
  ki_expiry :: u64
  ki_enforceLimits :: bool
  ki_isRevoked :: bool

type_synonym 'a kc = "(keychain, tempo_error, 'a) pre"

abbreviation key_error :: "keychain_error \<Rightarrow> tempo_error" where
  "key_error \<equiv> AccountKeychainError"

definition spending_limit_key :: "env \<Rightarrow> address \<Rightarrow> address \<Rightarrow> b256" where
  "spending_limit_key env account key_id = keccak256 env (address_bytes account @ address_bytes key_id)"

definition set_key :: "address \<Rightarrow> address \<Rightarrow> authorized_key \<Rightarrow> unit kc" where
  "set_key account key_id k = emodify (\<lambda>s. s\<lparr>keys := (keys s)(account := (keys s account)(key_id := k))\<rparr>)"

definition set_limit :: "b256 \<Rightarrow> address \<Rightarrow> u256 \<Rightarrow> unit kc" where
  "set_limit limit_key token amount = emodify (\<lambda>s. s\<lparr>spending_limits :=
     (spending_limits s)(limit_key := (spending_limits s limit_key)(token := amount))\<rparr>)"

definition emit_kc :: "keychain_event \<Rightarrow> unit kc" where
  "emit_kc e = emodify (\<lambda>s. s\<lparr>keychain_log := keychain_log s @ [e]\<rparr>)"

subsection \<open>Managing keys\<close>

text \<open>The \<open>match call.signatureType\<close> of \<open>authorize_key\<close>.\<close>

fun signature_type_to_u8 :: "signature_type \<Rightarrow> u8 kc" where
  "signature_type_to_u8 Secp256k1 = eret 0"
| "signature_type_to_u8 P256 = eret 1"
| "signature_type_to_u8 WebAuthn = eret 2"
| "signature_type_to_u8 Invalid_SignatureType = efail (key_error Key_InvalidSignatureType)"

definition authorize_key :: "env \<Rightarrow> address \<Rightarrow> address \<Rightarrow> signature_type \<Rightarrow> u64 \<Rightarrow> bool \<Rightarrow>
    (address \<times> u256) list \<Rightarrow> unit kc" where
  "authorize_key env msg_sender key_id sig_ty exp enforce limits =
     ebind (egets transaction_key) (\<lambda>tk.
     ebind (erequire (tk = 0) (key_error Key_UnauthorizedCaller)) (\<lambda>_.
     ebind (erequire (key_id \<noteq> 0) (key_error Key_ZeroPublicKey)) (\<lambda>_.
     ebind (erequire (\<not> (spec_is_t0 env \<and> exp \<le> saturating_to (block_timestamp env)))
              (key_error Key_ExpiryInPast)) (\<lambda>_.
     ebind (egets (\<lambda>s. keys s msg_sender key_id)) (\<lambda>existing_key.
     ebind (erequire (\<not> expiry existing_key > 0) (key_error Key_KeyAlreadyExists)) (\<lambda>_.
     ebind (erequire (\<not> is_revoked existing_key) (key_error Key_KeyAlreadyRevoked)) (\<lambda>_.
     ebind (signature_type_to_u8 sig_ty) (\<lambda>ty.
     ebind (set_key msg_sender key_id
              \<lparr>signature_type = ty, expiry = exp, enforce_limits = enforce, is_revoked = False\<rparr>) (\<lambda>_.
     ebind (if enforce then
              efor limits (\<lambda>(token, amount). set_limit (spending_limit_key env msg_sender key_id) token amount)
            else eret ()) (\<lambda>_.
     emit_kc (KeyAuthorized msg_sender key_id ty exp)))))))))))"

definition revoke_key :: "address \<Rightarrow> address \<Rightarrow> unit kc" where
  "revoke_key msg_sender key_id =
     ebind (egets transaction_key) (\<lambda>tk.
     ebind (erequire (tk = 0) (key_error Key_UnauthorizedCaller)) (\<lambda>_.
     ebind (egets (\<lambda>s. keys s msg_sender key_id)) (\<lambda>key.
     ebind (erequire (expiry key \<noteq> 0) (key_error Key_KeyNotFound)) (\<lambda>_.
     ebind (set_key msg_sender key_id (default_key\<lparr>is_revoked := True\<rparr>)) (\<lambda>_.
     emit_kc (KeyRevoked msg_sender key_id))))))"

definition load_active_key :: "address \<Rightarrow> address \<Rightarrow> authorized_key kc" where
  "load_active_key account key_id =
     ebind (egets (\<lambda>s. keys s account key_id)) (\<lambda>key.
     ebind (erequire (\<not> is_revoked key) (key_error Key_KeyAlreadyRevoked)) (\<lambda>_.
     ebind (erequire (expiry key \<noteq> 0) (key_error Key_KeyNotFound)) (\<lambda>_.
     eret key)))"

definition update_spending_limit :: "env \<Rightarrow> address \<Rightarrow> address \<Rightarrow> address \<Rightarrow> u256 \<Rightarrow> unit kc" where
  "update_spending_limit env msg_sender key_id token new_limit =
     ebind (egets transaction_key) (\<lambda>tk.
     ebind (erequire (tk = 0) (key_error Key_UnauthorizedCaller)) (\<lambda>_.
     ebind (load_active_key msg_sender key_id) (\<lambda>key.
     ebind (erequire (\<not> expiry key \<le> saturating_to (block_timestamp env)) (key_error Key_KeyExpired)) (\<lambda>_.
     ebind (if \<not> enforce_limits key then set_key msg_sender key_id (key\<lparr>enforce_limits := True\<rparr>)
            else eret ()) (\<lambda>_.
     ebind (set_limit (spending_limit_key env msg_sender key_id) token new_limit) (\<lambda>_.
     emit_kc (SpendingLimitUpdated msg_sender key_id token new_limit)))))))"

subsection \<open>Views\<close>

definition get_key :: "address \<Rightarrow> address \<Rightarrow> key_info kc" where
  "get_key account key_id =
     ebind (egets (\<lambda>s. keys s account key_id)) (\<lambda>key.
     if expiry key = 0 \<or> is_revoked key then
       eret \<lparr>ki_signatureType = Secp256k1, ki_keyId = 0, ki_expiry = 0, ki_enforceLimits = False,
             ki_isRevoked = is_revoked key\<rparr>
     else
       eret \<lparr>ki_signatureType = (if signature_type key = 0 then Secp256k1
               else if signature_type key = 1 then P256
               else if signature_type key = 2 then WebAuthn else Secp256k1),
             ki_keyId = key_id, ki_expiry = expiry key, ki_enforceLimits = enforce_limits key,
             ki_isRevoked = is_revoked key\<rparr>)"

definition get_remaining_limit :: "env \<Rightarrow> address \<Rightarrow> address \<Rightarrow> address \<Rightarrow> u256 kc" where
  "get_remaining_limit env account key_id token =
     egets (\<lambda>s. spending_limits s (spending_limit_key env account key_id) token)"

definition get_transaction_key :: "address kc" where
  "get_transaction_key = egets transaction_key"

definition set_transaction_key :: "address \<Rightarrow> unit kc" where
  "set_transaction_key key_id = emodify (\<lambda>s. s\<lparr>transaction_key := key_id\<rparr>)"

definition set_tx_origin :: "address \<Rightarrow> unit kc" where
  "set_tx_origin origin = emodify (\<lambda>s. s\<lparr>tx_origin := origin\<rparr>)"

definition validate_keychain_authorization :: "address \<Rightarrow> address \<Rightarrow> u64 \<Rightarrow> u8 \<Rightarrow> unit kc" where
  "validate_keychain_authorization account key_id current_timestamp expected_sig_type =
     ebind (load_active_key account key_id) (\<lambda>key.
     ebind (erequire (\<not> expiry key \<le> current_timestamp) (key_error Key_KeyExpired)) (\<lambda>_.
     erequire (signature_type key = expected_sig_type)
       (key_error (Key_SignatureTypeMismatch (signature_type key) expected_sig_type))))"

subsection \<open>Spending\<close>

definition verify_and_update_spending :: "env \<Rightarrow> address \<Rightarrow> address \<Rightarrow> address \<Rightarrow> u256 \<Rightarrow> unit kc" where
  "verify_and_update_spending env account key_id token amount =
     (if key_id = 0 then eret ()
      else
        ebind (load_active_key account key_id) (\<lambda>key.
        if \<not> enforce_limits key then eret ()
        else
          ebind (egets (\<lambda>s. spending_limits s (spending_limit_key env account key_id) token)) (\<lambda>remaining.
          ebind (erequire (\<not> amount > remaining) (key_error Key_SpendingLimitExceeded)) (\<lambda>_.
          set_limit (spending_limit_key env account key_id) token (remaining - amount)))))"

definition authorize_transfer :: "env \<Rightarrow> address \<Rightarrow> address \<Rightarrow> u256 \<Rightarrow> unit kc" where
  "authorize_transfer env account token amount =
     ebind (egets transaction_key) (\<lambda>tk.
     if tk = 0 then eret ()
     else
       ebind (egets tx_origin) (\<lambda>origin.
       if account \<noteq> origin then eret ()
       else verify_and_update_spending env account tk token amount))"

definition authorize_approve :: "env \<Rightarrow> address \<Rightarrow> address \<Rightarrow> u256 \<Rightarrow> u256 \<Rightarrow> unit kc" where
  "authorize_approve env account token old_approval new_approval =
     ebind (egets transaction_key) (\<lambda>tk.
     if tk = 0 then eret ()
     else
       ebind (egets tx_origin) (\<lambda>origin.
       if account \<noteq> origin then eret ()
       else
         (let approval_increase = saturating_sub new_approval old_approval in
          if approval_increase = 0 then eret ()
          else verify_and_update_spending env account tk token approval_increase)))"

subsection \<open>Calls\<close>

text \<open>What may happen to the keychain during transactions: calls from users, spending checks
  of the token precompiles, and the handler setting the transaction key and origin.\<close>

datatype keychain_call =
    AuthorizeKey address address signature_type u64 bool "(address \<times> u256) list"
  | RevokeKey address address
  | UpdateSpendingLimit address address address u256
  | AuthorizeTransfer address address u256
  | AuthorizeApprove address address u256 u256
  | SetTransactionKey address
  | SetTxOrigin address

fun keychain_op :: "env \<Rightarrow> keychain_call \<Rightarrow> unit kc" where
  "keychain_op env (AuthorizeKey sender key_id ty exp enforce limits) =
     authorize_key env sender key_id ty exp enforce limits"
| "keychain_op env (RevokeKey sender key_id) = revoke_key sender key_id"
| "keychain_op env (UpdateSpendingLimit sender key_id token new_limit) =
     update_spending_limit env sender key_id token new_limit"
| "keychain_op env (AuthorizeTransfer account token amount) = authorize_transfer env account token amount"
| "keychain_op env (AuthorizeApprove account token old new) = authorize_approve env account token old new"
| "keychain_op env (SetTransactionKey key_id) = set_transaction_key key_id"
| "keychain_op env (SetTxOrigin origin) = set_tx_origin origin"

definition keychain_exec :: "env \<times> keychain_call \<Rightarrow> keychain \<Rightarrow> keychain" where
  "keychain_exec c = commit (keychain_op (fst c) (snd c))"

fun is_handler_call :: "keychain_call \<Rightarrow> bool" where
  "is_handler_call (SetTransactionKey _) = True"
| "is_handler_call (SetTxOrigin _) = True"
| "is_handler_call _ = False"

subsection \<open>Effects\<close>

lemmas keychain_defs = authorize_key_def revoke_key_def load_active_key_def update_spending_limit_def
  set_key_def set_limit_def emit_kc_def set_transaction_key_def set_tx_origin_def
  verify_and_update_spending_def authorize_transfer_def authorize_approve_def

lemma set_limits_effect:
  "efor limits (\<lambda>(token, amount). set_limit lk token amount) s = (Inr u, s') \<Longrightarrow>
     keys s' = keys s \<and> transaction_key s' = transaction_key s \<and> tx_origin s' = tx_origin s"
  by (rule efor_keeps [where P = "\<lambda>t. keys t = keys s \<and> transaction_key t = transaction_key s \<and>
        tx_origin t = tx_origin s"]) (auto simp: set_limit_def ok)

lemma verify_and_update_spending_effect:
  assumes "verify_and_update_spending env account key_id token amount s = (Inr (), s')"
  shows "keys s' = keys s \<and> transaction_key s' = transaction_key s \<and> tx_origin s' = tx_origin s \<and>
    keychain_log s' = keychain_log s \<and>
    (\<forall>lk t. unat (spending_limits s' lk t) \<le> unat (spending_limits s lk t)) \<and>
    (key_id \<noteq> 0 \<longrightarrow> \<not> is_revoked (keys s account key_id) \<and> expiry (keys s account key_id) \<noteq> 0) \<and>
    (key_id \<noteq> 0 \<longrightarrow> enforce_limits (keys s account key_id) \<longrightarrow>
       unat (spending_limits s (spending_limit_key env account key_id) token) =
       unat amount + unat (spending_limits s' (spending_limit_key env account key_id) token))"
  using assms
  by (auto simp: keychain_defs ok unat_sub word_le_nat_alt not_less split: if_splits)

lemma authorize_transfer_effect:
  assumes "authorize_transfer env account token amount s = (Inr (), s')"
  shows "keys s' = keys s \<and> transaction_key s' = transaction_key s \<and> tx_origin s' = tx_origin s \<and>
    (\<forall>lk t. unat (spending_limits s' lk t) \<le> unat (spending_limits s lk t)) \<and>
    (transaction_key s \<noteq> 0 \<longrightarrow> account = tx_origin s \<longrightarrow>
       enforce_limits (keys s account (transaction_key s)) \<longrightarrow>
       unat (spending_limits s (spending_limit_key env account (transaction_key s)) token) =
       unat amount + unat (spending_limits s' (spending_limit_key env account (transaction_key s)) token))"
  using assms
  by (auto simp: authorize_transfer_def ok split: if_splits dest!: verify_and_update_spending_effect)

lemma authorize_approve_effect:
  assumes "authorize_approve env account token old new s = (Inr (), s')"
  shows "keys s' = keys s \<and> transaction_key s' = transaction_key s \<and> tx_origin s' = tx_origin s \<and>
    (\<forall>lk t. unat (spending_limits s' lk t) \<le> unat (spending_limits s lk t)) \<and>
    (transaction_key s \<noteq> 0 \<longrightarrow> account = tx_origin s \<longrightarrow>
       enforce_limits (keys s account (transaction_key s)) \<longrightarrow>
       unat (spending_limits s (spending_limit_key env account (transaction_key s)) token) =
       (unat new - unat old) +
       unat (spending_limits s' (spending_limit_key env account (transaction_key s)) token))"
proof -
  have "unat new - unat old = 0" if "saturating_sub new old = 0"
    using unat_saturating_sub [of new old] that by simp
  with assms show ?thesis
    by (auto simp: authorize_approve_def Let_def ok split: if_splits dest!: verify_and_update_spending_effect)
qed


lemma signature_type_to_u8_pure: "signature_type_to_u8 ty s = (Inr b, s') \<Longrightarrow> s' = s"
  by (cases ty) (auto simp: ok)

lemma authorize_key_effect:
  assumes "authorize_key env m k ty exp enforce limits s = (Inr u, s')"
  shows "transaction_key s = 0 \<and> \<not> is_revoked (keys s m k) \<and>
    (\<exists>nk. keys s' = (keys s)(m := (keys s m)(k := nk)))"
proof -
  from assms obtain b s1 where pre: "transaction_key s = 0" "\<not> is_revoked (keys s m k)"
    and s1: "(if enforce then efor limits (\<lambda>(token, amount).
        set_limit (spending_limit_key env m k) token amount) else eret ())
      (s\<lparr>keys := (keys s)(m := (keys s m)(k :=
        \<lparr>signature_type = b, expiry = exp, enforce_limits = enforce, is_revoked = False\<rparr>))\<rparr>) = (Inr (), s1)"
    and s': "s' = s1\<lparr>keychain_log := keychain_log s1 @ [KeyAuthorized m k b exp]\<rparr>"
    unfolding authorize_key_def set_key_def emit_kc_def ebind_ok erequire_ok egets_ok emodify_ok
    by (clarsimp dest!: signature_type_to_u8_pure)
  from s1 have "keys s1 = (keys s)(m := (keys s m)(k :=
      \<lparr>signature_type = b, expiry = exp, enforce_limits = enforce, is_revoked = False\<rparr>))"
    by (auto simp: ok dest!: set_limits_effect split: if_splits)
  with pre s' show ?thesis by auto
qed

lemma keychain_op_revoked:
  assumes "keychain_op env c s = (Inr u, s')" "is_revoked (keys s a k)"
  shows "is_revoked (keys s' a k)"
proof (cases c)
  case (AuthorizeKey sender key_id ty exp enforce limits)
  with assms show ?thesis
    using authorize_key_effect [of env sender key_id ty exp enforce limits s u s'] by auto
next
  case (AuthorizeTransfer account token amount)
  with assms show ?thesis by (auto dest!: authorize_transfer_effect)
next
  case (AuthorizeApprove account token old new)
  with assms show ?thesis by (auto dest!: authorize_approve_effect)
qed (use assms in \<open>auto simp: keychain_defs ok split: if_splits\<close>)

interpretation revoked: invariant_system keychain_exec "\<lambda>_. True"
  "\<lambda>s :: keychain. is_revoked (keys s a k)" for a k
proof unfold_locales
  fix c :: "env \<times> keychain_call" and s :: keychain
  assume "is_revoked (keys s a k)"
  then show "is_revoked (keys (keychain_exec c s) a k)"
    using commit_cases [of "keychain_op (fst c) (snd c)" s]
    by (auto simp: keychain_exec_def dest: keychain_op_revoked)
qed

text \<open>While a secondary key is in use, no call edits a key, and limits only go down.\<close>

lemma keychain_op_access_key:
  assumes "keychain_op env c s = (Inr u, s')" "transaction_key s \<noteq> 0" "\<not> is_handler_call c"
  shows "keys s' = keys s \<and> transaction_key s' = transaction_key s \<and>
    (\<forall>lk t. unat (spending_limits s' lk t) \<le> unat (spending_limits s lk t))"
proof (cases c)
  case (AuthorizeKey sender key_id ty exp enforce limits)
  with assms show ?thesis
    using authorize_key_effect [of env sender key_id ty exp enforce limits s u s'] by auto
next
  case (AuthorizeTransfer account token amount)
  with assms show ?thesis by (auto dest!: authorize_transfer_effect)
next
  case (AuthorizeApprove account token old new)
  with assms show ?thesis by (auto dest!: authorize_approve_effect)
qed (use assms in \<open>auto simp: keychain_defs ok\<close>)

interpretation access_key: invariant_system keychain_exec "\<lambda>c. \<not> is_handler_call (snd c)"
  "\<lambda>s :: keychain. keys s = K \<and> transaction_key s = tk \<and> tk \<noteq> 0 \<and>
     (\<forall>lk t. unat (spending_limits s lk t) \<le> unat (L lk t))" for K tk L
proof unfold_locales
  fix c :: "env \<times> keychain_call" and s :: keychain
  assume c: "\<not> is_handler_call (snd c)"
    and s: "keys s = K \<and> transaction_key s = tk \<and> tk \<noteq> 0 \<and>
      (\<forall>lk t. unat (spending_limits s lk t) \<le> unat (L lk t))"
  have "keychain_exec c s = s \<or> (\<exists>v. keychain_op (fst c) (snd c) s = (Inr v, keychain_exec c s))"
    unfolding keychain_exec_def by (rule commit_cases)
  then show "keys (keychain_exec c s) = K \<and> transaction_key (keychain_exec c s) = tk \<and> tk \<noteq> 0 \<and>
    (\<forall>lk t. unat (spending_limits (keychain_exec c s) lk t) \<le> unat (L lk t))"
  proof
    assume "keychain_exec c s = s"
    with s show ?thesis by simp
  next
    assume "\<exists>v. keychain_op (fst c) (snd c) s = (Inr v, keychain_exec c s)"
    then have "keys (keychain_exec c s) = keys s \<and> transaction_key (keychain_exec c s) = transaction_key s \<and>
      (\<forall>lk t. unat (spending_limits (keychain_exec c s) lk t) \<le> unat (spending_limits s lk t))"
      using keychain_op_access_key s c by blast
    with s show ?thesis by (blast intro: le_trans)
  qed
qed


subsection \<open>Properties\<close>

text \<open>C22. A revoked key is dead for good: after \<open>revokeKey\<close> succeeds, whatever keychain calls
  follow, from whomever and at whatever block, validating a signature by that key fails with
  \<open>KeyAlreadyRevoked\<close>, spending with it fails, and it cannot be authorized again.\<close>

theorem revoked_key_stays_dead:
  assumes "revoke_key a k s = (Inr (), s1)" "k \<noteq> 0" and t: "t = fold keychain_exec cs s1"
  shows "fst (validate_keychain_authorization a k now ty t) = Inl (AccountKeychainError Key_KeyAlreadyRevoked) \<and>
    fst (verify_and_update_spending env a k token amount t) = Inl (AccountKeychainError Key_KeyAlreadyRevoked) \<and>
    (\<exists>e. fst (authorize_key env a k sig_ty exp enforce limits t) = Inl e)"
proof -
  from assms(1) have "is_revoked (keys s1 a k)"
    by (auto simp: keychain_defs ok)
  then have "is_revoked (keys t a k)"
    unfolding t by (rule revoked.fold_keeps [rotated]) (simp add: list_all_iff)
  with assms(2) show ?thesis
    by (simp add: validate_keychain_authorization_def keychain_defs run)
qed

definition sample_keychain :: keychain where
  "sample_keychain = empty_keychain\<lparr>keys := (keys empty_keychain)
     (7 := (\<lambda>_. default_key)(9 := \<lparr>signature_type = 1, expiry = 5000, enforce_limits = True, is_revoked = False\<rparr>)),
     spending_limits := (\<lambda>_ _. 100)\<rparr>"

theorem revoked_key_stays_dead_witness:
  "fst (validate_keychain_authorization 7 9 1000 1
     (fold keychain_exec [(sample_env, AuthorizeKey 7 9 P256 6000 False [])] (snd (revoke_key 7 9 sample_keychain))))
   = Inl (AccountKeychainError Key_KeyAlreadyRevoked)"
proof -
  have "revoke_key 7 9 sample_keychain = (Inr (), snd (revoke_key 7 9 sample_keychain))"
    by (simp add: keychain_defs run sample_keychain_def empty_keychain_def)
  from revoked_key_stays_dead [OF this _ refl, of 1000 1 "[(sample_env, AuthorizeKey 7 9 P256 6000 False [])]"]
  show ?thesis by simp
qed

text \<open>C23. A secondary key cannot widen its own rights: while the transaction key is not the main
  key, every sequence of keychain calls other than the handler's own leaves all keys of all
  accounts unchanged and raises no spending limit.\<close>

theorem access_key_cannot_escalate:
  assumes "transaction_key s \<noteq> 0" and "list_all (\<lambda>c. \<not> is_handler_call (snd c)) cs"
  shows "keys (fold keychain_exec cs s) = keys s \<and>
    unat (spending_limits (fold keychain_exec cs s) lk t) \<le> unat (spending_limits s lk t)"
  using access_key.fold_keeps [of cs s "keys s" "transaction_key s" "spending_limits s"] assms
  by simp

theorem access_key_cannot_escalate_witness:
  "unat (spending_limits (fold keychain_exec [(sample_env, UpdateSpendingLimit 7 9 3 999)]
     (sample_keychain\<lparr>transaction_key := 9\<rparr>)) 0 3) \<le> 100"
proof -
  have "transaction_key (sample_keychain\<lparr>transaction_key := 9\<rparr>) \<noteq> 0" by simp
  then show ?thesis
    using access_key_cannot_escalate [of "sample_keychain\<lparr>transaction_key := 9\<rparr>"
        "[(sample_env, UpdateSpendingLimit 7 9 3 999)]" 0 3]
    by (simp add: sample_keychain_def)
qed



end
