(* ===== verification/Tip20_Token.thy ===== *)
theory Tip20_Token
  imports Errors
begin

section \<open>One TIP-20 token: roles, balances, rewards\<close>

text \<open>
  The part of \<open>precompiles/src/tip20/mod.rs\<close>, \<open>roles.rs\<close> and \<open>rewards.rs\<close> that reads and
  writes the storage of one token only. An operation here is a state transformer on the
  record \<open>tip20\<close>; where the code uses \<open>self.address\<close>, the address is the argument \<open>self\<close>.
  The operations that also consult the policy registry, the keychain, the factory or
  another token are in the theory \<open>Tip20\<close>.
\<close>

subsection \<open>State\<close>

record user_reward_info =
  reward_recipient :: address
  reward_per_token :: u256
  reward_balance :: u256

datatype tip20_event =
    Transfer address address u256
  | Approval address address u256
  | Mint address u256
  | Burn address u256
  | BurnBlocked address u256
  | TransferWithMemo address address u256 b256
  | TransferPolicyUpdate address u64
  | SupplyCapUpdate address u256
  | PauseStateUpdate address bool
  | NextQuoteTokenSet address address
  | QuoteTokenUpdate address address
  | RewardDistributed address u256
  | RewardRecipientSet address address
  | RoleMembershipUpdated b256 address address bool
  | RoleAdminUpdated b256 b256 address

record tip20 =
  roles :: "address \<Rightarrow> b256 \<Rightarrow> bool"
  role_admins :: "b256 \<Rightarrow> b256"
  token_name :: string
  token_symbol :: string
  currency :: string
  quote_token :: address
  next_quote_token :: address
  transfer_policy_id :: u64
  total_supply :: u256
  balances :: "address \<Rightarrow> u256"
  allowances :: "address \<Rightarrow> address \<Rightarrow> u256"
  paused :: bool
  supply_cap :: u256
  global_reward_per_token :: u256
  opted_in_supply :: u128
  user_reward_info :: "address \<Rightarrow> user_reward_info"
  token_log :: "tip20_event list"

definition empty_tip20 :: tip20 where
  "empty_tip20 = \<lparr>roles = (\<lambda>_ _. False), role_admins = (\<lambda>_. 0), token_name = [], token_symbol = [],
     currency = [], quote_token = 0, next_quote_token = 0, transfer_policy_id = 0, total_supply = 0,
     balances = (\<lambda>_. 0), allowances = (\<lambda>_ _. 0), paused = False, supply_cap = 0,
     global_reward_per_token = 0, opted_in_supply = 0,
     user_reward_info = (\<lambda>_. \<lparr>reward_recipient = 0, reward_per_token = 0, reward_balance = 0\<rparr>),
     token_log = []\<rparr>"

type_synonym 'a tk = "(tip20, tempo_error, 'a) pre"

definition U128_MAX :: u256 where
  "U128_MAX = 0xffffffffffffffffffffffffffffffff"

definition ACC_PRECISION :: u256 where
  "ACC_PRECISION = 1000000000000000000"

definition USD_CURRENCY :: string where
  "USD_CURRENCY = ''USD''"

definition emit :: "tip20_event \<Rightarrow> unit tk" where
  "emit e = emodify (\<lambda>t. t\<lparr>token_log := token_log t @ [e]\<rparr>)"

subsection \<open>Roles\<close>

definition DEFAULT_ADMIN_ROLE :: b256 where
  "DEFAULT_ADMIN_ROLE = 0"

definition UNGRANTABLE_ROLE :: b256 where
  "UNGRANTABLE_ROLE = - 1"

definition ascii :: "string \<Rightarrow> u8 list" where
  "ascii cs = map (\<lambda>c. word_of_nat (of_char c)) cs"

definition PAUSE_ROLE :: "env \<Rightarrow> b256" where
  "PAUSE_ROLE env = keccak256 env (ascii ''PAUSE_ROLE'')"

definition UNPAUSE_ROLE :: "env \<Rightarrow> b256" where
  "UNPAUSE_ROLE env = keccak256 env (ascii ''UNPAUSE_ROLE'')"

definition ISSUER_ROLE :: "env \<Rightarrow> b256" where
  "ISSUER_ROLE env = keccak256 env (ascii ''ISSUER_ROLE'')"

definition BURN_BLOCKED_ROLE :: "env \<Rightarrow> b256" where
  "BURN_BLOCKED_ROLE env = keccak256 env (ascii ''BURN_BLOCKED_ROLE'')"

definition has_role_internal :: "address \<Rightarrow> b256 \<Rightarrow> bool tk" where
  "has_role_internal account role = egets (\<lambda>t. roles t account role)"

definition write_role :: "address \<Rightarrow> b256 \<Rightarrow> bool \<Rightarrow> unit tk" where
  "write_role account role value =
     emodify (\<lambda>t. t\<lparr>roles := (roles t)(account := (roles t account)(role := value))\<rparr>)"

definition grant_role_internal :: "address \<Rightarrow> b256 \<Rightarrow> unit tk" where
  "grant_role_internal account role = write_role account role True"

definition revoke_role_internal :: "address \<Rightarrow> b256 \<Rightarrow> unit tk" where
  "revoke_role_internal account role = write_role account role False"

definition get_role_admin_internal :: "b256 \<Rightarrow> b256 tk" where
  "get_role_admin_internal role = egets (\<lambda>t. role_admins t role)"

definition set_role_admin_internal :: "b256 \<Rightarrow> b256 \<Rightarrow> unit tk" where
  "set_role_admin_internal role admin_role =
     emodify (\<lambda>t. t\<lparr>role_admins := (role_admins t)(role := admin_role)\<rparr>)"

definition check_role :: "address \<Rightarrow> b256 \<Rightarrow> unit tk" where
  "check_role account role =
     ebind (has_role_internal account role) (\<lambda>has.
     erequire has (RolesAuthError Roles_Unauthorized))"

definition initialize_roles :: "unit tk" where
  "initialize_roles = set_role_admin_internal UNGRANTABLE_ROLE UNGRANTABLE_ROLE"

definition grant_default_admin :: "address \<Rightarrow> address \<Rightarrow> unit tk" where
  "grant_default_admin msg_sender admin =
     ebind (grant_role_internal admin DEFAULT_ADMIN_ROLE) (\<lambda>_.
     emit (RoleMembershipUpdated DEFAULT_ADMIN_ROLE admin msg_sender True))"

definition grant_role :: "address \<Rightarrow> b256 \<Rightarrow> address \<Rightarrow> unit tk" where
  "grant_role msg_sender role account =
     ebind (get_role_admin_internal role) (\<lambda>admin_role.
     ebind (check_role msg_sender admin_role) (\<lambda>_.
     ebind (grant_role_internal account role) (\<lambda>_.
     emit (RoleMembershipUpdated role account msg_sender True))))"

definition revoke_role :: "address \<Rightarrow> b256 \<Rightarrow> address \<Rightarrow> unit tk" where
  "revoke_role msg_sender role account =
     ebind (get_role_admin_internal role) (\<lambda>admin_role.
     ebind (check_role msg_sender admin_role) (\<lambda>_.
     ebind (revoke_role_internal account role) (\<lambda>_.
     emit (RoleMembershipUpdated role account msg_sender False))))"

definition renounce_role :: "address \<Rightarrow> b256 \<Rightarrow> unit tk" where
  "renounce_role msg_sender role =
     ebind (check_role msg_sender role) (\<lambda>_.
     ebind (revoke_role_internal msg_sender role) (\<lambda>_.
     emit (RoleMembershipUpdated role msg_sender msg_sender False)))"

definition set_role_admin :: "address \<Rightarrow> b256 \<Rightarrow> b256 \<Rightarrow> unit tk" where
  "set_role_admin msg_sender role admin_role =
     ebind (get_role_admin_internal role) (\<lambda>current_admin_role.
     ebind (check_role msg_sender current_admin_role) (\<lambda>_.
     ebind (set_role_admin_internal role admin_role) (\<lambda>_.
     emit (RoleAdminUpdated role admin_role msg_sender))))"

subsection \<open>Storage accessors and checks\<close>

definition get_balance :: "address \<Rightarrow> u256 tk" where
  "get_balance account = egets (\<lambda>t. balances t account)"

definition set_balance :: "address \<Rightarrow> u256 \<Rightarrow> unit tk" where
  "set_balance account amount = emodify (\<lambda>t. t\<lparr>balances := (balances t)(account := amount)\<rparr>)"

definition get_allowance :: "address \<Rightarrow> address \<Rightarrow> u256 tk" where
  "get_allowance owner spender = egets (\<lambda>t. allowances t owner spender)"

definition set_allowance :: "address \<Rightarrow> address \<Rightarrow> u256 \<Rightarrow> unit tk" where
  "set_allowance owner spender amount =
     emodify (\<lambda>t. t\<lparr>allowances := (allowances t)(owner := (allowances t owner)(spender := amount))\<rparr>)"

definition set_total_supply :: "u256 \<Rightarrow> unit tk" where
  "set_total_supply amount = emodify (\<lambda>t. t\<lparr>total_supply := amount\<rparr>)"

definition check_not_paused :: "unit tk" where
  "check_not_paused =
     ebind (egets paused) (\<lambda>p. erequire (\<not> p) (TIP20 TIP20_ContractPaused))"

definition check_recipient :: "address \<Rightarrow> unit tk" where
  "check_recipient to = erequire (\<not> (to = 0 \<or> is_tip20_prefix to)) (TIP20 TIP20_InvalidRecipient)"

subsection \<open>Administration\<close>

definition set_supply_cap :: "address \<Rightarrow> u256 \<Rightarrow> unit tk" where
  "set_supply_cap msg_sender new_supply_cap =
     ebind (check_role msg_sender DEFAULT_ADMIN_ROLE) (\<lambda>_.
     ebind (egets total_supply) (\<lambda>supply.
     ebind (erequire (\<not> new_supply_cap < supply) (TIP20 TIP20_InvalidSupplyCap)) (\<lambda>_.
     ebind (erequire (\<not> new_supply_cap > U128_MAX) (TIP20 TIP20_SupplyCapExceeded)) (\<lambda>_.
     ebind (emodify (\<lambda>t. t\<lparr>supply_cap := new_supply_cap\<rparr>)) (\<lambda>_.
     emit (SupplyCapUpdate msg_sender new_supply_cap))))))"

definition pause :: "env \<Rightarrow> address \<Rightarrow> unit tk" where
  "pause env msg_sender =
     ebind (check_role msg_sender (PAUSE_ROLE env)) (\<lambda>_.
     ebind (emodify (\<lambda>t. t\<lparr>paused := True\<rparr>)) (\<lambda>_.
     emit (PauseStateUpdate msg_sender True)))"

definition unpause :: "env \<Rightarrow> address \<Rightarrow> unit tk" where
  "unpause env msg_sender =
     ebind (check_role msg_sender (UNPAUSE_ROLE env)) (\<lambda>_.
     ebind (emodify (\<lambda>t. t\<lparr>paused := False\<rparr>)) (\<lambda>_.
     emit (PauseStateUpdate msg_sender False)))"

text \<open>The storage writes of \<open>initialize\<close>; the account code is set by the caller.\<close>

definition initialize_storage ::
  "address \<Rightarrow> string \<Rightarrow> string \<Rightarrow> string \<Rightarrow> address \<Rightarrow> address \<Rightarrow> unit tk" where
  "initialize_storage msg_sender name symbol currency_code quote admin =
     ebind (emodify (\<lambda>t. t\<lparr>token_name := name\<rparr>)) (\<lambda>_.
     ebind (emodify (\<lambda>t. t\<lparr>token_symbol := symbol\<rparr>)) (\<lambda>_.
     ebind (emodify (\<lambda>t. t\<lparr>currency := currency_code\<rparr>)) (\<lambda>_.
     ebind (emodify (\<lambda>t. t\<lparr>quote_token := quote\<rparr>)) (\<lambda>_.
     ebind (emodify (\<lambda>t. t\<lparr>next_quote_token := quote\<rparr>)) (\<lambda>_.
     ebind (emodify (\<lambda>t. t\<lparr>supply_cap := widen MAX_WORD\<rparr>)) (\<lambda>_.
     ebind (emodify (\<lambda>t. t\<lparr>transfer_policy_id := 1\<rparr>)) (\<lambda>_.
     ebind initialize_roles (\<lambda>_.
     grant_default_admin msg_sender admin))))))))"

subsection \<open>Rewards\<close>

definition get_opted_in_supply :: "u128 tk" where
  "get_opted_in_supply = egets opted_in_supply"

definition set_opted_in_supply :: "u128 \<Rightarrow> unit tk" where
  "set_opted_in_supply value = emodify (\<lambda>t. t\<lparr>opted_in_supply := value\<rparr>)"

text \<open>The two blocks that \<open>rewards.rs\<close> and \<open>mod.rs\<close> repeat: add to or subtract from the opted-in
  supply in 256 bits and convert back to 128 bits, failing on under- and overflow.\<close>

definition increase_opted_in_supply :: "u256 \<Rightarrow> unit tk" where
  "increase_opted_in_supply amount =
     ebind get_opted_in_supply (\<lambda>v.
     ebind (eok_or (checked_add (widen v) amount) under_overflow) (\<lambda>sum.
     ebind (eok_or (try_into sum) under_overflow) (\<lambda>narrow.
     set_opted_in_supply narrow)))"

definition decrease_opted_in_supply :: "u256 \<Rightarrow> unit tk" where
  "decrease_opted_in_supply amount =
     ebind get_opted_in_supply (\<lambda>v.
     ebind (eok_or (checked_sub (widen v) amount) under_overflow) (\<lambda>diff.
     ebind (eok_or (try_into diff) under_overflow) (\<lambda>narrow.
     set_opted_in_supply narrow)))"

definition get_user_reward_info :: "address \<Rightarrow> user_reward_info tk" where
  "get_user_reward_info account = egets (\<lambda>t. user_reward_info t account)"

definition set_user_reward_info :: "address \<Rightarrow> user_reward_info \<Rightarrow> unit tk" where
  "set_user_reward_info account info =
     emodify (\<lambda>t. t\<lparr>user_reward_info := (user_reward_info t)(account := info)\<rparr>)"

text \<open>The reward of a balance at a reward-per-token difference.\<close>

definition accrued_reward :: "u256 \<Rightarrow> u256 \<Rightarrow> u256 tk" where
  "accrued_reward balance delta =
     eok_or (Option.bind (checked_mul balance delta) (\<lambda>v. checked_div v ACC_PRECISION)) under_overflow"

definition update_rewards :: "address \<Rightarrow> address tk" where
  "update_rewards holder =
     ebind (get_user_reward_info holder) (\<lambda>info.
     ebind (egets global_reward_per_token) (\<lambda>global.
     ebind (eok_or (checked_sub global (reward_per_token info)) under_overflow) (\<lambda>delta.
     if delta \<noteq> 0 then
       ebind
         (if reward_recipient info \<noteq> 0 then
            ebind (get_balance holder) (\<lambda>holder_balance.
            ebind (accrued_reward holder_balance delta) (\<lambda>reward.
            if reward_recipient info = holder then
              ebind (eok_or (checked_add (reward_balance info) reward) under_overflow) (\<lambda>new_balance.
              eret (info\<lparr>reward_balance := new_balance\<rparr>))
            else
              ebind (get_user_reward_info (reward_recipient info)) (\<lambda>delegate_info.
              ebind (eok_or (checked_add (reward_balance delegate_info) reward) under_overflow) (\<lambda>new_balance.
              ebind (set_user_reward_info (reward_recipient info)
                       (delegate_info\<lparr>reward_balance := new_balance\<rparr>)) (\<lambda>_.
              eret info)))))
          else eret info) (\<lambda>info'.
       ebind (set_user_reward_info holder (info'\<lparr>reward_per_token := global\<rparr>)) (\<lambda>_.
       eret (reward_recipient info)))
     else eret (reward_recipient info))))"

definition handle_rewards_on_transfer :: "address \<Rightarrow> address \<Rightarrow> u256 \<Rightarrow> unit tk" where
  "handle_rewards_on_transfer from to amount =
     ebind (update_rewards from) (\<lambda>from_delegate.
     ebind (update_rewards to) (\<lambda>to_delegate.
     if from_delegate \<noteq> 0 then
       (if to_delegate = 0 then decrease_opted_in_supply amount else eret ())
     else if to_delegate \<noteq> 0 then increase_opted_in_supply amount
     else eret ()))"

definition handle_rewards_on_mint :: "address \<Rightarrow> u256 \<Rightarrow> unit tk" where
  "handle_rewards_on_mint to amount =
     ebind (update_rewards to) (\<lambda>to_delegate.
     if to_delegate \<noteq> 0 then increase_opted_in_supply amount else eret ())"

definition get_pending_rewards :: "address \<Rightarrow> u128 tk" where
  "get_pending_rewards account =
     ebind (get_user_reward_info account) (\<lambda>info.
     ebind
       (if reward_recipient info = account then
          ebind (get_balance account) (\<lambda>holder_balance.
          if holder_balance > 0 then
            ebind (egets global_reward_per_token) (\<lambda>global.
            ebind (eok_or (checked_sub global (reward_per_token info)) under_overflow) (\<lambda>delta.
            if delta > 0 then
              ebind (accrued_reward holder_balance delta) (\<lambda>accrued.
              eok_or (checked_add (reward_balance info) accrued) under_overflow)
            else eret (reward_balance info)))
          else eret (reward_balance info))
        else eret (reward_balance info)) (\<lambda>pending.
     eok_or (try_into pending) under_overflow))"

subsection \<open>Moving balances\<close>

definition transfer_internal :: "address \<Rightarrow> address \<Rightarrow> address \<Rightarrow> u256 \<Rightarrow> unit tk" where
  "transfer_internal self from to amount =
     ebind (get_balance from) (\<lambda>from_balance.
     ebind (erequire (\<not> amount > from_balance)
              (TIP20 (TIP20_InsufficientBalance from_balance amount self))) (\<lambda>_.
     ebind (handle_rewards_on_transfer from to amount) (\<lambda>_.
     ebind (eok_or (checked_sub from_balance amount) under_overflow) (\<lambda>new_from_balance.
     ebind (set_balance from new_from_balance) (\<lambda>_.
     ebind
       (if to \<noteq> 0 then
          ebind (get_balance to) (\<lambda>to_balance.
          ebind (eok_or (checked_add to_balance amount) under_overflow) (\<lambda>new_to_balance.
          set_balance to new_to_balance))
        else eret ()) (\<lambda>_.
     emit (Transfer from to amount)))))))"

text \<open>The end of \<open>_burn\<close> and \<open>burn_blocked\<close>: the supply goes down by the amount.\<close>

definition decrease_total_supply :: "address \<Rightarrow> u256 \<Rightarrow> unit tk" where
  "decrease_total_supply self amount =
     ebind (egets total_supply) (\<lambda>supply.
     ebind (eok_or (checked_sub supply amount)
              (TIP20 (TIP20_InsufficientBalance supply amount self))) (\<lambda>new_supply.
     set_total_supply new_supply))"

definition burn_internal :: "env \<Rightarrow> address \<Rightarrow> address \<Rightarrow> u256 \<Rightarrow> unit tk" where
  "burn_internal env self msg_sender amount =
     ebind (check_role msg_sender (ISSUER_ROLE env)) (\<lambda>_.
     ebind (transfer_internal self msg_sender 0 amount) (\<lambda>_.
     decrease_total_supply self amount))"

definition burn :: "env \<Rightarrow> address \<Rightarrow> address \<Rightarrow> u256 \<Rightarrow> unit tk" where
  "burn env self msg_sender amount =
     ebind (burn_internal env self msg_sender amount) (\<lambda>_.
     emit (Burn msg_sender amount))"

definition burn_with_memo :: "env \<Rightarrow> address \<Rightarrow> address \<Rightarrow> u256 \<Rightarrow> b256 \<Rightarrow> unit tk" where
  "burn_with_memo env self msg_sender amount memo =
     ebind (burn_internal env self msg_sender amount) (\<lambda>_.
     ebind (emit (TransferWithMemo msg_sender 0 amount memo)) (\<lambda>_.
     emit (Burn msg_sender amount)))"

definition transfer_fee_post_tx :: "address \<Rightarrow> address \<Rightarrow> u256 \<Rightarrow> u256 \<Rightarrow> unit tk" where
  "transfer_fee_post_tx self to refund actual_spending =
     ebind (emit (Transfer to TIP_FEE_MANAGER_ADDRESS actual_spending)) (\<lambda>_.
     if refund = 0 then eret ()
     else
       ebind (update_rewards to) (\<lambda>to_reward_recipient.
       ebind (if to_reward_recipient \<noteq> 0 then increase_opted_in_supply refund else eret ()) (\<lambda>_.
       ebind (get_balance TIP_FEE_MANAGER_ADDRESS) (\<lambda>from_balance.
       ebind (eok_or (checked_sub from_balance refund)
                (TIP20 (TIP20_InsufficientBalance from_balance refund self))) (\<lambda>new_from_balance.
       ebind (set_balance TIP_FEE_MANAGER_ADDRESS new_from_balance) (\<lambda>_.
       ebind (get_balance to) (\<lambda>to_balance.
       ebind (eok_or (checked_add to_balance refund) (TIP20 TIP20_SupplyCapExceeded)) (\<lambda>new_to_balance.
       set_balance to new_to_balance))))))))"

end
