(* ===== verification/Tip20.thy ===== *)
theory Tip20
  imports Tip403 Keychain Tip20_Token
begin

section \<open>TIP-20 tokens in the world: transfers, policies, fees, the factory\<close>

text \<open>
  The operations of \<open>precompiles/src/tip20/mod.rs\<close> and \<open>rewards.rs\<close> that involve other
  precompiles, and \<open>precompiles/src/tip20_factory/mod.rs\<close>. The state is the record \<open>world\<close>:
  the policy registry, the keychain, every token's storage by address, and whether an
  account has code (what \<open>is_tip20\<close> asks the EVM). The record is extensible: the fee
  manager and the exchange add their storage to it, and the operations here run unchanged
  in the larger worlds.

  Loops over the quote-token chain read storage at every step and are bounded by gas in
  the EVM; the model bounds them by a number of reads (\<open>gas\<close>), whose exhaustion is the
  \<open>OutOfGas\<close> error. \<open>Quote_Graph\<close> shows how much is enough.
\<close>

record world =
  w_registry :: registry
  w_keychain :: keychain
  tokens :: "address \<Rightarrow> tip20"
  has_code :: "address \<Rightarrow> bool"
  factory_log :: "(address \<times> string \<times> string \<times> string \<times> address \<times> address \<times> b256) list"

definition empty_world :: world where
  "empty_world = \<lparr>w_registry = empty_registry, w_keychain = empty_keychain, tokens = (\<lambda>_. empty_tip20),
     has_code = (\<lambda>_. False), factory_log = []\<rparr>"

type_synonym ('x, 'a) wop = "('x world_scheme, tempo_error, 'a) pre"

definition on_token :: "address \<Rightarrow> 'a tk \<Rightarrow> ('x, 'a) wop" where
  "on_token self m = ezoom (\<lambda>w. tokens w self) (\<lambda>t w. w\<lparr>tokens := (tokens w)(self := t)\<rparr>) m"

definition on_registry :: "'a reg \<Rightarrow> ('x, 'a) wop" where
  "on_registry m = ezoom w_registry (\<lambda>r w. w\<lparr>w_registry := r\<rparr>) m"

definition on_keychain :: "'a kc \<Rightarrow> ('x, 'a) wop" where
  "on_keychain m = ezoom w_keychain (\<lambda>k w. w\<lparr>w_keychain := k\<rparr>) m"

definition from_address :: "address \<Rightarrow> ('x, unit) wop" where
  "from_address address = erequire (is_tip20_prefix address) (TIP20 TIP20_InvalidToken)"

definition is_tip20 :: "address \<Rightarrow> ('x, bool) wop" where
  "is_tip20 token =
     (if \<not> is_tip20_prefix token then eret False else egets (\<lambda>w. has_code w token))"

definition token_currency :: "address \<Rightarrow> ('x, string) wop" where
  "token_currency token = ebind (from_address token) (\<lambda>_. egets (\<lambda>w. currency (tokens w token)))"

definition token_quote :: "address \<Rightarrow> ('x, address) wop" where
  "token_quote token = ebind (from_address token) (\<lambda>_. egets (\<lambda>w. quote_token (tokens w token)))"

definition validate_usd_currency :: "address \<Rightarrow> ('x, unit) wop" where
  "validate_usd_currency token =
     ebind (token_currency token) (\<lambda>c. erequire (c = USD_CURRENCY) (TIP20 TIP20_InvalidCurrency))"

subsection \<open>Transfer authorization\<close>

definition is_user_authorized :: "env \<Rightarrow> address \<Rightarrow> address \<Rightarrow> ('x, bool) wop" where
  "is_user_authorized env self user =
     ebind (on_token self (egets transfer_policy_id)) (\<lambda>policy_id.
     on_registry (is_authorized env policy_id user))"

definition is_transfer_authorized :: "env \<Rightarrow> address \<Rightarrow> address \<Rightarrow> address \<Rightarrow> ('x, bool) wop" where
  "is_transfer_authorized env self from to =
     ebind (on_token self (egets transfer_policy_id)) (\<lambda>policy_id.
     ebind (on_registry (is_authorized env policy_id from)) (\<lambda>from_authorized.
     ebind (on_registry (is_authorized env policy_id to)) (\<lambda>to_authorized.
     eret (from_authorized \<and> to_authorized))))"

definition ensure_transfer_authorized :: "env \<Rightarrow> address \<Rightarrow> address \<Rightarrow> address \<Rightarrow> ('x, unit) wop" where
  "ensure_transfer_authorized env self from to =
     ebind (is_transfer_authorized env self from to) (\<lambda>authorized.
     erequire authorized (TIP20 TIP20_PolicyForbids))"

definition check_and_update_spending_limit :: "env \<Rightarrow> address \<Rightarrow> address \<Rightarrow> u256 \<Rightarrow> ('x, unit) wop" where
  "check_and_update_spending_limit env self from amount =
     on_keychain (authorize_transfer env from self amount)"

subsection \<open>Administration\<close>

definition change_transfer_policy_id :: "address \<Rightarrow> address \<Rightarrow> u64 \<Rightarrow> ('x, unit) wop" where
  "change_transfer_policy_id self msg_sender new_policy_id =
     ebind (on_token self (check_role msg_sender DEFAULT_ADMIN_ROLE)) (\<lambda>_.
     ebind (on_registry (egets (\<lambda>r. policy_exists r new_policy_id))) (\<lambda>exists.
     ebind (erequire exists (TIP20 TIP20_InvalidTransferPolicyId)) (\<lambda>_.
     on_token self
       (ebind (emodify (\<lambda>t. t\<lparr>transfer_policy_id := new_policy_id\<rparr>)) (\<lambda>_.
        emit (TransferPolicyUpdate msg_sender new_policy_id))))))"

definition set_next_quote_token :: "address \<Rightarrow> address \<Rightarrow> address \<Rightarrow> ('x, unit) wop" where
  "set_next_quote_token self msg_sender new_quote_token =
     ebind (on_token self (check_role msg_sender DEFAULT_ADMIN_ROLE)) (\<lambda>_.
     ebind (erequire (self \<noteq> PATH_USD_ADDRESS) (TIP20 TIP20_InvalidQuoteToken)) (\<lambda>_.
     ebind (is_tip20 new_quote_token) (\<lambda>deployed.
     ebind (erequire deployed (TIP20 TIP20_InvalidQuoteToken)) (\<lambda>_.
     ebind (on_token self (egets currency)) (\<lambda>own_currency.
     ebind
       (if own_currency = USD_CURRENCY then
          ebind (token_currency new_quote_token) (\<lambda>quote_token_currency.
          erequire (quote_token_currency = USD_CURRENCY) (TIP20 TIP20_InvalidQuoteToken))
        else eret ()) (\<lambda>_.
     on_token self
       (ebind (emodify (\<lambda>t. t\<lparr>next_quote_token := new_quote_token\<rparr>)) (\<lambda>_.
        emit (NextQuoteTokenSet msg_sender new_quote_token)))))))))"

text \<open>The loop of \<open>complete_quote_token_update\<close>.\<close>

fun check_no_quote_loop :: "nat \<Rightarrow> address \<Rightarrow> address \<Rightarrow> ('x, unit) wop" where
  "check_no_quote_loop 0 self current = efail OutOfGas"
| "check_no_quote_loop (Suc gas) self current =
     (if current = PATH_USD_ADDRESS then eret ()
      else
        ebind (erequire (current \<noteq> self) (TIP20 TIP20_InvalidQuoteToken)) (\<lambda>_.
        ebind (token_quote current) (\<lambda>next.
        check_no_quote_loop gas self next)))"

definition complete_quote_token_update :: "nat \<Rightarrow> address \<Rightarrow> address \<Rightarrow> ('x, unit) wop" where
  "complete_quote_token_update gas self msg_sender =
     ebind (on_token self (check_role msg_sender DEFAULT_ADMIN_ROLE)) (\<lambda>_.
     ebind (on_token self (egets next_quote_token)) (\<lambda>next.
     ebind (check_no_quote_loop gas self next) (\<lambda>_.
     on_token self
       (ebind (emodify (\<lambda>t. t\<lparr>quote_token := next\<rparr>)) (\<lambda>_.
        emit (QuoteTokenUpdate msg_sender next))))))"

subsection \<open>Minting and burning\<close>

definition mint_internal :: "env \<Rightarrow> address \<Rightarrow> address \<Rightarrow> address \<Rightarrow> u256 \<Rightarrow> ('x, unit) wop" where
  "mint_internal env self msg_sender to amount =
     ebind (on_token self (check_role msg_sender (ISSUER_ROLE env))) (\<lambda>_.
     ebind (on_token self (egets total_supply)) (\<lambda>supply.
     ebind (is_user_authorized env self to) (\<lambda>authorized.
     ebind (erequire authorized (TIP20 TIP20_PolicyForbids)) (\<lambda>_.
     on_token self
       (ebind (eok_or (checked_add supply amount) under_overflow) (\<lambda>new_supply.
        ebind (egets supply_cap) (\<lambda>cap.
        ebind (erequire (\<not> new_supply > cap) (TIP20 TIP20_SupplyCapExceeded)) (\<lambda>_.
        ebind (handle_rewards_on_mint to amount) (\<lambda>_.
        ebind (set_total_supply new_supply) (\<lambda>_.
        ebind (get_balance to) (\<lambda>to_balance.
        ebind (eok_or (checked_add to_balance amount) under_overflow) (\<lambda>new_to_balance.
        ebind (set_balance to new_to_balance) (\<lambda>_.
        emit (Transfer 0 to amount))))))))))))))"

definition mint :: "env \<Rightarrow> address \<Rightarrow> address \<Rightarrow> address \<Rightarrow> u256 \<Rightarrow> ('x, unit) wop" where
  "mint env self msg_sender to amount =
     ebind (mint_internal env self msg_sender to amount) (\<lambda>_.
     on_token self (emit (Mint to amount)))"

definition mint_with_memo :: "env \<Rightarrow> address \<Rightarrow> address \<Rightarrow> address \<Rightarrow> u256 \<Rightarrow> b256 \<Rightarrow> ('x, unit) wop" where
  "mint_with_memo env self msg_sender to amount memo =
     ebind (mint_internal env self msg_sender to amount) (\<lambda>_.
     on_token self
       (ebind (emit (TransferWithMemo 0 to amount memo)) (\<lambda>_.
        emit (Mint to amount))))"

definition burn_blocked :: "env \<Rightarrow> address \<Rightarrow> address \<Rightarrow> address \<Rightarrow> u256 \<Rightarrow> ('x, unit) wop" where
  "burn_blocked env self msg_sender from amount =
     ebind (on_token self (check_role msg_sender (BURN_BLOCKED_ROLE env))) (\<lambda>_.
     ebind (erequire (\<not> (from = TIP_FEE_MANAGER_ADDRESS \<or> from = STABLECOIN_DEX_ADDRESS))
              (TIP20 TIP20_ProtectedAddress)) (\<lambda>_.
     ebind (is_user_authorized env self from) (\<lambda>authorized.
     ebind (erequire (\<not> authorized) (TIP20 TIP20_PolicyForbids)) (\<lambda>_.
     on_token self
       (ebind (transfer_internal self from 0 amount) (\<lambda>_.
        ebind (decrease_total_supply self amount) (\<lambda>_.
        emit (BurnBlocked from amount))))))))"

subsection \<open>Approvals and transfers\<close>

definition approve :: "env \<Rightarrow> address \<Rightarrow> address \<Rightarrow> address \<Rightarrow> u256 \<Rightarrow> ('x, bool) wop" where
  "approve env self msg_sender spender amount =
     ebind (on_token self (get_allowance msg_sender spender)) (\<lambda>old.
     ebind (on_keychain (authorize_approve env msg_sender self old amount)) (\<lambda>_.
     on_token self
       (ebind (set_allowance msg_sender spender amount) (\<lambda>_.
        ebind (emit (Approval msg_sender spender amount)) (\<lambda>_.
        eret True)))))"

definition transfer :: "env \<Rightarrow> address \<Rightarrow> address \<Rightarrow> address \<Rightarrow> u256 \<Rightarrow> ('x, bool) wop" where
  "transfer env self msg_sender to amount =
     ebind (on_token self check_not_paused) (\<lambda>_.
     ebind (on_token self (check_recipient to)) (\<lambda>_.
     ebind (ensure_transfer_authorized env self msg_sender to) (\<lambda>_.
     ebind (on_keychain (authorize_transfer env msg_sender self amount)) (\<lambda>_.
     ebind (on_token self (transfer_internal self msg_sender to amount)) (\<lambda>_.
     eret True)))))"

definition transfer_from_internal ::
  "env \<Rightarrow> address \<Rightarrow> address \<Rightarrow> address \<Rightarrow> address \<Rightarrow> u256 \<Rightarrow> ('x, bool) wop" where
  "transfer_from_internal env self msg_sender from to amount =
     ebind (on_token self check_not_paused) (\<lambda>_.
     ebind (on_token self (check_recipient to)) (\<lambda>_.
     ebind (ensure_transfer_authorized env self from to) (\<lambda>_.
     on_token self
       (ebind (get_allowance from msg_sender) (\<lambda>allowed.
        ebind (erequire (\<not> amount > allowed) (TIP20 TIP20_InsufficientAllowance)) (\<lambda>_.
        ebind
          (if allowed \<noteq> MAX_WORD then
             ebind (eok_or (checked_sub allowed amount) (TIP20 TIP20_InsufficientAllowance)) (\<lambda>new_allowance.
             set_allowance from msg_sender new_allowance)
           else eret ()) (\<lambda>_.
        ebind (transfer_internal self from to amount) (\<lambda>_.
        eret True))))))))"

definition transfer_from ::
  "env \<Rightarrow> address \<Rightarrow> address \<Rightarrow> address \<Rightarrow> address \<Rightarrow> u256 \<Rightarrow> ('x, bool) wop" where
  "transfer_from env self msg_sender from to amount =
     transfer_from_internal env self msg_sender from to amount"

definition transfer_from_with_memo ::
  "env \<Rightarrow> address \<Rightarrow> address \<Rightarrow> address \<Rightarrow> address \<Rightarrow> u256 \<Rightarrow> b256 \<Rightarrow> ('x, bool) wop" where
  "transfer_from_with_memo env self msg_sender from to amount memo =
     ebind (transfer_from_internal env self msg_sender from to amount) (\<lambda>_.
     ebind (on_token self (emit (TransferWithMemo from to amount memo))) (\<lambda>_.
     eret True))"

definition system_transfer_from ::
  "env \<Rightarrow> address \<Rightarrow> address \<Rightarrow> address \<Rightarrow> u256 \<Rightarrow> ('x, bool) wop" where
  "system_transfer_from env self from to amount =
     ebind (on_token self check_not_paused) (\<lambda>_.
     ebind (on_token self (check_recipient to)) (\<lambda>_.
     ebind (ensure_transfer_authorized env self from to) (\<lambda>_.
     ebind (check_and_update_spending_limit env self from amount) (\<lambda>_.
     ebind (on_token self (transfer_internal self from to amount)) (\<lambda>_.
     eret True)))))"

definition transfer_with_memo ::
  "env \<Rightarrow> address \<Rightarrow> address \<Rightarrow> address \<Rightarrow> u256 \<Rightarrow> b256 \<Rightarrow> ('x, unit) wop" where
  "transfer_with_memo env self msg_sender to amount memo =
     ebind (on_token self check_not_paused) (\<lambda>_.
     ebind (on_token self (check_recipient to)) (\<lambda>_.
     ebind (ensure_transfer_authorized env self msg_sender to) (\<lambda>_.
     ebind (check_and_update_spending_limit env self msg_sender amount) (\<lambda>_.
     on_token self
       (ebind (transfer_internal self msg_sender to amount) (\<lambda>_.
        emit (TransferWithMemo msg_sender to amount memo)))))))"

subsection \<open>Fees\<close>

definition transfer_fee_pre_tx :: "env \<Rightarrow> address \<Rightarrow> address \<Rightarrow> u256 \<Rightarrow> ('x, unit) wop" where
  "transfer_fee_pre_tx env self from amount =
     ebind (on_token self check_not_paused) (\<lambda>_.
     ebind (on_token self (get_balance from)) (\<lambda>from_balance.
     ebind (erequire (\<not> amount > from_balance)
              (TIP20 (TIP20_InsufficientBalance from_balance amount self))) (\<lambda>_.
     ebind (check_and_update_spending_limit env self from amount) (\<lambda>_.
     on_token self
       (ebind (update_rewards from) (\<lambda>from_reward_recipient.
        ebind (if from_reward_recipient \<noteq> 0 then decrease_opted_in_supply amount else eret ()) (\<lambda>_.
        ebind (eok_or (checked_sub from_balance amount)
                 (TIP20 (TIP20_InsufficientBalance from_balance amount self))) (\<lambda>new_from_balance.
        ebind (set_balance from new_from_balance) (\<lambda>_.
        ebind (get_balance TIP_FEE_MANAGER_ADDRESS) (\<lambda>to_balance.
        ebind (eok_or (checked_add to_balance amount) (TIP20 TIP20_SupplyCapExceeded)) (\<lambda>new_to_balance.
        set_balance TIP_FEE_MANAGER_ADDRESS new_to_balance)))))))))))"

subsection \<open>Rewards\<close>

definition distribute_reward :: "env \<Rightarrow> address \<Rightarrow> address \<Rightarrow> u256 \<Rightarrow> ('x, unit) wop" where
  "distribute_reward env self msg_sender amount =
     ebind (on_token self check_not_paused) (\<lambda>_.
     ebind (erequire (amount \<noteq> 0) (TIP20 TIP20_InvalidAmount)) (\<lambda>_.
     ebind (ensure_transfer_authorized env self msg_sender self) (\<lambda>_.
     ebind (check_and_update_spending_limit env self msg_sender amount) (\<lambda>_.
     on_token self
       (ebind (transfer_internal self msg_sender self amount) (\<lambda>_.
        ebind (egets (\<lambda>t. widen (opted_in_supply t))) (\<lambda>opted_in.
        ebind (erequire (opted_in \<noteq> 0) (TIP20 TIP20_NoOptedInSupply)) (\<lambda>_.
        ebind (eok_or (Option.bind (checked_mul amount ACC_PRECISION) (\<lambda>v. checked_div v opted_in))
                 under_overflow) (\<lambda>delta_rpt.
        ebind (egets global_reward_per_token) (\<lambda>current_rpt.
        ebind (eok_or (checked_add current_rpt delta_rpt) under_overflow) (\<lambda>new_rpt.
        ebind (emodify (\<lambda>t. t\<lparr>global_reward_per_token := new_rpt\<rparr>)) (\<lambda>_.
        emit (RewardDistributed msg_sender amount)))))))))))))"

definition set_reward_recipient :: "env \<Rightarrow> address \<Rightarrow> address \<Rightarrow> address \<Rightarrow> ('x, unit) wop" where
  "set_reward_recipient env self msg_sender recipient =
     ebind (on_token self check_not_paused) (\<lambda>_.
     ebind (if recipient \<noteq> 0 then ensure_transfer_authorized env self msg_sender recipient else eret ()) (\<lambda>_.
     on_token self
       (ebind (update_rewards msg_sender) (\<lambda>from_delegate.
        ebind (get_balance msg_sender) (\<lambda>holder_balance.
        ebind
          (if from_delegate \<noteq> 0 then
             (if recipient = 0 then decrease_opted_in_supply holder_balance else eret ())
           else if recipient \<noteq> 0 then increase_opted_in_supply holder_balance
           else eret ()) (\<lambda>_.
        ebind (get_user_reward_info msg_sender) (\<lambda>info.
        ebind (set_user_reward_info msg_sender (info\<lparr>reward_recipient := recipient\<rparr>)) (\<lambda>_.
        emit (RewardRecipientSet msg_sender recipient)))))))))"

definition claim_rewards :: "env \<Rightarrow> address \<Rightarrow> address \<Rightarrow> ('x, u256) wop" where
  "claim_rewards env self msg_sender =
     ebind (on_token self check_not_paused) (\<lambda>_.
     ebind (ensure_transfer_authorized env self self msg_sender) (\<lambda>_.
     on_token self
       (ebind (update_rewards msg_sender) (\<lambda>_.
        ebind (get_user_reward_info msg_sender) (\<lambda>info.
        ebind (get_balance self) (\<lambda>contract_balance.
        (let amount = reward_balance info; max_amount = min amount contract_balance in
        ebind (eok_or (checked_sub amount max_amount) under_overflow) (\<lambda>left.
        ebind (set_user_reward_info msg_sender (info\<lparr>reward_balance := left\<rparr>)) (\<lambda>_.
        ebind
          (if max_amount > 0 then
             ebind (eok_or (checked_sub contract_balance max_amount) under_overflow) (\<lambda>new_contract_balance.
             ebind (set_balance self new_contract_balance) (\<lambda>_.
             ebind (get_balance msg_sender) (\<lambda>old_recipient_balance.
             ebind (eok_or (checked_add old_recipient_balance max_amount) under_overflow) (\<lambda>recipient_balance.
             ebind (set_balance msg_sender recipient_balance) (\<lambda>_.
             ebind (if reward_recipient info \<noteq> 0 then increase_opted_in_supply max_amount else eret ()) (\<lambda>_.
             emit (Transfer self msg_sender max_amount)))))))
           else eret ()) (\<lambda>_.
        eret max_amount))))))))))"

subsection \<open>The factory\<close>

definition RESERVED_SIZE :: u64 where
  "RESERVED_SIZE = 1024"

definition initialize :: "address \<Rightarrow> address \<Rightarrow> string \<Rightarrow> string \<Rightarrow> string \<Rightarrow> address \<Rightarrow> address \<Rightarrow> ('x, unit) wop" where
  "initialize self msg_sender name symbol currency_code quote admin =
     ebind (emodify (\<lambda>w. w\<lparr>has_code := (has_code w)(self := True)\<rparr>)) (\<lambda>_.
     on_token self (initialize_storage msg_sender name symbol currency_code quote admin))"

text \<open>The address of a token: the prefix, then the first eight bytes of the hash of the
  ABI-encoded pair of sender and salt (two 32-byte words).\<close>

definition abi_encode_address :: "address \<Rightarrow> u8 list" where
  "abi_encode_address a = replicate 12 0 @ address_bytes a"

definition b256_bytes :: "b256 \<Rightarrow> u8 list" where
  "b256_bytes b = map (\<lambda>i. ucast (drop_bit (8 * (31 - i)) b)) [0..<32]"

definition compute_tip20_address :: "env \<Rightarrow> address \<Rightarrow> b256 \<Rightarrow> address \<times> u64" where
  "compute_tip20_address env sender salt =
     (let hash = keccak256 env (abi_encode_address sender @ b256_bytes salt);
          lower_bytes = (ucast (drop_bit 192 hash) :: u64)
      in (push_bit 64 0x20C000000000000000000000 + ucast lower_bytes, lower_bytes))"

definition get_token_address :: "env \<Rightarrow> address \<Rightarrow> b256 \<Rightarrow> ('x, address) wop" where
  "get_token_address env sender salt =
     (case compute_tip20_address env sender salt of (address, lower_bytes) \<Rightarrow>
        ebind (erequire (\<not> lower_bytes < RESERVED_SIZE) (TIP20Factory Factory_AddressReserved)) (\<lambda>_.
        eret address))"

definition emit_token_created ::
  "address \<times> string \<times> string \<times> string \<times> address \<times> address \<times> b256 \<Rightarrow> ('x, unit) wop" where
  "emit_token_created e = emodify (\<lambda>w. w\<lparr>factory_log := factory_log w @ [e]\<rparr>)"

definition create_token ::
  "env \<Rightarrow> address \<Rightarrow> string \<Rightarrow> string \<Rightarrow> string \<Rightarrow> address \<Rightarrow> address \<Rightarrow> b256 \<Rightarrow> ('x, address) wop" where
  "create_token env sender name symbol currency_code quote admin salt =
     (case compute_tip20_address env sender salt of (token_address, lower_bytes) \<Rightarrow>
     ebind (is_tip20 token_address) (\<lambda>exists.
     ebind (erequire (\<not> exists) (TIP20Factory (Factory_TokenAlreadyExists token_address))) (\<lambda>_.
     ebind (is_tip20 quote) (\<lambda>quote_ok.
     ebind (erequire quote_ok (TIP20 TIP20_InvalidQuoteToken)) (\<lambda>_.
     ebind
       (if currency_code = USD_CURRENCY then
          ebind (token_currency quote) (\<lambda>c. erequire (c = USD_CURRENCY) (TIP20 TIP20_InvalidQuoteToken))
        else eret ()) (\<lambda>_.
     ebind (erequire (\<not> lower_bytes < RESERVED_SIZE) (TIP20Factory Factory_AddressReserved)) (\<lambda>_.
     ebind (from_address token_address) (\<lambda>_.
     ebind (initialize token_address sender name symbol currency_code quote admin) (\<lambda>_.
     ebind (emit_token_created (token_address, name, symbol, currency_code, quote, admin, salt)) (\<lambda>_.
     eret token_address))))))))))"

definition create_token_reserved_address ::
  "address \<Rightarrow> string \<Rightarrow> string \<Rightarrow> string \<Rightarrow> address \<Rightarrow> address \<Rightarrow> ('x, address) wop" where
  "create_token_reserved_address address name symbol currency_code quote admin =
     ebind (erequire (is_tip20_prefix address) (TIP20 TIP20_InvalidToken)) (\<lambda>_.
     ebind (is_tip20 address) (\<lambda>exists.
     ebind (erequire (\<not> exists) (TIP20Factory (Factory_TokenAlreadyExists address))) (\<lambda>_.
     ebind
       (if quote \<noteq> 0 then
          ebind (if address = PATH_USD_ADDRESS then eret False else is_tip20 quote) (\<lambda>quote_ok.
          ebind (erequire quote_ok (TIP20 TIP20_InvalidQuoteToken)) (\<lambda>_.
          if currency_code = USD_CURRENCY then
            ebind (token_currency quote) (\<lambda>c. erequire (c = USD_CURRENCY) (TIP20 TIP20_InvalidQuoteToken))
          else eret ()))
        else eret ()) (\<lambda>_.
     ebind (erequire (\<not> (ucast address :: u64) \<ge> RESERVED_SIZE) (TIP20Factory Factory_AddressNotReserved)) (\<lambda>_.
     ebind (from_address address) (\<lambda>_.
     ebind (initialize address admin name symbol currency_code quote admin) (\<lambda>_.
     ebind (emit_token_created (address, name, symbol, currency_code, quote, admin, 0)) (\<lambda>_.
     eret address))))))))"

end
