(* ===== verification/Tip20_Ledger.thy ===== *)
theory Tip20_Ledger
  imports Tip20
begin

section \<open>Token accounting: supply, opted-in supply, reward solvency\<close>

text \<open>
  The accounting invariants of a token and that every operation keeps them. All quantities
  are natural numbers, sums range over all addresses:
  \<^item> the balances add up to the total supply, which is at most the supply cap, which fits
    128 bits;
  \<^item> the opted-in supply is the sum of the balances of the holders with a reward recipient;
  \<^item> the rewards owed, credited and still accruing, are covered by the balance that the
    token's own address holds.
\<close>

definition opted :: "tip20 \<Rightarrow> address \<Rightarrow> bool" where
  "opted t a \<longleftrightarrow> reward_recipient (user_reward_info t a) \<noteq> 0"

definition stake_of :: "tip20 \<Rightarrow> address \<Rightarrow> nat" where
  "stake_of t a = (if opted t a then unat (balances t a) else 0)"

definition claim_of :: "tip20 \<Rightarrow> address \<Rightarrow> nat" where
  "claim_of t a = unat (reward_balance (user_reward_info t a))"

definition pending_of :: "tip20 \<Rightarrow> address \<Rightarrow> nat" where
  "pending_of t a = (if opted t a then
     unat (balances t a) * (unat (global_reward_per_token t) - unat (reward_per_token (user_reward_info t a)))
     else 0)"

text \<open>Rewards owed, scaled by the accumulator precision \<open>10^18\<close>.\<close>

definition reward_debt :: "tip20 \<Rightarrow> nat" where
  "reward_debt t = unat ACC_PRECISION * (\<Sum>a\<in>UNIV. claim_of t a) + (\<Sum>a\<in>UNIV. pending_of t a)"

definition up_to_date :: "tip20 \<Rightarrow> address \<Rightarrow> bool" where
  "up_to_date t a \<longleftrightarrow> reward_per_token (user_reward_info t a) = global_reward_per_token t"

lemma ACC_PRECISION_pos: "0 < unat ACC_PRECISION"
  by (simp add: ACC_PRECISION_def)

subsection \<open>Bringing a holder's rewards up to date\<close>

lemma checked_reward_Some:
  "Option.bind (checked_mul b delta) (\<lambda>v. checked_div v c) = Some r \<longleftrightarrow>
     c \<noteq> 0 \<and> unat b * unat delta < 2 ^ 256 \<and> unat r = unat b * unat delta div unat c"
  for b delta c r :: u256
proof (cases "checked_mul b delta")
  case None
  then show ?thesis by (auto simp: checked_mul_def split: if_splits)
next
  case (Some v)
  then have v: "unat v = unat b * unat delta"
    by (simp add: checked)
  then have "unat b * unat delta < 2 ^ 256"
    using unsigned_less [of v, where ?'a = nat] by simp
  then show ?thesis by (simp add: Some checked_div_Some v)
qed

lemma accrued_reward_ok:
  "accrued_reward b delta t = (Inr r, t') \<Longrightarrow>
     t' = t \<and> unat r = unat b * unat delta div unat ACC_PRECISION"
  by (auto simp: accrued_reward_def ok checked_reward_Some)

text \<open>What \<open>update_rewards\<close> does: the holder's marker moves to the present, and its recipient
  is credited \<open>r\<close>, at most the accrued reward.\<close>

lemma update_rewards_effect:
  assumes "update_rewards h t = (Inr d, t')"
  shows "d = reward_recipient (user_reward_info t h) \<and>
    t' = t\<lparr>user_reward_info := user_reward_info t'\<rparr> \<and>
    (\<forall>a. reward_recipient (user_reward_info t' a) = reward_recipient (user_reward_info t a)) \<and>
    unat (reward_per_token (user_reward_info t h)) \<le> unat (global_reward_per_token t) \<and>
    reward_per_token (user_reward_info t' h) = global_reward_per_token t \<and>
    (\<forall>a. a \<noteq> h \<longrightarrow> reward_per_token (user_reward_info t' a) = reward_per_token (user_reward_info t a)) \<and>
    (\<exists>r. claim_of t' = (claim_of t)(d := claim_of t d + r) \<and> unat ACC_PRECISION * r \<le> pending_of t h)"
proof -
  let ?i = "user_reward_info t h"
  let ?G = "global_reward_per_token t"
  from assms obtain delta where delta: "checked_sub ?G (reward_per_token ?i) = Some delta"
    by (auto simp: update_rewards_def get_user_reward_info_def ok)
  then have G: "unat ?G = unat (reward_per_token ?i) + unat delta"
    by (simp add: checked)
  have run: "(if delta \<noteq> 0 then
       ebind
         (if reward_recipient ?i \<noteq> 0 then
            ebind (get_balance h) (\<lambda>holder_balance.
            ebind (accrued_reward holder_balance delta) (\<lambda>reward.
            if reward_recipient ?i = h then
              ebind (eok_or (checked_add (reward_balance ?i) reward) under_overflow) (\<lambda>new_balance.
              eret (?i\<lparr>reward_balance := new_balance\<rparr>))
            else
              ebind (get_user_reward_info (reward_recipient ?i)) (\<lambda>delegate_info.
              ebind (eok_or (checked_add (reward_balance delegate_info) reward) under_overflow) (\<lambda>new_balance.
              ebind (set_user_reward_info (reward_recipient ?i)
                       (delegate_info\<lparr>reward_balance := new_balance\<rparr>)) (\<lambda>_.
              eret ?i)))))
          else eret ?i) (\<lambda>info'.
       ebind (set_user_reward_info h (info'\<lparr>reward_per_token := ?G\<rparr>)) (\<lambda>_.
       eret (reward_recipient ?i)))
     else eret (reward_recipient ?i)) t = (Inr d, t')"
    using assms delta by (simp add: update_rewards_def get_user_reward_info_def ok)
  consider "delta = 0" | "delta \<noteq> 0" "reward_recipient ?i = 0" | "delta \<noteq> 0" "reward_recipient ?i \<noteq> 0"
    by blast
  then show ?thesis
  proof cases
    case 1
    with run G have "t' = t" "d = reward_recipient ?i" "reward_per_token ?i = ?G"
      by (auto simp: ok word_unat_eq_iff)
    then show ?thesis by (auto intro: exI [of _ 0])
  next
    case 2
    with run have "d = 0" "t' = t\<lparr>user_reward_info := (user_reward_info t)(h := ?i\<lparr>reward_per_token := ?G\<rparr>)\<rparr>"
      by (auto simp: ok set_user_reward_info_def)
    with 2 G show ?thesis by (auto intro!: exI [of _ 0] simp: claim_of_def fun_eq_iff)
  next
    case 3
    show ?thesis
    proof (cases "reward_recipient ?i = h")
      case True
      from run have "\<exists>reward b. Option.bind (checked_mul (balances t h) delta) (\<lambda>v. checked_div v ACC_PRECISION) = Some reward \<and>
          checked_add (reward_balance ?i) reward = Some b \<and> d = h \<and>
          t' = t\<lparr>user_reward_info := (user_reward_info t)(h := ?i\<lparr>reward_balance := b, reward_per_token := ?G\<rparr>)\<rparr>"
        using 3 True by (simp add: ok accrued_reward_def set_user_reward_info_def get_balance_def) (elim exE conjE, simp)
      then obtain reward b where
        r: "unat reward = unat (balances t h) * unat delta div unat ACC_PRECISION"
        and b: "checked_add (reward_balance ?i) reward = Some b"
        and d: "d = h"
        and t': "t' = t\<lparr>user_reward_info := (user_reward_info t)(h := ?i\<lparr>reward_balance := b, reward_per_token := ?G\<rparr>)\<rparr>"
        unfolding checked_reward_Some by blast
      have "unat ACC_PRECISION * unat reward \<le> pending_of t h"
        using 3 G by (simp add: r pending_of_def opted_def)
      moreover from b d t' have "claim_of t' = (claim_of t)(d := claim_of t d + unat reward)"
        by (auto simp: claim_of_def fun_eq_iff checked)
      ultimately show ?thesis using t' d True G by auto
    next
      case False
      let ?r = "reward_recipient ?i"
      from run have "\<exists>reward b. Option.bind (checked_mul (balances t h) delta) (\<lambda>v. checked_div v ACC_PRECISION) = Some reward \<and>
          checked_add (reward_balance (user_reward_info t ?r)) reward = Some b \<and> d = ?r \<and>
          t' = t\<lparr>user_reward_info := (user_reward_info t)
            (?r := (user_reward_info t ?r)\<lparr>reward_balance := b\<rparr>, h := ?i\<lparr>reward_per_token := ?G\<rparr>)\<rparr>"
        using 3 False by (simp add: ok accrued_reward_def set_user_reward_info_def get_user_reward_info_def get_balance_def) (elim exE conjE, simp)
      then obtain reward b where
        r: "unat reward = unat (balances t h) * unat delta div unat ACC_PRECISION"
        and b: "checked_add (reward_balance (user_reward_info t ?r)) reward = Some b"
        and d: "d = ?r"
        and t': "t' = t\<lparr>user_reward_info := (user_reward_info t)
          (?r := (user_reward_info t ?r)\<lparr>reward_balance := b\<rparr>, h := ?i\<lparr>reward_per_token := ?G\<rparr>)\<rparr>"
        unfolding checked_reward_Some by blast
      have "unat ACC_PRECISION * unat reward \<le> pending_of t h"
        using 3 G by (simp add: r pending_of_def opted_def)
      moreover from b d t' False have "claim_of t' = (claim_of t)(d := claim_of t d + unat reward)"
        by (auto simp: claim_of_def fun_eq_iff checked)
      ultimately show ?thesis using t' d False G by auto
    qed
  qed
qed


subsection \<open>Accounting quantities and their frame\<close>

text \<open>The supply that is in no balance, and the opted-in supply that is no stake. Both are zero
  between operations; inside an operation they track what is still to be booked.\<close>

definition gap :: "tip20 \<Rightarrow> int" where
  "gap t = int (unat (total_supply t)) - int (total_of (balances t))"

definition total_stake :: "tip20 \<Rightarrow> nat" where
  "total_stake t = (\<Sum>a\<in>UNIV. stake_of t a)"

definition opted_gap :: "tip20 \<Rightarrow> int" where
  "opted_gap t = int (unat (opted_in_supply t)) - int (total_stake t)"

definition markers_past :: "tip20 \<Rightarrow> bool" where
  "markers_past t \<longleftrightarrow>
     (\<forall>a. unat (reward_per_token (user_reward_info t a)) \<le> unat (global_reward_per_token t))"

text \<open>What booking steps leave alone, and that they never add to the rewards owed.\<close>

definition reward_frame :: "tip20 \<Rightarrow> tip20 \<Rightarrow> bool" where
  "reward_frame t t' \<longleftrightarrow> opted t' = opted t \<and> supply_cap t' = supply_cap t \<and>
     global_reward_per_token t' = global_reward_per_token t \<and> allowances t' = allowances t \<and>
     (\<forall>a. up_to_date t a \<longrightarrow> up_to_date t' a) \<and> (markers_past t \<longrightarrow> markers_past t') \<and>
     reward_debt t' \<le> reward_debt t"

lemma reward_frame_refl [simp]: "reward_frame t t"
  by (simp add: reward_frame_def)

lemma reward_frame_trans [trans]: "reward_frame t u \<Longrightarrow> reward_frame u v \<Longrightarrow> reward_frame t v"
  by (auto simp: reward_frame_def)

lemma reward_debt_cong:
  assumes "user_reward_info t' = user_reward_info t" "global_reward_per_token t' = global_reward_per_token t"
    "balances t' = balances t"
  shows "reward_debt t' = reward_debt t"
proof -
  have "claim_of t' = claim_of t" "pending_of t' = pending_of t"
    using assms by (auto simp: claim_of_def pending_of_def opted_def fun_eq_iff)
  then show ?thesis by (simp add: reward_debt_def)
qed

lemma total_stake_cong:
  "user_reward_info t' = user_reward_info t \<Longrightarrow> balances t' = balances t \<Longrightarrow> total_stake t' = total_stake t"
  by (auto simp: total_stake_def stake_of_def opted_def intro: sum.cong)

lemma frame_of_other_fields:
  assumes "user_reward_info t' = user_reward_info t" "global_reward_per_token t' = global_reward_per_token t"
    "balances t' = balances t" "supply_cap t' = supply_cap t" "allowances t' = allowances t"
  shows "reward_frame t t'"
  using assms reward_debt_cong [of t' t]
  by (auto simp: reward_frame_def opted_def up_to_date_def markers_past_def fun_eq_iff)

lemma update_rewards_frame:
  assumes "update_rewards h t = (Inr d, t')"
  shows "reward_frame t t' \<and> (d \<noteq> 0 \<longleftrightarrow> opted t h) \<and> up_to_date t' h \<and> gap t' = gap t \<and>
    opted_gap t' = opted_gap t \<and> balances t' = balances t \<and> total_supply t' = total_supply t \<and>
    opted_in_supply t' = opted_in_supply t"
proof -
  note eff = update_rewards_effect [OF assms]
  then have t': "t' = t\<lparr>user_reward_info := user_reward_info t'\<rparr>" by blast
  then have same: "balances t' = balances t" "total_supply t' = total_supply t"
    "supply_cap t' = supply_cap t" "opted_in_supply t' = opted_in_supply t" "allowances t' = allowances t"
    "global_reward_per_token t' = global_reward_per_token t"
    by (metis tip20.select_convs tip20.surjective tip20.update_convs(16))+
  have opted: "opted t' = opted t"
    using eff by (simp add: opted_def fun_eq_iff)
  then have stake: "total_stake t' = total_stake t"
    by (simp add: total_stake_def stake_of_def same cong: if_cong)
  from eff obtain r where r: "claim_of t' = (claim_of t)(d := claim_of t d + r)"
    "unat ACC_PRECISION * r \<le> pending_of t h"
    by blast
  have "pending_of t' = (pending_of t)(h := 0)"
    using eff opted by (simp add: pending_of_def fun_eq_iff same)
  then have pend: "(\<Sum>a\<in>UNIV. pending_of t' a) + pending_of t h = (\<Sum>a\<in>UNIV. pending_of t a)"
    using sum_fun_upd [of "pending_of t" h 0] by simp
  have "(\<Sum>a\<in>UNIV. claim_of t' a) = (\<Sum>a\<in>UNIV. claim_of t a) + r"
    using sum_fun_upd [of "claim_of t" d "claim_of t d + r"] r(1) by simp
  with pend r(2) have "reward_debt t' \<le> reward_debt t"
    by (simp add: reward_debt_def algebra_simps)
  moreover have "up_to_date t' h"
    using eff by (simp add: up_to_date_def same)
  moreover have "up_to_date t a \<longrightarrow> up_to_date t' a" for a
    using eff by (cases "a = h") (simp_all add: up_to_date_def same)
  moreover have "markers_past t \<longrightarrow> markers_past t'"
    using eff by (auto simp: markers_past_def same) (metis order_refl)
  moreover have "d \<noteq> 0 \<longleftrightarrow> opted t h"
    using eff by (simp add: opted_def)
  ultimately show ?thesis
    by (simp add: reward_frame_def opted same gap_def opted_gap_def stake)
qed

subsection \<open>The booking steps\<close>

lemma set_balance_step:
  assumes "set_balance a v t = (Inr u, t')" "up_to_date t a \<or> \<not> opted t a"
  shows "reward_frame t t' \<and> gap t' = gap t + int (unat (balances t a)) - int (unat v) \<and>
    opted_gap t' = opted_gap t + (if opted t a then int (unat (balances t a)) - int (unat v) else 0) \<and>
    balances t' = (balances t)(a := v) \<and> total_supply t' = total_supply t \<and>
    opted_in_supply t' = opted_in_supply t \<and> user_reward_info t' = user_reward_info t"
proof -
  from assms(1) have t': "t' = t\<lparr>balances := (balances t)(a := v)\<rparr>"
    by (simp add: set_balance_def ok)
  have op: "opted t' = opted t"
    by (auto simp: t' opted_def)
  have "pending_of t' = pending_of t"
    using assms(2) by (auto simp: t' pending_of_def up_to_date_def opted_def fun_eq_iff)
  moreover have "claim_of t' = claim_of t"
    by (simp add: t' claim_of_def fun_eq_iff)
  ultimately have "reward_debt t' = reward_debt t"
    by (simp add: reward_debt_def)
  moreover have "stake_of t' = (stake_of t)(a := if opted t a then unat v else 0)"
    by (auto simp: t' stake_of_def opted_def fun_eq_iff)
  then have "total_stake t' + stake_of t a = total_stake t + (if opted t a then unat v else 0)"
    using sum_fun_upd [of "stake_of t" a] by (simp add: total_stake_def)
  then have "opted_gap t' = opted_gap t + (if opted t a then int (unat (balances t a)) - int (unat v) else 0)"
    unfolding opted_gap_def stake_of_def [of t a] by (simp add: t' del: of_nat_unat split: if_splits)
  moreover have "gap t' = gap t + int (unat (balances t a)) - int (unat v)"
    using total_upd [of "balances t" a v] by (simp add: gap_def t' del: of_nat_unat)
  ultimately show ?thesis
    by (simp add: reward_frame_def op) (simp add: t' up_to_date_def markers_past_def)
qed

lemma increase_opted_in_supply_step:
  assumes "increase_opted_in_supply x t = (Inr u, t')"
  shows "reward_frame t t' \<and> gap t' = gap t \<and> opted_gap t' = opted_gap t + int (unat x) \<and>
    balances t' = balances t \<and> total_supply t' = total_supply t \<and> user_reward_info t' = user_reward_info t"
proof -
  from assms obtain v where t': "t' = t\<lparr>opted_in_supply := v\<rparr>"
    and v: "unat v = unat (opted_in_supply t) + unat x"
    by (auto simp: increase_opted_in_supply_def get_opted_in_supply_def set_opted_in_supply_def ok checked)
  have "reward_frame t t'"
    by (rule frame_of_other_fields) (simp_all add: t')
  moreover have "total_stake t' = total_stake t"
    by (rule total_stake_cong) (simp_all add: t')
  ultimately show ?thesis
    using v by (simp add: opted_gap_def gap_def del: of_nat_unat) (simp add: t' del: of_nat_unat)
qed

lemma decrease_opted_in_supply_step:
  assumes "decrease_opted_in_supply x t = (Inr u, t')"
  shows "reward_frame t t' \<and> gap t' = gap t \<and> opted_gap t' = opted_gap t - int (unat x) \<and>
    balances t' = balances t \<and> total_supply t' = total_supply t \<and> user_reward_info t' = user_reward_info t"
proof -
  from assms obtain v where t': "t' = t\<lparr>opted_in_supply := v\<rparr>"
    and v: "unat (opted_in_supply t) = unat x + unat v"
    by (auto simp: decrease_opted_in_supply_def get_opted_in_supply_def set_opted_in_supply_def ok checked)
  have "reward_frame t t'"
    by (rule frame_of_other_fields) (simp_all add: t')
  moreover have "total_stake t' = total_stake t"
    by (rule total_stake_cong) (simp_all add: t')
  ultimately show ?thesis
    using v by (simp add: opted_gap_def gap_def del: of_nat_unat) (simp add: t' del: of_nat_unat)
qed

text \<open>Steps that write none of the balances, rewards, supply or cap.\<close>

definition same_books :: "tip20 \<Rightarrow> tip20 \<Rightarrow> bool" where
  "same_books t t' \<longleftrightarrow> balances t' = balances t \<and> user_reward_info t' = user_reward_info t \<and>
     global_reward_per_token t' = global_reward_per_token t \<and> total_supply t' = total_supply t \<and>
     supply_cap t' = supply_cap t \<and> opted_in_supply t' = opted_in_supply t"

lemma same_books_refl [simp]: "same_books t t"
  by (simp add: same_books_def)

lemma same_books_trans: "same_books t u \<Longrightarrow> same_books u v \<Longrightarrow> same_books t v"
  by (simp add: same_books_def)

lemma same_books_measures:
  assumes "same_books t t'"
  shows "gap t' = gap t" "opted_gap t' = opted_gap t" "reward_debt t' = reward_debt t"
    "opted t' = opted t" "markers_past t' = markers_past t"
  using assms total_stake_cong [of t' t] reward_debt_cong [of t' t]
  by (simp_all add: same_books_def gap_def opted_gap_def opted_def [abs_def] markers_past_def)

lemma emit_step: "emit e t = (Inr u, t') \<Longrightarrow> same_books t t' \<and> reward_frame t t'"
  by (auto simp: emit_def ok same_books_def intro: frame_of_other_fields)

subsection \<open>Transfers between accounts\<close>

lemma handle_rewards_on_transfer_step:
  assumes "handle_rewards_on_transfer from to x t = (Inr u, t')"
  shows "reward_frame t t' \<and> up_to_date t' from \<and> up_to_date t' to \<and> gap t' = gap t \<and>
    balances t' = balances t \<and> total_supply t' = total_supply t \<and>
    opted_gap t' = opted_gap t - (if opted t from then int (unat x) else 0) + (if opted t to then int (unat x) else 0)"
proof -
  from assms obtain d1 t1 d2 t2 where
    r1: "update_rewards from t = (Inr d1, t1)" and r2: "update_rewards to t1 = (Inr d2, t2)"
    and r3: "(if d1 \<noteq> 0 then (if d2 = 0 then decrease_opted_in_supply x else eret ())
      else if d2 \<noteq> 0 then increase_opted_in_supply x else eret ()) t2 = (Inr u, t')"
    by (auto simp: handle_rewards_on_transfer_def ebind_ok)
  note s1 = update_rewards_frame [OF r1] and s2 = update_rewards_frame [OF r2]
  have op: "opted t2 = opted t" "(d1 \<noteq> 0) = opted t from" "(d2 \<noteq> 0) = opted t to"
    and f: "reward_frame t t2" "up_to_date t2 from" "up_to_date t2 to"
    using s1 s2 reward_frame_trans [of t t1 t2] by (auto simp: reward_frame_def)
  show ?thesis
  proof (cases "opted t from = opted t to")
    case True
    with r3 op have "t' = t2" by (auto simp: ok split: if_splits)
    with True f s1 s2 show ?thesis by simp
  next
    case False
    then consider "opted t from" "\<not> opted t to" | "\<not> opted t from" "opted t to" by blast
    then show ?thesis
    proof cases
      case 1
      with r3 op have "decrease_opted_in_supply x t2 = (Inr u, t')" by simp
      from decrease_opted_in_supply_step [OF this] 1 f s1 s2 show ?thesis
        using reward_frame_trans [of t t2 t'] by (simp add: reward_frame_def)
    next
      case 2
      with r3 op have "increase_opted_in_supply x t2 = (Inr u, t')" by simp
      from increase_opted_in_supply_step [OF this] 2 f s1 s2 show ?thesis
        using reward_frame_trans [of t t2 t'] by (simp add: reward_frame_def)
    qed
  qed
qed

text \<open>The balance an account has after a move of \<open>x\<close>, as an integer.\<close>

abbreviation bal :: "tip20 \<Rightarrow> address \<Rightarrow> int" where
  "bal t a \<equiv> int (unat (balances t a))"

lemma transfer_internal_step:
  assumes "transfer_internal self from to x t = (Inr u, t')" "\<not> opted t 0"
  shows "reward_frame t t' \<and> total_supply t' = total_supply t \<and> opted_gap t' = opted_gap t \<and>
    gap t' = gap t + (if to = 0 then int (unat x) else 0) \<and> unat x \<le> unat (balances t from) \<and>
    (\<forall>a. bal t' a = bal t a - (if a = from then int (unat x) else 0)
      + (if a = to \<and> to \<noteq> 0 then int (unat x) else 0))"
proof -
  from assms obtain t1 fb t2 t3 where
    le: "x \<le> balances t from"
    and r1: "handle_rewards_on_transfer from to x t = (Inr (), t1)"
    and fb: "checked_sub (balances t from) x = Some fb"
    and r2: "set_balance from fb t1 = (Inr (), t2)"
    and r3: "(if to \<noteq> 0 then
          ebind (get_balance to) (\<lambda>to_balance.
          ebind (eok_or (checked_add to_balance x) under_overflow) (\<lambda>new_to_balance.
          set_balance to new_to_balance))
        else eret ()) t2 = (Inr (), t3)"
    and r4: "emit (Transfer from to x) t3 = (Inr u, t')"
    by (auto simp: transfer_internal_def get_balance_def ebind_ok egets_ok erequire_ok eok_or_ok)
  note s1 = handle_rewards_on_transfer_step [OF r1]
  have s2: "reward_frame t1 t2" "gap t2 = gap t1 + int (unat x)"
    "opted_gap t2 = opted_gap t1 + (if opted t from then int (unat x) else 0)"
    "balances t2 = (balances t)(from := fb)" "total_supply t2 = total_supply t"
    using set_balance_step [OF r2] s1 fb by (auto simp: checked reward_frame_def simp del: of_nat_unat)
  have fb': "bal t from = int (unat x) + int (unat fb)"
    using fb by (simp add: checked del: of_nat_unat)
  have f2: "reward_frame t t2" using s1 s2 reward_frame_trans by blast
  have f4: "reward_frame t3 t'" "same_books t3 t'" using emit_step [OF r4] by simp_all
  show ?thesis
  proof (cases "to = 0")
    case True
    with r3 have "t3 = t2" by (simp add: ok)
    with True s1 s2 f2 f4 fb' assms(2) same_books_measures [OF f4(2)] le show ?thesis
      using reward_frame_trans [OF f2, of t'] by (auto simp: same_books_def word_le_nat_alt simp del: of_nat_unat)
  next
    case False
    with r3 obtain tb where tb: "checked_add (balances t2 to) x = Some tb" and r5: "set_balance to tb t2 = (Inr (), t3)"
      by (auto simp: ebind_ok get_balance_def egets_ok eok_or_ok)
    have tb': "int (unat tb) = int (unat (balances t2 to)) + int (unat x)"
      using tb by (simp add: checked del: of_nat_unat)
    have "up_to_date t2 to" "opted t2 to = opted t to"
      using s1 s2(1) f2 by (auto simp: reward_frame_def)
    with set_balance_step [OF r5] have s3: "reward_frame t2 t3" "gap t3 = gap t2 - int (unat x)"
      "opted_gap t3 = opted_gap t2 - (if opted t to then int (unat x) else 0)"
      "balances t3 = (balances t2)(to := tb)" "total_supply t3 = total_supply t2"
      using tb' by (auto simp del: of_nat_unat)
    have "reward_frame t t'" using f2 s3(1) f4(1) reward_frame_trans by blast
    moreover have "bal t' a = bal t a - (if a = from then int (unat x) else 0)
      + (if a = to \<and> to \<noteq> 0 then int (unat x) else 0)" for a
      using s2(4) s3(4) f4(2) tb' fb' False by (auto simp: same_books_def simp del: of_nat_unat)
    ultimately show ?thesis
      using s1 s2 s3 f4 False le same_books_measures [OF f4(2)]
      by (simp add: same_books_def word_le_nat_alt del: of_nat_unat)
  qed
qed

subsection \<open>The invariant of one token\<close>

text \<open>The accounts that hold balances on behalf of the protocol never opt in: the zero address,
  the token itself (the reward pool) and the fee manager, whose balance moves without reward
  bookkeeping.\<close>

definition books_ok :: "address \<Rightarrow> tip20 \<Rightarrow> bool" where
  "books_ok self t \<longleftrightarrow> total_of (balances t) = unat (total_supply t) \<and>
     unat (total_supply t) \<le> unat (supply_cap t) \<and> unat (supply_cap t) < 2 ^ 128 \<and>
     unat (opted_in_supply t) = total_stake t \<and> markers_past t \<and>
     \<not> opted t 0 \<and> \<not> opted t self \<and> \<not> opted t TIP_FEE_MANAGER_ADDRESS"

definition solvent :: "address \<Rightarrow> tip20 \<Rightarrow> bool" where
  "solvent self t \<longleftrightarrow> reward_debt t \<le> unat ACC_PRECISION * unat (balances t self) \<and>
     (\<forall>spender. allowances t self spender = 0)"

lemma books_ok_gaps:
  "books_ok self t \<longleftrightarrow> gap t = 0 \<and> opted_gap t = 0 \<and> unat (total_supply t) \<le> unat (supply_cap t) \<and>
     unat (supply_cap t) < 2 ^ 128 \<and> markers_past t \<and>
     \<not> opted t 0 \<and> \<not> opted t self \<and> \<not> opted t TIP_FEE_MANAGER_ADDRESS"
  by (auto simp: books_ok_def gap_def opted_gap_def simp del: of_nat_unat)

lemma books_ok_same: "same_books t t' \<Longrightarrow> books_ok self t' \<longleftrightarrow> books_ok self t"
  using same_books_measures [of t t'] by (simp add: books_ok_gaps) (simp add: same_books_def)

lemma books_ok_frame:
  assumes "reward_frame t t'" "gap t' = gap t" "opted_gap t' = opted_gap t" "total_supply t' = total_supply t"
  shows "books_ok self t \<Longrightarrow> books_ok self t'"
  using assms by (simp add: books_ok_gaps reward_frame_def)

lemma solvent_frame:
  assumes "reward_frame t t'" "unat (balances t self) \<le> unat (balances t' self)" "solvent self t"
  shows "solvent self t'"
proof -
  have "unat ACC_PRECISION * unat (balances t self) \<le> unat ACC_PRECISION * unat (balances t' self)"
    using assms(2) by simp
  moreover have "reward_debt t' \<le> unat ACC_PRECISION * unat (balances t self)"
    using assms(1,3) by (simp add: solvent_def reward_frame_def)
  ultimately have "reward_debt t' \<le> unat ACC_PRECISION * unat (balances t' self)"
    by linarith
  with assms(1,3) show ?thesis by (simp add: solvent_def reward_frame_def)
qed

lemma decrease_total_supply_step:
  assumes "decrease_total_supply self x t = (Inr u, t')"
  shows "reward_frame t t' \<and> gap t' = gap t - int (unat x) \<and> opted_gap t' = opted_gap t \<and>
    balances t' = balances t \<and> unat (total_supply t') \<le> unat (total_supply t)"
proof -
  from assms obtain v where t': "t' = t\<lparr>total_supply := v\<rparr>" and v: "unat (total_supply t) = unat x + unat v"
    by (auto simp: decrease_total_supply_def set_total_supply_def ok checked)
  have "reward_frame t t'" by (rule frame_of_other_fields) (simp_all add: t')
  moreover have "total_stake t' = total_stake t" by (rule total_stake_cong) (simp_all add: t')
  ultimately show ?thesis
    using v by (simp add: gap_def opted_gap_def del: of_nat_unat) (simp add: t' del: of_nat_unat)
qed

text \<open>Burning from an account: the transfer to the zero address and the supply decrease cancel.\<close>

lemma burn_from_step:
  assumes "transfer_internal self from 0 x t = (Inr u, t1)" "decrease_total_supply self x t1 = (Inr v, t')"
    "books_ok self t"
  shows "books_ok self t' \<and> (from \<noteq> self \<longrightarrow> solvent self t \<longrightarrow> solvent self t') \<and>
    unat (balances t from) = unat (balances t' from) + unat x \<and>
    unat (total_supply t) = unat (total_supply t') + unat x \<and> (\<forall>a. a \<noteq> from \<longrightarrow> balances t' a = balances t a)"
proof -
  have no0: "\<not> opted t 0" using assms(3) by (simp add: books_ok_def)
  note s1 = transfer_internal_step [OF assms(1) no0] and s2 = decrease_total_supply_step [OF assms(2)]
  have f: "reward_frame t t'" using s1 s2 reward_frame_trans by blast
  have books: "books_ok self t'"
    using s1 s2 f assms(3) by (auto simp: books_ok_gaps reward_frame_def simp del: of_nat_unat)
  have bals: "bal t' a = bal t a - (if a = from then int (unat x) else 0)" for a
    using s1 s2 by (simp del: of_nat_unat)
  have "gap t = 0" "gap t' = 0" using books assms(3) by (simp_all add: books_ok_gaps)
  moreover have "unat (total_supply t1) = unat x + unat (total_supply t')"
    using assms(2) by (auto simp: decrease_total_supply_def set_total_supply_def ok checked)
  ultimately have "unat (total_supply t) = unat (total_supply t') + unat x"
    using s1 by simp
  moreover have "solvent self t \<longrightarrow> solvent self t'" if "from \<noteq> self"
    using solvent_frame [OF f, of self] bals [of self] that by (simp del: of_nat_unat)
  moreover have "a \<noteq> from \<longrightarrow> balances t' a = balances t a" for a
    using bals [of a] by (cases "a = from") (simp_all add: word_unat_eq_iff [of "balances t' a"] del: of_nat_unat)
  moreover have "unat (balances t from) = unat (balances t' from) + unat x"
    using bals [of "from"] by (simp del: of_nat_unat)
  ultimately show ?thesis using books by blast
qed

subsection \<open>Minting, fees and rewards on one token\<close>

lemma handle_rewards_on_mint_step:
  assumes "handle_rewards_on_mint to x t = (Inr u, t')"
  shows "reward_frame t t' \<and> up_to_date t' to \<and> gap t' = gap t \<and> balances t' = balances t \<and>
    total_supply t' = total_supply t \<and> opted_gap t' = opted_gap t + (if opted t to then int (unat x) else 0)"
proof -
  from assms obtain d t1 where r1: "update_rewards to t = (Inr d, t1)"
    and r2: "(if d \<noteq> 0 then increase_opted_in_supply x else eret ()) t1 = (Inr u, t')"
    by (auto simp: handle_rewards_on_mint_def ebind_ok)
  note s1 = update_rewards_frame [OF r1]
  show ?thesis
  proof (cases "d = 0")
    case True
    with r2 have "t' = t1" by (simp add: ok)
    with True s1 show ?thesis by simp
  next
    case False
    with r2 have "increase_opted_in_supply x t1 = (Inr u, t')" by simp
    from increase_opted_in_supply_step [OF this] False s1 show ?thesis
      using reward_frame_trans [of t t1 t'] by (simp add: reward_frame_def)
  qed
qed

text \<open>Crediting an account whose rewards are up to date.\<close>

lemma credit_step:
  assumes "checked_add (balances t a) x = Some v" "set_balance a v t = (Inr u, t')" "up_to_date t a \<or> \<not> opted t a"
  shows "reward_frame t t' \<and> gap t' = gap t - int (unat x) \<and> total_supply t' = total_supply t \<and>
    opted_gap t' = opted_gap t - (if opted t a then int (unat x) else 0) \<and>
    balances t' = (balances t)(a := v) \<and> bal t' a = bal t a + int (unat x) \<and>
    user_reward_info t' = user_reward_info t"
  using set_balance_step [OF assms(2,3)] assms(1) by (auto simp: checked simp del: of_nat_unat)

lemma debit_step:
  assumes "checked_sub (balances t a) x = Some v" "set_balance a v t = (Inr u, t')" "up_to_date t a \<or> \<not> opted t a"
  shows "reward_frame t t' \<and> gap t' = gap t + int (unat x) \<and> total_supply t' = total_supply t \<and>
    opted_gap t' = opted_gap t + (if opted t a then int (unat x) else 0) \<and>
    balances t' = (balances t)(a := v) \<and> bal t' a = bal t a - int (unat x) \<and>
    user_reward_info t' = user_reward_info t"
  using set_balance_step [OF assms(2,3)] assms(1) by (auto simp: checked simp del: of_nat_unat)

lemma mint_body_step:
  assumes "handle_rewards_on_mint to x t = (Inr u1, t1)"
    and "checked_add (total_supply t) x = Some supply" "supply \<le> supply_cap t"
    and "set_total_supply supply t1 = (Inr u2, t2)"
    and "checked_add (balances t2 to) x = Some v" "set_balance to v t2 = (Inr u3, t3)"
    and "books_ok self t"
  shows "books_ok self t3 \<and> reward_frame t t3 \<and> unat (balances t self) \<le> unat (balances t3 self) \<and>
    balances t3 = (balances t)(to := v) \<and> total_supply t3 = supply"
proof -
  note s1 = handle_rewards_on_mint_step [OF assms(1)]
  from assms(4) have t2: "t2 = t1\<lparr>total_supply := supply\<rparr>" by (simp add: set_total_supply_def ok)
  have f2: "reward_frame t1 t2" by (rule frame_of_other_fields) (simp_all add: t2)
  have "total_stake t2 = total_stake t1" by (rule total_stake_cong) (simp_all add: t2)
  with t2 s1 assms(2) have s2: "gap t2 = gap t + int (unat x)" "opted_gap t2 = opted_gap t1" "balances t2 = balances t"
    "total_supply t2 = supply"
    by (auto simp: gap_def opted_gap_def checked simp del: of_nat_unat)
  from f2 s1 have up: "up_to_date t2 to" "opted t2 to = opted t to"
    by (auto simp: reward_frame_def)
  with credit_step [OF assms(5,6)] have s3: "reward_frame t2 t3" "gap t3 = gap t2 - int (unat x)"
    "opted_gap t3 = opted_gap t2 - (if opted t to then int (unat x) else 0)" "balances t3 = (balances t2)(to := v)"
    "total_supply t3 = supply"
    using s2 by simp_all
  have f: "reward_frame t t3" using s1 f2 s3(1) reward_frame_trans by blast
  have "books_ok self t3"
    using assms(3,7) s1 s2 s3 f by (simp add: books_ok_gaps reward_frame_def word_le_nat_alt del: of_nat_unat)
  moreover have "unat (balances t self) \<le> unat (balances t3 self)"
    using s2(3) s3(4) assms(5) by (simp add: checked)
  ultimately show ?thesis using f s2 s3 by simp
qed

lemma same_books_frame: "same_books t t' \<Longrightarrow> allowances t' = allowances t \<Longrightarrow> reward_frame t t'"
  by (rule frame_of_other_fields) (simp_all add: same_books_def)

lemma fee_pre_body_step:
  assumes "update_rewards from t = (Inr d, t1)"
    and "(if d \<noteq> 0 then decrease_opted_in_supply x else eret ()) t1 = (Inr u2, t2)"
    and "checked_sub (balances t from) x = Some v" "set_balance from v t2 = (Inr u3, t3)"
    and "checked_add (balances t3 TIP_FEE_MANAGER_ADDRESS) x = Some v'"
    and "set_balance TIP_FEE_MANAGER_ADDRESS v' t3 = (Inr u4, t4)"
    and "books_ok self t"
  shows "books_ok self t4 \<and> reward_frame t t4 \<and> total_supply t4 = total_supply t \<and>
    (\<forall>a. bal t4 a = bal t a - (if a = from then int (unat x) else 0)
      + (if a = TIP_FEE_MANAGER_ADDRESS then int (unat x) else 0))"
proof -
  note s1 = update_rewards_frame [OF assms(1)]
  have s2: "reward_frame t t2 \<and> gap t2 = gap t \<and> balances t2 = balances t \<and> total_supply t2 = total_supply t \<and>
      up_to_date t2 from \<and> opted_gap t2 = opted_gap t - (if opted t from then int (unat x) else 0)"
  proof (cases "d = 0")
    case True
    with assms(2) have "t2 = t1" by (simp add: ok)
    with True s1 show ?thesis by simp
  next
    case False
    with assms(2) have "decrease_opted_in_supply x t1 = (Inr u2, t2)" by simp
    from decrease_opted_in_supply_step [OF this] False s1 show ?thesis
      using reward_frame_trans [of t t1 t2] by (simp add: reward_frame_def)
  qed
  then have "opted t2 = opted t" by (simp add: reward_frame_def)
  with debit_step [OF _ assms(4), of x] s2 assms(3) have s3: "reward_frame t2 t3" "gap t3 = gap t2 + int (unat x)"
    "opted_gap t3 = opted_gap t" "balances t3 = (balances t)(from := v)" "total_supply t3 = total_supply t"
    by simp_all
  have f3: "reward_frame t t3" using s2 s3(1) reward_frame_trans by blast
  then have "\<not> opted t3 TIP_FEE_MANAGER_ADDRESS" using assms(7) by (simp add: books_ok_def reward_frame_def)
  with credit_step [OF assms(5,6)] have s4: "reward_frame t3 t4" "gap t4 = gap t3 - int (unat x)"
    "opted_gap t4 = opted_gap t3" "balances t4 = (balances t3)(TIP_FEE_MANAGER_ADDRESS := v')"
    "total_supply t4 = total_supply t3"
    by simp_all
  have f: "reward_frame t t4" using f3 s4(1) reward_frame_trans by blast
  moreover have "books_ok self t4"
    using f s2 s3 s4 assms(7) by (simp add: books_ok_gaps reward_frame_def del: of_nat_unat)
  moreover have "bal t4 a = bal t a - (if a = from then int (unat x) else 0)
      + (if a = TIP_FEE_MANAGER_ADDRESS then int (unat x) else 0)" for a
    using s3(4) s4(4) assms(3,5) by (auto simp: checked simp del: of_nat_unat)
  ultimately show ?thesis using s3 s4 by simp
qed

lemma transfer_fee_post_tx_step:
  assumes "transfer_fee_post_tx self to refund actual t = (Inr u, t')" "books_ok self t"
  shows "books_ok self t' \<and> reward_frame t t' \<and> total_supply t' = total_supply t \<and>
    (\<forall>a. bal t' a = bal t a - (if a = TIP_FEE_MANAGER_ADDRESS then int (unat refund) else 0)
      + (if a = to then int (unat refund) else 0))"
proof -
  from assms(1) obtain t0 where r0: "emit (Transfer to TIP_FEE_MANAGER_ADDRESS actual) t = (Inr (), t0)"
    by (auto simp: transfer_fee_post_tx_def ebind_ok)
  note s0 = emit_step [OF r0] and m0 = same_books_measures [OF conjunct1 [OF emit_step [OF r0]]]
  have books0: "books_ok self t0" using books_ok_same [of t t0 self] s0 assms(2) by blast
  show ?thesis
  proof (cases "refund = 0")
    case True
    with assms(1) r0 have "t' = t0" by (simp add: transfer_fee_post_tx_def ok)
    with s0 books0 True show ?thesis by (simp add: same_books_def)
  next
    case False
    with assms(1) r0 obtain d t1 t2 v t3 v' where
      r1: "update_rewards to t0 = (Inr d, t1)"
      and r2: "(if d \<noteq> 0 then increase_opted_in_supply refund else eret ()) t1 = (Inr (), t2)"
      and v: "checked_sub (balances t2 TIP_FEE_MANAGER_ADDRESS) refund = Some v"
      and r3: "set_balance TIP_FEE_MANAGER_ADDRESS v t2 = (Inr (), t3)"
      and v': "checked_add (balances t3 to) refund = Some v'"
      and r4: "set_balance to v' t3 = (Inr u, t')"
      by (auto simp: transfer_fee_post_tx_def ebind_ok get_balance_def egets_ok eok_or_ok)
    have r12: "handle_rewards_on_mint to refund t0 = (Inr (), t2)"
      using r1 r2 by (auto simp: handle_rewards_on_mint_def ebind_ok)
    note s2 = handle_rewards_on_mint_step [OF r12]
    then have op2: "opted t2 = opted t0" by (simp add: reward_frame_def)
    with debit_step [OF v r3] books0 have s3: "reward_frame t2 t3" "gap t3 = gap t2 + int (unat refund)"
      "opted_gap t3 = opted_gap t2" "balances t3 = (balances t2)(TIP_FEE_MANAGER_ADDRESS := v)"
      "total_supply t3 = total_supply t2"
      by (simp_all add: books_ok_def)
    then have "up_to_date t3 to" "opted t3 to = opted t0 to"
      using s2 op2 by (simp_all add: reward_frame_def)
    with credit_step [OF v' r4] have s4: "reward_frame t3 t'" "gap t' = gap t3 - int (unat refund)"
      "opted_gap t' = opted_gap t3 - (if opted t0 to then int (unat refund) else 0)"
      "balances t' = (balances t3)(to := v')" "total_supply t' = total_supply t3"
      by simp_all
    have f: "reward_frame t t'" using s0 s2 s3(1) s4(1) reward_frame_trans by blast
    moreover have "books_ok self t'"
      using f m0 s0 s2 s3 s4 assms(2) by (simp add: books_ok_gaps reward_frame_def same_books_def del: of_nat_unat)
    moreover have "bal t' a = bal t a - (if a = TIP_FEE_MANAGER_ADDRESS then int (unat refund) else 0)
      + (if a = to then int (unat refund) else 0)" for a
      using s0 s2 s3(4) s4(4) v v' by (auto simp: checked same_books_def simp del: of_nat_unat)
    moreover have "total_supply t' = total_supply t" using s0 s2 s3 s4 by (simp add: same_books_def)
    ultimately show ?thesis by blast
  qed
qed

text \<open>Raising the reward per token by \<open>delta\<close> adds at most the opted-in supply times \<open>delta\<close> to
  what is owed.\<close>

lemma raise_reward_debt:
  assumes "t' = t\<lparr>global_reward_per_token := G'\<rparr>" "unat G' = unat (global_reward_per_token t) + delta"
    "markers_past t"
  shows "reward_debt t' = reward_debt t + total_stake t * delta \<and> markers_past t' \<and>
    opted t' = opted t \<and> total_stake t' = total_stake t"
proof -
  have op: "opted t' = opted t" by (simp add: assms(1) opted_def [abs_def])
  have le: "unat (reward_per_token (user_reward_info t a)) \<le> unat (global_reward_per_token t)" for a
    using assms(3) by (simp add: markers_past_def)
  have "pending_of t' a = pending_of t a + stake_of t a * delta" for a
    using le [of a] assms(1,2) by (simp add: pending_of_def stake_of_def op algebra_simps add_mult_distrib2 [symmetric] del: mult_Suc_right)
      (simp add: diff_mult_distrib2 opted_def algebra_simps)
  then have "(\<Sum>a\<in>UNIV. pending_of t' a) = (\<Sum>a\<in>UNIV. pending_of t a) + total_stake t * delta"
    by (simp add: sum.distrib total_stake_def sum_distrib_right)
  moreover have "claim_of t' = claim_of t" by (simp add: assms(1) claim_of_def [abs_def])
  moreover have "markers_past t'"
    using le assms(1,2) by (auto simp: markers_past_def trans_le_add1)
  moreover have "total_stake t' = total_stake t" by (rule total_stake_cong) (simp_all add: assms(1))
  ultimately show ?thesis by (simp add: reward_debt_def op)
qed

lemma distribute_body_step:
  assumes "transfer_internal self from self x t = (Inr u, t1)"
    and "widen (opted_in_supply t1) = opted_in"
    and "Option.bind (checked_mul x ACC_PRECISION) (\<lambda>v. checked_div v opted_in) = Some delta"
    and "checked_add (global_reward_per_token t1) delta = Some G'"
    and "t2 = t1\<lparr>global_reward_per_token := G'\<rparr>"
    and "books_ok self t" "self \<noteq> 0"
  shows "books_ok self t2 \<and> (from \<noteq> self \<longrightarrow> solvent self t \<longrightarrow> solvent self t2)"
proof -
  have no0: "\<not> opted t 0" using assms(6) by (simp add: books_ok_def)
  note s1 = transfer_internal_step [OF assms(1) no0]
  have b1: "books_ok self t1"
    using books_ok_frame [of t t1 self] s1 assms(6,7) by simp
  from assms(4) have G': "unat G' = unat (global_reward_per_token t1) + unat delta"
    by (simp add: checked)
  have r: "reward_debt t2 = reward_debt t1 + total_stake t1 * unat delta" "markers_past t2" "opted t2 = opted t1"
    "total_stake t2 = total_stake t1"
    using raise_reward_debt [OF assms(5) G'] b1 by (simp_all add: books_ok_def)
  then have b2: "books_ok self t2"
    using b1 by (simp add: books_ok_def) (simp add: assms(5))
  have "unat delta = unat x * unat ACC_PRECISION div unat opted_in"
    using assms(3) by (simp add: checked_reward_Some)
  moreover have "unat opted_in = total_stake t1"
    using b1 assms(2) by (auto simp: books_ok_def)
  ultimately have d: "total_stake t1 * unat delta \<le> unat x * unat ACC_PRECISION"
    by simp
  have "solvent self t2" if "from \<noteq> self" "solvent self t"
  proof -
    have "bal t1 self = bal t self + int (unat x)" using s1 that(1) assms(7) by simp
    then have "unat (balances t1 self) = unat (balances t self) + unat x" by (simp del: of_nat_unat)
    moreover have "reward_debt t1 \<le> unat ACC_PRECISION * unat (balances t self)"
      using s1 that(2) by (simp add: reward_frame_def solvent_def)
    ultimately have "reward_debt t2 \<le> unat ACC_PRECISION * unat (balances t1 self)"
      using r(1) d by (simp add: algebra_simps)
    moreover have "allowances t1 = allowances t" using s1 by (simp add: reward_frame_def)
    ultimately show ?thesis using that(2) by (simp add: solvent_def) (simp add: assms(5))
  qed
  with b2 show ?thesis by blast
qed

text \<open>Changing the reward recipient of an up-to-date holder.\<close>

lemma set_recipient_step:
  assumes "t' = t\<lparr>user_reward_info := (user_reward_info t)(h := (user_reward_info t h)\<lparr>reward_recipient := r\<rparr>)\<rparr>"
    "up_to_date t h"
  shows "gap t' = gap t \<and> reward_debt t' = reward_debt t \<and> markers_past t' = markers_past t \<and>
    opted t' = (opted t)(h := r \<noteq> 0) \<and>
    opted_gap t' = opted_gap t + (if opted t h then bal t h else 0) - (if r \<noteq> 0 then bal t h else 0)"
proof -
  have op: "opted t' = (opted t)(h := r \<noteq> 0)"
    by (auto simp: assms(1) opted_def fun_eq_iff)
  have "pending_of t' = pending_of t" "claim_of t' = claim_of t"
    using assms(2) by (auto simp: pending_of_def claim_of_def opted_def up_to_date_def fun_eq_iff assms(1))
  moreover have "markers_past t' = markers_past t"
    by (auto simp: markers_past_def assms(1))
  moreover have "stake_of t' = (stake_of t)(h := if r \<noteq> 0 then unat (balances t h) else 0)"
    by (auto simp: stake_of_def op fun_eq_iff) (auto simp: assms(1))
  then have "total_stake t' + stake_of t h = total_stake t + (if r \<noteq> 0 then unat (balances t h) else 0)"
    using sum_fun_upd [of "stake_of t" h] by (simp add: total_stake_def)
  then have "opted_gap t' = opted_gap t + (if opted t h then bal t h else 0) - (if r \<noteq> 0 then bal t h else 0)"
    unfolding stake_of_def [of t h] opted_gap_def by (simp add: assms(1) del: of_nat_unat split: if_splits)
  moreover have "gap t' = gap t" by (simp add: gap_def assms(1))
  ultimately show ?thesis using op by (simp add: reward_debt_def)
qed

lemma set_recipient_body_step:
  assumes "update_rewards h t = (Inr d, t1)"
    and "(if d \<noteq> 0 then (if r = 0 then decrease_opted_in_supply (balances t1 h) else eret ())
           else if r \<noteq> 0 then increase_opted_in_supply (balances t1 h) else eret ()) t1 = (Inr u, t2)"
    and "t3 = t2\<lparr>user_reward_info := (user_reward_info t2)(h := (user_reward_info t2 h)\<lparr>reward_recipient := r\<rparr>)\<rparr>"
    and "books_ok self t" "h \<notin> {0, self, TIP_FEE_MANAGER_ADDRESS}"
  shows "books_ok self t3 \<and> (solvent self t \<longrightarrow> solvent self t3) \<and> balances t3 = balances t \<and>
    total_supply t3 = total_supply t"
proof -
  note s1 = update_rewards_frame [OF assms(1)]
  have s2: "reward_frame t1 t2 \<and> gap t2 = gap t \<and> balances t2 = balances t \<and> total_supply t2 = total_supply t \<and>
    user_reward_info t2 = user_reward_info t1 \<and>
    opted_gap t2 = opted_gap t - (if opted t h then bal t h else 0) + (if r \<noteq> 0 then bal t h else 0)"
  proof (cases "(d \<noteq> 0) = (r \<noteq> 0)")
    case True
    with assms(2) have "t2 = t1" by (auto simp: ok split: if_splits)
    with True s1 show ?thesis by auto
  next
    case False
    with assms(2) have "if d \<noteq> 0 then decrease_opted_in_supply (balances t1 h) t1 = (Inr u, t2)
        else increase_opted_in_supply (balances t1 h) t1 = (Inr u, t2)"
      by (auto split: if_splits)
    with False s1 decrease_opted_in_supply_step [of "balances t1 h" t1 u t2]
      increase_opted_in_supply_step [of "balances t1 h" t1 u t2]
    show ?thesis by (auto split: if_splits)
  qed
  have f: "reward_frame t t2" using s1 s2 reward_frame_trans by blast
  have "up_to_date t2 h" using s1 s2 by (simp add: reward_frame_def)
  note s3 = set_recipient_step [OF assms(3) this]
  have same: "supply_cap t3 = supply_cap t" "total_supply t3 = total_supply t" "balances t3 = balances t"
    "allowances t3 = allowances t"
    using s2 f by (simp_all add: assms(3) reward_frame_def)
  have op: "opted t3 = (opted t)(h := r \<noteq> 0)" using f s3 by (simp add: reward_frame_def)
  have "opted_gap t3 = opted_gap t" "gap t3 = gap t" "markers_past t \<longrightarrow> markers_past t3"
    using s2 s3 f by (simp_all add: reward_frame_def del: of_nat_unat)
  with assms(4,5) have "books_ok self t3"
    by (auto simp: books_ok_gaps same op)
  moreover have "solvent self t \<longrightarrow> solvent self t3"
    using f s3 by (simp add: solvent_def same reward_frame_def)
  ultimately show ?thesis using same by simp
qed

text \<open>Taking \<open>m\<close> off a holder's credited rewards lowers what is owed by \<open>m\<close>.\<close>

lemma pay_claim_step:
  assumes "t' = t\<lparr>user_reward_info := (user_reward_info t)(h := (user_reward_info t h)\<lparr>reward_balance := left\<rparr>)\<rparr>"
    "checked_sub (reward_balance (user_reward_info t h)) m = Some left"
  shows "gap t' = gap t \<and> opted_gap t' = opted_gap t \<and> opted t' = opted t \<and> markers_past t' = markers_past t \<and>
    up_to_date t' = up_to_date t \<and> reward_debt t = reward_debt t' + unat ACC_PRECISION * unat m"
proof -
  have op: "opted t' = opted t" by (auto simp: assms(1) opted_def fun_eq_iff)
  have "pending_of t' = pending_of t" by (auto simp: pending_of_def op fun_eq_iff) (auto simp: assms(1))
  moreover have "claim_of t' = (claim_of t)(h := claim_of t h - unat m)"
    using assms by (auto simp: claim_of_def fun_eq_iff checked)
  then have "(\<Sum>a\<in>UNIV. claim_of t' a) + claim_of t h = (\<Sum>a\<in>UNIV. claim_of t a) + (claim_of t h - unat m)"
    using sum_fun_upd [of "claim_of t" h] by simp
  moreover have "unat m \<le> claim_of t h" using assms(2) by (simp add: claim_of_def checked)
  ultimately have "pending_of t' = pending_of t" "(\<Sum>a\<in>UNIV. claim_of t a) = (\<Sum>a\<in>UNIV. claim_of t' a) + unat m"
    by linarith+
  then have "reward_debt t = reward_debt t' + unat ACC_PRECISION * unat m"
    by (simp add: reward_debt_def algebra_simps)
  moreover have "total_stake t' = total_stake t"
    using op by (simp add: total_stake_def stake_of_def assms(1) cong: if_cong)
  moreover have "up_to_date t' = up_to_date t" by (auto simp: up_to_date_def fun_eq_iff assms(1))
  moreover have "markers_past t' = markers_past t" by (auto simp: markers_past_def assms(1))
  ultimately show ?thesis using op by (simp add: gap_def opted_gap_def assms(1))
qed

text \<open>Paying \<open>m\<close> out of the reward pool to a holder whose rewards are up to date.\<close>

lemma pay_out_step:
  assumes "checked_sub (balances t self) m = Some v" "set_balance self v t = (Inr u1, t1)"
    and "checked_add (balances t1 h) m = Some v'" "set_balance h v' t1 = (Inr u2, t2)"
    and "(if opted t h then increase_opted_in_supply m else eret ()) t2 = (Inr u3, t3)"
    and "up_to_date t h" "\<not> opted t self"
  shows "reward_frame t t3 \<and> gap t3 = gap t \<and> opted_gap t3 = opted_gap t \<and> total_supply t3 = total_supply t \<and>
    user_reward_info t3 = user_reward_info t \<and>
    (\<forall>a. bal t3 a = bal t a - (if a = self then int (unat m) else 0) + (if a = h then int (unat m) else 0))"
proof -
  from debit_step [OF assms(1,2)] assms(7) have s1: "reward_frame t t1" "gap t1 = gap t + int (unat m)"
    "opted_gap t1 = opted_gap t" "balances t1 = (balances t)(self := v)" "total_supply t1 = total_supply t"
    "user_reward_info t1 = user_reward_info t"
    by simp_all
  then have up: "up_to_date t1 h" "opted t1 h = opted t h" using assms(6) by (simp_all add: reward_frame_def)
  from credit_step [OF assms(3,4)] up have s2: "reward_frame t1 t2" "gap t2 = gap t1 - int (unat m)"
    "opted_gap t2 = opted_gap t1 - (if opted t h then int (unat m) else 0)" "balances t2 = (balances t1)(h := v')"
    "total_supply t2 = total_supply t1" "user_reward_info t2 = user_reward_info t1"
    by simp_all
  have s3: "reward_frame t2 t3 \<and> gap t3 = gap t2 \<and> balances t3 = balances t2 \<and> total_supply t3 = total_supply t2 \<and>
    user_reward_info t3 = user_reward_info t2 \<and>
    opted_gap t3 = opted_gap t2 + (if opted t h then int (unat m) else 0)"
    using assms(5) increase_opted_in_supply_step [of m t2 u3 t3] by (auto simp: ok split: if_splits)
  have "reward_frame t t3" using s1(1) s2(1) s3 reward_frame_trans by blast
  moreover have "bal t3 a = bal t a - (if a = self then int (unat m) else 0) + (if a = h then int (unat m) else 0)" for a
    using s1(4) s2(4) s3 assms(1,3) by (auto simp: checked simp del: of_nat_unat)
  moreover have "gap t3 = gap t" "opted_gap t3 = opted_gap t" "total_supply t3 = total_supply t"
    "user_reward_info t3 = user_reward_info t"
    using s1 s2 s3 by (simp_all del: of_nat_unat)
  ultimately show ?thesis by blast
qed

lemma claim_body_step:
  assumes "update_rewards h t = (Inr d, t1)"
    and "m = min (reward_balance (user_reward_info t1 h)) (balances t1 self)"
    and "checked_sub (reward_balance (user_reward_info t1 h)) m = Some left"
    and "t2 = t1\<lparr>user_reward_info := (user_reward_info t1)(h := (user_reward_info t1 h)\<lparr>reward_balance := left\<rparr>)\<rparr>"
    and "if m = 0 then t3 = t2 else
      (\<exists>v u1 a1 v' u2 a2 u3. checked_sub (balances t2 self) m = Some v \<and> set_balance self v t2 = (Inr u1, a1) \<and>
        checked_add (balances a1 h) m = Some v' \<and> set_balance h v' a1 = (Inr u2, a2) \<and>
        (if opted t2 h then increase_opted_in_supply m else eret ()) a2 = (Inr u3, t3))"
    and "books_ok self t"
  shows "books_ok self t3 \<and> (solvent self t \<longrightarrow> solvent self t3 \<and> left = 0) \<and> total_supply t3 = total_supply t \<and>
    user_reward_info t3 = user_reward_info t2 \<and>
    (\<forall>a. bal t3 a = bal t a - (if a = self then int (unat m) else 0) + (if a = h then int (unat m) else 0))"
proof -
  note s1 = update_rewards_frame [OF assms(1)]
  note s2 = pay_claim_step [OF assms(4,3)]
  have same2: "supply_cap t2 = supply_cap t1" "total_supply t2 = total_supply t1" "balances t2 = balances t1"
    "allowances t2 = allowances t1"
    by (simp_all add: assms(4))
  have b2: "books_ok self t2"
    using s1 s2 assms(6) by (simp add: books_ok_gaps same2 reward_frame_def)
  have s3: "reward_frame t2 t3 \<and> gap t3 = gap t2 \<and> opted_gap t3 = opted_gap t2 \<and> total_supply t3 = total_supply t2 \<and>
    user_reward_info t3 = user_reward_info t2 \<and>
    (\<forall>a. bal t3 a = bal t2 a - (if a = self then int (unat m) else 0) + (if a = h then int (unat m) else 0))"
  proof (cases "m = 0")
    case True
    with assms(5) show ?thesis by simp
  next
    case False
    have up: "up_to_date t2 h" "\<not> opted t2 self" using s1 s2 b2 by (simp_all add: books_ok_def)
    from False assms(5) obtain v u1 a1 v' u2 a2 u3 where
      "checked_sub (balances t2 self) m = Some v" "set_balance self v t2 = (Inr u1, a1)"
      "checked_add (balances a1 h) m = Some v'" "set_balance h v' a1 = (Inr u2, a2)"
      "(if opted t2 h then increase_opted_in_supply m else eret ()) a2 = (Inr u3, t3)"
      by (simp only: if_False) blast
    from pay_out_step [OF this up] show ?thesis .
  qed
  have b3: "books_ok self t3" by (rule books_ok_frame [OF _ _ _ _ b2]) (use s3 in simp_all)
  have "solvent self t3" if "solvent self t"
  proof -
    have "bal t3 self \<ge> bal t self - int (unat m)" using s1 s3 same2 by (simp del: of_nat_unat)
    then have "unat (balances t self) \<le> unat (balances t3 self) + unat m"
      by (simp del: of_nat_unat)
    then have "unat ACC_PRECISION * unat (balances t self) \<le> unat ACC_PRECISION * (unat (balances t3 self) + unat m)"
      by (rule mult_le_mono2)
    moreover have "reward_debt t3 + unat ACC_PRECISION * unat m \<le> reward_debt t"
      using s1 s2 s3 by (simp add: reward_frame_def)
    moreover have "reward_debt t \<le> unat ACC_PRECISION * unat (balances t self)" using that by (simp add: solvent_def)
    ultimately have "reward_debt t3 \<le> unat ACC_PRECISION * unat (balances t3 self)"
      unfolding add_mult_distrib2 by linarith
    with that s1 s3 same2 show ?thesis by (simp add: solvent_def reward_frame_def)
  qed
  moreover have "left = 0" if "solvent self t"
  proof -
    have "unat ACC_PRECISION * claim_of t1 h \<le> reward_debt t1"
      using member_le_sum [of h UNIV "claim_of t1"] by (simp add: reward_debt_def trans_le_add1)
    also have "\<dots> \<le> unat ACC_PRECISION * unat (balances t1 self)"
      using s1 that by (simp add: reward_frame_def solvent_def)
    finally have "reward_balance (user_reward_info t1 h) \<le> balances t1 self"
      using ACC_PRECISION_pos by (simp add: claim_of_def word_le_nat_alt)
    with assms(2,3) show ?thesis by (simp add: checked_sub_def min_def)
  qed
  moreover have "bal t3 a = bal t a - (if a = self then int (unat m) else 0) + (if a = h then int (unat m) else 0)" for a
    using s1 s3 same2 by (simp del: of_nat_unat)
  moreover have "total_supply t3 = total_supply t" using s1 s3 same2 by simp
  ultimately show ?thesis using b3 s3 by blast
qed

end
