(* ===== verification/Tip20_World.thy ===== *)
theory Tip20_World
  imports Tip20_Ledger
begin

section \<open>All tokens together: dispatch, the factory and the accounting invariants\<close>

text \<open>
  The calls that reach the tokens, as one transition system: the calls that
  \<open>precompiles/src/tip20/dispatch.rs\<close> routes to a token, the fee hooks and system transfers
  that the transaction handler and the exchange make directly, the calls of the registry,
  the keychain and the factory. The accounting invariants of \<open>Tip20_Ledger\<close> are shown for
  every interleaving of them, over all tokens.
\<close>

datatype tip20_call =
    TransferFromCall address address u256
  | TransferCall address u256
  | ApproveCall address u256
  | ChangeTransferPolicyIdCall u64
  | SetSupplyCapCall u256
  | PauseCall
  | UnpauseCall
  | SetNextQuoteTokenCall address
  | CompleteQuoteTokenUpdateCall
  | MintCall address u256
  | MintWithMemoCall address u256 b256
  | BurnCall u256
  | BurnWithMemoCall u256 b256
  | BurnBlockedCall address u256
  | TransferWithMemoCall address u256 b256
  | TransferFromWithMemoCall address address u256 b256
  | DistributeRewardCall u256
  | SetRewardRecipientCall address
  | ClaimRewardsCall
  | GrantRoleCall b256 address
  | RevokeRoleCall b256 address
  | RenounceRoleCall b256
  | SetRoleAdminCall b256 b256

text \<open>The state-changing arms of the dispatch; a result is dropped, as it only goes into the
  return data.\<close>

definition evoid :: "('s, 'e, 'a) pre \<Rightarrow> ('s, 'e, unit) pre" where
  "evoid m = ebind m (\<lambda>_. eret ())"

fun tip20_dispatch :: "env \<Rightarrow> nat \<Rightarrow> address \<Rightarrow> address \<Rightarrow> tip20_call \<Rightarrow> ('x, unit) wop" where
  "tip20_dispatch env gas self s (TransferFromCall from to amount) =
     evoid (transfer_from env self s from to amount)"
| "tip20_dispatch env gas self s (TransferCall to amount) = evoid (transfer env self s to amount)"
| "tip20_dispatch env gas self s (ApproveCall spender amount) = evoid (approve env self s spender amount)"
| "tip20_dispatch env gas self s (ChangeTransferPolicyIdCall pid) = change_transfer_policy_id self s pid"
| "tip20_dispatch env gas self s (SetSupplyCapCall cap) = on_token self (set_supply_cap s cap)"
| "tip20_dispatch env gas self s PauseCall = on_token self (pause env s)"
| "tip20_dispatch env gas self s UnpauseCall = on_token self (unpause env s)"
| "tip20_dispatch env gas self s (SetNextQuoteTokenCall quote) = set_next_quote_token self s quote"
| "tip20_dispatch env gas self s CompleteQuoteTokenUpdateCall = complete_quote_token_update gas self s"
| "tip20_dispatch env gas self s (MintCall to amount) = mint env self s to amount"
| "tip20_dispatch env gas self s (MintWithMemoCall to amount memo) = mint_with_memo env self s to amount memo"
| "tip20_dispatch env gas self s (BurnCall amount) = on_token self (burn env self s amount)"
| "tip20_dispatch env gas self s (BurnWithMemoCall amount memo) = on_token self (burn_with_memo env self s amount memo)"
| "tip20_dispatch env gas self s (BurnBlockedCall from amount) = burn_blocked env self s from amount"
| "tip20_dispatch env gas self s (TransferWithMemoCall to amount memo) = transfer_with_memo env self s to amount memo"
| "tip20_dispatch env gas self s (TransferFromWithMemoCall from to amount memo) =
     evoid (transfer_from_with_memo env self s from to amount memo)"
| "tip20_dispatch env gas self s (DistributeRewardCall amount) = distribute_reward env self s amount"
| "tip20_dispatch env gas self s (SetRewardRecipientCall recipient) = set_reward_recipient env self s recipient"
| "tip20_dispatch env gas self s ClaimRewardsCall = evoid (claim_rewards env self s)"
| "tip20_dispatch env gas self s (GrantRoleCall role account) = on_token self (grant_role s role account)"
| "tip20_dispatch env gas self s (RevokeRoleCall role account) = on_token self (revoke_role s role account)"
| "tip20_dispatch env gas self s (RenounceRoleCall role) = on_token self (renounce_role s role)"
| "tip20_dispatch env gas self s (SetRoleAdminCall role admin_role) = on_token self (set_role_admin s role admin_role)"

text \<open>The entry point: a call reaches the token precompile when the address carries the token
  prefix, and is rejected when the account has no code.\<close>

definition tip20_call_entry :: "env \<Rightarrow> nat \<Rightarrow> address \<Rightarrow> address \<Rightarrow> tip20_call \<Rightarrow> ('x, unit) wop" where
  "tip20_call_entry env gas self msg_sender c =
     ebind (from_address self) (\<lambda>_.
     ebind (egets (\<lambda>w. has_code w self)) (\<lambda>initialized.
     ebind (erequire initialized (TIP20 TIP20_Uninitialized)) (\<lambda>_.
     tip20_dispatch env gas self msg_sender c)))"

datatype world_call =
    TokenCall nat address address tip20_call
  | SystemTransferFrom address address address u256
  | FeePreTx address address u256
  | FeePostTx address address u256 u256
  | CreateTokenCall address string string string address address b256
  | CreateTokenReserved address string string string address address
  | RegistryCall address registry_call
  | KeychainCall keychain_call

fun world_op :: "env \<Rightarrow> world_call \<Rightarrow> ('x, unit) wop" where
  "world_op env (TokenCall gas self sender c) = tip20_call_entry env gas self sender c"
| "world_op env (SystemTransferFrom self from to amount) =
     ebind (from_address self) (\<lambda>_. evoid (system_transfer_from env self from to amount))"
| "world_op env (FeePreTx self from amount) =
     ebind (from_address self) (\<lambda>_. transfer_fee_pre_tx env self from amount)"
| "world_op env (FeePostTx self to refund actual) =
     ebind (from_address self) (\<lambda>_. on_token self (transfer_fee_post_tx self to refund actual))"
| "world_op env (CreateTokenCall sender name symbol cur quote admin salt) =
     evoid (create_token env sender name symbol cur quote admin salt)"
| "world_op env (CreateTokenReserved address name symbol cur quote admin) =
     evoid (create_token_reserved_address address name symbol cur quote admin)"
| "world_op env (RegistryCall sender c) = on_registry (registry_op env sender c)"
| "world_op env (KeychainCall c) = on_keychain (keychain_op env c)"

definition world_exec :: "env \<times> world_call \<Rightarrow> 'x world_scheme \<Rightarrow> 'x world_scheme" where
  "world_exec c = commit (world_op (fst c) (snd c))"

subsection \<open>Inverting the parts of a call\<close>

lemma evoid_ok: "evoid m s = (Inr u, s') \<longleftrightarrow> (\<exists>v. m s = (Inr v, s'))"
  by (auto simp: evoid_def ok)

lemma on_token_ok:
  "on_token self m w = (Inr v, w') \<longleftrightarrow>
     (\<exists>t'. m (tokens w self) = (Inr v, t') \<and> w' = w\<lparr>tokens := (tokens w)(self := t')\<rparr>)"
  by (simp add: on_token_def ezoom_ok)

lemma on_keychain_ok:
  "on_keychain m w = (Inr v, w') \<longleftrightarrow> (\<exists>k. m (w_keychain w) = (Inr v, k) \<and> w' = w\<lparr>w_keychain := k\<rparr>)"
  by (simp add: on_keychain_def ezoom_ok)

lemma on_registry_ok:
  "on_registry m w = (Inr v, w') \<longleftrightarrow> (\<exists>r. m (w_registry w) = (Inr v, r) \<and> w' = w\<lparr>w_registry := r\<rparr>)"
  by (simp add: on_registry_def ezoom_ok)

lemma is_authorized_read:
  "on_registry (is_authorized env pid a) w = (Inr v, w') \<longleftrightarrow>
     w' = w \<and> is_authorized env pid a (w_registry w) = (Inr v, w_registry w)"
  by (auto simp: on_registry_ok dest: is_authorized_pure)

lemma token_checks:
  "check_role a r t = (Inr u, t') \<longleftrightarrow> roles t a r \<and> t' = t"
  "check_not_paused t = (Inr u, t') \<longleftrightarrow> \<not> paused t \<and> t' = t"
  "check_recipient to t = (Inr u, t') \<longleftrightarrow> \<not> (to = 0 \<or> is_tip20_prefix to) \<and> t' = t"
  "get_balance b t = (Inr x, t') \<longleftrightarrow> x = balances t b \<and> t' = t"
  "get_allowance b c t = (Inr x, t') \<longleftrightarrow> x = allowances t b c \<and> t' = t"
  "get_user_reward_info b t = (Inr i, t') \<longleftrightarrow> i = user_reward_info t b \<and> t' = t"
  by (auto simp: ok check_role_def has_role_internal_def check_not_paused_def check_recipient_def
      get_balance_def get_allowance_def get_user_reward_info_def)

lemma tokens_same [simp]: "w\<lparr>tokens := (tokens w)(self := tokens w self)\<rparr> = w"
  by simp

lemma authorization_reads:
  "is_user_authorized env self a w = (Inr v, w') \<Longrightarrow> w' = w"
  "is_transfer_authorized env self a b w = (Inr v, w') \<Longrightarrow> w' = w"
  "ensure_transfer_authorized env self a b w = (Inr u, w') \<Longrightarrow> w' = w"
  "(if c then ensure_transfer_authorized env self a b else eret ()) w = (Inr u, w') \<Longrightarrow> w' = w"
  by (auto split: if_splits simp: is_user_authorized_def is_transfer_authorized_def ensure_transfer_authorized_def ok
      on_token_ok is_authorized_read)

lemma lookup_reads:
  "is_tip20 a w = (Inr v, w') \<longleftrightarrow> v = (is_tip20_prefix a \<and> has_code w a) \<and> w' = w"
  "token_currency a w = (Inr c, w') \<longleftrightarrow> is_tip20_prefix a \<and> c = currency (tokens w a) \<and> w' = w"
  "token_quote a w = (Inr q, w') \<longleftrightarrow> is_tip20_prefix a \<and> q = quote_token (tokens w a) \<and> w' = w"
  "from_address a w = (Inr u, w') \<longleftrightarrow> is_tip20_prefix a \<and> w' = w"
  by (auto simp: is_tip20_def token_currency_def token_quote_def from_address_def ok)

subsection \<open>What one call does to the books of a token\<close>

text \<open>A call on token \<open>self\<close> touches no other token, keeps its books and, when it is safe for the
  reward pool, its solvency.\<close>

definition token_step :: "address \<Rightarrow> bool \<Rightarrow> 'x world_scheme \<Rightarrow> 'x world_scheme \<Rightarrow> bool" where
  "token_step self safe w w' \<longleftrightarrow> (\<forall>a. a \<noteq> self \<longrightarrow> tokens w' a = tokens w a) \<and> has_code w' = has_code w \<and>
     (books_ok self (tokens w self) \<longrightarrow> books_ok self (tokens w' self) \<and>
       (safe \<longrightarrow> solvent self (tokens w self) \<longrightarrow> solvent self (tokens w' self)))"

lemma token_step_refl [simp]: "token_step self safe w w"
  by (simp add: token_step_def)

lemma token_step_keychain [simp]: "token_step self safe (w\<lparr>w_keychain := k\<rparr>) w' = token_step self safe w w'"
  by (simp add: token_step_def)

lemma token_step_upd:
  assumes "books_ok self (tokens w self) \<Longrightarrow> books_ok self t' \<and> (safe \<longrightarrow> solvent self (tokens w self) \<longrightarrow> solvent self t')"
  shows "token_step self safe w (w\<lparr>tokens := (tokens w)(self := t')\<rparr>)"
  using assms by (auto simp: token_step_def)

lemma books_emit:
  assumes "emit e t = (Inr u, t')"
  shows "books_ok self t' = books_ok self t" "solvent self t' = solvent self t"
  using assms books_ok_same [of t t' self] emit_step [OF assms] same_books_measures [of t t']
  by (auto simp: solvent_def emit_def ok)

lemma transfer_books:
  assumes "transfer_internal self from to x t = (Inr u, t')" "books_ok self t" "to \<noteq> 0"
  shows "books_ok self t' \<and> (from \<noteq> self \<or> x = 0 \<longrightarrow> solvent self t \<longrightarrow> solvent self t')"
proof -
  have "\<not> opted t 0" using assms(2) by (simp add: books_ok_def)
  note s = transfer_internal_step [OF assms(1) this]
  have "books_ok self t'" using books_ok_frame [of t t' self] s assms(2,3) by simp
  moreover have "solvent self t'" if "from \<noteq> self \<or> x = 0" "solvent self t"
  proof (rule solvent_frame [OF _ _ that(2)])
    show "reward_frame t t'" using s by blast
    have "bal t' self = bal t self + (if self = to \<and> to \<noteq> 0 then int (unat x) else 0)"
      using s that(1) by auto
    then show "unat (balances t self) \<le> unat (balances t' self)" by (simp del: of_nat_unat split: if_splits)
  qed
  ultimately show ?thesis by blast
qed

lemma set_allowance_books:
  assumes "set_allowance owner spender x t = (Inr u, t')"
  shows "books_ok self t' = books_ok self t" "owner \<noteq> self \<Longrightarrow> solvent self t' = solvent self t"
    "solvent self t \<Longrightarrow> x = 0 \<Longrightarrow> solvent self t'"
proof -
  have t': "t' = t\<lparr>allowances := (allowances t)(owner := (allowances t owner)(spender := x))\<rparr>"
    using assms by (simp add: set_allowance_def ok)
  have "same_books t t'" by (simp add: t' same_books_def)
  note m = same_books_measures [OF this] books_ok_same [OF this]
  show "books_ok self t' = books_ok self t" by (rule m)
  show "solvent self t' = solvent self t" if "owner \<noteq> self" using m that by (simp add: solvent_def) (simp add: t')
  show "solvent self t'" if "solvent self t" "x = 0" using m that by (auto simp: solvent_def t')
qed

lemmas world_ok = ok evoid_ok on_token_ok on_keychain_ok token_checks lookup_reads

lemma token_step_upd_keychain:
  assumes "books_ok self (tokens w self) \<Longrightarrow> books_ok self t' \<and> (safe \<longrightarrow> solvent self (tokens w self) \<longrightarrow> solvent self t')"
  shows "token_step self safe w (w\<lparr>w_keychain := k, tokens := (tokens w)(self := t')\<rparr>)"
  using assms by (auto simp: token_step_def)

lemma transfer_token_step:
  assumes "transfer env self sender to x w = (Inr v, w')"
  shows "token_step self (sender \<noteq> self) w w'"
  using assms
  by (auto simp: transfer_def world_ok dest!: authorization_reads intro!: token_step_upd_keychain
      dest: transfer_books)

lemma system_transfer_from_token_step:
  assumes "system_transfer_from env self from to x w = (Inr v, w')"
  shows "token_step self (from \<noteq> self) w w'"
  using assms
  by (auto simp: system_transfer_from_def check_and_update_spending_limit_def world_ok dest!: authorization_reads
      intro!: token_step_upd_keychain dest: transfer_books)

lemma transfer_with_memo_token_step:
  assumes "transfer_with_memo env self sender to x memo w = (Inr v, w')"
  shows "token_step self (sender \<noteq> self) w w'"
  using assms
  by (auto simp: transfer_with_memo_def check_and_update_spending_limit_def world_ok books_emit
      dest!: authorization_reads intro!: token_step_upd_keychain) (auto dest: transfer_books)

lemma approve_token_step:
  assumes "approve env self sender spender x w = (Inr v, w')"
  shows "token_step self (sender \<noteq> self) w w'"
  using assms
  by (auto simp: approve_def world_ok books_emit set_allowance_books intro!: token_step_upd_keychain)

lemma transfer_from_internal_token_step:
  assumes "transfer_from_internal env self sender from to x w = (Inr v, w')"
  shows "token_step self True w w'"
proof -
  let ?t = "tokens w self"
  from assms obtain t1 t2 where to: "to \<noteq> 0" and le: "x \<le> allowances ?t from sender"
    and r1: "(if allowances ?t from sender \<noteq> MAX_WORD then
         ebind (eok_or (checked_sub (allowances ?t from sender) x) (TIP20 TIP20_InsufficientAllowance)) (\<lambda>a.
         set_allowance from sender a)
       else eret ()) ?t = (Inr (), t1)"
    and r2: "transfer_internal self from to x t1 = (Inr (), t2)"
    and w': "w' = w\<lparr>tokens := (tokens w)(self := t2)\<rparr>"
    by (auto simp: transfer_from_internal_def ebind_ok egets_ok erequire_ok eret_ok on_token_ok token_checks not_less
        dest!: authorization_reads)
  have step1: "books_ok self t1 = books_ok self ?t \<and>
    (solvent self ?t \<longrightarrow> (from \<noteq> self \<or> x = 0) \<and> solvent self t1)"
  proof (cases "allowances ?t from sender = MAX_WORD")
    case True
    with r1 have "t1 = ?t" by (simp add: ok)
    moreover have "from \<noteq> self" if "solvent self ?t" using True that by (auto simp: solvent_def)
    ultimately show ?thesis by auto
  next
    case False
    with r1 obtain a where r: "set_allowance from sender a ?t = (Inr (), t1)"
      and a: "unat (allowances ?t from sender) = unat x + unat a" by (auto simp: ok checked)
    have "from \<noteq> self \<or> x = 0 \<and> a = 0" if "solvent self ?t"
      using that a by (auto simp: solvent_def unat_eq_zero)
    with set_allowance_books [OF r] show ?thesis by blast
  qed
  show ?thesis unfolding w'
    by (rule token_step_upd) (use step1 transfer_books [OF r2 _ to] in blast)
qed

lemma transfer_from_token_step:
  "transfer_from env self sender from to x w = (Inr v, w') \<Longrightarrow> token_step self True w w'"
  by (auto simp: transfer_from_def dest: transfer_from_internal_token_step)

lemma token_step_then:
  assumes "token_step self safe w w1" "w' = w1\<lparr>tokens := (tokens w1)(self := t')\<rparr>"
    "books_ok self t' = books_ok self (tokens w1 self)" "solvent self t' = solvent self (tokens w1 self)"
  shows "token_step self safe w w'"
  using assms by (auto simp: token_step_def)

lemma transfer_from_with_memo_token_step:
  assumes "transfer_from_with_memo env self sender from to x memo w = (Inr v, w')"
  shows "token_step self True w w'"
proof -
  from assms obtain v' w1 t' where r: "transfer_from_internal env self sender from to x w = (Inr v', w1)"
    and e: "emit (TransferWithMemo from to x memo) (tokens w1 self) = (Inr (), t')"
    and w': "w' = w1\<lparr>tokens := (tokens w1)(self := t')\<rparr>"
    by (auto simp: transfer_from_with_memo_def world_ok)
  show ?thesis
    by (rule token_step_then [OF transfer_from_internal_token_step [OF r] w' books_emit [OF e]])
qed

lemma mint_internal_token_step:
  assumes "mint_internal env self sender to x w = (Inr v, w')"
  shows "token_step self True w w'"
proof -
  let ?t = "tokens w self"
  from assms obtain sup t1 t2 b t3 t4 where
    "checked_add (total_supply ?t) x = Some sup" "sup \<le> supply_cap ?t"
    "handle_rewards_on_mint to x ?t = (Inr (), t1)" "set_total_supply sup t1 = (Inr (), t2)"
    "checked_add (balances t2 to) x = Some b" "set_balance to b t2 = (Inr (), t3)"
    and e: "emit (Transfer 0 to x) t3 = (Inr (), t4)"
    and w': "w' = w\<lparr>tokens := (tokens w)(self := t4)\<rparr>"
    by (auto simp: mint_internal_def ebind_ok egets_ok erequire_ok eok_or_ok on_token_ok token_checks not_less
        dest!: authorization_reads)
  then have "books_ok self t3 \<and> (solvent self ?t \<longrightarrow> solvent self t3)" if "books_ok self ?t"
    using mint_body_step [of to x ?t "()" t1 sup "()" t2 b "()" t3 self] that solvent_frame [of ?t t3 self] by blast
  then show ?thesis unfolding w'
    by (intro token_step_upd) (simp add: books_emit [OF e])
qed

lemma mint_token_step:
  assumes "mint env self sender to x w = (Inr v, w')"
  shows "token_step self True w w'"
proof -
  from assms obtain v' w1 t' where r: "mint_internal env self sender to x w = (Inr v', w1)"
    and e: "emit (Mint to x) (tokens w1 self) = (Inr (), t')"
    and w': "w' = w1\<lparr>tokens := (tokens w1)(self := t')\<rparr>"
    by (auto simp: mint_def world_ok)
  show ?thesis
    by (rule token_step_then [OF mint_internal_token_step [OF r] w' books_emit [OF e]])
qed

lemma mint_with_memo_token_step:
  assumes "mint_with_memo env self sender to x memo w = (Inr v, w')"
  shows "token_step self True w w'"
proof -
  from assms obtain v' w1 t1 t' where r: "mint_internal env self sender to x w = (Inr v', w1)"
    and e: "emit (TransferWithMemo 0 to x memo) (tokens w1 self) = (Inr (), t1)" "emit (Mint to x) t1 = (Inr (), t')"
    and w': "w' = w1\<lparr>tokens := (tokens w1)(self := t')\<rparr>"
    by (auto simp: mint_with_memo_def world_ok)
  show ?thesis
    by (rule token_step_then [OF mint_internal_token_step [OF r] w']) (simp_all add: books_emit [OF e(1)] books_emit [OF e(2)])
qed

lemma burn_internal_books:
  assumes "burn_internal env self sender x t = (Inr v, t')" "books_ok self t"
  shows "books_ok self t' \<and> (sender \<noteq> self \<longrightarrow> solvent self t \<longrightarrow> solvent self t')"
  using assms by (auto simp: burn_internal_def ebind_ok token_checks dest!: burn_from_step)

lemma burn_token_steps:
  "on_token self (burn env self sender x) w = (Inr v, w') \<Longrightarrow> token_step self (sender \<noteq> self) w w'"
  "on_token self (burn_with_memo env self sender x memo) w = (Inr v, w') \<Longrightarrow> token_step self (sender \<noteq> self) w w'"
  by (auto simp: burn_def burn_with_memo_def on_token_ok ebind_ok books_emit
      intro!: token_step_upd dest: burn_internal_books)

lemma burn_blocked_token_step:
  assumes "burn_blocked env self sender from x w = (Inr v, w')"
  shows "token_step self (from \<noteq> self) w w'"
  using assms
  by (auto simp: burn_blocked_def ebind_ok erequire_ok on_token_ok token_checks books_emit
      dest!: authorization_reads intro!: token_step_upd dest: burn_from_step)

lemma transfer_fee_pre_tx_token_step:
  assumes "transfer_fee_pre_tx env self from x w = (Inr v, w')"
  shows "token_step self (from \<noteq> self) w w'"
proof -
  let ?t = "tokens w self"
  from assms obtain k d t1 t2 b t3 b' t4 where
    r: "update_rewards from ?t = (Inr d, t1)"
      "(if d \<noteq> 0 then decrease_opted_in_supply x else eret ()) t1 = (Inr (), t2)"
      "checked_sub (balances ?t from) x = Some b" "set_balance from b t2 = (Inr (), t3)"
      "checked_add (balances t3 TIP_FEE_MANAGER_ADDRESS) x = Some b'"
      "set_balance TIP_FEE_MANAGER_ADDRESS b' t3 = (Inr (), t4)"
    and w': "w' = w\<lparr>w_keychain := k, tokens := (tokens w)(self := t4)\<rparr>"
    by (auto simp: transfer_fee_pre_tx_def check_and_update_spending_limit_def ebind_ok egets_ok erequire_ok eok_or_ok
        on_token_ok on_keychain_ok token_checks)
  have "books_ok self t4 \<and> (from \<noteq> self \<longrightarrow> solvent self ?t \<longrightarrow> solvent self t4)" if "books_ok self ?t"
  proof -
    note s = fee_pre_body_step [OF r that]
    have "unat (balances ?t self) \<le> unat (balances t4 self)" if "from \<noteq> self"
    proof -
      have "bal t4 self = bal ?t self + (if self = TIP_FEE_MANAGER_ADDRESS then int (unat x) else 0)"
        using s that by simp
      then show ?thesis by (simp del: of_nat_unat split: if_splits)
    qed
    with s solvent_frame [of ?t t4 self] show ?thesis by blast
  qed
  then show ?thesis unfolding w' by (rule token_step_upd_keychain)
qed

lemma transfer_fee_post_tx_token_step:
  assumes "on_token self (transfer_fee_post_tx self to refund actual) w = (Inr v, w')" "self \<noteq> TIP_FEE_MANAGER_ADDRESS"
  shows "token_step self True w w'"
proof -
  let ?t = "tokens w self"
  from assms obtain t' where r: "transfer_fee_post_tx self to refund actual ?t = (Inr v, t')"
    and w': "w' = w\<lparr>tokens := (tokens w)(self := t')\<rparr>"
    by (auto simp: on_token_ok)
  have "books_ok self t' \<and> (solvent self ?t \<longrightarrow> solvent self t')" if "books_ok self ?t"
  proof -
    note s = transfer_fee_post_tx_step [OF r that]
    then have "bal t' self = bal ?t self + (if self = to then int (unat refund) else 0)"
      using assms(2) by simp
    then have "unat (balances ?t self) \<le> unat (balances t' self)" by (simp del: of_nat_unat split: if_splits)
    with s solvent_frame [of ?t t' self] show ?thesis by blast
  qed
  then show ?thesis unfolding w' by (intro token_step_upd) simp
qed

lemma distribute_reward_token_step:
  assumes "distribute_reward env self sender x w = (Inr v, w')" "self \<noteq> 0"
  shows "token_step self (sender \<noteq> self) w w'"
proof -
  let ?t = "tokens w self"
  from assms(1) obtain k t1 delta G' t3 where
    r: "transfer_internal self sender self x ?t = (Inr (), t1)"
    and delta: "Option.bind (checked_mul x ACC_PRECISION) (\<lambda>v. checked_div v (widen (opted_in_supply t1))) = Some delta"
    and G': "checked_add (global_reward_per_token t1) delta = Some G'"
    and e: "emit (RewardDistributed sender x) (t1\<lparr>global_reward_per_token := G'\<rparr>) = (Inr (), t3)"
    and w': "w' = w\<lparr>w_keychain := k, tokens := (tokens w)(self := t3)\<rparr>"
    by (auto simp: distribute_reward_def check_and_update_spending_limit_def ebind_ok egets_ok erequire_ok eok_or_ok
        emodify_ok on_token_ok on_keychain_ok token_checks dest!: authorization_reads)
  from distribute_body_step [OF r refl delta G' refl _ assms(2)] show ?thesis unfolding w'
    by (intro token_step_upd_keychain) (simp add: books_emit [OF e])
qed

lemma set_reward_recipient_token_step:
  assumes "set_reward_recipient env self sender recipient w = (Inr v, w')"
    "sender \<notin> {0, self, TIP_FEE_MANAGER_ADDRESS}"
  shows "token_step self True w w'"
proof -
  let ?t = "tokens w self"
  from assms(1) obtain d t1 u2 t2 t4 where
    r: "update_rewards sender ?t = (Inr d, t1)"
      "(if d \<noteq> 0 then (if recipient = 0 then decrease_opted_in_supply (balances t1 sender) else eret ())
        else if recipient \<noteq> 0 then increase_opted_in_supply (balances t1 sender) else eret ()) t1 = (Inr u2, t2)"
    and e: "emit (RewardRecipientSet sender recipient) (t2\<lparr>user_reward_info :=
        (user_reward_info t2)(sender := (user_reward_info t2 sender)\<lparr>reward_recipient := recipient\<rparr>)\<rparr>) = (Inr v, t4)"
    and w': "w' = w\<lparr>tokens := (tokens w)(self := t4)\<rparr>"
    unfolding set_reward_recipient_def set_user_reward_info_def ebind_ok emodify_ok on_token_ok token_checks
    by (elim exE conjE) (drule authorization_reads(4), simp only: tokens_same)
  from set_recipient_body_step [OF r refl _ assms(2)] show ?thesis unfolding w'
    by (intro token_step_upd) (simp add: books_emit [OF e])
qed

lemma claim_rewards_effect:
  assumes "claim_rewards env self sender w = (Inr x, w')"
  shows "\<exists>t4. w' = w\<lparr>tokens := (tokens w)(self := t4)\<rparr> \<and> (books_ok self (tokens w self) \<longrightarrow> books_ok self t4 \<and>
    (solvent self (tokens w self) \<longrightarrow> solvent self t4 \<and> reward_balance (user_reward_info t4 sender) = 0) \<and>
    (\<forall>a. bal t4 a = bal (tokens w self) a - (if a = self then int (unat x) else 0) + (if a = sender then int (unat x) else 0)))"
proof -
  let ?t = "tokens w self"
  from assms obtain d t1 m left t2 t4 u where
    r: "update_rewards sender ?t = (Inr d, t1)"
      "m = min (reward_balance (user_reward_info t1 sender)) (balances t1 self)"
      "checked_sub (reward_balance (user_reward_info t1 sender)) m = Some left"
      "t2 = t1\<lparr>user_reward_info := (user_reward_info t1)(sender := (user_reward_info t1 sender)\<lparr>reward_balance := left\<rparr>)\<rparr>"
    and pay: "(if m > 0 then
         ebind (eok_or (checked_sub (balances t1 self) m) under_overflow) (\<lambda>new_contract_balance.
         ebind (set_balance self new_contract_balance) (\<lambda>_.
         ebind (get_balance sender) (\<lambda>old_recipient_balance.
         ebind (eok_or (checked_add old_recipient_balance m) under_overflow) (\<lambda>recipient_balance.
         ebind (set_balance sender recipient_balance) (\<lambda>_.
         ebind (if reward_recipient (user_reward_info t1 sender) \<noteq> 0 then increase_opted_in_supply m else eret ()) (\<lambda>_.
         emit (Transfer self sender m)))))))
       else eret ()) t2 = (Inr u, t4)"
    and w': "w' = w\<lparr>tokens := (tokens w)(self := t4)\<rparr>" and x: "x = m"
    unfolding claim_rewards_def set_user_reward_info_def ebind_ok emodify_ok on_token_ok token_checks Let_def eok_or_ok eret_ok
    by (elim exE conjE) (drule authorization_reads(3), simp only: tokens_same)
  have "\<exists>t3. (if m = 0 then t3 = t2 else
      (\<exists>v u1 a1 v' u2 a2 u3. checked_sub (balances t2 self) m = Some v \<and> set_balance self v t2 = (Inr u1, a1) \<and>
        checked_add (balances a1 sender) m = Some v' \<and> set_balance sender v' a1 = (Inr u2, a2) \<and>
        (if opted t2 sender then increase_opted_in_supply m else eret ()) a2 = (Inr u3, t3))) \<and>
      books_ok self t4 = books_ok self t3 \<and> solvent self t4 = solvent self t3 \<and>
      user_reward_info t4 = user_reward_info t3 \<and> balances t4 = balances t3"
  proof (cases "m = 0")
    case True
    with pay show ?thesis by (auto simp: ok)
  next
    case False
    then have "m > 0" by (simp add: word_neq_0_conv)
    moreover have op: "reward_recipient (user_reward_info t1 sender) \<noteq> 0 \<longleftrightarrow> opted t2 sender" "balances t1 = balances t2"
      by (simp_all add: opted_def r(4))
    ultimately obtain v u1 a1 v' u2 a2 u3 t3 where
      "checked_sub (balances t2 self) m = Some v" "set_balance self v t2 = (Inr u1, a1)"
      "checked_add (balances a1 sender) m = Some v'" "set_balance sender v' a1 = (Inr u2, a2)"
      "(if opted t2 sender then increase_opted_in_supply m else eret ()) a2 = (Inr u3, t3)"
      and e: "emit (Transfer self sender m) t3 = (Inr u, t4)"
      using pay [unfolded op] by (simp only: if_True ebind_ok eok_or_ok token_checks) blast
    moreover have "user_reward_info t4 = user_reward_info t3" "balances t4 = balances t3"
      using emit_step [OF e] by (simp_all add: same_books_def)
    ultimately show ?thesis using False books_emit [OF e, of self]
      by (intro exI [of _ t3]) (simp only: if_False simp_thms, blast)
  qed
  then obtain t3 where pay3: "if m = 0 then t3 = t2 else
      (\<exists>v u1 a1 v' u2 a2 u3. checked_sub (balances t2 self) m = Some v \<and> set_balance self v t2 = (Inr u1, a1) \<and>
        checked_add (balances a1 sender) m = Some v' \<and> set_balance sender v' a1 = (Inr u2, a2) \<and>
        (if opted t2 sender then increase_opted_in_supply m else eret ()) a2 = (Inr u3, t3))"
    and t4: "books_ok self t4 = books_ok self t3" "solvent self t4 = solvent self t3"
      "user_reward_info t4 = user_reward_info t3" "balances t4 = balances t3"
    by blast
  have "reward_balance (user_reward_info t2 sender) = left" by (simp add: r(4))
  with claim_body_step [OF r pay3] show ?thesis
    by (intro exI [of _ t4]) (simp add: w' x t4 del: of_nat_unat)
qed

lemma claim_rewards_token_step:
  assumes "claim_rewards env self sender w = (Inr x, w')"
  shows "token_step self True w w'"
proof -
  from claim_rewards_effect [OF assms] obtain t4 where w': "w' = w\<lparr>tokens := (tokens w)(self := t4)\<rparr>"
    and "books_ok self (tokens w self) \<longrightarrow> books_ok self t4 \<and> (solvent self (tokens w self) \<longrightarrow> solvent self t4)"
    by blast
  then show ?thesis unfolding w' by (intro token_step_upd) simp
qed

subsection \<open>Administrative calls\<close>

lemma quiet_token_step:
  assumes "on_token self m w = (Inr v, w')"
    "\<And>t t'. m t = (Inr v, t') \<Longrightarrow> same_books t t' \<and> allowances t' = allowances t"
  shows "token_step self True w w'"
proof -
  from assms obtain t' where "same_books (tokens w self) t'" "allowances t' = allowances (tokens w self)"
    and w': "w' = w\<lparr>tokens := (tokens w)(self := t')\<rparr>"
    by (auto simp: on_token_ok)
  then show ?thesis unfolding w' using books_ok_same [of "tokens w self" t' self] same_books_measures [of "tokens w self" t']
    by (intro token_step_upd) (simp add: solvent_def same_books_def)
qed

lemmas role_defs = grant_role_def revoke_role_def renounce_role_def set_role_admin_def grant_role_internal_def
  revoke_role_internal_def write_role_def get_role_admin_internal_def set_role_admin_internal_def

lemma role_token_steps:
  "on_token self (grant_role s role account) w = (Inr v, w') \<Longrightarrow> token_step self True w w'"
  "on_token self (revoke_role s role account) w = (Inr v, w') \<Longrightarrow> token_step self True w w'"
  "on_token self (renounce_role s role) w = (Inr v, w') \<Longrightarrow> token_step self True w w'"
  "on_token self (set_role_admin s role admin_role) w = (Inr v, w') \<Longrightarrow> token_step self True w w'"
  "on_token self (pause env s) w = (Inr v, w') \<Longrightarrow> token_step self True w w'"
  "on_token self (unpause env s) w = (Inr v, w') \<Longrightarrow> token_step self True w w'"
  by (erule quiet_token_step; auto simp: role_defs pause_def unpause_def emit_def ok token_checks same_books_def)+

lemma check_no_quote_loop_read: "check_no_quote_loop gas self cur w = (Inr u, w') \<Longrightarrow> w' = w"
  by (induction gas arbitrary: cur) (auto simp: ok lookup_reads split: if_splits)

lemma admin_token_steps:
  "change_transfer_policy_id self s pid w = (Inr v, w') \<Longrightarrow> token_step self True w w'"
  "set_next_quote_token self s quote w = (Inr v, w') \<Longrightarrow> token_step self True w w'"
  "complete_quote_token_update gas self s w = (Inr v, w') \<Longrightarrow> token_step self True w w'"
proof -
  show "token_step self True w w'" if "change_transfer_policy_id self s pid w = (Inr v, w')"
    using that
    by (auto simp: change_transfer_policy_id_def ebind_ok erequire_ok on_registry_ok egets_ok token_checks
        on_token_ok [of self "check_role _ _"] intro!: quiet_token_step)
      (auto simp: emit_def ok same_books_def)
  show "token_step self True w w'" if r: "set_next_quote_token self s quote w = (Inr v, w')"
    using that
    by (auto simp: set_next_quote_token_def ebind_ok erequire_ok egets_ok eret_ok token_checks lookup_reads
        on_token_ok [of self "check_role _ _"] on_token_ok [of self "egets _"] intro!: quiet_token_step split: if_splits)
      (auto simp: emit_def ok same_books_def)
  show "token_step self True w w'" if "complete_quote_token_update gas self s w = (Inr v, w')"
    using that
    by (auto simp: complete_quote_token_update_def ebind_ok egets_ok token_checks
        on_token_ok [of self "check_role _ _"] on_token_ok [of self "egets _"] dest!: check_no_quote_loop_read intro!: quiet_token_step)
      (auto simp: emit_def ok same_books_def)
qed

lemma set_supply_cap_token_step:
  assumes "on_token self (set_supply_cap s cap) w = (Inr v, w')"
  shows "token_step self True w w'"
proof -
  let ?t = "tokens w self"
  from assms obtain t' where r: "set_supply_cap s cap ?t = (Inr v, t')" and w': "w' = w\<lparr>tokens := (tokens w)(self := t')\<rparr>"
    by (auto simp: on_token_ok)
  from r have cap: "total_supply ?t \<le> cap" "cap \<le> U128_MAX"
    and e: "emit (SupplyCapUpdate s cap) (?t\<lparr>supply_cap := cap\<rparr>) = (Inr v, t')"
    by (auto simp: set_supply_cap_def ok token_checks not_less)
  let ?u = "?t\<lparr>supply_cap := cap\<rparr>"
  have "unat cap < 2 ^ 128" using cap(2) by (simp add: U128_MAX_def word_le_nat_alt)
  moreover have "total_stake ?u = total_stake ?t" "reward_debt ?u = reward_debt ?t" "opted ?u = opted ?t"
    "markers_past ?u = markers_past ?t"
    by (auto intro!: total_stake_cong reward_debt_cong simp: opted_def markers_past_def fun_eq_iff)
  ultimately have "books_ok self ?t \<longrightarrow> books_ok self ?u" "solvent self ?u = solvent self ?t"
    using cap(1) by (simp_all add: books_ok_def solvent_def word_le_nat_alt)
  then show ?thesis unfolding w' by (intro token_step_upd) (simp add: books_emit [OF e])
qed

subsection \<open>Every call\<close>

text \<open>Who may call what: the addresses that hold balances for the protocol never opt in to
  rewards. For the solvency of a reward pool, no call acts for the token's own address, and
  its balance is not burned.\<close>

fun books_admissible :: "world_call \<Rightarrow> bool" where
  "books_admissible (TokenCall gas self s (SetRewardRecipientCall r)) = (s \<notin> {0, self, TIP_FEE_MANAGER_ADDRESS})"
| "books_admissible _ = True"

fun pool_admissible :: "world_call \<Rightarrow> bool" where
  "pool_admissible (TokenCall gas self s (BurnBlockedCall from x)) = (s \<noteq> self \<and> from \<noteq> self)"
| "pool_admissible (TokenCall gas self s c) = (s \<noteq> self)"
| "pool_admissible (SystemTransferFrom self from to x) = (from \<noteq> self)"
| "pool_admissible (FeePreTx self from x) = (from \<noteq> self)"
| "pool_admissible _ = True"

lemmas token_steps = transfer_token_step transfer_from_token_step transfer_from_with_memo_token_step
  transfer_with_memo_token_step approve_token_step mint_token_step mint_with_memo_token_step burn_token_steps
  burn_blocked_token_step distribute_reward_token_step set_reward_recipient_token_step claim_rewards_token_step
  role_token_steps admin_token_steps set_supply_cap_token_step

lemma tip20_prefix_distinct: "is_tip20_prefix a \<Longrightarrow> a \<noteq> 0 \<and> a \<noteq> TIP_FEE_MANAGER_ADDRESS"
  by auto

lemma token_step_weaken: "token_step self safe w w' \<Longrightarrow> (safe' \<Longrightarrow> safe) \<Longrightarrow> token_step self safe' w w'"
  by (auto simp: token_step_def)

lemma dispatch_token_step:
  assumes "tip20_dispatch env gas self s c w = (Inr v, w')" "self \<noteq> 0"
    "books_admissible (TokenCall gas self s c)"
  shows "token_step self (pool_admissible (TokenCall gas self s c)) w w'"
  using assms by (cases c) (auto simp: evoid_ok intro: token_steps token_step_weaken dest: token_steps)

definition world_books :: "'x world_scheme \<Rightarrow> bool" where
  "world_books w \<longleftrightarrow> (\<forall>a. books_ok a (tokens w a))"

definition pools_solvent :: "'x world_scheme \<Rightarrow> bool" where
  "pools_solvent w \<longleftrightarrow> world_books w \<and> (\<forall>a. solvent a (tokens w a))"

lemma token_step_world:
  assumes "token_step self safe w w'"
  shows "world_books w \<Longrightarrow> world_books w'" "pools_solvent w \<Longrightarrow> safe \<Longrightarrow> pools_solvent w'"
proof -
  have other: "tokens w' a = tokens w a" if "a \<noteq> self" for a
    using assms that by (simp add: token_step_def)
  show b: "world_books w'" if "world_books w"
    using assms that other unfolding world_books_def token_step_def by metis
  show "pools_solvent w'" if "pools_solvent w" "safe"
    using b assms that other unfolding pools_solvent_def world_books_def token_step_def by metis
qed

text \<open>A fresh token starts with its cap at the largest 128-bit number and keeps its books.\<close>

lemma initialize_world:
  assumes "initialize a sender name symbol cur quote admin w = (Inr u, w')"
  shows "world_books w \<Longrightarrow> world_books w'" "pools_solvent w \<Longrightarrow> pools_solvent w'"
    "has_code w' = (has_code w)(a := True)"
    "tokens w' = (tokens w)(a := tokens w' a)" "quote_token (tokens w' a) = quote"
    "next_quote_token (tokens w' a) = quote" "currency (tokens w' a) = cur"
proof -
  obtain t' where r: "initialize_storage sender name symbol cur quote admin (tokens w a) = (Inr u, t')"
    and w': "w' = w\<lparr>has_code := (has_code w)(a := True), tokens := (tokens w)(a := t')\<rparr>"
    using assms by (auto simp: initialize_def ok on_token_ok)
  from r have eff: "balances t' = balances (tokens w a)" "user_reward_info t' = user_reward_info (tokens w a)"
    "global_reward_per_token t' = global_reward_per_token (tokens w a)" "total_supply t' = total_supply (tokens w a)"
    "opted_in_supply t' = opted_in_supply (tokens w a)" "supply_cap t' = widen MAX_WORD"
    "allowances t' = allowances (tokens w a)" "quote_token t' = quote" "next_quote_token t' = quote" "currency t' = cur"
    by (auto simp: initialize_storage_def initialize_roles_def grant_default_admin_def role_defs emit_def ok)
  then have m: "total_stake t' = total_stake (tokens w a)" "reward_debt t' = reward_debt (tokens w a)"
    "opted t' = opted (tokens w a)" "markers_past t' = markers_past (tokens w a)"
    by (auto intro!: total_stake_cong reward_debt_cong simp: opted_def markers_past_def fun_eq_iff)
  have cap: "unat (supply_cap t') = 2 ^ 128 - 1"
    by (simp add: eff unsigned_minus_1_eq_mask mask_eq_exp_minus_1)
  have books: "books_ok a t'" if "books_ok a (tokens w a)"
    using that by (simp add: books_ok_def m eff(1,4,5)) (simp add: cap)
  have solv: "solvent a t' = solvent a (tokens w a)" by (simp add: solvent_def m eff)
  show "world_books w \<Longrightarrow> world_books w'" by (simp add: world_books_def w' books)
  then show "pools_solvent w \<Longrightarrow> pools_solvent w'"
    by (auto simp: pools_solvent_def w' solv)
  show "has_code w' = (has_code w)(a := True)" "tokens w' = (tokens w)(a := tokens w' a)"
    "quote_token (tokens w' a) = quote" "next_quote_token (tokens w' a) = quote" "currency (tokens w' a) = cur"
    by (simp_all add: w' eff)
qed

lemma quote_checks_read:
  "(if cur = USD_CURRENCY then ebind (token_currency q) (\<lambda>c. erequire (c = USD_CURRENCY) e) else eret ()) w = (Inr u, w') \<longleftrightarrow>
     w' = w \<and> (cur = USD_CURRENCY \<longrightarrow> is_tip20_prefix q \<and> currency (tokens w q) = USD_CURRENCY)"
  by (auto simp: ok lookup_reads)

lemma reserved_quote_check_read:
  assumes "(if q \<noteq> 0 then
      ebind (if a = PATH_USD_ADDRESS then eret False else is_tip20 q) (\<lambda>quote_ok.
      ebind (erequire quote_ok e) (\<lambda>_.
      if cur = USD_CURRENCY then ebind (token_currency q) (\<lambda>c. erequire (c = USD_CURRENCY) e) else eret ()))
    else eret ()) w = (Inr u, w')"
  shows "w' = w \<and> (q = 0 \<or> a \<noteq> PATH_USD_ADDRESS \<and> is_tip20_prefix q \<and> has_code w q)"
  using assms by (auto simp: ebind_ok erequire_ok eret_ok lookup_reads quote_checks_read split: if_split_asm)

lemma create_token_effect:
  assumes "create_token env sender name symbol cur quote admin salt w = (Inr a, w')"
  shows "\<exists>w1. initialize a sender name symbol cur quote admin w = (Inr (), w1) \<and>
    w' = w1\<lparr>factory_log := factory_log w'\<rparr> \<and> is_tip20_prefix a \<and> \<not> has_code w a \<and>
    is_tip20_prefix quote \<and> has_code w quote"
  using assms
  by (auto simp: create_token_def emit_token_created_def ebind_ok erequire_ok emodify_ok eret_ok lookup_reads
      quote_checks_read split: prod.splits)

lemma create_token_reserved_effect:
  assumes "create_token_reserved_address a name symbol cur quote admin w = (Inr v, w')"
  shows "\<exists>w1. initialize a admin name symbol cur quote admin w = (Inr (), w1) \<and>
    w' = w1\<lparr>factory_log := factory_log w'\<rparr> \<and> is_tip20_prefix a \<and> \<not> has_code w a \<and>
    (quote = 0 \<or> a \<noteq> PATH_USD_ADDRESS \<and> is_tip20_prefix quote \<and> has_code w quote)"
  using assms unfolding create_token_reserved_address_def
  by (auto simp only: emit_token_created_def ebind_ok erequire_ok emodify_ok eret_ok lookup_reads
      dest!: reserved_quote_check_read) (auto intro!: exI)

lemma world_log [simp]:
  "world_books (w\<lparr>factory_log := l\<rparr>) = world_books w" "pools_solvent (w\<lparr>factory_log := l\<rparr>) = pools_solvent w"
  "world_books (w\<lparr>w_registry := r\<rparr>) = world_books w" "pools_solvent (w\<lparr>w_registry := r\<rparr>) = pools_solvent w"
  "world_books (w\<lparr>w_keychain := k\<rparr>) = world_books w" "pools_solvent (w\<lparr>w_keychain := k\<rparr>) = pools_solvent w"
  by (simp_all add: world_books_def pools_solvent_def)

lemma world_op_books:
  assumes "world_op env c w = (Inr v, w')" "books_admissible c"
  shows "(world_books w \<longrightarrow> world_books w') \<and> (pool_admissible c \<longrightarrow> pools_solvent w \<longrightarrow> pools_solvent w')"
proof -
  have on_step: ?thesis if "token_step self (pool_admissible c) w w'" for self
    using token_step_world [OF that] by blast
  have fresh: ?thesis if "initialize a sender name symbol cur quote admin w = (Inr (), w1)" "w' = w1\<lparr>factory_log := l\<rparr>"
    for a sender name symbol cur quote admin w1 l
    using initialize_world(1,2) [OF that(1)] that(2) by simp
  show ?thesis
  proof (cases c)
    case (TokenCall gas self s tc)
    then have "self \<noteq> 0" "tip20_dispatch env gas self s tc w = (Inr v, w')"
      using assms(1) by (auto simp: tip20_call_entry_def ok lookup_reads)
    from dispatch_token_step [OF this(2,1)] TokenCall assms(2) show ?thesis by (intro on_step) simp
  next
    case (SystemTransferFrom self "from" to x)
    then show ?thesis using assms(1)
      by (intro on_step [of self]) (auto simp: ok lookup_reads evoid_ok dest: system_transfer_from_token_step)
  next
    case (FeePreTx self "from" x)
    then show ?thesis using assms(1)
      by (intro on_step [of self]) (auto simp: ok lookup_reads dest: transfer_fee_pre_tx_token_step)
  next
    case (FeePostTx self to refund actual)
    then show ?thesis using assms(1)
      by (intro on_step [of self]) (auto simp: ebind_ok lookup_reads dest!: transfer_fee_post_tx_token_step)
  next
    case (CreateTokenCall sender name symbol cur quote admin salt)
    then obtain a where "create_token env sender name symbol cur quote admin salt w = (Inr a, w')"
      using assms(1) by (auto simp: evoid_ok)
    from create_token_effect [OF this] show ?thesis using fresh by blast
  next
    case (CreateTokenReserved a name symbol cur quote admin)
    then obtain v' where "create_token_reserved_address a name symbol cur quote admin w = (Inr v', w')"
      using assms(1) by (auto simp: evoid_ok)
    from create_token_reserved_effect [OF this] show ?thesis using fresh by blast
  next
    case (RegistryCall sender rc)
    then show ?thesis using assms(1) by (auto simp: on_registry_ok)
  next
    case (KeychainCall kc)
    then show ?thesis using assms(1) by (auto simp: on_keychain_ok)
  qed
qed

lemma empty_tip20_books: "books_ok a empty_tip20 \<and> solvent a empty_tip20"
  by (simp add: books_ok_def solvent_def empty_tip20_def total_stake_def stake_of_def opted_def markers_past_def
      reward_debt_def claim_of_def pending_of_def)

lemma empty_world_books: "world_books empty_world" "pools_solvent empty_world"
  by (simp_all add: world_books_def pools_solvent_def empty_world_def empty_tip20_books)

interpretation books_sys: invariant_system world_exec "\<lambda>c. books_admissible (snd c)" world_books
proof unfold_locales
  fix c :: "env \<times> world_call" and w :: "'a world_scheme"
  assume "books_admissible (snd c)" "world_books w"
  then show "world_books (world_exec c w)"
    using commit_cases [of "world_op (fst c) (snd c)" w] world_op_books [of "fst c" "snd c" w _ "world_exec c w"]
    by (auto simp: world_exec_def)
qed

interpretation pool_sys: invariant_system world_exec
  "\<lambda>c. books_admissible (snd c) \<and> pool_admissible (snd c)" pools_solvent
proof unfold_locales
  fix c :: "env \<times> world_call" and w :: "'a world_scheme"
  assume "books_admissible (snd c) \<and> pool_admissible (snd c)" "pools_solvent w"
  then show "pools_solvent (world_exec c w)"
    using commit_cases [of "world_op (fst c) (snd c)" w] world_op_books [of "fst c" "snd c" w _ "world_exec c w"]
    by (auto simp: world_exec_def)
qed

end
