(* ===== verification/Tip20_Properties.thy ===== *)
theory Tip20_Properties
  imports Tip20_World
begin

section \<open>TIP-20: the properties, on a running example\<close>

text \<open>
  The properties of the tokens that hold after every sequence of calls, each instantiated on
  a concrete run: a token is created, its issuer mints to two accounts, one of them opts in
  to rewards and the other distributes a reward.
\<close>

subsection \<open>A run from genesis\<close>

definition sample_token :: address where
  "sample_token = 0x20C0000000000000000000000000000000000001"

definition sample_calls :: "world_call list" where
  "sample_calls =
     [CreateTokenReserved sample_token ''Test'' ''TST'' ''USD'' 0 1,
      TokenCall 10 sample_token 1 (GrantRoleCall (ISSUER_ROLE sample_env) 1),
      TokenCall 10 sample_token 1 (GrantRoleCall (BURN_BLOCKED_ROLE sample_env) 1),
      TokenCall 10 sample_token 1 (MintCall 5 100),
      TokenCall 10 sample_token 5 (SetRewardRecipientCall 5),
      TokenCall 10 sample_token 1 (MintCall 6 50),
      TokenCall 10 sample_token 6 (DistributeRewardCall 50)]"

abbreviation no_reward :: user_reward_info where
  "no_reward \<equiv> \<lparr>reward_recipient = 0, reward_per_token = 0, reward_balance = 0\<rparr>"

abbreviation self_reward :: user_reward_info where
  "self_reward \<equiv> \<lparr>reward_recipient = 5, reward_per_token = 0, reward_balance = 0\<rparr>"

definition sample_tok ::
  "u256 \<Rightarrow> (address \<Rightarrow> u256) \<Rightarrow> u128 \<Rightarrow> (address \<Rightarrow> user_reward_info) \<Rightarrow> u256 \<Rightarrow> tip20_event list \<Rightarrow> tip20" where
  "sample_tok s b os u g l = \<lparr>roles = (\<lambda>_ _. False)(1 := (\<lambda>_. False)(DEFAULT_ADMIN_ROLE := True,
       ISSUER_ROLE sample_env := True, BURN_BLOCKED_ROLE sample_env := True)),
     role_admins = (\<lambda>_. 0)(UNGRANTABLE_ROLE := UNGRANTABLE_ROLE), token_name = ''Test'', token_symbol = ''TST'',
     currency = ''USD'', quote_token = 0, next_quote_token = 0, transfer_policy_id = 1, total_supply = s,
     balances = b, allowances = (\<lambda>_ _. 0), paused = False, supply_cap = widen MAX_WORD,
     global_reward_per_token = g, opted_in_supply = os, user_reward_info = u, token_log = l\<rparr>"

definition sample_world :: "tip20 \<Rightarrow> world" where
  "sample_world t = \<lparr>w_registry = empty_registry, w_keychain = empty_keychain,
     tokens = (\<lambda>_. empty_tip20)(sample_token := t), has_code = (\<lambda>_. False)(sample_token := True),
     factory_log = [(sample_token, ''Test'', ''TST'', ''USD'', 0, 1, 0)]\<rparr>"

lemma prefix_sample_token [simp]: "is_tip20_prefix sample_token"
  by (simp add: is_tip20_prefix_def sample_token_def address_bytes_def TIP20_TOKEN_PREFIX_def upt_rec)

lemma sample_token_ne [simp]:
  "sample_token \<noteq> 0" "sample_token \<noteq> 1" "sample_token \<noteq> 5" "sample_token \<noteq> 6" "5 \<noteq> sample_token" "6 \<noteq> sample_token"
  "sample_token \<noteq> TIP_FEE_MANAGER_ADDRESS" "sample_token \<noteq> PATH_USD_ADDRESS" "(ucast sample_token :: u64) = 1"
  by (simp_all add: sample_token_def TIP_FEE_MANAGER_ADDRESS_def PATH_USD_ADDRESS_def)

lemma sample_roles [simp]: "ISSUER_ROLE sample_env \<noteq> - 1" "BURN_BLOCKED_ROLE sample_env \<noteq> - 1" "\<not> RESERVED_SIZE \<le> 1"
  by (simp_all add: ISSUER_ROLE_def BURN_BLOCKED_ROLE_def sample_env_def ascii_def RESERVED_SIZE_def word_le_nat_alt)

lemmas token_eval = world_exec_def commit_def run evoid_def ezoom_def on_token_def on_registry_def on_keychain_def
  Let_def emit_def tip20_call_entry_def from_address_def check_role_def has_role_internal_def role_defs
  check_not_paused_def is_user_authorized_def is_transfer_authorized_def ensure_transfer_authorized_def
  is_authorized_def is_authorized_internal_def check_and_update_spending_limit_def authorize_transfer_def
  update_rewards_def get_user_reward_info_def set_user_reward_info_def get_balance_def set_balance_def
  set_total_supply_def increase_opted_in_supply_def decrease_opted_in_supply_def get_opted_in_supply_def
  set_opted_in_supply_def accrued_reward_def handle_rewards_on_mint_def handle_rewards_on_transfer_def
  transfer_internal_def decrease_total_supply_def checked_add_def checked_sub_def checked_mul_def checked_div_def
  try_into_def widen_def ACC_PRECISION_def DEFAULT_ADMIN_ROLE_def

lemmas create_eval = create_token_reserved_address_def is_tip20_def initialize_def initialize_storage_def
  initialize_roles_def grant_default_admin_def emit_token_created_def

lemma sample_step1:
  "world_exec (e, TokenCall 10 sample_token 1 (GrantRoleCall (BURN_BLOCKED_ROLE sample_env) 1))
     (world_exec (e, TokenCall 10 sample_token 1 (GrantRoleCall (ISSUER_ROLE sample_env) 1))
       (world_exec (e, CreateTokenReserved sample_token ''Test'' ''TST'' ''USD'' 0 1) empty_world)) =
   sample_world (sample_tok 0 (\<lambda>_. 0) 0 (\<lambda>_. no_reward) 0
     [RoleMembershipUpdated 0 1 1 True, RoleMembershipUpdated (ISSUER_ROLE sample_env) 1 1 True,
      RoleMembershipUpdated (BURN_BLOCKED_ROLE sample_env) 1 1 True])"
  by (simp add: token_eval create_eval empty_world_def empty_tip20_def sample_world_def sample_tok_def
      UNGRANTABLE_ROLE_def)

lemma sample_step2:
  "world_exec (sample_env, TokenCall 10 sample_token 5 (SetRewardRecipientCall 5))
     (world_exec (sample_env, TokenCall 10 sample_token 1 (MintCall 5 100))
       (sample_world (sample_tok 0 (\<lambda>_. 0) 0 (\<lambda>_. no_reward) 0 l))) =
   sample_world (sample_tok 100 ((\<lambda>_. 0)(5 := 100)) 100 ((\<lambda>_. no_reward)(5 := self_reward)) 0
     (l @ [Transfer 0 5 100, Mint 5 100, RewardRecipientSet 5 5]))"
  by (simp add: token_eval mint_def mint_internal_def set_reward_recipient_def
       empty_keychain_def sample_world_def sample_tok_def unsigned_minus_1_eq_mask mask_eq_exp_minus_1 word_less_nat_alt)

lemma sample_step3:
  "world_exec (sample_env, TokenCall 10 sample_token 1 (MintCall 6 50))
     (sample_world (sample_tok 100 ((\<lambda>_. 0)(5 := 100)) 100 ((\<lambda>_. no_reward)(5 := self_reward)) 0 l)) =
   sample_world (sample_tok 150 ((\<lambda>_. 0)(5 := 100, 6 := 50)) 100 ((\<lambda>_. no_reward)(5 := self_reward)) 0
     (l @ [Transfer 0 6 50, Mint 6 50]))"
  by (simp add: token_eval mint_def mint_internal_def empty_keychain_def sample_world_def sample_tok_def
      unsigned_minus_1_eq_mask mask_eq_exp_minus_1 word_less_nat_alt)

lemma sample_step4:
  "world_exec (sample_env, TokenCall 10 sample_token 6 (DistributeRewardCall 50))
     (sample_world (sample_tok 150 ((\<lambda>_. 0)(5 := 100, 6 := 50)) 100 ((\<lambda>_. no_reward)(5 := self_reward)) 0 l)) =
   sample_world (sample_tok 150 ((\<lambda>_. 0)(5 := 100, 6 := 0, sample_token := 50)) 100
     ((\<lambda>_. no_reward)(5 := self_reward)) 500000000000000000
     (l @ [Transfer 6 sample_token 50, RewardDistributed 6 50]))"
  by (simp add: token_eval distribute_reward_def empty_keychain_def sample_world_def sample_tok_def)

definition sample_log :: "tip20_event list" where
  "sample_log =
     [RoleMembershipUpdated 0 1 1 True, RoleMembershipUpdated (ISSUER_ROLE sample_env) 1 1 True,
      RoleMembershipUpdated (BURN_BLOCKED_ROLE sample_env) 1 1 True, Transfer 0 5 100, Mint 5 100, RewardRecipientSet 5 5,
      Transfer 0 6 50, Mint 6 50, Transfer 6 sample_token 50, RewardDistributed 6 50]"

lemma sample_run:
  "fold world_exec (map (Pair sample_env) sample_calls) empty_world =
   sample_world (sample_tok 150 ((\<lambda>_. 0)(5 := 100, 6 := 0, sample_token := 50)) 100
     ((\<lambda>_. no_reward)(5 := self_reward)) 500000000000000000 sample_log)"
  by (simp add: sample_calls_def sample_step1 sample_step2 sample_step3 sample_step4 sample_log_def)

lemma sample_admissible:
  "list_all (\<lambda>c. books_admissible (snd c) \<and> pool_admissible (snd c)) (map (Pair sample_env) sample_calls)"
  "list_all (\<lambda>c. books_admissible (snd c)) (map (Pair sample_env) sample_calls)"
  by (simp_all add: sample_calls_def TIP_FEE_MANAGER_ADDRESS_def)


text \<open>The run continued: a blacklist with the token's own address, and a burn from it.\<close>


definition sample_policies :: registry where
  "sample_policies = \<lparr>policy_id_counter_slot = 3,
     policy_data_slot = (\<lambda>_. \<lparr>policy_type = 0, policy_admin = 0\<rparr>)(2 := \<lparr>policy_type = 1, policy_admin = 1\<rparr>),
     policy_set = (\<lambda>_ _. False)(2 := (\<lambda>_. False)(sample_token := True)),
     registry_log = [BlacklistUpdated 2 1 sample_token True, PolicyCreated 2 1 BLACKLIST, PolicyAdminUpdated 2 1 1]\<rparr>"

definition pool_burn_calls :: "world_call list" where
  "pool_burn_calls =
     [RegistryCall 1 (CreatePolicyWithAccounts 1 BLACKLIST [sample_token]),
      TokenCall 10 sample_token 1 (ChangeTransferPolicyIdCall 2),
      TokenCall 10 sample_token 1 (BurnBlockedCall sample_token 50)]"

lemma sample_decode:
  "policy_type_try_from sample_env 1 = Some BLACKLIST" "sample_token \<noteq> STABLECOIN_DEX_ADDRESS"
  by (simp_all add: sample_env_def sample_token_def STABLECOIN_DEX_ADDRESS_def)

lemma pool_burn1:
  "world_exec (sample_env, RegistryCall 1 (CreatePolicyWithAccounts 1 BLACKLIST [sample_token])) (sample_world t) =
    (sample_world t)\<lparr>w_registry := sample_policies\<rparr>"
  by (simp add: world_exec_def on_registry_def ezoom_def registry_eval sample_policies_def sample_world_def max_def)

lemma pool_burn2:
  "world_exec (sample_env, TokenCall 10 sample_token 1 (ChangeTransferPolicyIdCall 2))
     ((sample_world (sample_tok s b os u g l))\<lparr>w_registry := sample_policies\<rparr>) =
    (sample_world ((sample_tok s b os u g (l @ [TransferPolicyUpdate 1 2]))\<lparr>transfer_policy_id := 2\<rparr>))
      \<lparr>w_registry := sample_policies\<rparr>"
  by (simp add: world_exec_def commit_def run ezoom_def on_token_def on_registry_def Let_def emit_def tip20_call_entry_def
      from_address_def check_role_def has_role_internal_def change_transfer_policy_id_def policy_exists_def
      policy_id_counter_def sample_world_def sample_tok_def sample_policies_def DEFAULT_ADMIN_ROLE_def)

lemma pool_burn3:
  "world_exec (sample_env, TokenCall 10 sample_token 1 (BurnBlockedCall sample_token 50))
     ((sample_world ((sample_tok 150 ((\<lambda>_. 0)(5 := 100, 6 := 0, sample_token := 50)) 100
         ((\<lambda>_. no_reward)(5 := self_reward)) 500000000000000000 l)\<lparr>transfer_policy_id := 2\<rparr>))
      \<lparr>w_registry := sample_policies\<rparr>) =
   (sample_world ((sample_tok 100 ((\<lambda>_. 0)(5 := 100, 6 := 0, sample_token := 0)) 100
     ((\<lambda>_. no_reward)(5 := self_reward, sample_token := no_reward\<lparr>reward_per_token := 500000000000000000\<rparr>,
       0 := no_reward\<lparr>reward_per_token := 500000000000000000\<rparr>)) 500000000000000000
     (l @ [Transfer sample_token 0 50, BurnBlocked sample_token 50]))\<lparr>transfer_policy_id := 2\<rparr>))
     \<lparr>w_registry := sample_policies\<rparr>"
  by (simp add: world_exec_def commit_def run ezoom_def on_token_def on_registry_def Let_def emit_def tip20_call_entry_def
      from_address_def check_role_def has_role_internal_def burn_blocked_def is_user_authorized_def is_authorized_def
      is_authorized_internal_def get_policy_data_def transfer_internal_def decrease_total_supply_def get_balance_def set_balance_def
      handle_rewards_on_transfer_def update_rewards_def get_user_reward_info_def set_user_reward_info_def set_total_supply_def
      checked_sub_def
      sample_world_def sample_tok_def sample_policies_def sample_decode)

lemma pool_burn_run:
  "tokens (fold world_exec (map (Pair sample_env) (sample_calls @ pool_burn_calls)) empty_world) sample_token =
   (sample_tok 100 ((\<lambda>_. 0)(5 := 100, 6 := 0, sample_token := 0)) 100
     ((\<lambda>_. no_reward)(5 := self_reward, sample_token := no_reward\<lparr>reward_per_token := 500000000000000000\<rparr>,
       0 := no_reward\<lparr>reward_per_token := 500000000000000000\<rparr>)) 500000000000000000
     ((sample_log @ [TransferPolicyUpdate 1 2]) @ [Transfer sample_token 0 50, BurnBlocked sample_token 50]))
     \<lparr>transfer_policy_id := 2\<rparr>"
  unfolding map_append fold_append comp_apply sample_run
  unfolding pool_burn_calls_def list.map fold_simps pool_burn1 pool_burn2 pool_burn3
  by (simp add: sample_world_def)

subsection \<open>Properties\<close>

text \<open>C3. Supply accounting: after any sequence of calls from genesis, on any token, the balances
  of all accounts add up to the total supply, the supply is within the cap, the cap fits 128
  bits, and the opted-in supply is exactly the sum of the balances of the accounts that have
  a reward recipient.\<close>

theorem supply_is_sum_of_balances:
  assumes "list_all (\<lambda>c. books_admissible (snd c)) cs"
  defines "t \<equiv> \<lambda>a. tokens (fold world_exec cs empty_world) a"
  shows "total_of (balances (t a)) = unat (total_supply (t a)) \<and>
    unat (total_supply (t a)) \<le> unat (supply_cap (t a)) \<and> unat (supply_cap (t a)) < 2 ^ 128 \<and>
    unat (opted_in_supply (t a)) =
      (\<Sum>h\<in>UNIV. if reward_recipient (user_reward_info (t a) h) \<noteq> 0 then unat (balances (t a) h) else 0)"
proof -
  have "books_ok a (t a)"
    using books_sys.fold_keeps [OF assms(1) empty_world_books(1)] by (simp add: world_books_def t_def)
  then show ?thesis by (simp add: books_ok_def total_stake_def stake_of_def opted_def)
qed

theorem supply_is_sum_of_balances_witness:
  "total_of (balances (tokens (fold world_exec (map (Pair sample_env) sample_calls) empty_world) sample_token)) = 150"
  using supply_is_sum_of_balances [OF sample_admissible(2), of sample_token]
  by (simp add: sample_run sample_world_def sample_tok_def)





text \<open>C14. The pool burn: the protection of \<open>burnBlocked\<close> covers the fee manager and the exchange but
  not the token's own address. There is a run from genesis in which every caller is an
  ordinary account, the issuer's admin blacklists the token's address and burns the reward
  pool, and afterwards the rewards owed exceed the pool.\<close>

theorem burn_blocked_can_drain_pool:
  "list_all books_admissible (sample_calls @ pool_burn_calls) \<and>
   (let t = tokens (fold world_exec (map (Pair sample_env) (sample_calls @ pool_burn_calls)) empty_world) sample_token
    in balances t sample_token = 0 \<and> pending_of t 5 = 50 * unat ACC_PRECISION \<and>
       unat ACC_PRECISION * unat (balances t sample_token) < reward_debt t)"
proof -
  let ?t = "tokens (fold world_exec (map (Pair sample_env) (sample_calls @ pool_burn_calls)) empty_world) sample_token"
  have p: "pending_of ?t 5 = 50 * unat ACC_PRECISION" and b: "balances ?t sample_token = 0"
    unfolding pool_burn_run by (simp_all add: pending_of_def opted_def sample_tok_def ACC_PRECISION_def)
  have "pending_of ?t 5 \<le> reward_debt ?t"
    using member_le_sum [of 5 UNIV "pending_of ?t"] by (simp add: reward_debt_def trans_le_add2)
  with p b have "unat ACC_PRECISION * unat (balances ?t sample_token) < reward_debt ?t"
    using ACC_PRECISION_pos by simp
  moreover have "list_all books_admissible (sample_calls @ pool_burn_calls)"
    by (simp add: sample_calls_def pool_burn_calls_def TIP_FEE_MANAGER_ADDRESS_def)
  ultimately show ?thesis using p b by (simp add: Let_def)
qed

end
