(* ===== verification/Nonce.thy ===== *)
theory Nonce
  imports Errors
begin

section \<open>The nonce precompile: 2D nonces and expiring nonces\<close>

text \<open>
  Model of \<open>precompiles/src/nonce/mod.rs\<close>. User nonce keys count up from zero per account
  and key; expiring nonces are replay-protected by a set of seen transaction hashes with
  their expiry, bounded by a circular buffer of \<open>EXPIRING_NONCE_SET_CAPACITY\<close> hashes.
\<close>

definition EXPIRING_NONCE_SET_CAPACITY :: u32 where
  "EXPIRING_NONCE_SET_CAPACITY = 300000"

definition EXPIRING_NONCE_MAX_EXPIRY_SECS :: u64 where
  "EXPIRING_NONCE_MAX_EXPIRY_SECS = 30"

datatype nonce_event = NonceIncremented address u256 u64

record nonce_manager =
  nonces :: "address \<Rightarrow> u256 \<Rightarrow> u64"
  expiring_nonce_seen :: "b256 \<Rightarrow> u64"
  expiring_nonce_ring :: "u32 \<Rightarrow> b256"
  expiring_nonce_ring_ptr :: u32
  nonce_log :: "nonce_event list"

definition empty_nonce_manager :: nonce_manager where
  "empty_nonce_manager = \<lparr>nonces = (\<lambda>_ _. 0), expiring_nonce_seen = (\<lambda>_. 0),
     expiring_nonce_ring = (\<lambda>_. 0), expiring_nonce_ring_ptr = 0, nonce_log = []\<rparr>"

type_synonym 'a nnc = "(nonce_manager, tempo_error, 'a) pre"

definition get_nonce :: "address \<Rightarrow> u256 \<Rightarrow> u64 nnc" where
  "get_nonce account nonce_key =
     ebind (erequire (nonce_key \<noteq> 0) (NonceError Nonce_ProtocolNonceNotSupported)) (\<lambda>_.
     egets (\<lambda>s. nonces s account nonce_key))"

definition increment_nonce :: "address \<Rightarrow> u256 \<Rightarrow> u64 nnc" where
  "increment_nonce account nonce_key =
     ebind (erequire (nonce_key \<noteq> 0) (NonceError Nonce_InvalidNonceKey)) (\<lambda>_.
     ebind (egets (\<lambda>s. nonces s account nonce_key)) (\<lambda>current.
     ebind (eok_or (checked_add current 1) (NonceError Nonce_NonceOverflow)) (\<lambda>new_nonce.
     ebind (emodify (\<lambda>s. s\<lparr>nonces := (nonces s)(account := (nonces s account)(nonce_key := new_nonce))\<rparr>)) (\<lambda>_.
     ebind (emodify (\<lambda>s. s\<lparr>nonce_log := nonce_log s @ [NonceIncremented account nonce_key new_nonce]\<rparr>)) (\<lambda>_.
     eret new_nonce)))))"

definition is_expiring_nonce_seen :: "b256 \<Rightarrow> u64 \<Rightarrow> bool nnc" where
  "is_expiring_nonce_seen tx_hash now =
     ebind (egets (\<lambda>s. expiring_nonce_seen s tx_hash)) (\<lambda>expiry.
     eret (expiry \<noteq> 0 \<and> expiry > now))"

text \<open>Steps 3 and 4 of \<open>check_and_mark_expiring_nonce\<close>: the entry at the pointer is evicted if
  it is expired, and blocks the call if it is not.\<close>

definition evict_ring_entry :: "u64 \<Rightarrow> u32 \<Rightarrow> unit nnc" where
  "evict_ring_entry now idx =
     ebind (egets (\<lambda>s. expiring_nonce_ring s idx)) (\<lambda>old_hash.
     if old_hash \<noteq> 0 then
       ebind (egets (\<lambda>s. expiring_nonce_seen s old_hash)) (\<lambda>old_expiry.
       ebind (erequire (\<not> (old_expiry \<noteq> 0 \<and> old_expiry > now)) (NonceError Nonce_ExpiringNonceSetFull)) (\<lambda>_.
       emodify (\<lambda>s. s\<lparr>expiring_nonce_seen := (expiring_nonce_seen s)(old_hash := 0)\<rparr>)))
     else eret ())"

definition check_and_mark_expiring_nonce :: "env \<Rightarrow> b256 \<Rightarrow> u64 \<Rightarrow> unit nnc" where
  "check_and_mark_expiring_nonce env tx_hash valid_before =
     (let now = saturating_to (block_timestamp env) in
     ebind (erequire (\<not> (valid_before \<le> now \<or>
              valid_before > saturating_add now EXPIRING_NONCE_MAX_EXPIRY_SECS))
              (NonceError Nonce_InvalidExpiringNonceExpiry)) (\<lambda>_.
     ebind (egets (\<lambda>s. expiring_nonce_seen s tx_hash)) (\<lambda>seen_expiry.
     ebind (erequire (\<not> (seen_expiry \<noteq> 0 \<and> seen_expiry > now))
              (NonceError Nonce_ExpiringNonceReplay)) (\<lambda>_.
     ebind (egets expiring_nonce_ring_ptr) (\<lambda>ptr.
     ebind (evict_ring_entry now ptr) (\<lambda>_.
     ebind (emodify (\<lambda>s. s\<lparr>expiring_nonce_ring := (expiring_nonce_ring s)(ptr := tx_hash)\<rparr>)) (\<lambda>_.
     ebind (emodify (\<lambda>s. s\<lparr>expiring_nonce_seen := (expiring_nonce_seen s)(tx_hash := valid_before)\<rparr>)) (\<lambda>_.
     emodify (\<lambda>s. s\<lparr>expiring_nonce_ring_ptr :=
       (if ptr + 1 \<ge> EXPIRING_NONCE_SET_CAPACITY then 0 else ptr + 1)\<rparr>)))))))))"

subsection \<open>Calls\<close>

datatype nonce_call = IncrementNonce address u256 | MarkExpiringNonce b256 u64

fun nonce_op :: "env \<Rightarrow> nonce_call \<Rightarrow> unit nnc" where
  "nonce_op env (IncrementNonce account nonce_key) =
     ebind (increment_nonce account nonce_key) (\<lambda>_. eret ())"
| "nonce_op env (MarkExpiringNonce tx_hash valid_before) =
     check_and_mark_expiring_nonce env tx_hash valid_before"

definition nonce_exec :: "env \<times> nonce_call \<Rightarrow> nonce_manager \<Rightarrow> nonce_manager" where
  "nonce_exec c = commit (nonce_op (fst c) (snd c))"

definition call_time :: "env \<times> nonce_call \<Rightarrow> u64" where
  "call_time c = saturating_to (block_timestamp (fst c))"

lemma increment_nonce_effect:
  "increment_nonce a k s = (Inr n, s') \<Longrightarrow>
     unat n = unat (nonces s a k) + 1 \<and> k \<noteq> 0 \<and>
     s' = s\<lparr>nonces := (nonces s)(a := (nonces s a)(k := n)), nonce_log := nonce_log s @ [NonceIncremented a k n]\<rparr>"
  by (auto simp: increment_nonce_def ok checked)

lemma check_and_mark_effect:
  assumes "check_and_mark_expiring_nonce env h vb s = (Inr (), s')"
  defines "now \<equiv> saturating_to (block_timestamp env)"
  shows "now < vb \<and> \<not> (expiring_nonce_seen s h \<noteq> 0 \<and> now < expiring_nonce_seen s h) \<and>
    expiring_nonce_seen s' h = vb \<and> nonces s' = nonces s \<and>
    (\<forall>g. now < expiring_nonce_seen s g \<longrightarrow> expiring_nonce_seen s' g = expiring_nonce_seen s g) \<and>
    expiring_nonce_ring_ptr s' =
      (if expiring_nonce_ring_ptr s + 1 \<ge> EXPIRING_NONCE_SET_CAPACITY then 0 else expiring_nonce_ring_ptr s + 1)"
proof -
  from assms obtain s1 where
    c: "\<not> (vb \<le> now)" "\<not> (expiring_nonce_seen s h \<noteq> 0 \<and> now < expiring_nonce_seen s h)"
      "evict_ring_entry now (expiring_nonce_ring_ptr s) s = (Inr (), s1)"
      "s' = s1\<lparr>expiring_nonce_ring := (expiring_nonce_ring s1)(expiring_nonce_ring_ptr s := h),
         expiring_nonce_seen := (expiring_nonce_seen s1)(h := vb),
         expiring_nonce_ring_ptr := (if expiring_nonce_ring_ptr s + 1 \<ge> EXPIRING_NONCE_SET_CAPACITY then 0
           else expiring_nonce_ring_ptr s + 1)\<rparr>"
    by (auto simp: check_and_mark_expiring_nonce_def Let_def ok)
  from c(3) have "nonces s1 = nonces s"
    "\<forall>g. now < expiring_nonce_seen s g \<longrightarrow> expiring_nonce_seen s1 g = expiring_nonce_seen s g"
    by (auto simp: evict_ring_entry_def ok split: if_splits)
  moreover from c(2) have "\<not> now < expiring_nonce_seen s h"
    by (auto simp: word_less_nat_alt)
  ultimately show ?thesis using c by (auto simp: now_def)
qed

subsection \<open>Invariants\<close>

text \<open>While a hash is live, no call removes or shortens its entry.\<close>

interpretation seen_live: invariant_system nonce_exec "\<lambda>c. call_time c < e"
  "\<lambda>s :: nonce_manager. expiring_nonce_seen s h = e" for h e
proof unfold_locales
  fix c :: "env \<times> nonce_call" and s :: nonce_manager
  assume t: "call_time c < e" and e: "expiring_nonce_seen s h = e"
  then have "e \<noteq> 0"
    by (auto simp: word_less_nat_alt)
  with t e show "expiring_nonce_seen (nonce_exec c s) h = e"
    using commit_cases [of "nonce_op (fst c) (snd c)" s]
    by (cases "snd c") (auto simp: nonce_exec_def call_time_def ok
        dest!: increment_nonce_effect check_and_mark_effect)
qed

text \<open>The ring pointer stays inside the buffer, so the increment cannot wrap around.\<close>

definition ring_bounded :: "nonce_manager \<Rightarrow> bool" where
  "ring_bounded s \<longleftrightarrow> expiring_nonce_ring_ptr s < EXPIRING_NONCE_SET_CAPACITY"

interpretation ring: invariant_system nonce_exec "\<lambda>_. True" ring_bounded
proof unfold_locales
  fix c :: "env \<times> nonce_call" and s :: nonce_manager
  assume "ring_bounded s"
  then show "ring_bounded (nonce_exec c s)"
    using commit_cases [of "nonce_op (fst c) (snd c)" s]
    by (cases "snd c") (auto simp: nonce_exec_def ring_bounded_def EXPIRING_NONCE_SET_CAPACITY_def ok
        dest!: increment_nonce_effect check_and_mark_effect split: if_splits)
qed

text \<open>Nonces never go down.\<close>

interpretation nonce_mono: invariant_system nonce_exec "\<lambda>_. True" "\<lambda>s :: nonce_manager. n \<le> unat (nonces s a k)" for n a k
proof unfold_locales
  fix c :: "env \<times> nonce_call" and s :: nonce_manager
  assume "n \<le> unat (nonces s a k)"
  then show "n \<le> unat (nonces (nonce_exec c s) a k)"
    using commit_cases [of "nonce_op (fst c) (snd c)" s]
    by (cases "snd c") (auto simp: nonce_exec_def ok
        dest!: increment_nonce_effect check_and_mark_effect)
qed

subsection \<open>Properties\<close>

text \<open>C20. No replay of an expiring-nonce transaction: once \<open>(tx_hash, valid_before)\<close> has been
  accepted, it is never accepted again, after any sequence of nonce calls whose block
  timestamps do not decrease up to the second attempt. While the entry is live the replay
  check rejects it, and from its expiry on the window check does.\<close>

theorem expiring_nonce_no_replay:
  assumes "check_and_mark_expiring_nonce env h vb s = (Inr (), s1)"
    and "list_all (\<lambda>c. call_time c \<le> saturating_to (block_timestamp env')) cs"
  shows "\<exists>e. fst (check_and_mark_expiring_nonce env' h vb (fold nonce_exec cs s1)) = Inl e"
proof -
  let ?now = "saturating_to (block_timestamp env') :: u64"
  let ?t = "fold nonce_exec cs s1"
  have "\<nexists>s2. check_and_mark_expiring_nonce env' h vb ?t = (Inr (), s2)"
  proof (cases "?now < vb")
    case True
    with assms(2) have "list_all (\<lambda>c. call_time c < vb) cs"
      by (auto simp: list_all_iff)
    then have "expiring_nonce_seen ?t h = vb"
      using seen_live.fold_keeps check_and_mark_effect [OF assms(1)] by blast
    with True show ?thesis
      by (auto dest!: check_and_mark_effect simp: word_less_nat_alt)
  next
    case False
    then show ?thesis by (auto dest!: check_and_mark_effect)
  qed
  then show ?thesis
    by (metis (full_types) old.sum.exhaust old.unit.exhaust prod.collapse)
qed

definition sample_marked :: nonce_manager where
  "sample_marked = snd (check_and_mark_expiring_nonce sample_env 77 1010 empty_nonce_manager)"

lemmas nonce_eval = nonce_exec_def commit_def run check_and_mark_expiring_nonce_def evict_ring_entry_def
  empty_nonce_manager_def sample_env_def saturating_to_def saturating_add_def Let_def
  EXPIRING_NONCE_MAX_EXPIRY_SECS_def EXPIRING_NONCE_SET_CAPACITY_def

theorem expiring_nonce_no_replay_witness:
  "\<exists>e. fst (check_and_mark_expiring_nonce sample_env 77 1010
     (fold nonce_exec [(sample_env, MarkExpiringNonce 78 1010)] sample_marked)) = Inl e"
proof -
  have "check_and_mark_expiring_nonce sample_env 77 1010 empty_nonce_manager = (Inr (), sample_marked)"
    by (simp add: sample_marked_def nonce_eval)
  then show ?thesis
    by (rule expiring_nonce_no_replay) (simp add: call_time_def)
qed

text \<open>Along every sequence of nonce calls no nonce ever decreases and the ring pointer stays
  below the capacity, and an increment that succeeds returns the stored nonce plus one and
  changes no other account's or key's nonce.\<close>

theorem nonces_increase:
  assumes "ring_bounded s" and "increment_nonce a k (fold nonce_exec cs s) = (Inr n, s')"
  shows "unat (nonces s a k) < unat n \<and> nonces s' a k = n \<and>
    (\<forall>b j. (b, j) \<noteq> (a, k) \<longrightarrow> nonces s' b j = nonces (fold nonce_exec cs s) b j) \<and> ring_bounded s'"
proof -
  let ?t = "fold nonce_exec cs s"
  have "ring_bounded ?t"
    using ring.fold_keeps [of cs s] assms(1) by (simp add: list_all_iff)
  moreover have "unat (nonces s a k) \<le> unat (nonces ?t a k)"
    by (rule nonce_mono.fold_keeps) (simp_all add: list_all_iff)
  moreover note increment_nonce_effect [OF assms(2)]
  ultimately show ?thesis
    by (auto simp: ring_bounded_def)
qed

theorem nonces_increase_witness:
  "unat (nonces empty_nonce_manager 5 1) < unat (1 :: u64)"
proof -
  have "increment_nonce 5 1 (fold nonce_exec [] empty_nonce_manager) =
    (Inr 1, snd (increment_nonce 5 1 empty_nonce_manager))"
    by (simp add: increment_nonce_def checked_add_def nonce_eval)
  moreover have "ring_bounded empty_nonce_manager"
    by (simp add: ring_bounded_def nonce_eval)
  ultimately show ?thesis
    using nonces_increase by blast
qed

end
