(* ===== verification/Quote_Graph.thy ===== *)
theory Quote_Graph
  imports Tip20_World
begin

section \<open>The graph of quote tokens\<close>

text \<open>
  Every token names a quote token, and the exchange routes along these links up to
  \<open>pathUSD\<close>. \<open>set_next_quote_token\<close> and \<open>complete_quote_token_update\<close> move a token in the
  graph; the loop in the second one rejects a move that would close a cycle. Here: from every
  deployed token the links lead to a root in finitely many steps, whatever calls are made, and
  the loop returns when it has gas for that many reads.
\<close>

definition quote_of :: "'x world_scheme \<Rightarrow> address \<Rightarrow> address" where
  "quote_of w a = quote_token (tokens w a)"

text \<open>A root is \<open>pathUSD\<close> or an address that is no token (the zero quote of a first token).\<close>

definition quote_root :: "address \<Rightarrow> bool" where
  "quote_root a \<longleftrightarrow> a = PATH_USD_ADDRESS \<or> \<not> is_tip20_prefix a"

inductive grounded :: "(address \<Rightarrow> address) \<Rightarrow> address \<Rightarrow> bool" for q where
  root: "quote_root a \<Longrightarrow> grounded q a"
| step: "grounded q (q a) \<Longrightarrow> grounded q a"

inductive_cases grounded_stepE: "grounded q a"


text \<open>The chain from \<open>a\<close> to \<open>pathUSD\<close> that the loop walks, avoiding \<open>self\<close>.\<close>

inductive path_avoiding :: "(address \<Rightarrow> address) \<Rightarrow> address \<Rightarrow> address \<Rightarrow> bool" for q self where
  here: "path_avoiding q self PATH_USD_ADDRESS"
| there: "a \<noteq> self \<Longrightarrow> path_avoiding q self (q a) \<Longrightarrow> path_avoiding q self a"

lemma check_no_quote_loop_path:
  "check_no_quote_loop gas self a w = (Inr u, w') \<Longrightarrow> path_avoiding (quote_of w) self a"
proof (induction gas arbitrary: a)
  case 0
  then show ?case by (simp add: ok)
next
  case (Suc gas)
  show ?case
  proof (cases "a = PATH_USD_ADDRESS")
    case True
    then show ?thesis by (simp add: path_avoiding.here)
  next
    case False
    with Suc.prems have "a \<noteq> self" "check_no_quote_loop gas self (quote_of w a) w = (Inr u, w')"
      by (auto simp: ok lookup_reads quote_of_def)
    with Suc.IH show ?thesis by (blast intro: path_avoiding.there)
  qed
qed

lemma path_grounded:
  assumes "path_avoiding q self a" "\<And>b. b \<noteq> self \<Longrightarrow> q' b = q b"
  shows "grounded q' a"
  using assms(1)
proof induction
  case here
  then show ?case by (simp add: grounded.root quote_root_def)
next
  case (there a)
  then show ?case using assms(2) by (metis grounded.step)
qed

text \<open>Redirecting one token to a grounded target keeps everything grounded.\<close>

lemma grounded_upd:
  assumes "grounded q b" "\<And>c. c \<noteq> a \<Longrightarrow> q' c = q c" "grounded q' a"
  shows "grounded q' b"
  using assms(1)
proof induction
  case (root c)
  then show ?case by (rule grounded.root)
next
  case (step c)
  then show ?case using assms(2,3) by (metis grounded.step)
qed

text \<open>The loop decides within the length of the chain.\<close>

lemma check_no_quote_loop_decides:
  "grounded (quote_of w) a \<Longrightarrow> \<exists>n. \<forall>gas \<ge> n. fst (check_no_quote_loop gas self a w) \<noteq> Inl OutOfGas"
proof (induction rule: grounded.induct)
  case (root a)
  have "fst (check_no_quote_loop gas self a w) \<noteq> Inl OutOfGas" if "gas \<ge> 1" for gas
    using root that by (cases gas) (auto simp: run quote_root_def token_quote_def from_address_def)
  then show ?case by blast
next
  case (step a)
  then obtain n where n: "\<And>gas. gas \<ge> n \<Longrightarrow> fst (check_no_quote_loop gas self (quote_of w a) w) \<noteq> Inl OutOfGas"
    by blast
  have "fst (check_no_quote_loop gas self a w) \<noteq> Inl OutOfGas" if "gas \<ge> Suc n" for gas
    using n that by (cases gas) (auto simp: run token_quote_def from_address_def quote_of_def)
  then show ?case by blast
qed

subsection \<open>Calls that leave the graph alone\<close>

definition links :: "tip20 \<Rightarrow> address \<times> address" where
  "links t = (quote_token t, next_quote_token t)"

definition quotes :: "'x world_scheme \<Rightarrow> (address \<Rightarrow> address \<times> address) \<times> (address \<Rightarrow> bool)" where
  "quotes w = (\<lambda>a. links (tokens w a), has_code w)"

lemmas token_leaves = emit_def has_role_internal_def check_role_def get_balance_def set_balance_def get_allowance_def
  set_allowance_def set_total_supply_def check_not_paused_def check_recipient_def get_user_reward_info_def
  set_user_reward_info_def get_opted_in_supply_def set_opted_in_supply_def increase_opted_in_supply_def
  decrease_opted_in_supply_def accrued_reward_def

lemma leaves_keep_links [kept]:
  "keeps links (emit e)" "keeps links (check_role a r)" "keeps links (get_balance a)" "keeps links (set_balance a x)"
  "keeps links (get_allowance a b)" "keeps links (set_allowance a b x)" "keeps links (set_total_supply x)"
  "keeps links check_not_paused" "keeps links (check_recipient a)" "keeps links (get_user_reward_info a)"
  "keeps links (set_user_reward_info a i)" "keeps links (increase_opted_in_supply x)"
  "keeps links (decrease_opted_in_supply x)" "keeps links (accrued_reward x y)"
  unfolding token_leaves by (intro kept; simp add: links_def)+

lemma moves_keep_links [kept]:
  "keeps links (update_rewards a)" "keeps links (handle_rewards_on_transfer a b x)"
  "keeps links (handle_rewards_on_mint a x)" "keeps links (transfer_internal self a b x)"
  "keeps links (decrease_total_supply self x)" "keeps links (burn_internal env self a x)"
  "keeps links (burn env self a x)" "keeps links (burn_with_memo env self a x memo)"
  "keeps links (transfer_fee_post_tx self a x y)"
  unfolding update_rewards_def handle_rewards_on_transfer_def handle_rewards_on_mint_def transfer_internal_def
    decrease_total_supply_def burn_internal_def burn_def burn_with_memo_def transfer_fee_post_tx_def
  by (intro kept)+

lemma admin_keep_links [kept]:
  "keeps links (set_supply_cap s x)" "keeps links (pause env s)" "keeps links (unpause env s)"
  "keeps links (grant_role s r a)" "keeps links (revoke_role s r a)" "keeps links (renounce_role s r)"
  "keeps links (set_role_admin s r r')"
  unfolding set_supply_cap_def pause_def unpause_def role_defs by (intro kept; simp add: links_def)+

lemma zoom_keeps_quotes [kept]:
  "keeps links m \<Longrightarrow> keeps quotes (on_token self m)"
  "keeps quotes (on_keychain k)" "keeps quotes (on_registry r)" "keeps quotes (from_address a)"
  by (auto simp: keeps_def on_token_def on_keychain_def on_registry_def ezoom_def Let_def quotes_def run
      from_address_def fun_eq_iff split: prod.splits) (metis snd_conv)

lemma authorization_keep_quotes [kept]:
  "keeps quotes (is_user_authorized env self a)" "keeps quotes (ensure_transfer_authorized env self a b)"
  "keeps quotes (check_and_update_spending_limit env self a x)"
  unfolding is_user_authorized_def ensure_transfer_authorized_def is_transfer_authorized_def
    check_and_update_spending_limit_def
  by (intro kept)+

lemma calls_keep_quotes [kept]:
  "keeps quotes (transfer env self s a x)" "keeps quotes (transfer_from env self s a b x)"
  "keeps quotes (transfer_from_with_memo env self s a b x memo)" "keeps quotes (transfer_with_memo env self s a x memo)"
  "keeps quotes (system_transfer_from env self a b x)" "keeps quotes (approve env self s a x)"
  "keeps quotes (mint env self s a x)" "keeps quotes (mint_with_memo env self s a x memo)"
  "keeps quotes (burn_blocked env self s a x)" "keeps quotes (transfer_fee_pre_tx env self a x)"
  "keeps quotes (set_reward_recipient env self s a)" "keeps quotes (claim_rewards env self s)"
  unfolding transfer_def transfer_from_def transfer_from_internal_def transfer_from_with_memo_def
    transfer_with_memo_def system_transfer_from_def approve_def mint_def mint_internal_def mint_with_memo_def
    burn_blocked_def transfer_fee_pre_tx_def set_reward_recipient_def claim_rewards_def
  by (intro kept)+

lemma more_calls_keep_quotes [kept]:
  "keeps quotes (distribute_reward env self s x)" "keeps quotes (change_transfer_policy_id self s pid)"
  unfolding distribute_reward_def change_transfer_policy_id_def
  by (intro kept; simp add: links_def)+

subsection \<open>The invariant of the graph\<close>

definition linked :: "'x world_scheme \<Rightarrow> address \<Rightarrow> bool" where
  "linked w a \<longleftrightarrow> is_tip20_prefix a \<longrightarrow> has_code w a"

definition graph_ok :: "'x world_scheme \<Rightarrow> bool" where
  "graph_ok w \<longleftrightarrow> (\<forall>a. grounded (quote_of w) a \<and> linked w (quote_of w a) \<and> linked w (next_quote_token (tokens w a)))"

lemma quotes_graph:
  assumes "quotes w' = quotes w"
  shows "graph_ok w' = graph_ok w"
proof -
  have "has_code w' = has_code w" "\<And>a. quote_token (tokens w' a) = quote_token (tokens w a)"
    "\<And>a. next_quote_token (tokens w' a) = next_quote_token (tokens w a)"
    using assms by (auto simp: quotes_def links_def fun_eq_iff)
  moreover from this have "quote_of w' = quote_of w" by (simp add: quote_of_def fun_eq_iff)
  ultimately show ?thesis by (simp add: graph_ok_def linked_def)
qed

lemma graph_ok_empty: "graph_ok empty_world"
proof -
  have "grounded (quote_of empty_world) a" for a
    by (rule grounded.step, rule grounded.root) (simp add: quote_of_def empty_world_def empty_tip20_def quote_root_def)
  then show ?thesis by (simp add: graph_ok_def linked_def quote_of_def empty_world_def empty_tip20_def)
qed

lemma set_next_quote_token_graph:
  assumes "set_next_quote_token self s q w = (Inr u, w')" "graph_ok w"
  shows "graph_ok w'"
proof -
  have ifr: "m w = (Inr u1, w1) \<Longrightarrow> w1 = w"
    if "m = (if c then ebind (token_currency q) (\<lambda>x. erequire (x = USD_CURRENCY) e) else eret ())" for m c e w u1 w1
    using that by (auto simp: ok lookup_reads split: if_splits)
  define t' where "t' = (tokens w self)\<lparr>next_quote_token := q,
    token_log := token_log (tokens w self) @ [NextQuoteTokenSet s q]\<rparr>"
  from assms(1) have "has_code w q" and w': "w' = w\<lparr>tokens := (tokens w)(self := t')\<rparr>"
    by (auto simp: set_next_quote_token_def ebind_ok erequire_ok egets_ok emodify_ok token_checks lookup_reads on_token_ok
        emit_def t'_def dest!: ifr [OF refl])
  moreover have "quote_of w' = quote_of w" by (auto simp: quote_of_def fun_eq_iff w' t'_def)
  ultimately show ?thesis using assms(2) by (auto simp: graph_ok_def linked_def t'_def)
qed

lemma complete_quote_token_update_graph:
  assumes "complete_quote_token_update gas self s w = (Inr u, w')" "graph_ok w"
  shows "graph_ok w'"
proof -
  let ?n = "next_quote_token (tokens w self)"
  define t' where "t' = (tokens w self)\<lparr>quote_token := ?n,
    token_log := token_log (tokens w self) @ [QuoteTokenUpdate s ?n]\<rparr>"
  then have t': "quote_token t' = ?n" "next_quote_token t' = ?n" by simp_all
  from assms(1) obtain w1 where loop: "check_no_quote_loop gas self ?n w = (Inr (), w1)"
    and "w1 = w \<Longrightarrow> w' = w\<lparr>tokens := (tokens w)(self := t')\<rparr>"
    by (auto simp: complete_quote_token_update_def ebind_ok egets_ok emodify_ok token_checks on_token_ok emit_def t'_def)
  then have w': "w' = w\<lparr>tokens := (tokens w)(self := t')\<rparr>" using check_no_quote_loop_read by blast
  have off: "quote_of w' b = quote_of w b" if "b \<noteq> self" for b
    using that by (simp add: quote_of_def w')
  have "grounded (quote_of w') ?n"
    using path_grounded [OF check_no_quote_loop_path [OF loop], of "quote_of w'"] off by simp
  then have "grounded (quote_of w') self"
    using grounded.step [of "quote_of w'" self] by (simp add: quote_of_def w' t')
  then have "grounded (quote_of w') b" for b
    using grounded_upd [of "quote_of w" b self "quote_of w'"] off assms(2) by (simp add: graph_ok_def)
  then show ?thesis using assms(2) by (auto simp: graph_ok_def linked_def quote_of_def w' t')
qed

lemma initialize_graph:
  assumes "initialize a sender name symbol cur q admin w = (Inr u, w')" "graph_ok w" "linked w q" "\<not> has_code w a"
    "is_tip20_prefix a"
  shows "graph_ok w'"
proof -
  note i = initialize_world(3-6) [OF assms(1)]
  have q': "quote_of w' = (quote_of w)(a := q)"
  proof
    fix b
    have "tokens w' b = tokens w b" if "b \<noteq> a" using i(2) that by (metis fun_upd_other)
    then show "quote_of w' b = ((quote_of w)(a := q)) b" using i(3) by (simp add: quote_of_def)
  qed
  have lw: "linked w b \<Longrightarrow> linked w' b" for b by (simp add: linked_def i)
  have live: "grounded (quote_of w') b" if "grounded (quote_of w) b" "linked w b" for b
    using that
  proof induction
    case (root b)
    then show ?case by (simp add: grounded.root)
  next
    case (step b)
    show ?case
    proof (cases "is_tip20_prefix b")
      case True
      with step.prems assms(4) have "b \<noteq> a" by (auto simp: linked_def)
      then have "quote_of w' b = quote_of w b" by (simp add: q')
      moreover have "linked w (quote_of w b)" using assms(2) by (simp add: graph_ok_def)
      ultimately have "grounded (quote_of w') (quote_of w' b)" using step.IH by simp
      then show ?thesis by (rule grounded.step)
    next
      case False
      then show ?thesis by (simp add: grounded.root quote_root_def)
    qed
  qed
  have "grounded (quote_of w') q" using live assms(2,3) by (simp add: graph_ok_def)
  then have "grounded (quote_of w') a" using grounded.step [of "quote_of w'" a] by (simp add: q')
  then have "grounded (quote_of w') b" for b
    using grounded_upd [of "quote_of w" b a "quote_of w'"] assms(2) by (simp add: graph_ok_def q')
  moreover have "linked w' (quote_of w' b) \<and> linked w' (next_quote_token (tokens w' b))" for b
  proof (cases "b = a")
    case True
    then show ?thesis using i(3,4) assms(3) lw by (simp add: quote_of_def)
  next
    case False
    then have "tokens w' b = tokens w b" using i(2) by (metis fun_upd_other)
    then show ?thesis using assms(2) lw by (simp add: graph_ok_def quote_of_def)
  qed
  ultimately show ?thesis by (simp add: graph_ok_def)
qed

lemma graph_ok_log [simp]: "graph_ok (w\<lparr>factory_log := l\<rparr>) = graph_ok w"
  by (rule quotes_graph) (simp add: quotes_def)

lemma keeps_quotes_graph: "keeps quotes m \<Longrightarrow> m w = (Inr v, w') \<Longrightarrow> graph_ok w \<Longrightarrow> graph_ok w'"
  by (drule (1) keeps_run, drule quotes_graph) simp

lemma keeps_evoid [kept]: "keeps f m \<Longrightarrow> keeps f (evoid m)"
  unfolding evoid_def by (intro kept)

lemma dispatch_graph:
  assumes "tip20_dispatch env gas self s c w = (Inr u, w')" "graph_ok w"
  shows "graph_ok w'"
proof -
  have "keeps quotes (tip20_dispatch env gas self s c)"
    if "\<And>q. c \<noteq> SetNextQuoteTokenCall q" "c \<noteq> CompleteQuoteTokenUpdateCall"
    using that by (cases c) (auto intro!: kept)
  then consider "keeps quotes (tip20_dispatch env gas self s c)" | q where "c = SetNextQuoteTokenCall q"
    | "c = CompleteQuoteTokenUpdateCall" by blast
  then show ?thesis
    using assms by cases (auto intro: keeps_quotes_graph set_next_quote_token_graph complete_quote_token_update_graph)
qed

lemma world_op_graph:
  assumes "world_op env c w = (Inr u, w')" "graph_ok w"
  shows "graph_ok w'"
proof (cases c)
  case (TokenCall gas self s tc)
  then show ?thesis using assms by (auto simp: tip20_call_entry_def ok lookup_reads intro: dispatch_graph)
next
  case (CreateTokenCall sender name symbol cur quote admin salt)
  then obtain a where "create_token env sender name symbol cur quote admin salt w = (Inr a, w')"
    using assms(1) by (auto simp: evoid_ok)
  from create_token_effect [OF this] assms(2) show ?thesis
    by (metis graph_ok_log initialize_graph linked_def)
next
  case (CreateTokenReserved a name symbol cur quote admin)
  then obtain v where "create_token_reserved_address a name symbol cur quote admin w = (Inr v, w')"
    using assms(1) by (auto simp: evoid_ok)
  from create_token_reserved_effect [OF this] assms(2) show ?thesis
    by (metis graph_ok_log initialize_graph linked_def is_tip20_prefix_system(4))
next
  case (SystemTransferFrom self "from" to x)
  then have "keeps quotes (world_op env c)" by (simp, intro kept)
  then show ?thesis using assms by (rule keeps_quotes_graph)
next
  case (FeePreTx self "from" x)
  then have "keeps quotes (world_op env c)" by (simp, intro kept)
  then show ?thesis using assms by (rule keeps_quotes_graph)
next
  case (FeePostTx self to refund actual)
  then have "keeps quotes (world_op env c)" by (simp, intro kept)
  then show ?thesis using assms by (rule keeps_quotes_graph)
next
  case (RegistryCall sender rc)
  then have "keeps quotes (world_op env c)" by (simp, intro kept)
  then show ?thesis using assms by (rule keeps_quotes_graph)
next
  case (KeychainCall kc)
  then have "keeps quotes (world_op env c)" by (simp, intro kept)
  then show ?thesis using assms by (rule keeps_quotes_graph)
qed

interpretation graph_sys: invariant_system world_exec "\<lambda>_. True" graph_ok
proof unfold_locales
  fix c :: "env \<times> world_call" and w :: "'a world_scheme"
  assume "graph_ok w"
  then show "graph_ok (world_exec c w)"
    using commit_cases [of "world_op (fst c) (snd c)" w] world_op_graph [of "fst c" "snd c" w _ "world_exec c w"]
    by (auto simp: world_exec_def)
qed

subsection \<open>Properties\<close>


text \<open>C26. The loop of \<open>completeQuoteTokenUpdate\<close> ends: after any sequence of calls from genesis, for
  every token there is an amount of gas from which on the call returns a verdict, success or
  an error of the token, and never runs out of gas.\<close>

theorem quote_update_terminates:
  "\<exists>n. \<forall>extra. fst (complete_quote_token_update (n + extra) self sender (fold world_exec cs empty_world)) \<noteq> Inl OutOfGas"
proof -
  let ?w = "fold world_exec cs empty_world"
  have "graph_ok ?w"
    by (rule graph_sys.fold_keeps) (simp_all add: graph_ok_empty list.pred_True)
  then obtain n where "\<And>gas. gas \<ge> n \<Longrightarrow>
      fst (check_no_quote_loop gas self (next_quote_token (tokens ?w self)) ?w) \<noteq> Inl OutOfGas"
    using check_no_quote_loop_decides unfolding graph_ok_def by blast
  then have "fst (check_no_quote_loop (n + k) self (next_quote_token (tokens ?w self)) ?w) \<noteq> Inl OutOfGas" for k
    by simp
  then have "fst (complete_quote_token_update (n + k) self sender ?w) \<noteq> Inl OutOfGas" for k
    by (auto simp: complete_quote_token_update_def run on_token_def ezoom_def Let_def check_role_def has_role_internal_def
        emit_def split: prod.split sum.split) (metis fst_conv)
  then show ?thesis by blast
qed

end
