(* ===== verification/Storage_Vec.thy ===== *)
theory Storage_Vec
  imports Errors
begin

section \<open>Dynamic arrays in contract storage\<close>

text \<open>
  Model of \<open>VecHandler\<close> of \<open>precompiles/src/storage/types/vec.rs\<close>: a length slot and element
  slots. Indexing (\<open>v[i]\<close>) does not check bounds, \<open>at\<close> does; \<open>push\<close> writes behind the last
  element and fails at the maximum capacity, \<open>pop\<close> clears the last element. The element slots
  are a total function, whose value beyond the length is what was left there.

  The interface to the contracts is the locale \<open>storage_array\<close>: the operations act on the list
  of the elements.
\<close>

record 'a svec =
  svec_len :: nat
  svec_elems :: "nat \<Rightarrow> 'a"

definition svec_at :: "'a svec \<Rightarrow> nat \<Rightarrow> 'a option" where
  "svec_at v index = (if index \<ge> svec_len v then None else Some (svec_elems v index))"

definition svec_write :: "'a svec \<Rightarrow> nat \<Rightarrow> 'a \<Rightarrow> 'a svec" where
  "svec_write v index x = v\<lparr>svec_elems := (svec_elems v)(index := x)\<rparr>"

definition svec_push :: "nat \<Rightarrow> 'a svec \<Rightarrow> 'a \<Rightarrow> tempo_error + 'a svec" where
  "svec_push max_index v x =
     (if svec_len v \<ge> max_index then Inl (Fatal ''Vec is at max capacity'')
      else Inr \<lparr>svec_len = svec_len v + 1, svec_elems = (svec_elems v)(svec_len v := x)\<rparr>)"

definition svec_pop :: "'a \<Rightarrow> 'a svec \<Rightarrow> 'a option \<times> 'a svec" where
  "svec_pop zero v =
     (if svec_len v = 0 then (None, v)
      else let last_index = svec_len v - 1 in
        (Some (svec_elems v last_index),
         \<lparr>svec_len = last_index, svec_elems = (svec_elems v)(last_index := zero)\<rparr>))"

definition max_index :: "nat \<Rightarrow> nat \<Rightarrow> nat" where
  "max_index bytes slots = (if bytes \<le> 16 then 4294967295 div bytes else 4294967295 div slots)"

text \<open>The elements as a list.\<close>

definition svec_list :: "'a svec \<Rightarrow> 'a list" where
  "svec_list v = map (svec_elems v) [0..<svec_len v]"

locale storage_array =
  fixes elems :: "'v \<Rightarrow> 'a list"
    and elem :: "'v \<Rightarrow> nat \<Rightarrow> 'a option"
    and store :: "'v \<Rightarrow> nat \<Rightarrow> 'a \<Rightarrow> 'v"
    and push :: "'v \<Rightarrow> 'a \<Rightarrow> 'e + 'v"
    and capacity :: nat
  assumes elem_elems: "elem v i = (if i < length (elems v) then Some (elems v ! i) else None)"
    and store_elems: "i < length (elems v) \<Longrightarrow> elems (store v i x) = (elems v)[i := x]"
    and push_elems: "push v x = Inr v' \<Longrightarrow> elems v' = elems v @ [x]"
    and push_fits: "length (elems v) < capacity \<Longrightarrow> \<exists>v'. push v x = Inr v'"
    and push_bound: "push v x = Inr v' \<Longrightarrow> length (elems v) < capacity"
begin

lemma elem_push: "push v x = Inr v' \<Longrightarrow> elem v' i = (if i = length (elems v) then Some x else elem v i)"
  by (auto simp: elem_elems push_elems nth_append)

lemma elem_store: "i < length (elems v) \<Longrightarrow> elem (store v i x) j = (if j = i then Some x else elem v j)"
  by (auto simp: elem_elems store_elems)

lemma elem_Some: "elem v i = Some x \<longleftrightarrow> i < length (elems v) \<and> elems v ! i = x"
  by (auto simp: elem_elems)

end

lemma svec_list_write: "i < svec_len v \<Longrightarrow> svec_list (svec_write v i x) = (svec_list v)[i := x]"
  by (rule nth_equalityI) (auto simp: svec_list_def svec_write_def nth_list_update)

interpretation svec: storage_array svec_list svec_at svec_write "svec_push cap" cap for cap
  by unfold_locales (auto simp: svec_list_def svec_at_def svec_push_def svec_list_write [unfolded svec_list_def]
      split: if_splits)

text \<open>\<open>pop\<close> undoes \<open>push\<close>: it returns the element that was pushed and leaves the elements that
  were there before.\<close>

lemma push_pop_roundtrip:
  assumes "svec_push cap v x = Inr v'"
  shows "fst (svec_pop zero v') = Some x \<and> svec_list (snd (svec_pop zero v')) = svec_list v"
  using assms by (auto simp: svec_push_def svec_pop_def svec_list_def Let_def split: if_splits)

end
