(* ===== verification/Socket_Addr.thy ===== *)
theory Socket_Addr
  imports Main
begin

section \<open>Parsing of socket addresses\<close>

text \<open>
  \<open>str::parse::<std::net::SocketAddr>()\<close> of the Rust standard library, which the validator
  configuration uses to check peer addresses: \<open>a.b.c.d:port\<close> or \<open>[ipv6%scope]:port\<close>. A parser
  takes the remaining characters to a value and the rest, or to \<open>None\<close>, in which case nothing
  is consumed (\<open>read_atomically\<close>). Only the shape matters here, so the groups of an address
  are counted and not kept.
\<close>

type_synonym 'a parser = "string \<Rightarrow> ('a \<times> string) option"

definition read_given_char :: "char \<Rightarrow> unit parser" where
  "read_given_char c s = (case s of [] \<Rightarrow> None | d # r \<Rightarrow> if d = c then Some ((), r) else None)"

definition to_digit :: "nat \<Rightarrow> char \<Rightarrow> nat option" where
  "to_digit radix c =
     (let n = of_char c :: nat;
          d = (if 48 \<le> n \<and> n \<le> 57 then n - 48
               else if 97 \<le> n \<and> n \<le> 122 then n - 87
               else if 65 \<le> n \<and> n \<le> 90 then n - 55
               else 36)
      in if d < radix then Some d else None)"

text \<open>The digits at the front of the input, and the rest.\<close>

fun digits :: "nat \<Rightarrow> string \<Rightarrow> nat list \<times> string" where
  "digits radix [] = ([], [])"
| "digits radix (c # s) =
     (case to_digit radix c of None \<Rightarrow> ([], c # s)
      | Some d \<Rightarrow> (case digits radix s of (ds, r) \<Rightarrow> (d # ds, r)))"

text \<open>\<open>read_number\<close>: at most \<open>max_digits\<close> digits when given, no leading zero unless allowed, and
  the value must fit the integer type, whose largest value is \<open>bound\<close>.\<close>

definition read_number :: "nat \<Rightarrow> nat option \<Rightarrow> bool \<Rightarrow> nat \<Rightarrow> nat parser" where
  "read_number radix max_digits allow_zero_prefix bound s =
     (case digits radix s of (ds, r) \<Rightarrow>
        (let value = foldl (\<lambda>v d. v * radix + d) 0 ds in
         if (case max_digits of None \<Rightarrow> False | Some m \<Rightarrow> length ds > m) then None
         else if ds = [] then None
         else if \<not> allow_zero_prefix \<and> hd ds = 0 \<and> length ds > 1 then None
         else if value > bound then None
         else Some (value, r)))"

definition read_separator :: "char \<Rightarrow> nat \<Rightarrow> 'a parser \<Rightarrow> 'a parser" where
  "read_separator sep index p s =
     (if index > 0 then (case read_given_char sep s of None \<Rightarrow> None | Some (_, r) \<Rightarrow> p r) else p s)"

fun read_ipv4_groups :: "nat \<Rightarrow> nat \<Rightarrow> unit parser" where
  "read_ipv4_groups i 0 s = Some ((), s)"
| "read_ipv4_groups i (Suc n) s =
     (case read_separator (CHR ''.'') i (read_number 10 (Some 3) False 255) s of
        None \<Rightarrow> None | Some (_, r) \<Rightarrow> read_ipv4_groups (Suc i) n r)"

definition read_ipv4_addr :: "unit parser" where
  "read_ipv4_addr = read_ipv4_groups 0 4"

text \<open>\<open>read_groups\<close> with \<open>n\<close> groups left from index \<open>i\<close>: how many were read, whether the last two
  came from an embedded IPv4 address, and the rest of the input.\<close>

fun read_groups :: "nat \<Rightarrow> nat \<Rightarrow> string \<Rightarrow> nat \<times> bool \<times> string" where
  "read_groups i 0 s = (i, False, s)"
| "read_groups i (Suc n) s =
     (case (if n > 0 then read_separator (CHR '':'') i read_ipv4_addr s else None) of
        Some (_, r) \<Rightarrow> (i + 2, True, r)
      | None \<Rightarrow>
          (case read_separator (CHR '':'') i (read_number 16 (Some 4) True 65535) s of
             None \<Rightarrow> (i, False, s)
           | Some (_, r) \<Rightarrow> read_groups (Suc i) n r))"

definition read_ipv6_addr :: "unit parser" where
  "read_ipv6_addr s =
     (case read_groups 0 8 s of (head_size, head_ipv4, r) \<Rightarrow>
        if head_size = 8 then Some ((), r)
        else if head_ipv4 then None
        else (case read_given_char (CHR '':'') r of None \<Rightarrow> None | Some (_, r1) \<Rightarrow>
             (case read_given_char (CHR '':'') r1 of None \<Rightarrow> None | Some (_, r2) \<Rightarrow>
                (case read_groups 0 (8 - (head_size + 1)) r2 of (tail_size, _, r3) \<Rightarrow> Some ((), r3)))))"

definition read_port :: "nat parser" where
  "read_port s = (case read_given_char (CHR '':'') s of None \<Rightarrow> None
     | Some (_, r) \<Rightarrow> read_number 10 None True 65535 r)"

definition read_scope_id :: "nat parser" where
  "read_scope_id s = (case read_given_char (CHR ''%'') s of None \<Rightarrow> None
     | Some (_, r) \<Rightarrow> read_number 10 None True 4294967295 r)"

definition read_socket_addr_v4 :: "nat parser" where
  "read_socket_addr_v4 s = (case read_ipv4_addr s of None \<Rightarrow> None | Some (_, r) \<Rightarrow> read_port r)"

definition read_socket_addr_v6 :: "nat parser" where
  "read_socket_addr_v6 s =
     (case read_given_char (CHR ''['') s of None \<Rightarrow> None | Some (_, r) \<Rightarrow>
     (case read_ipv6_addr r of None \<Rightarrow> None | Some (_, r1) \<Rightarrow>
     (let r2 = (case read_scope_id r1 of None \<Rightarrow> r1 | Some (_, r') \<Rightarrow> r') in
     (case read_given_char (CHR '']'') r2 of None \<Rightarrow> None | Some (_, r3) \<Rightarrow> read_port r3))))"

definition is_socket_addr :: "string \<Rightarrow> bool" where
  "is_socket_addr s =
     (case (case read_socket_addr_v4 s of Some x \<Rightarrow> Some x | None \<Rightarrow> read_socket_addr_v6 s) of
        None \<Rightarrow> False | Some (_, r) \<Rightarrow> r = [])"

lemma read_ipv4_addr_unfold:
  "read_ipv4_addr = read_ipv4_groups 0 (Suc (Suc (Suc (Suc 0))))"
  by (simp add: read_ipv4_addr_def numeral_eq_Suc)

lemmas socket_eval = is_socket_addr_def read_socket_addr_v4_def read_socket_addr_v6_def read_scope_id_def read_port_def
  read_ipv4_addr_unfold read_number_def read_separator_def read_given_char_def to_digit_def Let_def

lemma socket_addr_examples:
  "is_socket_addr ''10.0.0.1:9000''" "\<not> is_socket_addr ''10.0.0.1''" "\<not> is_socket_addr ''10.0.0.01:80''"
  "\<not> is_socket_addr ''10.0.0.1:65536''" "\<not> is_socket_addr ''10.0.0.256:1''"
  by (simp_all add: socket_eval)

text \<open>No host name is accepted: every accepted address starts with a decimal digit or a bracket.\<close>

lemma read_ipv4_addr_first:
  "digits 10 s = ([], s) \<Longrightarrow> read_ipv4_addr s = None"
proof -
  assume d: "digits 10 s = ([], s)"
  show ?thesis by (simp add: read_ipv4_addr_unfold read_separator_def read_number_def d)
qed

lemma socket_addr_first_char:
  assumes "is_socket_addr s"
  shows "\<exists>c r. s = c # r \<and> (c = CHR ''['' \<or> to_digit 10 c \<noteq> None)"
proof (rule ccontr)
  assume no: "\<not> ?thesis"
  then have d: "digits 10 s = ([], s)" by (cases s) auto
  have "read_given_char (CHR ''['') s = None" using no by (cases s) (auto simp: read_given_char_def)
  then have "read_socket_addr_v6 s = None" by (simp add: read_socket_addr_v6_def)
  moreover have "read_socket_addr_v4 s = None"
    by (simp add: read_socket_addr_v4_def read_ipv4_addr_first [OF d])
  ultimately show False using assms by (simp add: is_socket_addr_def)
qed

end
