(* ===== verification/Validator_Config.thy ===== *)
theory Validator_Config
  imports Storage_Vec Socket_Addr
begin

section \<open>The validator configuration\<close>

text \<open>
  Model of \<open>precompiles/src/validator_config/mod.rs\<close>: the owner, an array of validator
  addresses and a mapping from addresses to validator records, each of which carries its
  position in the array. The array is used through the interface \<open>storage_array\<close>.
\<close>

record validator =
  public_key :: b256
  active :: bool
  index :: u64
  validator_address :: address
  inbound_address :: string
  outbound_address :: string

record validator_config =
  vc_owner :: address
  validators_array :: "address svec"
  validators :: "address \<Rightarrow> validator"
  next_dkg_ceremony :: u64

definition no_validator :: validator where
  "no_validator = \<lparr>public_key = 0, active = False, index = 0, validator_address = 0,
     inbound_address = [], outbound_address = []\<rparr>"

definition empty_validator_config :: validator_config where
  "empty_validator_config = \<lparr>vc_owner = 0, validators_array = \<lparr>svec_len = 0, svec_elems = (\<lambda>_. 0)\<rparr>,
     validators = (\<lambda>_. no_validator), next_dkg_ceremony = 0\<rparr>"

type_synonym 'a vc = "(validator_config, tempo_error, 'a) pre"

text \<open>An address takes 20 bytes and one slot.\<close>

definition VALIDATORS_CAPACITY :: nat where
  "VALIDATORS_CAPACITY = max_index 20 1"

definition write_validator :: "address \<Rightarrow> validator \<Rightarrow> unit vc" where
  "write_validator a v = emodify (\<lambda>c. c\<lparr>validators := (validators c)(a := v)\<rparr>)"

definition initialize_config :: "address \<Rightarrow> unit vc" where
  "initialize_config owner = emodify (\<lambda>c. c\<lparr>vc_owner := owner\<rparr>)"

definition check_owner :: "address \<Rightarrow> unit vc" where
  "check_owner caller =
     ebind (egets vc_owner) (\<lambda>owner.
     erequire (\<not> owner \<noteq> caller) (ValidatorConfigError Validator_Unauthorized))"

definition change_owner :: "address \<Rightarrow> address \<Rightarrow> unit vc" where
  "change_owner sender new_owner =
     ebind (check_owner sender) (\<lambda>_.
     emodify (\<lambda>c. c\<lparr>vc_owner := new_owner\<rparr>))"

definition validator_count :: "u64 vc" where
  "validator_count = egets (\<lambda>c. of_nat (svec_len (validators_array c)))"

definition validators_array_at :: "u64 \<Rightarrow> address vc" where
  "validators_array_at i =
     ebind (egets (\<lambda>c. svec_at (validators_array c) (unat i))) (\<lambda>elem.
     eok_or elem array_oob)"

definition validator_exists :: "address \<Rightarrow> bool vc" where
  "validator_exists a = egets (\<lambda>c. \<not> public_key (validators c a) = 0)"

definition get_validators :: "validator list vc" where
  "get_validators = egets (\<lambda>c. map (\<lambda>i. let a = svec_elems (validators_array c) i in
     (validators c a)\<lparr>validator_address := a\<rparr>) [0..<svec_len (validators_array c)])"

definition IP_PORT_PARSE_ERROR :: string where
  "IP_PORT_PARSE_ERROR = ''IpWithPortParseError { source: AddrParseError(Socket) }''"

definition ensure_address_is_ip_port :: "string \<Rightarrow> string + unit" where
  "ensure_address_is_ip_port input = (if is_socket_addr input then Inr () else Inl IP_PORT_PARSE_ERROR)"

definition check_inbound :: "string \<Rightarrow> unit vc" where
  "check_inbound input = (case ensure_address_is_ip_port input of Inr _ \<Rightarrow> eret ()
     | Inl err \<Rightarrow> efail (ValidatorConfigError (Validator_NotHostPort ''inboundAddress'' input err)))"

definition check_outbound :: "string \<Rightarrow> unit vc" where
  "check_outbound input = (case ensure_address_is_ip_port input of Inr _ \<Rightarrow> eret ()
     | Inl err \<Rightarrow> efail (ValidatorConfigError (Validator_NotIpPort ''outboundAddress'' input err)))"

definition push_validator :: "address \<Rightarrow> unit vc" where
  "push_validator a =
     ebind (egets (\<lambda>c. svec_push VALIDATORS_CAPACITY (validators_array c) a)) (\<lambda>r.
     case r of Inl e \<Rightarrow> efail e | Inr v \<Rightarrow> emodify (\<lambda>c. c\<lparr>validators_array := v\<rparr>))"

definition add_validator :: "address \<Rightarrow> address \<Rightarrow> b256 \<Rightarrow> bool \<Rightarrow> string \<Rightarrow> string \<Rightarrow> unit vc" where
  "add_validator sender new_validator_address key is_active inbound outbound =
     ebind (erequire (\<not> key = 0) (ValidatorConfigError Validator_InvalidPublicKey)) (\<lambda>_.
     ebind (check_owner sender) (\<lambda>_.
     ebind (validator_exists new_validator_address) (\<lambda>exists.
     ebind (erequire (\<not> exists) (ValidatorConfigError Validator_AlreadyExists)) (\<lambda>_.
     ebind (check_inbound inbound) (\<lambda>_.
     ebind (check_outbound outbound) (\<lambda>_.
     ebind validator_count (\<lambda>count.
     ebind (write_validator new_validator_address
              \<lparr>public_key = key, active = is_active, index = count, validator_address = new_validator_address,
               inbound_address = inbound, outbound_address = outbound\<rparr>) (\<lambda>_.
     push_validator new_validator_address))))))))"

definition rotate_validator :: "address \<Rightarrow> address \<Rightarrow> validator \<Rightarrow> unit vc" where
  "rotate_validator sender new_validator_address old_validator =
     ebind (validator_exists new_validator_address) (\<lambda>exists.
     ebind (erequire (\<not> exists) (ValidatorConfigError Validator_AlreadyExists)) (\<lambda>_.
     ebind (emodify (\<lambda>c. c\<lparr>validators_array :=
        svec_write (validators_array c) (unat (index old_validator)) new_validator_address\<rparr>)) (\<lambda>_.
     write_validator sender no_validator)))"

definition update_validator :: "address \<Rightarrow> address \<Rightarrow> b256 \<Rightarrow> string \<Rightarrow> string \<Rightarrow> unit vc" where
  "update_validator sender new_validator_address key inbound outbound =
     ebind (erequire (\<not> key = 0) (ValidatorConfigError Validator_InvalidPublicKey)) (\<lambda>_.
     ebind (validator_exists sender) (\<lambda>exists.
     ebind (erequire exists (ValidatorConfigError Validator_NotFound)) (\<lambda>_.
     ebind (egets (\<lambda>c. validators c sender)) (\<lambda>old_validator.
     ebind (if new_validator_address \<noteq> sender then rotate_validator sender new_validator_address old_validator
            else eret ()) (\<lambda>_.
     ebind (check_inbound inbound) (\<lambda>_.
     ebind (check_outbound outbound) (\<lambda>_.
     write_validator new_validator_address
       \<lparr>public_key = key, active = active old_validator, index = index old_validator,
        validator_address = new_validator_address, inbound_address = inbound, outbound_address = outbound\<rparr>)))))))"

definition change_validator_status :: "address \<Rightarrow> address \<Rightarrow> bool \<Rightarrow> unit vc" where
  "change_validator_status sender a is_active =
     ebind (check_owner sender) (\<lambda>_.
     ebind (validator_exists a) (\<lambda>exists.
     ebind (erequire exists (ValidatorConfigError Validator_NotFound)) (\<lambda>_.
     ebind (egets (\<lambda>c. validators c a)) (\<lambda>v.
     write_validator a (v\<lparr>active := is_active\<rparr>)))))"

definition change_validator_status_by_index :: "address \<Rightarrow> u64 \<Rightarrow> bool \<Rightarrow> unit vc" where
  "change_validator_status_by_index sender i is_active =
     ebind (check_owner sender) (\<lambda>_.
     ebind (egets (\<lambda>c. svec_at (validators_array c) (unat i))) (\<lambda>elem.
     ebind (eok_or elem (ValidatorConfigError Validator_NotFound)) (\<lambda>a.
     ebind (egets (\<lambda>c. validators c a)) (\<lambda>v.
     write_validator a (v\<lparr>active := is_active\<rparr>)))))"

definition set_next_full_dkg_ceremony :: "address \<Rightarrow> u64 \<Rightarrow> unit vc" where
  "set_next_full_dkg_ceremony sender epoch =
     ebind (check_owner sender) (\<lambda>_.
     emodify (\<lambda>c. c\<lparr>next_dkg_ceremony := epoch\<rparr>))"

datatype validator_call =
    AddValidator address b256 bool string string
  | UpdateValidator address b256 string string
  | ChangeValidatorStatus address bool
  | ChangeValidatorStatusByIndex u64 bool
  | ChangeOwner address
  | SetNextFullDkgCeremony u64

fun validator_op :: "address \<Rightarrow> validator_call \<Rightarrow> unit vc" where
  "validator_op s (AddValidator a key act inb outb) = add_validator s a key act inb outb"
| "validator_op s (UpdateValidator a key inb outb) = update_validator s a key inb outb"
| "validator_op s (ChangeValidatorStatus a act) = change_validator_status s a act"
| "validator_op s (ChangeValidatorStatusByIndex i act) = change_validator_status_by_index s i act"
| "validator_op s (ChangeOwner a) = change_owner s a"
| "validator_op s (SetNextFullDkgCeremony e) = set_next_full_dkg_ceremony s e"

definition validator_exec :: "address \<times> validator_call \<Rightarrow> validator_config \<Rightarrow> validator_config" where
  "validator_exec c = commit (validator_op (fst c) (snd c))"

subsection \<open>The array and the mapping agree\<close>

abbreviation slots :: "validator_config \<Rightarrow> address list" where
  "slots c \<equiv> svec_list (validators_array c)"

definition config_ok :: "validator_config \<Rightarrow> bool" where
  "config_ok c \<longleftrightarrow> length (slots c) \<le> VALIDATORS_CAPACITY \<and>
     (\<forall>i < length (slots c). public_key (validators c (slots c ! i)) \<noteq> 0 \<and>
        unat (index (validators c (slots c ! i))) = i \<and>
        validator_address (validators c (slots c ! i)) = slots c ! i) \<and>
     (\<forall>a. public_key (validators c a) \<noteq> 0 \<longrightarrow> a \<in> set (slots c))"

lemma capacity_fits: "VALIDATORS_CAPACITY < 2 ^ 64"
  by (simp add: VALIDATORS_CAPACITY_def max_index_def)

lemma config_ok_distinct:
  assumes "config_ok c"
  shows "distinct (slots c)"
  unfolding distinct_conv_nth
proof (intro allI impI)
  fix i j assume ij: "i < length (slots c)" "j < length (slots c)" "i \<noteq> j"
  show "slots c ! i \<noteq> slots c ! j"
  proof
    assume "slots c ! i = slots c ! j"
    moreover have "unat (index (validators c (slots c ! i))) = i" "unat (index (validators c (slots c ! j))) = j"
      using assms ij by (simp_all add: config_ok_def)
    ultimately show False using ij by simp
  qed
qed

lemma config_ok_index:
  assumes "config_ok c" "public_key (validators c a) \<noteq> 0"
  shows "unat (index (validators c a)) < length (slots c) \<and> slots c ! unat (index (validators c a)) = a"
proof -
  from assms obtain i where "i < length (slots c)" "slots c ! i = a"
    by (auto simp: config_ok_def in_set_conv_nth)
  then show ?thesis using assms by (auto simp: config_ok_def)
qed

lemmas validator_defs = check_owner_def change_owner_def validator_count_def validator_exists_def check_inbound_def
  check_outbound_def ensure_address_is_ip_port_def write_validator_def push_validator_def rotate_validator_def
  change_validator_status_def change_validator_status_by_index_def set_next_full_dkg_ceremony_def

lemma checks_read:
  "check_inbound x c = (Inr u, c') \<longleftrightarrow> is_socket_addr x \<and> c' = c"
  "check_outbound x c = (Inr u, c') \<longleftrightarrow> is_socket_addr x \<and> c' = c"
  "check_owner s c = (Inr u, c') \<longleftrightarrow> vc_owner c = s \<and> c' = c"
  by (auto simp: check_inbound_def check_outbound_def check_owner_def ensure_address_is_ip_port_def ok split: sum.splits)

lemma add_validator_effect:
  assumes "add_validator s a key act inb outb c = (Inr u, c')"
  shows "key \<noteq> 0 \<and> vc_owner c = s \<and> public_key (validators c a) = 0 \<and> is_socket_addr inb \<and> is_socket_addr outb \<and>
    vc_owner c' = vc_owner c \<and> slots c' = slots c @ [a] \<and> length (slots c) < VALIDATORS_CAPACITY \<and>
    validators c' = (validators c)(a := \<lparr>public_key = key, active = act, index = of_nat (length (slots c)),
      validator_address = a, inbound_address = inb, outbound_address = outb\<rparr>)"
proof -
  from assms obtain v where push: "svec_push VALIDATORS_CAPACITY (validators_array c) a = Inr v"
    and eff: "key \<noteq> 0" "vc_owner c = s" "public_key (validators c a) = 0" "is_socket_addr inb" "is_socket_addr outb"
    and c': "c' = c\<lparr>validators := (validators c)(a := \<lparr>public_key = key, active = act,
        index = of_nat (svec_len (validators_array c)), validator_address = a, inbound_address = inb, outbound_address = outb\<rparr>),
        validators_array := v\<rparr>"
    by (auto simp: add_validator_def push_validator_def validator_exists_def validator_count_def write_validator_def
        checks_read ok split: sum.splits)
  have "svec_len (validators_array c) = length (slots c)" by (simp add: svec_list_def)
  with eff svec.push_elems [OF push] svec.push_bound [OF push] show ?thesis by (simp add: c')
qed

lemma update_validator_effect:
  assumes "update_validator s a key inb outb c = (Inr u, c')"
  defines "old \<equiv> validators c s"
  shows "key \<noteq> 0 \<and> public_key old \<noteq> 0 \<and> (a \<noteq> s \<longrightarrow> public_key (validators c a) = 0) \<and>
    vc_owner c' = vc_owner c \<and> is_socket_addr inb \<and> is_socket_addr outb \<and>
    validators_array c' = (if a = s then validators_array c else svec_write (validators_array c) (unat (index old)) a) \<and>
    validators c' = (validators c)(s := no_validator, a := \<lparr>public_key = key, active = active old, index = index old,
      validator_address = a, inbound_address = inb, outbound_address = outb\<rparr>)"
  using assms(1)
  by (cases "a = s")
    (auto simp: update_validator_def rotate_validator_def validator_exists_def write_validator_def checks_read old_def ok)

lemma status_effects:
  "change_validator_status s a act c = (Inr u, c') \<Longrightarrow> vc_owner c = s \<and> public_key (validators c a) \<noteq> 0 \<and>
     c' = c\<lparr>validators := (validators c)(a := (validators c a)\<lparr>active := act\<rparr>)\<rparr>"
  "change_validator_status_by_index s i act c = (Inr u, c') \<Longrightarrow> vc_owner c = s \<and> unat i < length (slots c) \<and>
     c' = c\<lparr>validators := (validators c)(slots c ! unat i := (validators c (slots c ! unat i))\<lparr>active := act\<rparr>)\<rparr>"
  by (auto simp: change_validator_status_def change_validator_status_by_index_def validator_exists_def write_validator_def
      checks_read svec.elem_Some ok)

lemma config_ok_status:
  assumes "config_ok c" "c' = c\<lparr>validators := (validators c)(a := (validators c a)\<lparr>active := act\<rparr>)\<rparr>"
  shows "config_ok c'"
  using assms by (auto simp: config_ok_def)

lemma config_ok_add:
  assumes "config_ok c" "add_validator s a key act inb outb c = (Inr u, c')"
  shows "config_ok c'"
proof -
  note e = add_validator_effect [OF assms(2)]
  have fresh: "a \<notin> set (slots c)" using assms(1) e by (auto simp: config_ok_def in_set_conv_nth)
  have idx: "unat (of_nat (length (slots c)) :: u64) = length (slots c)"
    using e capacity_fits by (simp add: unsigned_of_nat take_bit_nat_eq_self)
  have "public_key (validators c' (slots c' ! i)) \<noteq> 0 \<and> unat (index (validators c' (slots c' ! i))) = i \<and>
      validator_address (validators c' (slots c' ! i)) = slots c' ! i" if "i < length (slots c')" for i
  proof (cases "i < length (slots c)")
    case True
    then have "slots c ! i \<noteq> a" using fresh by (auto simp: in_set_conv_nth)
    then show ?thesis using True assms(1) e by (auto simp: config_ok_def nth_append)
  next
    case False
    then have "i = length (slots c)" using that e by simp
    then show ?thesis using e idx by (simp add: nth_append)
  qed
  moreover have "b \<in> set (slots c')" if "public_key (validators c' b) \<noteq> 0" for b
    using that e assms(1) by (auto simp: config_ok_def split: if_splits)
  ultimately show ?thesis using e by (simp add: config_ok_def)
qed

lemma config_ok_update:
  assumes "config_ok c" "update_validator s a key inb outb c = (Inr u, c')"
  shows "config_ok c' \<and> length (slots c') = length (slots c) \<and>
    (\<forall>j < length (slots c). active (validators c' (slots c' ! j)) = active (validators c (slots c ! j))) \<and>
    (\<forall>j < length (slots c). slots c' ! j \<noteq> slots c ! j \<longrightarrow> slots c ! j = s)"
proof -
  note e = update_validator_effect [OF assms(2)]
  let ?i = "unat (index (validators c s))"
  have i: "?i < length (slots c)" "slots c ! ?i = s" using config_ok_index [OF assms(1)] e by simp_all
  have sl: "slots c' = (slots c)[?i := a]"
  proof (cases "a = s")
    case True
    then show ?thesis using e i by (metis list_update_id)
  next
    case False
    then show ?thesis using e svec.store_elems [OF i(1)] by simp
  qed
  have other: "slots c ! j \<noteq> s \<and> slots c ! j \<noteq> a" if "j < length (slots c)" "j \<noteq> ?i" for j
  proof -
    have "slots c ! j \<noteq> s" using config_ok_distinct [OF assms(1)] i that by (metis nth_eq_iff_index_eq)
    moreover have "public_key (validators c (slots c ! j)) \<noteq> 0" using assms(1) that by (simp add: config_ok_def)
    ultimately show ?thesis using e by auto
  qed
  have at: "public_key (validators c' (slots c' ! j)) \<noteq> 0 \<and> unat (index (validators c' (slots c' ! j))) = j \<and>
      validator_address (validators c' (slots c' ! j)) = slots c' ! j \<and>
      active (validators c' (slots c' ! j)) = active (validators c (slots c ! j))" if "j < length (slots c)" for j
  proof (cases "j = ?i")
    case True
    then show ?thesis using i sl e by (simp add: that)
  next
    case False
    then show ?thesis using other [OF that False] that assms(1) e sl by (simp add: config_ok_def)
  qed
  have mem: "b \<in> set (slots c')" if "public_key (validators c' b) \<noteq> 0" for b
  proof (cases "b = a")
    case True
    then show ?thesis using sl i by (simp add: set_update_memI)
  next
    case False
    with that e have "b \<noteq> s" "public_key (validators c b) \<noteq> 0" by (auto simp: no_validator_def split: if_splits)
    with config_ok_index [OF assms(1)] obtain j where j: "j < length (slots c)" "slots c ! j = b" by blast
    with i \<open>b \<noteq> s\<close> have "j \<noteq> ?i" by auto
    with j sl have "slots c' ! j = b" "j < length (slots c')" by simp_all
    then show ?thesis by (metis nth_mem)
  qed
  have moved: "slots c' ! j \<noteq> slots c ! j \<longrightarrow> slots c ! j = s" for j
    using i by (cases "j = ?i") (simp_all add: sl)
  have len: "length (slots c') = length (slots c)" unfolding sl by simp
  have "config_ok c'"
    unfolding config_ok_def len using at mem assms(1) by (auto simp only: config_ok_def)
  then show ?thesis using len at moved by blast
qed

lemma validator_op_ok:
  assumes "validator_op s call c = (Inr u, c')" "config_ok c"
  shows "config_ok c'"
proof (cases call)
  case (AddValidator a key act inb outb)
  then show ?thesis using assms config_ok_add by simp
next
  case (UpdateValidator a key inb outb)
  then show ?thesis using assms config_ok_update by simp
next
  case (ChangeValidatorStatus a act)
  then show ?thesis using assms by (auto dest!: status_effects(1) intro: config_ok_status)
next
  case (ChangeValidatorStatusByIndex i act)
  then show ?thesis using assms by (auto dest!: status_effects(2) intro: config_ok_status)
qed (use assms in \<open>auto simp: change_owner_def set_next_full_dkg_ceremony_def checks_read ok config_ok_def\<close>)

lemma validator_op_nonowner:
  assumes "validator_op s call c = (Inr u, c')" "config_ok c" "s \<noteq> vc_owner c"
  shows "vc_owner c' = vc_owner c \<and> length (slots c') = length (slots c) \<and>
    (\<forall>j < length (slots c). active (validators c' (slots c' ! j)) = active (validators c (slots c ! j)))"
proof (cases call)
  case (UpdateValidator a key inb outb)
  then show ?thesis using assms config_ok_update [of c s a key inb outb u c'] update_validator_effect [of s a key inb outb c u c']
    by simp
qed (use assms in \<open>auto simp: change_owner_def set_next_full_dkg_ceremony_def checks_read ok
    dest!: add_validator_effect status_effects\<close>)

interpretation config_sys: invariant_system validator_exec "\<lambda>_. True" config_ok
proof unfold_locales
  fix c :: "address \<times> validator_call" and s :: validator_config
  assume "config_ok s"
  then show "config_ok (validator_exec c s)"
    using commit_cases [of "validator_op (fst c) (snd c)" s] validator_op_ok
    by (auto simp: validator_exec_def)
qed

interpretation status_sys: invariant_system validator_exec "\<lambda>c. fst c \<noteq> owner"
  "\<lambda>s. config_ok s \<and> vc_owner s = owner \<and> map (\<lambda>a. active (validators s a)) (slots s) = flags" for owner flags
proof unfold_locales
  fix c :: "address \<times> validator_call" and s :: validator_config
  assume c: "fst c \<noteq> owner"
    and s: "config_ok s \<and> vc_owner s = owner \<and> map (\<lambda>a. active (validators s a)) (slots s) = flags"
  have "map (\<lambda>a. active (validators s' a)) (slots s') = flags \<and> vc_owner s' = owner"
    if "validator_op (fst c) (snd c) s = (Inr u, s')" for u s'
    using validator_op_nonowner [OF that] s c by (auto simp: list_eq_iff_nth_eq)
  then show "config_ok (validator_exec c s) \<and> vc_owner (validator_exec c s) = owner \<and>
      map (\<lambda>a. active (validators (validator_exec c s) a)) (slots (validator_exec c s)) = flags"
    using commit_cases [of "validator_op (fst c) (snd c)" s] validator_op_ok [of "fst c" "snd c" s] s
    by (auto simp: validator_exec_def)
qed

lemma config_ok_empty: "config_ok (empty_validator_config\<lparr>vc_owner := owner\<rparr>)"
  by (simp add: config_ok_def empty_validator_config_def svec_list_def no_validator_def)

subsection \<open>Properties\<close>

text \<open>C27. The validator set is consistent: after any sequence of calls from initialization, the array
  has no duplicates, it lists exactly the addresses that have a validator record, and every
  record carries its own address and its position in the array.\<close>

theorem validator_set_consistent:
  fixes cs :: "(address \<times> validator_call) list" and owner :: address
  defines "c \<equiv> fold validator_exec cs (snd (initialize_config owner empty_validator_config))"
  shows "distinct (slots c) \<and> (\<forall>a. public_key (validators c a) \<noteq> 0 \<longleftrightarrow> a \<in> set (slots c)) \<and>
    map (\<lambda>a. unat (index (validators c a))) (slots c) = [0..<length (slots c)] \<and>
    map (\<lambda>a. validator_address (validators c a)) (slots c) = slots c"
proof -
  have "config_ok c"
    unfolding c_def by (rule config_sys.fold_keeps)
      (simp_all add: list.pred_True initialize_config_def run config_ok_empty)
  note c = this config_ok_distinct [OF this]
  have "public_key (validators c a) \<noteq> 0 \<longleftrightarrow> a \<in> set (slots c)" for a
    using c(1) by (metis config_ok_def in_set_conv_nth)
  moreover have "unat (index (validators c (slots c ! i))) = i"
    "validator_address (validators c (slots c ! i)) = slots c ! i" if "i < length (slots c)" for i
    using c(1) that unfolding config_ok_def by blast+
  then have "map (\<lambda>a. unat (index (validators c a))) (slots c) = [0..<length (slots c)]"
    "map (\<lambda>a. validator_address (validators c a)) (slots c) = slots c"
    by (auto intro!: nth_equalityI)
  ultimately show ?thesis using c(2) by blast
qed

text \<open>C28. Only the owner changes who is active: over any sequence of calls that the owner does not
  make, in particular while validators rotate to new addresses, the number of validators and
  the active flag at every position of the array stay the same, so that a status change by
  index reaches the validator it was meant for.\<close>

theorem status_changed_by_owner_only:
  assumes "list_all (\<lambda>call. fst call \<noteq> vc_owner c) cs" "config_ok c"
  shows "map (\<lambda>a. active (validators (fold validator_exec cs c) a)) (slots (fold validator_exec cs c)) =
    map (\<lambda>a. active (validators c a)) (slots c)"
  using status_sys.fold_keeps [OF assms(1), of c "map (\<lambda>a. active (validators c a)) (slots c)"] assms(2)
  by simp

definition sample_config :: validator_config where
  "sample_config = validator_exec (1, AddValidator 5 77 True ''10.0.0.1:9000'' ''10.0.0.1:9000'')
     (empty_validator_config\<lparr>vc_owner := 1\<rparr>)"

lemma sample_config_eq:
  "sample_config = \<lparr>vc_owner = 1, validators_array = \<lparr>svec_len = 1, svec_elems = (\<lambda>_. 0)(0 := 5)\<rparr>,
     validators = (\<lambda>_. no_validator)(5 := \<lparr>public_key = 77, active = True, index = 0, validator_address = 5,
       inbound_address = ''10.0.0.1:9000'', outbound_address = ''10.0.0.1:9000''\<rparr>), next_dkg_ceremony = 0\<rparr>"
  by (simp add: sample_config_def validator_exec_def commit_def add_validator_def validator_defs run socket_addr_examples
      empty_validator_config_def svec_push_def VALIDATORS_CAPACITY_def max_index_def no_validator_def)

theorem status_changed_by_owner_only_witness:
  "map (\<lambda>a. active (validators (fold validator_exec [(5, UpdateValidator 6 78 ''10.0.0.1:9000'' ''10.0.0.1:9000'')] sample_config) a))
     (slots (fold validator_exec [(5, UpdateValidator 6 78 ''10.0.0.1:9000'' ''10.0.0.1:9000'')] sample_config)) = [True]"
proof -
  have "config_ok sample_config"
    unfolding sample_config_def by (rule config_sys.exec_keeps [OF TrueI config_ok_empty])
  moreover have "list_all (\<lambda>call. fst call \<noteq> vc_owner sample_config)
      [(5, UpdateValidator 6 78 ''10.0.0.1:9000'' ''10.0.0.1:9000'')]"
    by (simp add: sample_config_eq)
  moreover have "map (\<lambda>a. active (validators sample_config a)) (slots sample_config) = [True]"
    by (simp add: sample_config_eq svec_list_def)
  ultimately show ?thesis using status_changed_by_owner_only by metis
qed



end
