(* ===== verification/Packing.thy ===== *)
theory Packing
  imports Errors
begin

unbundle bit_operations_syntax

section \<open>Packing values into storage slots\<close>

text \<open>
  Model of \<open>precompiles/src/storage/packing.rs\<close>, of the packed part of
  \<open>precompiles/src/storage/types/vec.rs\<close> and of the conversions of
  \<open>precompiles/src/storage/types/primitives.rs\<close>. A slot is a 256-bit word. The Rust code is
  generic in the stored type through the trait \<open>FromWord\<close> (\<open>to_word\<close>, \<open>from_word\<close>) and its
  size in bytes; here these are arguments, and the locale \<open>packable\<close> states what the trait
  promises. Every stored type the contracts use interprets it.
\<close>

subsection \<open>Masks, extraction, insertion\<close>

fun decimal :: "nat \<Rightarrow> string" where
  "decimal n = (if n < 10 then [char_of (48 + n)] else decimal (n div 10) @ [char_of (48 + n mod 10)])"

declare decimal.simps [simp del]

definition span_error :: "nat \<Rightarrow> nat \<Rightarrow> tempo_error" where
  "span_error bytes offset = Fatal (''Value of '' @ decimal bytes @ '' bytes at offset '' @ decimal offset @
     '' would span slot boundary (max offset: '' @ decimal (32 - bytes) @ '')'')"

definition create_element_mask :: "nat \<Rightarrow> u256" where
  "create_element_mask byte_count = (if byte_count \<ge> 32 then MAX_WORD else push_bit (byte_count * 8) 1 - 1)"

definition extract_from_word :: "(u256 \<Rightarrow> tempo_error + 'a) \<Rightarrow> u256 \<Rightarrow> nat \<Rightarrow> nat \<Rightarrow> tempo_error + 'a" where
  "extract_from_word from_word slot_value offset bytes =
     (if offset + bytes > 32 then Inl (span_error bytes offset)
      else from_word (drop_bit (offset * 8) slot_value AND create_element_mask bytes))"

definition insert_into_word :: "('a \<Rightarrow> u256) \<Rightarrow> u256 \<Rightarrow> 'a \<Rightarrow> nat \<Rightarrow> nat \<Rightarrow> tempo_error + u256" where
  "insert_into_word to_word current value offset bytes =
     (if offset + bytes > 32 then Inl (span_error bytes offset)
      else
        let field_value = to_word value; shift_bits = offset * 8; mask = create_element_mask bytes;
            clear_mask = NOT (push_bit shift_bits mask); cleared = current AND clear_mask;
            positioned = push_bit shift_bits (field_value AND mask)
        in Inr (cleared OR positioned))"

definition delete_from_word :: "u256 \<Rightarrow> nat \<Rightarrow> nat \<Rightarrow> tempo_error + u256" where
  "delete_from_word current offset bytes =
     (if offset + bytes > 32 then Inl (span_error bytes offset)
      else Inr (current AND NOT (push_bit (offset * 8) (create_element_mask bytes))))"

lemma bit_element_mask: "bit (create_element_mask n) i \<longleftrightarrow> i < 256 \<and> i < 8 * n"
proof (cases "n \<ge> 32")
  case True
  then show ?thesis by (auto simp: create_element_mask_def)
next
  case False
  then have "create_element_mask n = mask (8 * n)"
    by (simp add: create_element_mask_def mask_eq_decr_exp push_bit_of_1 mult.commute)
  then show ?thesis by (auto simp: bit_mask_iff)
qed

text \<open>Slots bit by bit: a field is a range of bits.\<close>

lemma bit_extracted:
  "bit (drop_bit (off * 8) w AND create_element_mask n) i \<longleftrightarrow> i < 8 * n \<and> bit w (8 * off + i)" for w :: u256
  by (auto simp: bit_and_iff bit_drop_bit_eq bit_element_mask mult.commute dest: bit_imp_le_length)

lemma bit_inserted:
  assumes "insert_into_word to_word w v off n = Inr w'"
  shows "off + n \<le> 32 \<and>
    (bit w' i \<longleftrightarrow> (if 8 * off \<le> i \<and> i < 8 * (off + n) then bit (to_word v) (i - 8 * off) else bit w i))"
proof -
  from assms have le: "off + n \<le> 32" and w': "w' = (w AND NOT (push_bit (off * 8) (create_element_mask n))) OR
      push_bit (off * 8) (to_word v AND create_element_mask n)"
    by (auto simp: insert_into_word_def Let_def split: if_splits)
  show ?thesis
  proof (cases "i < 256")
    case True
    with le show ?thesis
      by (auto simp: w' bit_or_iff bit_and_iff bit_not_iff bit_push_bit_iff bit_element_mask mult.commute [of off])
  next
    case False
    with le show ?thesis by (auto dest: bit_imp_le_length)
  qed
qed

lemma bit_deleted:
  assumes "delete_from_word w off n = Inr w'"
  shows "off + n \<le> 32 \<and> (bit w' i \<longleftrightarrow> bit w i \<and> \<not> (8 * off \<le> i \<and> i < 8 * (off + n)))"
proof -
  from assms have le: "off + n \<le> 32" and w': "w' = w AND NOT (push_bit (off * 8) (create_element_mask n))"
    by (auto simp: delete_from_word_def split: if_splits)
  then show ?thesis
    by (auto simp: bit_and_iff bit_not_iff bit_push_bit_iff bit_element_mask dest: bit_imp_le_length)
qed

subsection \<open>What a stored type promises\<close>

locale packable =
  fixes to_word :: "'a \<Rightarrow> u256"
    and from_word :: "u256 \<Rightarrow> tempo_error + 'a"
    and bytes :: nat
  assumes from_to: "from_word (to_word x) = Inr x"
    and fits: "bit (to_word x) i \<Longrightarrow> i < 8 * bytes"
    and size: "0 < bytes" "bytes \<le> 32"
begin

lemma insert_total: "off + bytes \<le> 32 \<Longrightarrow> \<exists>w'. insert_into_word to_word w x off bytes = Inr w'"
  by (simp add: insert_into_word_def Let_def)

lemma extract_inserted:
  assumes "insert_into_word to_word w x off bytes = Inr w'"
  shows "extract_from_word from_word w' off bytes = Inr x"
proof -
  have "drop_bit (off * 8) w' AND create_element_mask bytes = to_word x"
    by (rule bit_eqI) (auto simp: bit_extracted bit_inserted [OF assms] dest: fits)
  then show ?thesis
    using bit_inserted [OF assms, of 0] from_to by (simp add: extract_from_word_def)
qed

end

text \<open>Fields that do not overlap do not interfere, whatever their types.\<close>

definition disjoint_fields :: "nat \<Rightarrow> nat \<Rightarrow> nat \<Rightarrow> nat \<Rightarrow> bool" where
  "disjoint_fields off n off' n' \<longleftrightarrow> off + n \<le> off' \<or> off' + n' \<le> off"

lemma extract_inserted_other:
  assumes "insert_into_word to_word w x off n = Inr w'" "disjoint_fields off n off' n'"
  shows "extract_from_word from_word w' off' n' = extract_from_word from_word w off' n'"
proof -
  have "drop_bit (off' * 8) w' AND create_element_mask n' = drop_bit (off' * 8) w AND create_element_mask n'"
    using assms(2) by (intro bit_eqI) (auto simp: bit_extracted bit_inserted [OF assms(1)] disjoint_fields_def)
  then show ?thesis by (simp add: extract_from_word_def)
qed

lemma extract_deleted_other:
  assumes "delete_from_word w off n = Inr w'" "disjoint_fields off n off' n'"
  shows "extract_from_word from_word w' off' n' = extract_from_word from_word w off' n'"
proof -
  have "drop_bit (off' * 8) w' AND create_element_mask n' = drop_bit (off' * 8) w AND create_element_mask n'"
    using assms(2) by (intro bit_eqI) (auto simp: bit_extracted bit_deleted [OF assms(1)] disjoint_fields_def)
  then show ?thesis by (simp add: extract_from_word_def)
qed

lemma extract_deleted:
  assumes "delete_from_word w off n = Inr w'"
  shows "extract_from_word from_word w' off n = from_word 0"
proof -
  have "drop_bit (off * 8) w' AND create_element_mask n = 0"
    by (rule bit_eqI) (auto simp: bit_extracted bit_deleted [OF assms])
  then show ?thesis using bit_deleted [OF assms, of 0] by (simp add: extract_from_word_def)
qed

subsection \<open>The stored types\<close>

definition unsigned_to_word :: "'a::len word \<Rightarrow> u256" where
  "unsigned_to_word x = ucast x"

definition unsigned_from_word :: "u256 \<Rightarrow> tempo_error + 'a::len word" where
  "unsigned_from_word w = (case try_into w of None \<Rightarrow> Inl under_overflow | Some x \<Rightarrow> Inr x)"

definition bool_to_word :: "bool \<Rightarrow> u256" where
  "bool_to_word b = (if b then 1 else 0)"

definition bool_from_word :: "u256 \<Rightarrow> tempo_error + bool" where
  "bool_from_word w = Inr (\<not> w = 0)"

definition address_to_word :: "address \<Rightarrow> u256" where
  "address_to_word a = ucast a"

definition address_from_word :: "u256 \<Rightarrow> tempo_error + address" where
  "address_from_word w = Inr (ucast w)"

lemma unsigned_packable:
  assumes "LENGTH('a::len) = 8 * n" "LENGTH('a) \<le> 256"
  shows "packable (unsigned_to_word :: 'a word \<Rightarrow> u256) unsigned_from_word n"
proof
  fix x :: "'a word" and i
  have "unat x < 2 ^ LENGTH('a)" by (rule unsigned_less)
  also have "\<dots> \<le> 2 ^ 256" using assms(2) by (intro power_increasing) simp_all
  finally have "unat (ucast x :: u256) = unat x"
    by (simp add: unsigned_ucast_eq take_bit_nat_eq_self)
  then have "try_into (ucast x :: u256) = Some x" by (simp add: checked)
  then show "unsigned_from_word (unsigned_to_word x) = Inr x"
    by (simp add: unsigned_from_word_def unsigned_to_word_def)
  show "bit (unsigned_to_word x) i \<Longrightarrow> i < 8 * n"
    using assms(1) by (auto simp: unsigned_to_word_def bit_ucast_iff dest: bit_imp_le_length)
  show "0 < n" "n \<le> 32" using assms by (auto intro: Nat.gr0I)
qed

interpretation u8_packable: packable "unsigned_to_word :: u8 \<Rightarrow> u256" unsigned_from_word 1
  by (rule unsigned_packable) simp_all

interpretation u64_packable: packable "unsigned_to_word :: u64 \<Rightarrow> u256" unsigned_from_word 8
  by (rule unsigned_packable) simp_all

interpretation u128_packable: packable "unsigned_to_word :: u128 \<Rightarrow> u256" unsigned_from_word 16
  by (rule unsigned_packable) simp_all

interpretation bool_packable: packable bool_to_word bool_from_word 1
  by unfold_locales (auto simp: bool_to_word_def bool_from_word_def bit_1_iff split: if_splits)

lemma address_word_address: "ucast (ucast a :: u256) = a" for a :: address
  by (rule bit_word_eqI) (simp add: bit_ucast_iff)

interpretation address_packable: packable address_to_word address_from_word 20
  by unfold_locales (auto simp: address_to_word_def address_from_word_def bit_ucast_iff address_word_address dest: bit_imp_le_length)

subsection \<open>Packed arrays\<close>

definition calc_element_slot :: "nat \<Rightarrow> nat \<Rightarrow> nat" where
  "calc_element_slot idx elem_bytes = (let elems_per_slot = 32 div elem_bytes in idx div elems_per_slot)"

definition calc_element_offset :: "nat \<Rightarrow> nat \<Rightarrow> nat" where
  "calc_element_offset idx elem_bytes = (let elems_per_slot = 32 div elem_bytes in (idx mod elems_per_slot) * elem_bytes)"

record field_location =
  offset_slots :: nat
  offset_bytes :: nat
  field_size :: nat

definition calc_element_loc :: "nat \<Rightarrow> nat \<Rightarrow> field_location" where
  "calc_element_loc idx elem_bytes =
     \<lparr>offset_slots = calc_element_slot idx elem_bytes, offset_bytes = calc_element_offset idx elem_bytes,
      field_size = elem_bytes\<rparr>"

definition calc_packed_slot_count :: "nat \<Rightarrow> nat \<Rightarrow> nat" where
  "calc_packed_slot_count n elem_bytes =
     (let elems_per_slot = 32 div elem_bytes in (n + elems_per_slot - 1) div elems_per_slot)"

text \<open>The places of two elements never overlap, and no element crosses a slot boundary.\<close>

lemma mod_mult_le: "0 < b \<Longrightarrow> b \<le> 32 \<Longrightarrow> idx mod (32 div b) * b + b \<le> (32 :: nat)"
proof -
  assume b: "0 < b" "b \<le> 32"
  then have "idx mod (32 div b) < 32 div b" by (simp add: div_greater_zero_iff)
  then have "Suc (idx mod (32 div b)) * b \<le> 32 div b * b" by (intro mult_le_mono1) simp
  also have "\<dots> \<le> 32" by simp
  finally show ?thesis by simp
qed

text \<open>Elements of a packed array have disjoint places: for every element size up to 32 bytes an
  element stays inside its slot, and two different indices are in different slots or in byte
  ranges of the slot that do not overlap.\<close>

theorem packed_elements_disjoint:
  assumes "0 < b" "b \<le> 32"
  shows "calc_element_offset i b + b \<le> 32 \<and>
    (i \<noteq> j \<longrightarrow> calc_element_slot i b \<noteq> calc_element_slot j b \<or>
      disjoint_fields (calc_element_offset i b) b (calc_element_offset j b) b)"
proof -
  let ?e = "32 div b"
  have e: "0 < ?e" using assms by (simp add: div_greater_zero_iff)
  have "disjoint_fields (i mod ?e * b) b (j mod ?e * b) b" if "i \<noteq> j" "i div ?e = j div ?e"
  proof -
    have "i mod ?e \<noteq> j mod ?e" using that by (metis div_mult_mod_eq)
    then consider "Suc (i mod ?e) \<le> j mod ?e" | "Suc (j mod ?e) \<le> i mod ?e" by linarith
    then show ?thesis
      by cases (force simp: disjoint_fields_def dest: mult_le_mono1 [where k = b])+
  qed
  then show ?thesis
    using mod_mult_le [OF assms] by (auto simp: calc_element_offset_def calc_element_slot_def Let_def)
qed

theorem packed_elements_disjoint_witness:
  "disjoint_fields (calc_element_offset 2 8) 8 (calc_element_offset 3 8) 8"
  using packed_elements_disjoint [of 8 2 3] by (simp add: calc_element_slot_def)

fun build_packed_slot :: "('a \<Rightarrow> u256) \<Rightarrow> nat \<Rightarrow> nat \<Rightarrow> 'a list \<Rightarrow> u256 \<Rightarrow> tempo_error + u256" where
  "build_packed_slot to_word byte_count current_offset [] slot_value = Inr slot_value"
| "build_packed_slot to_word byte_count current_offset (x # xs) slot_value =
     (case insert_into_word to_word slot_value x current_offset byte_count of
        Inl e \<Rightarrow> Inl e
      | Inr w \<Rightarrow> build_packed_slot to_word byte_count (current_offset + byte_count) xs w)"

type_synonym slot_storage = "u256 \<Rightarrow> u256"

definition store_packed_elements ::
  "('a \<Rightarrow> u256) \<Rightarrow> 'a list \<Rightarrow> u256 \<Rightarrow> nat \<Rightarrow> (slot_storage, tempo_error, unit) pre" where
  "store_packed_elements to_word elements data_start byte_count =
     (let elements_per_slot = 32 div byte_count; slot_count = calc_packed_slot_count (length elements) byte_count in
      efor [0..<slot_count] (\<lambda>slot_idx.
        let start_elem = slot_idx * elements_per_slot;
            end_elem = min (start_elem + elements_per_slot) (length elements)
        in (case build_packed_slot to_word byte_count 0 (take (end_elem - start_elem) (drop start_elem elements)) 0 of
              Inl e \<Rightarrow> efail e
            | Inr v \<Rightarrow> emodify (\<lambda>m. m(data_start + of_nat slot_idx := v)))))"

fun load_slot_elements ::
  "(u256 \<Rightarrow> tempo_error + 'a) \<Rightarrow> nat \<Rightarrow> u256 \<Rightarrow> nat \<Rightarrow> nat \<Rightarrow> tempo_error + 'a list" where
  "load_slot_elements from_word byte_count slot_value current_offset 0 = Inr []"
| "load_slot_elements from_word byte_count slot_value current_offset (Suc n) =
     (case extract_from_word from_word slot_value current_offset byte_count of
        Inl e \<Rightarrow> Inl e
      | Inr x \<Rightarrow>
          (let next_offset = current_offset + byte_count;
               offset = (if next_offset \<ge> 32 then 0 else next_offset)
           in (case load_slot_elements from_word byte_count slot_value offset n of
                 Inl e \<Rightarrow> Inl e | Inr xs \<Rightarrow> Inr (x # xs))))"

fun load_slots ::
  "(u256 \<Rightarrow> tempo_error + 'a) \<Rightarrow> slot_storage \<Rightarrow> u256 \<Rightarrow> nat \<Rightarrow> nat \<Rightarrow> nat list \<Rightarrow> tempo_error + 'a list" where
  "load_slots from_word storage data_start len byte_count [] = Inr []"
| "load_slots from_word storage data_start len byte_count (slot_idx # rest) =
     (let elements_per_slot = 32 div byte_count; slot_count = calc_packed_slot_count len byte_count;
          elements_in_this_slot = (if slot_idx = slot_count - 1 then len - slot_idx * elements_per_slot
                                   else elements_per_slot)
      in (case load_slot_elements from_word byte_count (storage (data_start + of_nat slot_idx)) 0 elements_in_this_slot of
            Inl e \<Rightarrow> Inl e
          | Inr xs \<Rightarrow>
              (case load_slots from_word storage data_start len byte_count rest of
                 Inl e \<Rightarrow> Inl e | Inr ys \<Rightarrow> Inr (xs @ ys))))"

definition load_packed_elements ::
  "(u256 \<Rightarrow> tempo_error + 'a) \<Rightarrow> slot_storage \<Rightarrow> u256 \<Rightarrow> nat \<Rightarrow> nat \<Rightarrow> tempo_error + 'a list" where
  "load_packed_elements from_word storage data_start len byte_count =
     load_slots from_word storage data_start len byte_count [0..<calc_packed_slot_count len byte_count]"

context packable
begin

lemma build_packed_total:
  "off + length xs * bytes \<le> 32 \<Longrightarrow> \<exists>w'. build_packed_slot to_word bytes off xs w = Inr w'"
proof (induction xs arbitrary: off w)
  case Nil
  then show ?case by simp
next
  case (Cons x xs)
  then obtain w1 where "insert_into_word to_word w x off bytes = Inr w1"
    using insert_total [of off w x] by auto
  with Cons.IH [of "off + bytes" w1] Cons.prems show ?case by simp
qed

lemma build_packed_extract:
  assumes "build_packed_slot to_word bytes off xs w = Inr w'"
  shows "(\<forall>k < length xs. extract_from_word from_word w' (off + k * bytes) bytes = Inr (xs ! k)) \<and>
    (\<forall>o' n'. o' + n' \<le> off \<longrightarrow> extract_from_word from_word w' o' n' = extract_from_word from_word w o' n')"
  using assms
proof (induction xs arbitrary: off w)
  case Nil
  then show ?case by simp
next
  case (Cons x xs)
  then obtain w1 where w1: "insert_into_word to_word w x off bytes = Inr w1"
    and w': "build_packed_slot to_word bytes (off + bytes) xs w1 = Inr w'"
    by (auto split: sum.splits)
  note IH = Cons.IH [OF w']
  have here: "extract_from_word from_word w' off bytes = Inr x"
    using IH extract_inserted [OF w1] by simp
  have "extract_from_word from_word w' (off + k * bytes) bytes = Inr ((x # xs) ! k)" if "k < length (x # xs)" for k
    using that here IH by (cases k) (simp_all add: add.assoc)
  moreover have "extract_from_word from_word w' o' n' = extract_from_word from_word w o' n'" if "o' + n' \<le> off" for o' n'
    using that IH extract_inserted_other [OF w1, of o' n' from_word] by (simp add: disjoint_fields_def)
  ultimately show ?case by blast
qed

lemma load_slot_elements_eq:
  assumes "\<forall>k < length xs. extract_from_word from_word w (off + k * bytes) bytes = Inr (xs ! k)"
    "off + length xs * bytes \<le> 32"
  shows "load_slot_elements from_word bytes w off (length xs) = Inr xs"
  using assms
proof (induction xs arbitrary: off)
  case Nil
  then show ?case by simp
next
  case (Cons x xs)
  have "extract_from_word from_word w off bytes = Inr x"
    using Cons.prems(1) [rule_format, of 0] by simp
  moreover have "load_slot_elements from_word bytes w (if off + bytes \<ge> 32 then 0 else off + bytes) (length xs) = Inr xs"
  proof (cases "off + bytes \<ge> 32")
    case True
    with Cons.prems(2) size have "xs = []" by (cases xs) auto
    then show ?thesis by simp
  next
    case False
    have "\<forall>k < length xs. extract_from_word from_word w ((off + bytes) + k * bytes) bytes = Inr (xs ! k)"
      using Cons.prems(1) [rule_format, of "Suc _"] by (simp add: add.assoc)
    then show ?thesis using False Cons by (simp add: add.assoc)
  qed
  ultimately show ?case by (simp add: Let_def)
qed

end

lemma of_nat_slot_inj: "i < 2 ^ 256 \<Longrightarrow> j < 2 ^ 256 \<Longrightarrow> ((of_nat i :: u256) = of_nat j) = (i = j)"
  by (simp add: word_unat_eq_iff unsigned_of_nat take_bit_nat_eq_self)

lemma efor_store_slots:
  fixes d :: u256
  assumes "\<And>i. i \<in> set L \<Longrightarrow> f i = emodify (\<lambda>m. m(d + of_nat i := g i))" "\<forall>i \<in> set L. i < 2 ^ 256"
  shows "\<exists>m'. efor L f m = (Inr (), m') \<and>
    (\<forall>j < 2 ^ 256. m' (d + of_nat j) = (if j \<in> set L then g j else m (d + of_nat j)))"
  using assms
proof (induction L arbitrary: m)
  case Nil
  then show ?case by (simp add: run)
next
  case (Cons i L)
  let ?m = "m(d + of_nat i := g i)"
  from Cons obtain m' where "efor L f ?m = (Inr (), m')"
    and "\<forall>j < 2 ^ 256. m' (d + of_nat j) = (if j \<in> set L then g j else ?m (d + of_nat j))" by force
  moreover have "efor (i # L) f m = efor L f ?m"
    using Cons.prems(1) [of i] by (simp add: ebind_run emodify_run fun_upd_def)
  ultimately show ?case
    using Cons.prems(2) by (intro exI [of _ m']) (auto simp: of_nat_slot_inj)
qed

lemma concat_chunks: "concat (map (\<lambda>i. take e (drop (i * e) xs)) [0..<m]) = take (m * e) xs"
proof (induction m)
  case 0
  then show ?case by simp
next
  case (Suc m)
  have "take (Suc m * e) xs = take (m * e) xs @ take e (drop (m * e) xs)"
    using take_add [of "m * e" e xs] by (simp add: add.commute)
  with Suc show ?case by simp
qed

lemma slot_count_bounds:
  fixes len e i :: nat
  assumes "0 < e"
  shows "len \<le> (len + e - 1) div e * e" "i < (len + e - 1) div e \<Longrightarrow> i * e < len"
proof -
  have "(len + e - 1) div e * e + (len + e - 1) mod e = len + e - 1" by simp
  moreover have "(len + e - 1) mod e < e" using assms by simp
  ultimately show "len \<le> (len + e - 1) div e * e" by linarith
  show "i * e < len" if "i < (len + e - 1) div e"
  proof -
    have "Suc i * e \<le> (len + e - 1) div e * e" using that by (intro mult_le_mono1) simp
    also have "\<dots> \<le> len + e - 1" by simp
    finally show ?thesis using assms by simp
  qed
qed

text \<open>What one iteration of the store loop writes and the load loop reads: the chunk of the elements
  that belongs to the slot.\<close>

context packable
begin

lemma load_slots_chunks:
  assumes e: "e = 32 div bytes"
    and m: "\<And>i. i \<in> set L \<Longrightarrow> build_packed_slot to_word bytes 0 (take e (drop (i * e) xs)) 0 = Inr (storage (d + of_nat i))"
    and L: "\<And>i. i \<in> set L \<Longrightarrow> i < calc_packed_slot_count (length xs) bytes"
  shows "load_slots from_word storage d (length xs) bytes L = Inr (concat (map (\<lambda>i. take e (drop (i * e) xs)) L))"
  using m L
proof (induction L)
  case Nil
  then show ?case by simp
next
  case (Cons i L)
  have e0: "0 < e" using size by (simp add: e div_greater_zero_iff)
  let ?c = "take e (drop (i * e) xs)"
  have i: "i < (length xs + e - 1) div e" using Cons.prems(2) [of i] by (simp add: calc_packed_slot_count_def Let_def e)
  have len: "length ?c = (if i = calc_packed_slot_count (length xs) bytes - 1 then length xs - i * e else e)"
  proof (cases "i = (length xs + e - 1) div e - 1")
    case True
    then have "Suc i = (length xs + e - 1) div e" using i by simp
    then have "length xs \<le> Suc i * e" using slot_count_bounds(1) [OF e0, of "length xs"] by simp
    then show ?thesis using True by (simp add: calc_packed_slot_count_def Let_def e [symmetric])
  next
    case False
    then have "Suc i < (length xs + e - 1) div e" using i by simp
    then have "Suc i * e < length xs" by (rule slot_count_bounds(2) [OF e0])
    then show ?thesis using False by (simp add: calc_packed_slot_count_def Let_def e [symmetric])
  qed
  have "length ?c * bytes \<le> e * bytes" by (intro mult_le_mono1) simp
  also have "\<dots> \<le> 32" by (simp add: e)
  finally have "length ?c * bytes \<le> 32" .
  moreover have "\<forall>k < length ?c. extract_from_word from_word (storage (d + of_nat i)) (0 + k * bytes) bytes = Inr (?c ! k)"
    using build_packed_extract [OF Cons.prems(1) [of i]] by simp
  ultimately have "load_slot_elements from_word bytes (storage (d + of_nat i)) 0 (length ?c) = Inr ?c"
    using load_slot_elements_eq [of ?c "storage (d + of_nat i)" 0] by simp
  moreover have "(if i = calc_packed_slot_count (length xs) bytes - 1 then length xs - i * (32 div bytes) else 32 div bytes)
      = length ?c" unfolding len by (simp add: e)
  ultimately show ?case using Cons.IH Cons.prems
    by (simp only: load_slots.simps Let_def) (simp add: e)
qed

lemma store_load_packed:
  assumes "length xs < 2 ^ 256"
  shows "\<exists>m'. store_packed_elements to_word xs d bytes m = (Inr (), m') \<and>
    load_packed_elements from_word m' d (length xs) bytes = Inr xs"
proof -
  let ?e = "32 div bytes" and ?n = "calc_packed_slot_count (length xs) bytes"
  have e0: "0 < ?e" using size by (simp add: div_greater_zero_iff)
  let ?c = "\<lambda>i. take ?e (drop (i * ?e) xs)"
  have "\<exists>w. build_packed_slot to_word bytes 0 (?c i) 0 = Inr w" for i
  proof (rule build_packed_total)
    have "length (?c i) * bytes \<le> ?e * bytes" by (intro mult_le_mono1) simp
    also have "\<dots> \<le> 32" by simp
    finally show "0 + length (?c i) * bytes \<le> 32" by simp
  qed
  then obtain g where g: "\<And>i. build_packed_slot to_word bytes 0 (?c i) 0 = Inr (g i)" by metis
  have small: "i < 2 ^ 256" if "i < ?n" for i
  proof -
    have "i * ?e < length xs" using that slot_count_bounds(2) [OF e0] by (simp add: calc_packed_slot_count_def Let_def)
    moreover have "i \<le> i * ?e" using e0 by simp
    ultimately show ?thesis using assms by linarith
  qed
  have chunk: "take (min (i * ?e + ?e) (length xs) - i * ?e) (drop (i * ?e) xs) = ?c i" for i
    by (simp add: min_def)
  let ?f = "\<lambda>i. emodify (\<lambda>m. m(d + of_nat i := g i)) :: (slot_storage, tempo_error, unit) pre"
  obtain m' where ef: "efor [0..<?n] ?f m = (Inr (), m')"
    and all: "\<forall>j < 2 ^ 256. m' (d + of_nat j) = (if j \<in> set [0..<?n] then g j else m (d + of_nat j))"
    using efor_store_slots [of "[0..<?n]" ?f d g m] small by auto
  have st: "store_packed_elements to_word xs d bytes m = (Inr (), m')"
    using ef by (simp add: store_packed_elements_def Let_def chunk g)
  have m': "m' (d + of_nat i) = g i" if "i < ?n" for i
    using all small [OF that] that by simp
  have "load_packed_elements from_word m' d (length xs) bytes = Inr (concat (map ?c [0..<?n]))"
    unfolding load_packed_elements_def
    by (rule load_slots_chunks) (auto simp: g m')
  moreover have "concat (map ?c [0..<?n]) = xs"
    using slot_count_bounds(1) [OF e0, of "length xs"]
    by (simp add: concat_chunks calc_packed_slot_count_def Let_def)
  ultimately show ?thesis using st by auto
qed

end

text \<open>C29. Packed arrays round trip: for every stored type that keeps its promises, storing a list of
  elements into packed slots succeeds and loading the same number of elements back returns
  exactly the list, wherever the data starts and whatever the slots held before.\<close>

theorem packed_vec_roundtrip:
  assumes "packable to_word from_word bytes" "length xs < 2 ^ 256"
  shows "\<exists>m'. store_packed_elements to_word xs d bytes m = (Inr (), m') \<and>
    load_packed_elements from_word m' d (length xs) bytes = Inr xs"
  by (rule packable.store_load_packed [OF assms])

theorem packed_vec_roundtrip_witness:
  "\<exists>m'. store_packed_elements unsigned_to_word [1, 2, 3, 4, 5 :: u64] 7 8 (\<lambda>_. 0) = (Inr (), m') \<and>
     load_packed_elements unsigned_from_word m' 7 (length [1, 2, 3, 4, 5 :: u64]) 8 = Inr [1, 2, 3, 4, 5 :: u64]"
  using packed_vec_roundtrip [OF u64_packable.packable_axioms, of "[1, 2, 3, 4, 5]" 7 "\<lambda>_. 0"] by simp

end
