(* ===== verification/Slot_Layout.thy ===== *)
theory Slot_Layout
  imports Packing Keychain Tip403
begin

section \<open>Records packed into one slot\<close>

text \<open>
  \<open>encode_to_slot\<close> and \<open>decode_from_slot\<close> of \<open>AuthorizedKey\<close>
  (\<open>precompiles/src/account_keychain/mod.rs\<close>) and \<open>PolicyData\<close>
  (\<open>precompiles/src/tip403_registry/mod.rs\<close>): the fields of the record side by side in one
  slot, in the order of their declaration. The transaction pool reads keys and policies from raw
  storage with the decoders, so they must undo what the contracts store.
\<close>

definition and_then :: "'e + 'a \<Rightarrow> ('a \<Rightarrow> 'e + 'b) \<Rightarrow> 'e + 'b" where
  "and_then x f = (case x of Inl e \<Rightarrow> Inl e | Inr v \<Rightarrow> f v)"

lemma and_then_simps [simp]: "and_then (Inl e) f = Inl e" "and_then (Inr v) f = f v"
  by (simp_all add: and_then_def)

definition encode_authorized_key :: "authorized_key \<Rightarrow> tempo_error + u256" where
  "encode_authorized_key k =
     and_then (insert_into_word unsigned_to_word 0 (signature_type k) 0 1) (\<lambda>encoded.
     and_then (insert_into_word unsigned_to_word encoded (expiry k) 1 8) (\<lambda>encoded.
     and_then (insert_into_word bool_to_word encoded (enforce_limits k) 9 1) (\<lambda>encoded.
     insert_into_word bool_to_word encoded (is_revoked k) 10 1)))"

definition decode_authorized_key :: "u256 \<Rightarrow> tempo_error + authorized_key" where
  "decode_authorized_key slot_value =
     and_then (extract_from_word unsigned_from_word slot_value 0 1) (\<lambda>ty.
     and_then (extract_from_word unsigned_from_word slot_value 1 8) (\<lambda>e.
     and_then (extract_from_word bool_from_word slot_value 9 1) (\<lambda>l.
     and_then (extract_from_word bool_from_word slot_value 10 1) (\<lambda>r.
     Inr \<lparr>signature_type = ty, expiry = e, enforce_limits = l, is_revoked = r\<rparr>))))"

definition encode_policy_data :: "policy_data \<Rightarrow> tempo_error + u256" where
  "encode_policy_data p =
     and_then (insert_into_word unsigned_to_word 0 (policy_type p) 0 1) (\<lambda>encoded.
     insert_into_word address_to_word encoded (policy_admin p) 1 20)"

definition decode_policy_data :: "u256 \<Rightarrow> tempo_error + policy_data" where
  "decode_policy_data slot_value =
     and_then (extract_from_word unsigned_from_word slot_value 0 1) (\<lambda>ty.
     and_then (extract_from_word address_from_word slot_value 1 20) (\<lambda>a.
     Inr \<lparr>policy_type = ty, policy_admin = a\<rparr>))"

text \<open>Keys survive their slot: decoding the slot that an authorized key is encoded to gives the key
  back, field by field, for every key; in particular the revocation flag.\<close>

theorem authorized_key_slot_roundtrip:
  "\<exists>w. encode_authorized_key k = Inr w \<and> decode_authorized_key w = Inr k"
proof -
  obtain w1 where w1: "insert_into_word unsigned_to_word 0 (signature_type k) 0 1 = Inr w1"
    using u8_packable.insert_total [of 0 0 "signature_type k"] by auto
  obtain w2 where w2: "insert_into_word unsigned_to_word w1 (expiry k) 1 8 = Inr w2"
    using u64_packable.insert_total [of 1 w1 "expiry k"] by auto
  obtain w3 where w3: "insert_into_word bool_to_word w2 (enforce_limits k) 9 1 = Inr w3"
    using bool_packable.insert_total [of 9 w2 "enforce_limits k"] by auto
  obtain w4 where w4: "insert_into_word bool_to_word w3 (is_revoked k) 10 1 = Inr w4"
    using bool_packable.insert_total [of 10 w3 "is_revoked k"] by auto
  have "extract_from_word unsigned_from_word w4 0 1 = Inr (signature_type k)"
    using u8_packable.extract_inserted [OF w1]
    by (simp add: extract_inserted_other [OF w4] extract_inserted_other [OF w3] extract_inserted_other [OF w2] disjoint_fields_def)
  moreover have "extract_from_word unsigned_from_word w4 1 8 = Inr (expiry k)"
    using u64_packable.extract_inserted [OF w2]
    by (simp add: extract_inserted_other [OF w4] extract_inserted_other [OF w3] disjoint_fields_def)
  moreover have "extract_from_word bool_from_word w4 9 1 = Inr (enforce_limits k)"
    using bool_packable.extract_inserted [OF w3] by (simp add: extract_inserted_other [OF w4] disjoint_fields_def)
  moreover have "extract_from_word bool_from_word w4 10 1 = Inr (is_revoked k)"
    using bool_packable.extract_inserted [OF w4] by simp
  ultimately show ?thesis
    by (simp add: encode_authorized_key_def decode_authorized_key_def w1 [simplified] w2 [simplified] w3 [simplified] w4 [simplified])
qed

text \<open>Policies survive their slot: decoding the slot that policy data is encoded to gives the type
  and the admin back.\<close>

theorem policy_data_slot_roundtrip:
  "\<exists>w. encode_policy_data p = Inr w \<and> decode_policy_data w = Inr p"
proof -
  obtain w1 where w1: "insert_into_word unsigned_to_word 0 (policy_type p) 0 1 = Inr w1"
    using u8_packable.insert_total [of 0 0 "policy_type p"] by auto
  obtain w2 where w2: "insert_into_word address_to_word w1 (policy_admin p) 1 20 = Inr w2"
    using address_packable.insert_total [of 1 w1 "policy_admin p"] by auto
  have "extract_from_word unsigned_from_word w2 0 1 = Inr (policy_type p)"
    using u8_packable.extract_inserted [OF w1] by (simp add: extract_inserted_other [OF w2] disjoint_fields_def)
  with address_packable.extract_inserted [OF w2] show ?thesis
    by (simp add: encode_policy_data_def decode_policy_data_def w1 [simplified] w2 [simplified])
qed

end
