(* ===== verification/Fee_Manager.thy ===== *)
theory Fee_Manager
  imports Tip20_World
begin

section \<open>The fee manager and its AMM\<close>

text \<open>
  The contract \<open>TipFeeManager\<close> of \<open>precompiles/src/tip_fee_manager/mod.rs\<close> and \<open>amm.rs\<close>: the fee
  token of every validator and user, the fees collected for the validators, and the pools that
  swap the user's token for the validator's at a fixed rate. The storage is the record
  \<open>fee_manager\<close>, which extends the \<open>world\<close> of the tokens; transfers are the operations of
  \<open>Tip20\<close> in the larger world. The pool id is the hash of the ABI-encoded pair of tokens,
  so two pairs share a pool exactly when their hashes collide.

  The fee side of a transaction, as \<open>revm/src/handler.rs\<close> runs it, is \<open>execute_tx\<close>: take the
  largest possible fee, run the body, and settle with the fee actually spent.
\<close>

definition M :: u256 where "M = 9970"
definition N :: u256 where "N = 9985"
definition SCALE :: u256 where "SCALE = 10000"
definition MIN_LIQUIDITY :: u256 where "MIN_LIQUIDITY = 1000"

definition compute_amount_out :: "u256 \<Rightarrow> ('s, tempo_error, u256) pre" where
  "compute_amount_out amount_in =
     eok_or (map_option (\<lambda>product. product div SCALE) (checked_mul amount_in M)) under_overflow"

record pool =
  reserve_user_token :: u128
  reserve_validator_token :: u128

datatype fee_event =
    ValidatorTokenSet address address
  | UserTokenSet address address
  | FeesDistributed address address u256
  | RebalanceSwapEvent address address address u256 u256
  | MintEvent address address address address u256 u256
  | BurnEvent address address address u256 u256 u256 address

record fee_manager =
  validator_tokens :: "address \<Rightarrow> address"
  user_tokens :: "address \<Rightarrow> address"
  collected_fees :: "address \<Rightarrow> address \<Rightarrow> u256"
  pools :: "b256 \<Rightarrow> pool"
  lp_supply :: "b256 \<Rightarrow> u256"
  liquidity_balances :: "b256 \<Rightarrow> address \<Rightarrow> u256"
  fee_log :: "fee_event list"

record fee_world = world +
  w_fees :: fee_manager

type_synonym ('x, 'a) fop = "('x fee_world_ext, 'a) wop"
type_synonym 'a fm = "(fee_manager, tempo_error, 'a) pre"

definition empty_fee_manager :: fee_manager where
  "empty_fee_manager = \<lparr>validator_tokens = (\<lambda>_. 0), user_tokens = (\<lambda>_. 0), collected_fees = (\<lambda>_ _. 0),
     pools = (\<lambda>_. \<lparr>reserve_user_token = 0, reserve_validator_token = 0\<rparr>), lp_supply = (\<lambda>_. 0),
     liquidity_balances = (\<lambda>_ _. 0), fee_log = []\<rparr>"

definition empty_fee_world :: fee_world where
  "empty_fee_world = world.extend empty_world \<lparr>w_fees = empty_fee_manager\<rparr>"

definition on_fees :: "'a fm \<Rightarrow> ('x, 'a) fop" where
  "on_fees m = ezoom w_fees (\<lambda>s w. w\<lparr>w_fees := s\<rparr>) m"

definition emit_fee :: "fee_event \<Rightarrow> 'a fm \<Rightarrow> 'a fm" where
  "emit_fee e m = ebind (emodify (\<lambda>s. s\<lparr>fee_log := fee_log s @ [e]\<rparr>)) (\<lambda>_. m)"

subsection \<open>Fee tokens\<close>

definition get_validator_token :: "address \<Rightarrow> address fm" where
  "get_validator_token beneficiary =
     ebind (egets (\<lambda>s. validator_tokens s beneficiary)) (\<lambda>token.
     if token = 0 then eret DEFAULT_FEE_TOKEN else eret token)"

definition set_validator_token :: "address \<Rightarrow> address \<Rightarrow> address \<Rightarrow> ('x, unit) fop" where
  "set_validator_token sender token beneficiary =
     ebind (is_tip20 token) (\<lambda>deployed.
     ebind (erequire deployed (FeeManagerError Fee_InvalidToken)) (\<lambda>_.
     ebind (erequire (sender \<noteq> beneficiary) (FeeManagerError Fee_CannotChangeWithinBlock)) (\<lambda>_.
     ebind (validate_usd_currency token) (\<lambda>_.
     on_fees
       (ebind (emodify (\<lambda>s. s\<lparr>validator_tokens := (validator_tokens s)(sender := token)\<rparr>)) (\<lambda>_.
        emit_fee (ValidatorTokenSet sender token) (eret ())))))))"

definition set_user_token :: "address \<Rightarrow> address \<Rightarrow> ('x, unit) fop" where
  "set_user_token sender token =
     ebind (is_tip20 token) (\<lambda>deployed.
     ebind (erequire deployed (FeeManagerError Fee_InvalidToken)) (\<lambda>_.
     ebind (validate_usd_currency token) (\<lambda>_.
     on_fees
       (ebind (emodify (\<lambda>s. s\<lparr>user_tokens := (user_tokens s)(sender := token)\<rparr>)) (\<lambda>_.
        emit_fee (UserTokenSet sender token) (eret ()))))))"

subsection \<open>Pools\<close>

definition pool_id :: "env \<Rightarrow> address \<Rightarrow> address \<Rightarrow> b256" where
  "pool_id env user_token validator_token =
     keccak256 env (abi_encode_address user_token @ abi_encode_address validator_token)"

definition get_pool :: "env \<Rightarrow> address \<Rightarrow> address \<Rightarrow> pool fm" where
  "get_pool env user_token validator_token = egets (\<lambda>s. pools s (pool_id env user_token validator_token))"

definition write_pool :: "b256 \<Rightarrow> pool \<Rightarrow> unit fm" where
  "write_pool pid p = emodify (\<lambda>s. s\<lparr>pools := (pools s)(pid := p)\<rparr>)"

definition set_lp_supply :: "b256 \<Rightarrow> u256 \<Rightarrow> unit fm" where
  "set_lp_supply pid v = emodify (\<lambda>s. s\<lparr>lp_supply := (lp_supply s)(pid := v)\<rparr>)"

definition set_liquidity_balances :: "b256 \<Rightarrow> address \<Rightarrow> u256 \<Rightarrow> unit fm" where
  "set_liquidity_balances pid user v =
     emodify (\<lambda>s. s\<lparr>liquidity_balances := (liquidity_balances s)(pid := (liquidity_balances s pid)(user := v))\<rparr>)"

definition check_sufficient_liquidity :: "env \<Rightarrow> address \<Rightarrow> address \<Rightarrow> u256 \<Rightarrow> unit fm" where
  "check_sufficient_liquidity env user_token validator_token max_amount =
     ebind (compute_amount_out max_amount) (\<lambda>amount_out_needed.
     ebind (get_pool env user_token validator_token) (\<lambda>p.
     erequire (\<not> amount_out_needed > widen (reserve_validator_token p)) (TIPFeeAMMError AMM_InsufficientLiquidity)))"

definition execute_fee_swap :: "env \<Rightarrow> address \<Rightarrow> address \<Rightarrow> u256 \<Rightarrow> u256 fm" where
  "execute_fee_swap env user_token validator_token amount_in =
     ebind (get_pool env user_token validator_token) (\<lambda>p.
     ebind (compute_amount_out amount_in) (\<lambda>amount_out.
     ebind (erequire (\<not> amount_out > widen (reserve_validator_token p)) (TIPFeeAMMError AMM_InsufficientLiquidity)) (\<lambda>_.
     ebind (eok_or (try_into amount_in) under_overflow) (\<lambda>amount_in_u128.
     ebind (eok_or (try_into amount_out) under_overflow) (\<lambda>amount_out_u128.
     ebind (eok_or (checked_add (reserve_user_token p) amount_in_u128) under_overflow) (\<lambda>u.
     ebind (eok_or (checked_sub (reserve_validator_token p) amount_out_u128) under_overflow) (\<lambda>v.
     ebind (write_pool (pool_id env user_token validator_token) \<lparr>reserve_user_token = u, reserve_validator_token = v\<rparr>) (\<lambda>_.
     eret amount_out))))))))"

text \<open>The three operations that move tokens, each split where the code turns from its own storage
  to the tokens.\<close>

definition rebalance_reserves :: "env \<Rightarrow> address \<Rightarrow> address \<Rightarrow> u256 \<Rightarrow> (u256 \<times> u256) fm" where
  "rebalance_reserves env user_token validator_token amount_out =
     ebind (get_pool env user_token validator_token) (\<lambda>p.
     ebind (eok_or (Option.bind (checked_mul amount_out N) (\<lambda>product.
              Option.bind (checked_div product SCALE) (\<lambda>result. checked_add result 1))) under_overflow) (\<lambda>amount_in.
     ebind (eok_or (try_into amount_in) (TIPFeeAMMError AMM_InvalidAmount)) (\<lambda>amount_in.
     ebind (eok_or (try_into amount_out) (TIPFeeAMMError AMM_InvalidAmount)) (\<lambda>amount_out.
     ebind (eok_or (checked_add (reserve_validator_token p) amount_in) (TIPFeeAMMError AMM_InsufficientReserves)) (\<lambda>v.
     ebind (eok_or (checked_sub (reserve_user_token p) amount_out) (TIPFeeAMMError AMM_InvalidAmount)) (\<lambda>u.
     ebind (write_pool (pool_id env user_token validator_token) \<lparr>reserve_user_token = u, reserve_validator_token = v\<rparr>) (\<lambda>_.
     eret (widen amount_in, widen amount_out))))))))"

definition rebalance_swap :: "env \<Rightarrow> address \<Rightarrow> address \<Rightarrow> address \<Rightarrow> u256 \<Rightarrow> address \<Rightarrow> ('x, u256) fop" where
  "rebalance_swap env msg_sender user_token validator_token amount_out to =
     ebind (erequire (amount_out \<noteq> 0) (TIPFeeAMMError AMM_InvalidAmount)) (\<lambda>_.
     ebind (on_fees (rebalance_reserves env user_token validator_token amount_out)) (\<lambda>(amount_in, amount_out).
     ebind (from_address validator_token) (\<lambda>_.
     ebind (system_transfer_from env validator_token msg_sender TIP_FEE_MANAGER_ADDRESS amount_in) (\<lambda>_.
     ebind (from_address user_token) (\<lambda>_.
     ebind (transfer env user_token TIP_FEE_MANAGER_ADDRESS to amount_out) (\<lambda>_.
     on_fees (emit_fee (RebalanceSwapEvent user_token validator_token msg_sender amount_in amount_out)
       (eret amount_in))))))))"

text \<open>The liquidity of a deposit and the LP supply it is added to. The first deposit locks
  \<open>MIN_LIQUIDITY\<close>.\<close>

definition deposit_liquidity :: "b256 \<Rightarrow> pool \<Rightarrow> u256 \<Rightarrow> (u256 \<times> u256) fm" where
  "deposit_liquidity pid p amount_validator_token =
     ebind (egets (\<lambda>s. lp_supply s pid)) (\<lambda>lp_total.
     if reserve_user_token p = 0 \<and> reserve_validator_token p = 0 then
       ebind (eok_or (checked_div amount_validator_token 2) under_overflow) (\<lambda>half_amount.
       ebind (erequire (\<not> half_amount \<le> MIN_LIQUIDITY) (TIPFeeAMMError AMM_InsufficientLiquidity)) (\<lambda>_.
       ebind (eok_or (checked_add lp_total MIN_LIQUIDITY) under_overflow) (\<lambda>lp_total.
       ebind (set_lp_supply pid lp_total) (\<lambda>_.
       ebind (eok_or (checked_sub half_amount MIN_LIQUIDITY) (TIPFeeAMMError AMM_InsufficientLiquidity)) (\<lambda>liquidity.
       eret (liquidity, lp_total))))))
     else
       ebind (eok_or (Option.bind (checked_mul N (widen (reserve_user_token p))) (\<lambda>product. checked_div product SCALE))
                (TIPFeeAMMError AMM_InvalidSwapCalculation)) (\<lambda>product.
       ebind (eok_or (checked_add (widen (reserve_validator_token p)) product) (TIPFeeAMMError AMM_InvalidAmount)) (\<lambda>denom.
       ebind (erequire (denom \<noteq> 0) (TIPFeeAMMError AMM_DivisionByZero)) (\<lambda>_.
       ebind (eok_or (Option.bind (checked_mul amount_validator_token lp_total) (\<lambda>numerator. checked_div numerator denom))
                (TIPFeeAMMError AMM_InvalidSwapCalculation)) (\<lambda>liquidity.
       eret (liquidity, lp_total))))))"

definition credit_deposit :: "b256 \<Rightarrow> pool \<Rightarrow> u256 \<Rightarrow> u256 \<Rightarrow> u256 \<Rightarrow> address \<Rightarrow> unit fm" where
  "credit_deposit pid p amount_validator_token lp_total liquidity to =
     ebind (eok_or (try_into amount_validator_token) (TIPFeeAMMError AMM_InvalidAmount)) (\<lambda>validator_amount.
     ebind (eok_or (checked_add (reserve_validator_token p) validator_amount) (TIPFeeAMMError AMM_InvalidAmount)) (\<lambda>v.
     ebind (write_pool pid (p\<lparr>reserve_validator_token := v\<rparr>)) (\<lambda>_.
     ebind (eok_or (checked_add lp_total liquidity) under_overflow) (\<lambda>lp_total.
     ebind (set_lp_supply pid lp_total) (\<lambda>_.
     ebind (egets (\<lambda>s. liquidity_balances s pid to)) (\<lambda>balance.
     ebind (eok_or (checked_add balance liquidity) under_overflow) (\<lambda>balance.
     set_liquidity_balances pid to balance)))))))"

definition amm_mint :: "env \<Rightarrow> address \<Rightarrow> address \<Rightarrow> address \<Rightarrow> u256 \<Rightarrow> address \<Rightarrow> ('x, u256) fop" where
  "amm_mint env msg_sender user_token validator_token amount_validator_token to =
     ebind (erequire (user_token \<noteq> validator_token) (TIPFeeAMMError AMM_IdenticalAddresses)) (\<lambda>_.
     ebind (erequire (amount_validator_token \<noteq> 0) (TIPFeeAMMError AMM_InvalidAmount)) (\<lambda>_.
     ebind (validate_usd_currency user_token) (\<lambda>_.
     ebind (validate_usd_currency validator_token) (\<lambda>_.
     ebind (on_fees (get_pool env user_token validator_token)) (\<lambda>p.
     ebind (on_fees (deposit_liquidity (pool_id env user_token validator_token) p amount_validator_token)) (\<lambda>(liquidity, lp_total).
     ebind (erequire (liquidity \<noteq> 0) (TIPFeeAMMError AMM_InsufficientLiquidity)) (\<lambda>_.
     ebind (from_address validator_token) (\<lambda>_.
     ebind (system_transfer_from env validator_token msg_sender TIP_FEE_MANAGER_ADDRESS amount_validator_token) (\<lambda>_.
     on_fees
       (ebind (credit_deposit (pool_id env user_token validator_token) p amount_validator_token lp_total liquidity to) (\<lambda>_.
        emit_fee (MintEvent msg_sender to user_token validator_token amount_validator_token liquidity)
          (eret liquidity))))))))))))"

definition calculate_burn_amounts :: "pool \<Rightarrow> b256 \<Rightarrow> u256 \<Rightarrow> (u256 \<times> u256) fm" where
  "calculate_burn_amounts p pid liquidity =
     ebind (egets (\<lambda>s. lp_supply s pid)) (\<lambda>lp_total.
     ebind (eok_or (Option.bind (checked_mul liquidity (widen (reserve_user_token p))) (\<lambda>product. checked_div product lp_total))
              under_overflow) (\<lambda>amount_user_token.
     ebind (eok_or (Option.bind (checked_mul liquidity (widen (reserve_validator_token p))) (\<lambda>product. checked_div product lp_total))
              under_overflow) (\<lambda>amount_validator_token.
     eret (amount_user_token, amount_validator_token))))"

definition burn_liquidity :: "env \<Rightarrow> address \<Rightarrow> address \<Rightarrow> address \<Rightarrow> u256 \<Rightarrow> (u256 \<times> u256) fm" where
  "burn_liquidity env msg_sender user_token validator_token liquidity =
     (let pid = pool_id env user_token validator_token in
     ebind (egets (\<lambda>s. liquidity_balances s pid msg_sender)) (\<lambda>balance.
     ebind (erequire (\<not> balance < liquidity) (TIPFeeAMMError AMM_InsufficientLiquidity)) (\<lambda>_.
     ebind (egets (\<lambda>s. pools s pid)) (\<lambda>p.
     ebind (calculate_burn_amounts p pid liquidity) (\<lambda>(amount_user_token, amount_validator_token).
     ebind (eok_or (checked_sub balance liquidity) under_overflow) (\<lambda>balance.
     ebind (set_liquidity_balances pid msg_sender balance) (\<lambda>_.
     ebind (egets (\<lambda>s. lp_supply s pid)) (\<lambda>lp_total.
     ebind (eok_or (checked_sub lp_total liquidity) under_overflow) (\<lambda>lp_total.
     ebind (set_lp_supply pid lp_total) (\<lambda>_.
     ebind (eok_or (try_into amount_user_token) (TIPFeeAMMError AMM_InvalidAmount)) (\<lambda>user_amount.
     ebind (eok_or (try_into amount_validator_token) (TIPFeeAMMError AMM_InvalidAmount)) (\<lambda>validator_amount.
     ebind (eok_or (checked_sub (reserve_user_token p) user_amount) (TIPFeeAMMError AMM_InsufficientReserves)) (\<lambda>u.
     ebind (eok_or (checked_sub (reserve_validator_token p) validator_amount) (TIPFeeAMMError AMM_InsufficientReserves)) (\<lambda>v.
     ebind (write_pool pid \<lparr>reserve_user_token = u, reserve_validator_token = v\<rparr>) (\<lambda>_.
     eret (amount_user_token, amount_validator_token))))))))))))))))"

definition amm_burn :: "env \<Rightarrow> address \<Rightarrow> address \<Rightarrow> address \<Rightarrow> u256 \<Rightarrow> address \<Rightarrow> ('x, u256 \<times> u256) fop" where
  "amm_burn env msg_sender user_token validator_token liquidity to =
     ebind (erequire (user_token \<noteq> validator_token) (TIPFeeAMMError AMM_IdenticalAddresses)) (\<lambda>_.
     ebind (erequire (liquidity \<noteq> 0) (TIPFeeAMMError AMM_InvalidAmount)) (\<lambda>_.
     ebind (validate_usd_currency user_token) (\<lambda>_.
     ebind (validate_usd_currency validator_token) (\<lambda>_.
     ebind (on_fees (burn_liquidity env msg_sender user_token validator_token liquidity))
       (\<lambda>(amount_user_token, amount_validator_token).
     ebind (from_address user_token) (\<lambda>_.
     ebind (transfer env user_token TIP_FEE_MANAGER_ADDRESS to amount_user_token) (\<lambda>_.
     ebind (from_address validator_token) (\<lambda>_.
     ebind (transfer env validator_token TIP_FEE_MANAGER_ADDRESS to amount_validator_token) (\<lambda>_.
     on_fees (emit_fee
       (BurnEvent msg_sender user_token validator_token amount_user_token amount_validator_token liquidity to)
       (eret (amount_user_token, amount_validator_token))))))))))))"

subsection \<open>Fee collection\<close>

definition collect_fee_pre_tx :: "env \<Rightarrow> address \<Rightarrow> address \<Rightarrow> u256 \<Rightarrow> address \<Rightarrow> ('x, address) fop" where
  "collect_fee_pre_tx env fee_payer user_token max_amount beneficiary =
     ebind (on_fees (get_validator_token beneficiary)) (\<lambda>validator_token.
     ebind (from_address user_token) (\<lambda>_.
     ebind (ensure_transfer_authorized env user_token fee_payer TIP_FEE_MANAGER_ADDRESS) (\<lambda>_.
     ebind (transfer_fee_pre_tx env user_token fee_payer max_amount) (\<lambda>_.
     ebind (if user_token \<noteq> validator_token then
              on_fees (check_sufficient_liquidity env user_token validator_token max_amount)
            else eret ()) (\<lambda>_.
     eret user_token)))))"

definition increment_collected_fees :: "address \<Rightarrow> address \<Rightarrow> u256 \<Rightarrow> unit fm" where
  "increment_collected_fees validator token amount =
     (if amount = 0 then eret ()
      else
        ebind (egets (\<lambda>s. collected_fees s validator token)) (\<lambda>collected.
        ebind (eok_or (checked_add collected amount) under_overflow) (\<lambda>collected.
        emodify (\<lambda>s. s\<lparr>collected_fees := (collected_fees s)(validator := (collected_fees s validator)(token := collected))\<rparr>))))"

definition settle_fee :: "env \<Rightarrow> u256 \<Rightarrow> address \<Rightarrow> address \<Rightarrow> unit fm" where
  "settle_fee env actual_spending fee_token beneficiary =
     ebind (get_validator_token beneficiary) (\<lambda>validator_token.
     ebind (if fee_token \<noteq> validator_token then
              (if actual_spending \<noteq> 0 then
                 ebind (execute_fee_swap env fee_token validator_token actual_spending) (\<lambda>_. eret ())
               else eret ())
            else eret ()) (\<lambda>_.
     ebind (if fee_token = validator_token then eret actual_spending else compute_amount_out actual_spending) (\<lambda>amount.
     increment_collected_fees beneficiary validator_token amount)))"

definition collect_fee_post_tx ::
  "env \<Rightarrow> address \<Rightarrow> u256 \<Rightarrow> u256 \<Rightarrow> address \<Rightarrow> address \<Rightarrow> ('x, unit) fop" where
  "collect_fee_post_tx env fee_payer actual_spending refund_amount fee_token beneficiary =
     ebind (from_address fee_token) (\<lambda>_.
     ebind (on_token fee_token (transfer_fee_post_tx fee_token fee_payer refund_amount actual_spending)) (\<lambda>_.
     on_fees (settle_fee env actual_spending fee_token beneficiary)))"

definition distribute_fees :: "env \<Rightarrow> address \<Rightarrow> address \<Rightarrow> ('x, unit) fop" where
  "distribute_fees env validator token =
     ebind (on_fees (egets (\<lambda>s. collected_fees s validator token))) (\<lambda>amount.
     if amount = 0 then eret ()
     else
       ebind (on_fees (emodify (\<lambda>s. s\<lparr>collected_fees :=
         (collected_fees s)(validator := (collected_fees s validator)(token := 0))\<rparr>))) (\<lambda>_.
       ebind (from_address token) (\<lambda>_.
       ebind (transfer env token TIP_FEE_MANAGER_ADDRESS validator amount) (\<lambda>_.
       on_fees (emit_fee (FeesDistributed validator token amount) (eret ()))))))"

subsection \<open>Dispatch and the fee side of a transaction\<close>

datatype fee_call =
    SetValidatorToken address
  | SetUserToken address
  | DistributeFees address address
  | AmmMint address address u256 address
  | AmmBurn address address u256 address
  | RebalanceSwap address address u256 address

fun fee_dispatch :: "env \<Rightarrow> address \<Rightarrow> address \<Rightarrow> fee_call \<Rightarrow> ('x, unit) fop" where
  "fee_dispatch env beneficiary s (SetValidatorToken token) = set_validator_token s token beneficiary"
| "fee_dispatch env beneficiary s (SetUserToken token) = set_user_token s token"
| "fee_dispatch env beneficiary s (DistributeFees validator token) = distribute_fees env validator token"
| "fee_dispatch env beneficiary s (AmmMint ut vt amount to) = evoid (amm_mint env s ut vt amount to)"
| "fee_dispatch env beneficiary s (AmmBurn ut vt liquidity to) = evoid (amm_burn env s ut vt liquidity to)"
| "fee_dispatch env beneficiary s (RebalanceSwap ut vt amount to) = evoid (rebalance_swap env s ut vt amount to)"

datatype chain_call = WorldCall world_call | FeeCall address fee_call

record fee_tx =
  fee_payer :: address
  fee_token :: address
  max_fee :: u256
  spent :: u256
  body :: "chain_call list"

text \<open>A call of the body commits or reverts on its own. The fee is collected before the body and
  settled after it; an error in either makes the transaction invalid, with no effect. The
  refund is the collected fee less the fee spent; both hooks are skipped when they have nothing
  to move.\<close>

fun chain_op :: "env \<Rightarrow> address \<Rightarrow> chain_call \<Rightarrow> ('x, unit) fop" where
  "chain_op env beneficiary (WorldCall c) = world_op env c"
| "chain_op env beneficiary (FeeCall s c) = fee_dispatch env beneficiary s c"

definition chain_exec :: "env \<Rightarrow> address \<Rightarrow> chain_call \<Rightarrow> 'x fee_world_scheme \<Rightarrow> 'x fee_world_scheme" where
  "chain_exec env beneficiary c = commit (chain_op env beneficiary c)"

definition validate_caller :: "env \<Rightarrow> address \<Rightarrow> fee_tx \<Rightarrow> ('x, unit) fop" where
  "validate_caller env beneficiary tx =
     (if max_fee tx = 0 then eret ()
      else evoid (collect_fee_pre_tx env (fee_payer tx) (fee_token tx) (max_fee tx) beneficiary))"

definition reimburse_caller :: "env \<Rightarrow> address \<Rightarrow> fee_tx \<Rightarrow> ('x, unit) fop" where
  "reimburse_caller env beneficiary tx =
     (let refund_amount = max_fee tx - spent tx in
      if spent tx \<noteq> 0 \<or> refund_amount \<noteq> 0 then
        collect_fee_post_tx env (fee_payer tx) (spent tx) refund_amount (fee_token tx) beneficiary
      else eret ())"

definition execute_tx :: "env \<Rightarrow> address \<Rightarrow> fee_tx \<Rightarrow> ('x, unit) fop" where
  "execute_tx env beneficiary tx =
     ebind (validate_caller env beneficiary tx) (\<lambda>_.
     ebind (emodify (fold (chain_exec env beneficiary) (body tx))) (\<lambda>_.
     reimburse_caller env beneficiary tx))"

definition block_exec :: "env \<times> address \<times> fee_tx \<Rightarrow> 'x fee_world_scheme \<Rightarrow> 'x fee_world_scheme" where
  "block_exec t = (case t of (env, beneficiary, tx) \<Rightarrow> commit (execute_tx env beneficiary tx))"

end
