(* ===== verification/Custody.thy ===== *)
theory Custody
  imports Quote_Graph
begin

section \<open>Custody: what a contract account holds\<close>

text \<open>
  The fee manager and the exchange keep their users' tokens under their own addresses. This
  theory accounts for the holdings of such an account \<open>h\<close>: no call of anybody else lowers them,
  because \<open>h\<close> never grants an allowance and \<open>burnBlocked\<close> excepts these addresses; and each call
  that moves tokens for \<open>h\<close> changes them by the amount moved.

  The relation \<open>flow h d w w'\<close> bounds the change: the holdings of \<open>h\<close> in every token \<open>T\<close> grow by at
  least \<open>d T\<close>, and the allowances of \<open>h\<close> stay zero. Flows add up along a run.
\<close>

named_theorems stepped \<open>rules for relations between the states before and after a run\<close>

subsection \<open>Relations that successful runs respect\<close>

definition steps :: "('s \<Rightarrow> 's \<Rightarrow> bool) \<Rightarrow> ('s, 'e, 'a) pre \<Rightarrow> bool" where
  "steps R m \<longleftrightarrow> (\<forall>s v s'. m s = (Inr v, s') \<longrightarrow> R s s')"

lemma steps_run: "steps R m \<Longrightarrow> m s = (Inr v, s') \<Longrightarrow> R s s'"
  by (simp add: steps_def)

locale step_preorder =
  fixes R :: "'s \<Rightarrow> 's \<Rightarrow> bool"
  assumes refl: "R s s" and trans: "R s s' \<Longrightarrow> R s' s'' \<Longrightarrow> R s s''"
begin

lemma steps_pure:
  "steps R (eret x)" "steps R (efail e)" "steps R (egets g)" "steps R (erequire c e)" "steps R (eok_or v e)"
  by (auto simp: steps_def ok refl)

lemma steps_ebind: "steps R m \<Longrightarrow> (\<And>x. steps R (g x)) \<Longrightarrow> steps R (ebind m g)"
  unfolding steps_def ebind_ok by (metis trans)

lemma steps_require: "(c \<Longrightarrow> steps R m) \<Longrightarrow> steps R (ebind (erequire c e) (\<lambda>_. m))"
  by (auto simp: steps_def ok)

lemma steps_branches:
  "steps R m \<Longrightarrow> steps R n \<Longrightarrow> steps R (if c then m else n)"
  "(\<And>x. steps R (g x)) \<Longrightarrow> steps R (let x = v in g x)"
  "(\<And>a b. steps R (k a b)) \<Longrightarrow> steps R (case p of (a, b) \<Rightarrow> k a b)"
  by (auto simp: Let_def split: prod.split)

lemma steps_emodify: "(\<And>s. R s (g s)) \<Longrightarrow> steps R (emodify g)"
  by (simp add: steps_def ok)

lemma steps_keeps: "keeps f m \<Longrightarrow> (\<And>s s'. f s' = f s \<Longrightarrow> R s s') \<Longrightarrow> steps R m"
  by (auto simp: steps_def dest: keeps_run)

lemma steps_commit: "steps R m \<Longrightarrow> R s (commit m s)"
  using commit_cases [of m s] by (auto simp: steps_def refl)

lemmas rules = steps_pure steps_ebind steps_branches

end

subsection \<open>Holdings of one token\<close>

definition holdings :: "tip20 \<Rightarrow> (address \<Rightarrow> u256) \<times> (address \<Rightarrow> address \<Rightarrow> u256)" where
  "holdings t = (balances t, allowances t)"

definition no_allowance :: "address \<Rightarrow> tip20 \<Rightarrow> bool" where
  "no_allowance h t \<longleftrightarrow> (\<forall>spender. allowances t h spender = 0)"

definition tflow :: "address \<Rightarrow> int \<Rightarrow> tip20 \<Rightarrow> tip20 \<Rightarrow> bool" where
  "tflow h d t t' \<longleftrightarrow> no_allowance h t \<longrightarrow> no_allowance h t' \<and> bal t h + d \<le> bal t' h"

lemma tflow_trans: "tflow h d t t' \<Longrightarrow> tflow h e t' t'' \<Longrightarrow> tflow h (d + e) t t''"
  by (auto simp: tflow_def)

lemma tflow_mono: "tflow h d t t' \<Longrightarrow> e \<le> d \<Longrightarrow> tflow h e t t'"
  by (auto simp: tflow_def)

lemma tflow_same: "holdings t' = holdings t \<Longrightarrow> tflow h 0 t t'"
  by (simp add: tflow_def holdings_def no_allowance_def)

interpretation tsteps: step_preorder "tflow h 0" for h
  by unfold_locales (auto simp: tflow_def)

lemmas [stepped] = tsteps.rules

lemma unheld: "keeps holdings m \<Longrightarrow> steps (tflow h 0) m"
  by (rule tsteps.steps_keeps [where f = holdings]) (auto intro: tflow_same)

lemma leaves_keep_holdings [kept]:
  "keeps holdings (emit e)" "keeps holdings (check_role a r)" "keeps holdings (get_balance a)"
  "keeps holdings (get_allowance a b)" "keeps holdings (set_total_supply x)"
  "keeps holdings check_not_paused" "keeps holdings (check_recipient a)" "keeps holdings (get_user_reward_info a)"
  "keeps holdings (set_user_reward_info a i)" "keeps holdings (increase_opted_in_supply x)"
  "keeps holdings (decrease_opted_in_supply x)" "keeps holdings (accrued_reward x y)"
  unfolding token_leaves by (intro kept; simp add: holdings_def)+

lemma bookkeeping_keeps_holdings [kept]:
  "keeps holdings (update_rewards a)" "keeps holdings (handle_rewards_on_transfer a b x)"
  "keeps holdings (handle_rewards_on_mint a x)" "keeps holdings (decrease_total_supply self x)"
  "keeps holdings (set_supply_cap s x)" "keeps holdings (pause env s)" "keeps holdings (unpause env s)"
  "keeps holdings (grant_role s r a)" "keeps holdings (revoke_role s r a)" "keeps holdings (renounce_role s r)"
  "keeps holdings (set_role_admin s r r')"
  "keeps holdings (initialize_storage s name symbol cur quote admin)"
  unfolding update_rewards_def handle_rewards_on_transfer_def handle_rewards_on_mint_def decrease_total_supply_def
    set_supply_cap_def pause_def unpause_def initialize_storage_def initialize_roles_def grant_default_admin_def role_defs
  by (intro kept; simp add: holdings_def)+

lemmas [stepped] = leaves_keep_holdings [THEN unheld] bookkeeping_keeps_holdings [THEN unheld]

text \<open>Who gains and who loses in a move of \<open>x\<close> from \<open>a\<close> to \<open>b\<close>.\<close>

definition moved :: "address \<Rightarrow> address \<Rightarrow> u256 \<Rightarrow> address \<Rightarrow> int" where
  "moved a b x h = (if h = b then int (unat x) else 0) - (if h = a then int (unat x) else 0)"

definition tmoves :: "address \<Rightarrow> address \<Rightarrow> u256 \<Rightarrow> tip20 \<Rightarrow> tip20 \<Rightarrow> bool" where
  "tmoves a b x t t' \<longleftrightarrow> (\<forall>h. bal t' h = bal t h + moved a b x h) \<and> allowances t' = allowances t \<and>
     unat x \<le> unat (balances t a)"

lemma tmoves_flow: "tmoves a b x t t' \<Longrightarrow> tflow h (moved a b x h) t t'"
  by (simp add: tmoves_def tflow_def no_allowance_def del: of_nat_unat)

lemma move_balance:
  assumes "checked_sub (balances t a) x = Some u" "holdings t1 = holdings t"
    and "checked_add (((balances t)(a := u)) b) x = Some v" "balances t' = ((balances t)(a := u))(b := v)"
    and "allowances t' = allowances t1"
  shows "tmoves a b x t t'"
  using assms by (auto simp: tmoves_def moved_def holdings_def checked simp del: of_nat_unat split: if_splits)

lemma transfer_internal_moves:
  assumes "transfer_internal self a b x t = (Inr u, t')" "b \<noteq> 0"
  shows "tmoves a b x t t'"
proof -
  from assms obtain t1 fb tb where
    r1: "handle_rewards_on_transfer a b x t = (Inr (), t1)" and fb: "checked_sub (balances t a) x = Some fb"
    and tb: "checked_add (((balances t1)(a := fb)) b) x = Some tb"
    and t': "balances t' = ((balances t1)(a := fb))(b := tb)" "allowances t' = allowances t1"
    by (auto simp: transfer_internal_def get_balance_def set_balance_def emit_def ebind_ok egets_ok erequire_ok eok_or_ok
        emodify_ok)
  have same: "holdings t1 = holdings t" by (rule keeps_run [OF bookkeeping_keeps_holdings(2) r1])
  with fb tb t' show ?thesis by (intro move_balance [of t a x fb t1 b tb]) (auto simp: holdings_def)
qed

lemma transfer_internal_safe:
  assumes "transfer_internal self a b x t = (Inr u, t')" "a \<noteq> h \<or> x = 0"
  shows "tflow h 0 t t'"
proof (cases "b = 0")
  case False
  from tmoves_flow [OF transfer_internal_moves [OF assms(1) False]] show ?thesis
    by (rule tflow_mono) (use assms(2) in \<open>auto simp: moved_def\<close>)
next
  case True
  with assms(1) obtain t1 fb where
    r1: "handle_rewards_on_transfer a b x t = (Inr (), t1)" and fb: "checked_sub (balances t a) x = Some fb"
    and t': "balances t' = (balances t1)(a := fb)" "allowances t' = allowances t1"
    by (auto simp: transfer_internal_def get_balance_def set_balance_def emit_def ebind_ok egets_ok erequire_ok eok_or_ok
        emodify_ok eret_ok)
  have "holdings t1 = holdings t" by (rule keeps_run [OF bookkeeping_keeps_holdings(2) r1])
  with fb t' assms(2) show ?thesis
    by (auto simp: tflow_def no_allowance_def holdings_def checked simp del: of_nat_unat)
qed

lemma transfer_internal_stepped [stepped]: "a \<noteq> h \<Longrightarrow> steps (tflow h 0) (transfer_internal self a b x)"
  unfolding steps_def by (blast intro: transfer_internal_safe)

lemma set_allowance_stepped [stepped]: "a \<noteq> h \<Longrightarrow> steps (tflow h 0) (set_allowance a b x)"
  unfolding set_allowance_def by (rule tsteps.steps_emodify) (simp add: tflow_def no_allowance_def)

lemma burns_stepped [stepped]:
  "a \<noteq> h \<Longrightarrow> steps (tflow h 0) (burn env self a x)"
  "a \<noteq> h \<Longrightarrow> steps (tflow h 0) (burn_with_memo env self a x memo)"
  unfolding burn_def burn_with_memo_def burn_internal_def by (intro stepped | assumption)+

text \<open>Crediting an account after reading its balance.\<close>

lemma credit_stepped [stepped]:
  "steps (tflow h 0) (ebind (get_balance a) (\<lambda>b. ebind (eok_or (checked_add b x) e) (\<lambda>v. set_balance a v)))"
  by (auto simp: steps_def ok get_balance_def set_balance_def tflow_def no_allowance_def checked simp del: of_nat_unat)

lemma credit_then_stepped [stepped]:
  "(\<And>v. steps (tflow h 0) (k v)) \<Longrightarrow>
   steps (tflow h 0) (ebind (get_balance a) (\<lambda>b. ebind (eok_or (checked_add b x) e) (\<lambda>v. ebind (set_balance a v) k)))"
proof -
  assume k: "\<And>v. steps (tflow h 0) (k v)"
  have "steps (tflow h 0) (ebind (ebind (get_balance a) (\<lambda>b. ebind (eok_or (checked_add b x) e) (\<lambda>v. set_balance a v))) k)"
    by (intro tsteps.steps_ebind credit_stepped k)
  then show ?thesis by (auto simp: steps_def ebind_ok)
qed

lemma write_stepped [stepped]:
  "a \<noteq> h \<Longrightarrow> steps (tflow h 0) (set_balance a v)"
  "(\<And>t. holdings (g t) = holdings t) \<Longrightarrow> steps (tflow h 0) (emodify g)"
  by (auto simp: steps_def ok set_balance_def tflow_def no_allowance_def holdings_def)

subsection \<open>Holdings in all tokens\<close>

definition flow :: "address \<Rightarrow> (address \<Rightarrow> int) \<Rightarrow> 'x world_scheme \<Rightarrow> 'x world_scheme \<Rightarrow> bool" where
  "flow h d w w' \<longleftrightarrow> (\<forall>T. tflow h (d T) (tokens w T) (tokens w' T))"

lemma flow_trans: "flow h d w w' \<Longrightarrow> flow h e w' w'' \<Longrightarrow> flow h (\<lambda>T. d T + e T) w w''"
  by (auto simp: flow_def intro: tflow_trans)

lemma flow_mono: "flow h d w w' \<Longrightarrow> (\<And>T. e T \<le> d T) \<Longrightarrow> flow h e w w'"
  by (auto simp: flow_def intro: tflow_mono)

lemma flow_same: "tokens w' = tokens w \<Longrightarrow> flow h (\<lambda>_. 0) w w'"
  by (simp add: flow_def tflow_def)

interpretation wsteps: step_preorder "flow h (\<lambda>_. 0)" for h
proof unfold_locales
  show "flow h (\<lambda>_. 0) s s" for h and s :: "'x world_scheme" by (simp add: flow_same)
  show "flow h (\<lambda>_. 0) s s''" if "flow h (\<lambda>_. 0) s s'" "flow h (\<lambda>_. 0) s' s''" for h and s s' s'' :: "'x world_scheme"
    using flow_trans [OF that] by simp
qed

lemmas [stepped] = wsteps.rules

lemma on_token_stepped [stepped]: "steps (tflow h 0) m \<Longrightarrow> steps (flow h (\<lambda>_. 0)) (on_token self m)"
  by (auto simp: steps_def on_token_ok flow_def tflow_def)

lemma reads_stepped [stepped]:
  "steps (flow h (\<lambda>_. 0)) (on_registry r)" "steps (flow h (\<lambda>_. 0)) (on_keychain k)"
  "steps (flow h (\<lambda>_. 0)) (from_address a)" "steps (flow h (\<lambda>_. 0)) (is_tip20 a)"
  "steps (flow h (\<lambda>_. 0)) (token_currency a)" "steps (flow h (\<lambda>_. 0)) (emit_token_created e)"
  "steps (flow h (\<lambda>_. 0)) (check_no_quote_loop gas self a)"
  by (auto simp: steps_def on_registry_ok on_keychain_ok lookup_reads emit_token_created_def ok
      dest!: check_no_quote_loop_read intro: flow_same)

lemma authorization_stepped [stepped]:
  "steps (flow h (\<lambda>_. 0)) (is_user_authorized env self a)"
  "steps (flow h (\<lambda>_. 0)) (ensure_transfer_authorized env self a b)"
  "steps (flow h (\<lambda>_. 0)) (check_and_update_spending_limit env self a x)"
  unfolding is_user_authorized_def ensure_transfer_authorized_def is_transfer_authorized_def
    check_and_update_spending_limit_def by (intro stepped)+

lemma evoid_stepped [stepped]: "steps (flow h (\<lambda>_. 0)) m \<Longrightarrow> steps (flow h (\<lambda>_. 0)) (evoid m)"
  unfolding evoid_def by (intro stepped)

subsection \<open>Calls of others\<close>

lemma transfers_stepped [stepped]:
  assumes "s \<noteq> h"
  shows "steps (flow h (\<lambda>_. 0)) (transfer env self s to x)"
    "steps (flow h (\<lambda>_. 0)) (transfer_with_memo env self s to x memo)"
    "steps (flow h (\<lambda>_. 0)) (system_transfer_from env self s to x)"
    "steps (flow h (\<lambda>_. 0)) (approve env self s to x)"
    "steps (flow h (\<lambda>_. 0)) (distribute_reward env self s x)"
  unfolding transfer_def transfer_with_memo_def system_transfer_from_def approve_def distribute_reward_def
  by (intro stepped assms; simp add: holdings_def)+

lemma mints_stepped [stepped]:
  "steps (flow h (\<lambda>_. 0)) (mint env self s to x)" "steps (flow h (\<lambda>_. 0)) (mint_with_memo env self s to x memo)"
  unfolding mint_def mint_with_memo_def mint_internal_def by (rule credit_then_stepped | rule stepped)+

lemma admin_stepped [stepped]:
  "steps (flow h (\<lambda>_. 0)) (change_transfer_policy_id self s pid)"
  "steps (flow h (\<lambda>_. 0)) (set_next_quote_token self s q)"
  "steps (flow h (\<lambda>_. 0)) (complete_quote_token_update gas self s)"
  "steps (flow h (\<lambda>_. 0)) (set_reward_recipient env self s r)"
  unfolding change_transfer_policy_id_def set_next_quote_token_def complete_quote_token_update_def set_reward_recipient_def
  by (intro stepped; simp add: holdings_def)+

lemma claim_stepped [stepped]: "self \<noteq> h \<Longrightarrow> steps (flow h (\<lambda>_. 0)) (claim_rewards env self s)"
  unfolding claim_rewards_def by (rule credit_then_stepped | rule stepped | assumption)+

text \<open>\<open>burnBlocked\<close> excepts the two contract accounts; an allowance of \<open>h\<close> is zero, so a
  \<open>transferFrom\<close> moves nothing out of it.\<close>

lemma burn_blocked_stepped [stepped]:
  assumes "h = TIP_FEE_MANAGER_ADDRESS \<or> h = STABLECOIN_DEX_ADDRESS"
  shows "steps (flow h (\<lambda>_. 0)) (burn_blocked env self s a x)"
proof -
  have "a \<noteq> h" if "\<not> (a = TIP_FEE_MANAGER_ADDRESS \<or> a = STABLECOIN_DEX_ADDRESS)" using assms that by blast
  then show ?thesis
    unfolding burn_blocked_def by - (rule wsteps.steps_require | rule stepped | assumption | blast)+
qed

lemma transfer_from_internal_stepped [stepped]:
  "steps (flow h (\<lambda>_. 0)) (transfer_from_internal env self s a b x)"
proof -
  have moves: "tflow h 0 t t'"
    if "x \<le> allowances t a s" "t1 = t \<or> (\<exists>v. checked_sub (allowances t a s) x = Some v \<and> set_allowance a s v t = (Inr (), t1))"
      "transfer_internal self a b x t1 = (Inr (), t')" for t t1 t'
  proof (cases "a = h \<and> no_allowance h t")
    case True
    then have "x = 0" "no_allowance h t1" "balances t1 = balances t"
      using that(1,2) by (auto simp: no_allowance_def set_allowance_def ok checked unsigned_eq_0_iff)
    then show ?thesis using transfer_internal_safe [OF that(3), of h] by (simp add: tflow_def)
  next
    case False
    then show ?thesis
      using that(2) transfer_internal_safe [OF that(3), of h]
      by (cases "a = h") (auto simp: tflow_def no_allowance_def set_allowance_def ok)
  qed
  show ?thesis
    unfolding transfer_from_internal_def
    by (rule wsteps.steps_ebind, rule on_token_stepped, rule stepped, rule wsteps.steps_ebind, rule on_token_stepped,
        rule stepped, rule wsteps.steps_ebind, rule stepped, rule on_token_stepped)
      (auto simp: steps_def ebind_ok erequire_ok eok_or_ok eret_ok token_checks not_less split: if_split_asm intro: moves)
qed

lemma transfer_froms_stepped [stepped]:
  "steps (flow h (\<lambda>_. 0)) (transfer_from env self s a b x)"
  "steps (flow h (\<lambda>_. 0)) (transfer_from_with_memo env self s a b x memo)"
  unfolding transfer_from_def transfer_from_with_memo_def by (intro stepped)+

lemma create_stepped [stepped]:
  "steps (flow h (\<lambda>_. 0)) (create_token env s name symbol cur quote admin salt)"
  "steps (flow h (\<lambda>_. 0)) (create_token_reserved_address a name symbol cur quote admin)"
proof -
  have "steps (flow h (\<lambda>_. 0)) (initialize a s name symbol cur quote admin)" for a s
    unfolding initialize_def by (rule stepped wsteps.steps_emodify | simp add: flow_same)+
  then show "steps (flow h (\<lambda>_. 0)) (create_token env s name symbol cur quote admin salt)"
    "steps (flow h (\<lambda>_. 0)) (create_token_reserved_address a name symbol cur quote admin)"
    unfolding create_token_def create_token_reserved_address_def by (intro stepped | assumption)+
qed

text \<open>Which calls are made by others: the caller, or the account a system transfer takes from, is not
  \<open>h\<close>. The fee hooks are made by the fee manager only.\<close>

fun foreign :: "address \<Rightarrow> world_call \<Rightarrow> bool" where
  "foreign h (TokenCall gas self s c) = (s \<noteq> h)"
| "foreign h (SystemTransferFrom self from to x) = (from \<noteq> h)"
| "foreign h (FeePreTx self from x) = False"
| "foreign h (FeePostTx self to refund actual) = False"
| "foreign h _ = True"

definition contract_account :: "address \<Rightarrow> bool" where
  "contract_account h \<longleftrightarrow> h = TIP_FEE_MANAGER_ADDRESS \<or> h = STABLECOIN_DEX_ADDRESS"

lemma contract_account_not_token: "contract_account h \<Longrightarrow> is_tip20_prefix a \<Longrightarrow> a \<noteq> h"
  by (auto simp: contract_account_def)

lemma dispatch_stepped:
  assumes "contract_account h" "s \<noteq> h" "self \<noteq> h"
  shows "steps (flow h (\<lambda>_. 0)) (tip20_dispatch env gas self s c)"
  using assms by (cases c) (auto intro!: stepped simp: contract_account_def)

lemma world_op_stepped:
  assumes "contract_account h" "foreign h c"
  shows "steps (flow h (\<lambda>_. 0)) (world_op env c)"
proof (cases c)
  case (TokenCall gas self s tc)
  have "steps (flow h (\<lambda>_. 0)) (tip20_dispatch env gas self s tc)" if "is_tip20_prefix self"
    using assms TokenCall that by (intro dispatch_stepped) (auto dest: contract_account_not_token)
  then show ?thesis
    unfolding TokenCall world_op.simps tip20_call_entry_def from_address_def
    by - (rule wsteps.steps_require, rule stepped, rule stepped, rule stepped, rule stepped)
qed (use assms in \<open>auto intro!: stepped\<close>)

subsection \<open>Storage of other contracts\<close>

text \<open>A part \<open>f\<close> of the world that the tokens, the registry, the keychain and the factory do not write:
  their calls keep it.\<close>

locale other_storage =
  fixes f :: "'x world_scheme \<Rightarrow> 'a"
  assumes apart: "f (tokens_update g w) = f w" "f (w_registry_update r w) = f w" "f (w_keychain_update k w) = f w"
    "f (has_code_update c w) = f w" "f (factory_log_update l w) = f w"
begin

lemma zooms_keep [kept]:
  "keeps f (on_token self m)" "keeps f (on_registry r)" "keeps f (on_keychain k)"
  "keeps f (from_address a)" "keeps f (is_tip20 a)" "keeps f (token_currency a)"
  "keeps f (token_quote a)" "keeps f (emit_token_created e)"
  unfolding on_token_def on_registry_def on_keychain_def from_address_def is_tip20_def token_currency_def token_quote_def
    emit_token_created_def
  by (intro kept keeps_ezoom; simp add: apart)+

lemma authorization_keeps [kept]:
  "keeps f (is_user_authorized env self a)" "keeps f (ensure_transfer_authorized env self a b)"
  "keeps f (check_and_update_spending_limit env self a x)" "keeps f (validate_usd_currency t)"
  unfolding is_user_authorized_def ensure_transfer_authorized_def is_transfer_authorized_def
    check_and_update_spending_limit_def validate_usd_currency_def by (intro kept)+

lemma loop_keeps [kept]: "keeps f (check_no_quote_loop gas self a)"
  by (induction gas arbitrary: a) (auto intro!: kept)

lemma calls_keep [kept]:
  "keeps f (transfer env self s a x)" "keeps f (transfer_from env self s a b x)"
  "keeps f (transfer_from_with_memo env self s a b x memo)" "keeps f (transfer_with_memo env self s a x memo)"
  "keeps f (system_transfer_from env self a b x)" "keeps f (approve env self s a x)"
  "keeps f (mint env self s a x)" "keeps f (mint_with_memo env self s a x memo)"
  "keeps f (burn_blocked env self s a x)" "keeps f (transfer_fee_pre_tx env self a x)"
  "keeps f (set_reward_recipient env self s a)" "keeps f (claim_rewards env self s)"
  "keeps f (distribute_reward env self s x)" "keeps f (change_transfer_policy_id self s pid)"
  "keeps f (set_next_quote_token self s a)" "keeps f (complete_quote_token_update gas self s)"
  unfolding transfer_def transfer_from_def transfer_from_internal_def transfer_from_with_memo_def
    transfer_with_memo_def system_transfer_from_def approve_def mint_def mint_internal_def mint_with_memo_def
    burn_blocked_def transfer_fee_pre_tx_def set_reward_recipient_def claim_rewards_def distribute_reward_def
    change_transfer_policy_id_def set_next_quote_token_def complete_quote_token_update_def
  by (intro kept)+

lemma creation_keeps [kept]:
  "keeps f (create_token env s name symbol cur quote admin salt)"
  "keeps f (create_token_reserved_address a name symbol cur quote admin)"
  unfolding create_token_def create_token_reserved_address_def initialize_def by (intro kept; simp add: apart)+

lemma dispatch_keeps [kept]: "keeps f (tip20_dispatch env gas self s c)"
  by (cases c) (auto intro!: kept)

lemma world_op_keeps: "keeps f (world_op env c)"
  by (cases c) (auto simp: tip20_call_entry_def intro!: kept)

end

subsection \<open>Moves of the account itself\<close>

text \<open>The flow of a single token.\<close>

definition only :: "address \<Rightarrow> int \<Rightarrow> address \<Rightarrow> int" where
  "only T x = (\<lambda>T'. if T' = T then x else 0)"

definition wmoves :: "address \<Rightarrow> address \<Rightarrow> address \<Rightarrow> u256 \<Rightarrow> 'x world_scheme \<Rightarrow> 'x world_scheme \<Rightarrow> bool" where
  "wmoves T a b x w w' \<longleftrightarrow> tmoves a b x (tokens w T) (tokens w' T) \<and> (\<forall>T'. T' \<noteq> T \<longrightarrow> tokens w' T' = tokens w T')"

lemma wmoves_flow: "wmoves T a b x w w' \<Longrightarrow> flow h (only T (moved a b x h)) w w'"
  using tmoves_flow by (auto simp: wmoves_def flow_def only_def tflow_def)

lemma on_token_moves:
  assumes "on_token T m (w\<lparr>w_keychain := k\<rparr>) = (Inr v, w')" "\<And>t'. m (tokens w T) = (Inr v, t') \<Longrightarrow> tmoves a b x (tokens w T) t'"
  shows "wmoves T a b x w w'"
  using assms by (auto simp: on_token_ok wmoves_def)

lemma transfer_core:
  assumes "transfer env T a b x w = (Inr v, w') \<or> system_transfer_from env T a b x w = (Inr v, w')"
  shows "b \<noteq> 0 \<and> (\<exists>k u. on_token T (transfer_internal T a b x) (w\<lparr>w_keychain := k\<rparr>) = (Inr u, w'))"
  using assms
  by (auto simp: transfer_def system_transfer_from_def check_and_update_spending_limit_def ebind_ok eret_ok
      on_token_ok [of _ check_not_paused] on_token_ok [of _ "check_recipient _"] token_checks on_keychain_ok
      dest!: authorization_reads)

lemma transfer_moves:
  assumes "transfer env T a b x w = (Inr v, w') \<or> system_transfer_from env T a b x w = (Inr v, w')"
  shows "wmoves T a b x w w'"
proof -
  from transfer_core [OF assms] obtain k u where b: "b \<noteq> 0"
    and r: "on_token T (transfer_internal T a b x) (w\<lparr>w_keychain := k\<rparr>) = (Inr u, w')" by blast
  from r show ?thesis by (rule on_token_moves) (rule transfer_internal_moves [OF _ b])
qed

lemma fee_hooks_move:
  "transfer_fee_pre_tx env T a x w = (Inr v, w') \<Longrightarrow> wmoves T a TIP_FEE_MANAGER_ADDRESS x w w'"
  "on_token T (transfer_fee_post_tx T b x y) w = (Inr v, w') \<Longrightarrow>
    wmoves T TIP_FEE_MANAGER_ADDRESS b x w w'"
proof -
  let ?f = TIP_FEE_MANAGER_ADDRESS
  have pre: "tmoves a ?f x t t'"
    if "ebind (update_rewards a) (\<lambda>d. ebind (if d \<noteq> 0 then decrease_opted_in_supply x else eret ()) (\<lambda>_.
        ebind (eok_or (checked_sub (balances t a) x) e) (\<lambda>u. ebind (set_balance a u) (\<lambda>_.
        ebind (get_balance ?f) (\<lambda>b. ebind (eok_or (checked_add b x) e') (\<lambda>v. set_balance ?f v)))))) t = (Inr v, t')"
    for t t' e e'
  proof -
    from that obtain d t1 t2 u v where r1: "update_rewards a t = (Inr d, t1)"
      and r2: "(if d \<noteq> 0 then decrease_opted_in_supply x else eret ()) t1 = (Inr (), t2)"
      and m: "checked_sub (balances t a) x = Some u" "checked_add (((balances t2)(a := u)) ?f) x = Some v"
        "balances t' = ((balances t2)(a := u))(?f := v)" "allowances t' = allowances t2"
      by (auto simp: ebind_ok eok_or_ok get_balance_def set_balance_def egets_ok emodify_ok)
    have "holdings t2 = holdings t"
      using keeps_run [OF bookkeeping_keeps_holdings(1) r1]
        keeps_run [of holdings "if d \<noteq> 0 then decrease_opted_in_supply x else eret ()", OF _ r2]
      by (auto intro: kept)
    with m show ?thesis by (intro move_balance [of t a x u t2 ?f v]) (auto simp: holdings_def)
  qed
  show "wmoves T a ?f x w w'" if r: "transfer_fee_pre_tx env T a x w = (Inr v, w')"
  proof -
    from r obtain k where "on_token T
       (ebind (update_rewards a) (\<lambda>d. ebind (if d \<noteq> 0 then decrease_opted_in_supply x else eret ()) (\<lambda>_.
        ebind (eok_or (checked_sub (balances (tokens w T) a) x)
          (TIP20 (TIP20_InsufficientBalance (balances (tokens w T) a) x T))) (\<lambda>u. ebind (set_balance a u) (\<lambda>_.
        ebind (get_balance ?f) (\<lambda>b. ebind (eok_or (checked_add b x) (TIP20 TIP20_SupplyCapExceeded)) (\<lambda>v.
        set_balance ?f v))))))) (w\<lparr>w_keychain := k\<rparr>) = (Inr v, w')"
      by (auto simp: transfer_fee_pre_tx_def check_and_update_spending_limit_def ebind_ok [of "on_token _ _"]
          ebind_ok [of "on_keychain _"] ebind_ok [of "erequire _ _"] erequire_ok
          on_token_ok [of _ check_not_paused] on_token_ok [of _ "get_balance _"] token_checks on_keychain_ok)
    then show ?thesis by (rule on_token_moves) (rule pre)
  qed
  have post: "tmoves ?f b x t t'" if "transfer_fee_post_tx T b x y t = (Inr v, t')" for t t'
  proof (cases "x = 0")
    case True
    with that show ?thesis
      by (auto simp: transfer_fee_post_tx_def emit_def ok moved_def tmoves_def)
  next
    case False
    with that obtain t0 d t1 t2 u v where r0: "emit (Transfer b ?f y) t = (Inr (), t0)"
      and r1: "update_rewards b t0 = (Inr d, t1)"
      and r2: "(if d \<noteq> 0 then increase_opted_in_supply x else eret ()) t1 = (Inr (), t2)"
      and m: "checked_sub (balances t2 ?f) x = Some u" "checked_add (((balances t2)(?f := u)) b) x = Some v"
        "balances t' = ((balances t2)(?f := u))(b := v)" "allowances t' = allowances t2"
      by (auto simp: transfer_fee_post_tx_def ebind_ok eok_or_ok get_balance_def set_balance_def egets_ok emodify_ok)
    have "holdings t2 = holdings t"
      using keeps_run [OF leaves_keep_holdings(1) r0] keeps_run [OF bookkeeping_keeps_holdings(1) r1]
        keeps_run [of holdings "if d \<noteq> 0 then increase_opted_in_supply x else eret ()", OF _ r2]
      by (auto intro: kept)
    with m show ?thesis by (intro move_balance [of t ?f x u t2 b v]) (auto simp: holdings_def)
  qed
  show "wmoves T ?f b x w w'" if "on_token T (transfer_fee_post_tx T b x y) w = (Inr v, w')"
  proof (rule on_token_moves)
    show "on_token T (transfer_fee_post_tx T b x y) (w\<lparr>w_keychain := w_keychain w\<rparr>) = (Inr v, w')" using that by simp
  qed (rule post)
qed

end
