(* ===== verification/Fee_Solvency.thy ===== *)
theory Fee_Solvency
  imports Fee_Manager Custody
begin

section \<open>The fee manager can pay what it owes\<close>

text \<open>
  The fee manager owes the reserves of its pools to the liquidity providers and the collected fees
  to the validators. For every token, what it owes is covered by the balance it holds, in every
  state that transactions reach. Inside a transaction the largest possible fee is held as well,
  until it is settled.

  The pools are stored under hashed keys. The accounting is therefore stated for a set \<open>S\<close> of tokens
  whose pairs have different hashes, which contains every token that the transactions use for fees.
\<close>

subsection \<open>What the operations write\<close>

lemma on_fees_ok: "on_fees m w = (Inr v, w') \<longleftrightarrow> (\<exists>s'. m (w_fees w) = (Inr v, s') \<and> w' = w\<lparr>w_fees := s'\<rparr>)"
  by (simp add: on_fees_def ezoom_ok)

lemma emit_fee_ok:
  "emit_fee e m s = (Inr v, s') \<longleftrightarrow> m (s\<lparr>fee_log := fee_log s @ [e]\<rparr>) = (Inr v, s')"
  by (auto simp: emit_fee_def ok)

lemma amount_out_ok:
  "compute_amount_out x s = (Inr y, s') \<longleftrightarrow> s' = s \<and> unat x * 9970 < 2 ^ 256 \<and> unat y = unat x * 9970 div 10000"
proof -
  have "map_option (\<lambda>p. p div SCALE) (checked_mul x M) = Some y \<longleftrightarrow>
    unat x * 9970 < 2 ^ 256 \<and> unat y = unat x * 9970 div 10000"
  proof (cases "unat x * 9970 < 2 ^ 256")
    case True
    then have "unat (x * 9970) = unat x * 9970" by (simp add: unat_word_ariths)
    with True show ?thesis by (auto simp: checked_mul_def M_def SCALE_def unat_div word_unat_eq_iff)
  qed (simp add: checked_mul_def M_def)
  then show ?thesis by (auto simp: compute_amount_out_def eok_or_ok)
qed

lemma get_pool_ok: "get_pool env u v s = (Inr p, s') \<longleftrightarrow> p = pools s (pool_id env u v) \<and> s' = s"
  by (auto simp: get_pool_def ok)

lemma execute_fee_swap_effect:
  assumes "execute_fee_swap env u v x s = (Inr y, s')"
  shows "\<exists>p'. s' = s\<lparr>pools := (pools s)(pool_id env u v := p')\<rparr> \<and>
    unat (reserve_user_token p') = unat (reserve_user_token (pools s (pool_id env u v))) + unat x \<and>
    unat (reserve_validator_token (pools s (pool_id env u v))) = unat (reserve_validator_token p') + unat y \<and>
    unat y = unat x * 9970 div 10000"
  using assms
  by (auto simp: execute_fee_swap_def write_pool_def ebind_ok eok_or_ok erequire_ok eret_ok emodify_ok get_pool_ok
      amount_out_ok checked)

lemma rebalance_reserves_effect:
  assumes "rebalance_reserves env u v x s = (Inr (i, r), s')"
  shows "r = x \<and> (\<exists>p'. s' = s\<lparr>pools := (pools s)(pool_id env u v := p')\<rparr> \<and>
    unat (reserve_user_token (pools s (pool_id env u v))) = unat (reserve_user_token p') + unat x \<and>
    unat (reserve_validator_token p') = unat (reserve_validator_token (pools s (pool_id env u v))) + unat i) \<and>
    unat i = unat x * 9985 div 10000 + 1"
  using assms
  by (auto simp: rebalance_reserves_def write_pool_def ebind_ok eok_or_ok eret_ok emodify_ok get_pool_ok
      bind_eq_Some_conv checked N_def SCALE_def word_unat_eq_iff)

lemma burn_liquidity_effect:
  assumes "burn_liquidity env a u v l s = (Inr (x, y), s')"
  defines "pid \<equiv> pool_id env u v"
  shows "\<exists>p' b t. s' = s\<lparr>liquidity_balances := (liquidity_balances s)(pid := (liquidity_balances s pid)(a := b)),
      lp_supply := (lp_supply s)(pid := t), pools := (pools s)(pid := p')\<rparr> \<and>
    unat (liquidity_balances s pid a) = unat b + unat l \<and> unat (lp_supply s pid) = unat t + unat l \<and>
    unat (reserve_user_token (pools s pid)) = unat (reserve_user_token p') + unat x \<and>
    unat (reserve_validator_token (pools s pid)) = unat (reserve_validator_token p') + unat y \<and>
    unat x = unat l * unat (reserve_user_token (pools s pid)) div unat (lp_supply s pid) \<and>
    unat y = unat l * unat (reserve_validator_token (pools s pid)) div unat (lp_supply s pid) \<and> lp_supply s pid \<noteq> 0"
proof -
  let ?p = "pools s pid" and ?T = "lp_supply s pid"
  from assms(1) obtain m n b t x' y' u' v' where
    m: "checked_mul l (widen (reserve_user_token ?p)) = Some m" "checked_div m ?T = Some x"
    and n: "checked_mul l (widen (reserve_validator_token ?p)) = Some n" "checked_div n ?T = Some y"
    and b: "checked_sub (liquidity_balances s pid a) l = Some b" and t: "checked_sub ?T l = Some t"
    and x': "try_into x = Some x'" "checked_sub (reserve_user_token ?p) x' = Some u'"
    and y': "try_into y = Some y'" "checked_sub (reserve_validator_token ?p) y' = Some v'"
    and s': "s' = s\<lparr>liquidity_balances := (liquidity_balances s)(pid := (liquidity_balances s pid)(a := b)),
      lp_supply := (lp_supply s)(pid := t), pools := (pools s)(pid := \<lparr>reserve_user_token = u', reserve_validator_token = v'\<rparr>)\<rparr>"
    by (auto simp: burn_liquidity_def Let_def calculate_burn_amounts_def write_pool_def set_lp_supply_def
        set_liquidity_balances_def ebind_ok eok_or_ok eret_ok emodify_ok erequire_ok egets_ok bind_eq_Some_conv pid_def)
  have "unat m = unat l * unat (reserve_user_token ?p)" "unat n = unat l * unat (reserve_validator_token ?p)"
    using m(1) n(1) by (simp_all add: checked)
  moreover have "unat x = unat m div unat ?T" "unat y = unat n div unat ?T" "?T \<noteq> 0"
    using m(2) n(2) by (simp_all add: checked)
  ultimately show ?thesis
    using b t x' y' by - (intro exI conjI, rule s', simp_all add: checked)
qed

lemma deposit_liquidity_effect:
  assumes "deposit_liquidity pid p x s = (Inr (l, t), s')"
  shows "if reserve_user_token p = 0 \<and> reserve_validator_token p = 0
    then s' = s\<lparr>lp_supply := (lp_supply s)(pid := t)\<rparr> \<and> unat t = unat (lp_supply s pid) + 1000 \<and>
      unat x div 2 = unat l + 1000 \<and> 1000 < unat x div 2
    else s' = s \<and> t = lp_supply s pid \<and>
      0 < unat (reserve_validator_token p) + 9985 * unat (reserve_user_token p) div 10000 \<and>
      unat l = unat x * unat t div (unat (reserve_validator_token p) + 9985 * unat (reserve_user_token p) div 10000)"
proof (cases "reserve_user_token p = 0 \<and> reserve_validator_token p = 0")
  case True
  with assms show ?thesis
    by (auto simp: deposit_liquidity_def set_lp_supply_def ebind_ok eok_or_ok egets_ok erequire_ok eret_ok emodify_ok checked
        MIN_LIQUIDITY_def word_le_nat_alt)
next
  case False
  let ?u = "unat (reserve_user_token p)" and ?v = "unat (reserve_validator_token p)"
  from False assms obtain m q d n where
    m: "checked_mul N (widen (reserve_user_token p)) = Some m" "checked_div m SCALE = Some q"
    and d: "checked_add (widen (reserve_validator_token p)) q = Some d" "d \<noteq> 0"
    and n: "checked_mul x t = Some n" "checked_div n d = Some l" and s': "s' = s" "t = lp_supply s pid"
    by (auto simp: deposit_liquidity_def ebind_ok eok_or_ok egets_ok erequire_ok eret_ok bind_eq_Some_conv
        split: if_split_asm)
  have "unat q = 9985 * ?u div 10000"
    using m by (simp add: checked N_def SCALE_def)
  moreover have "unat d = ?v + unat q"
    using d(1) by (simp add: checked)
  moreover have "0 < unat d"
    using d(2) by (metis gr0I unsigned_eq_0_iff)
  moreover have "unat l = unat x * unat t div unat d"
    using n by (simp add: checked)
  ultimately show ?thesis using False s' by simp
qed

lemma credit_deposit_effect:
  assumes "credit_deposit pid p x t l to s = (Inr r, s')"
  shows "\<exists>v t' b. s' = s\<lparr>pools := (pools s)(pid := p\<lparr>reserve_validator_token := v\<rparr>), lp_supply := (lp_supply s)(pid := t'),
      liquidity_balances := (liquidity_balances s)(pid := (liquidity_balances s pid)(to := b))\<rparr> \<and>
    unat v = unat (reserve_validator_token p) + unat x \<and> unat t' = unat t + unat l \<and>
    unat b = unat (liquidity_balances s pid to) + unat l"
  using assms
  by (auto simp: credit_deposit_def write_pool_def set_lp_supply_def set_liquidity_balances_def ebind_ok eok_or_ok
      emodify_ok egets_ok checked) (intro exI conjI, rule refl, simp_all)

lemma get_validator_token_ok:
  "get_validator_token b s = (Inr t, s') \<longleftrightarrow>
    s' = s \<and> t = (if validator_tokens s b = 0 then DEFAULT_FEE_TOKEN else validator_tokens s b)"
  by (auto simp: get_validator_token_def ok)

lemma increment_collected_fees_effect:
  assumes "increment_collected_fees b t x s = (Inr r, s')"
  shows "\<exists>c. s' = s\<lparr>collected_fees := (collected_fees s)(b := (collected_fees s b)(t := c))\<rparr> \<and>
    unat c = unat (collected_fees s b t) + unat x"
proof (cases "x = 0")
  case True
  with assms have "s' = s" by (simp add: increment_collected_fees_def ok)
  with True show ?thesis by (intro exI [of _ "collected_fees s b t"]) simp
next
  case False
  with assms show ?thesis
    by (auto simp: increment_collected_fees_def ebind_ok eok_or_ok egets_ok emodify_ok checked)
qed

subsection \<open>What the fee manager owes\<close>

definition owed :: "env \<Rightarrow> address set \<Rightarrow> fee_manager \<Rightarrow> address \<Rightarrow> nat" where
  "owed env S s T =
     (\<Sum>a\<in>S. unat (reserve_user_token (pools s (pool_id env T a)))) +
     (\<Sum>a\<in>S. unat (reserve_validator_token (pools s (pool_id env a T)))) +
     (\<Sum>v\<in>UNIV. unat (collected_fees s v T))"

definition no_collision :: "env \<Rightarrow> address set \<Rightarrow> bool" where
  "no_collision env S \<longleftrightarrow> inj_on (\<lambda>(u, v). pool_id env u v) (S \<times> S)"

lemma sum_change:
  assumes "finite S" "b \<in> S" "\<And>a. a \<in> S \<Longrightarrow> int (f a) = int (g a) + (if a = b then d else 0)"
  shows "int (\<Sum>a\<in>S. f a) = int (\<Sum>a\<in>S. g a) + d"
  using assms by (simp add: sum.distrib)

lemma owed_pool:
  fixes s :: fee_manager
  assumes "no_collision env S" "u \<in> S" "v \<in> S" "T \<in> S"
  defines "p \<equiv> pools s (pool_id env u v)"
  shows "int (owed env S (s\<lparr>pools := (pools s)(pool_id env u v := p')\<rparr>) T) = int (owed env S s T)
    + only u (int (unat (reserve_user_token p')) - int (unat (reserve_user_token p))) T
    + only v (int (unat (reserve_validator_token p')) - int (unat (reserve_validator_token p))) T"
proof -
  have eq: "pool_id env a b = pool_id env u v \<longleftrightarrow> a = u \<and> b = v" if "a \<in> S" "b \<in> S" for a b
    using assms(1-3) that by (auto simp: no_collision_def inj_on_def)
  let ?q = "(pools s)(pool_id env u v := p')"
  have "int (\<Sum>a\<in>S. unat (reserve_user_token (?q (pool_id env T a)))) =
      int (\<Sum>a\<in>S. unat (reserve_user_token (pools s (pool_id env T a))))
      + only u (int (unat (reserve_user_token p')) - int (unat (reserve_user_token p))) T"
    by (rule sum_change [OF _ assms(3)]) (use eq [OF assms(4)] in \<open>auto simp: only_def p_def\<close>)
  moreover have "int (\<Sum>a\<in>S. unat (reserve_validator_token (?q (pool_id env a T)))) =
      int (\<Sum>a\<in>S. unat (reserve_validator_token (pools s (pool_id env a T))))
      + only v (int (unat (reserve_validator_token p')) - int (unat (reserve_validator_token p))) T"
    by (rule sum_change [OF _ assms(2)]) (use eq [OF _ assms(4)] in \<open>auto simp: only_def p_def\<close>)
  ultimately show ?thesis by (simp add: owed_def del: of_nat_sum)
qed

lemma owed_collected:
  "int (owed env S (s\<lparr>collected_fees := (collected_fees s)(b := (collected_fees s b)(t := c))\<rparr>) T) =
    int (owed env S s T) + only t (int (unat c) - int (unat (collected_fees s b t))) T"
proof -
  have "int (\<Sum>v\<in>UNIV. unat (((collected_fees s)(b := (collected_fees s b)(t := c))) v T)) =
      int (\<Sum>v\<in>UNIV. unat (collected_fees s v T)) + only t (int (unat c) - int (unat (collected_fees s b t))) T"
    by (rule sum_change [of _ b]) (auto simp: only_def)
  then show ?thesis by (simp add: owed_def del: of_nat_sum)
qed

lemma owed_other [simp]:
  "owed env S (s\<lparr>lp_supply := l\<rparr>) = owed env S s" "owed env S (s\<lparr>liquidity_balances := b\<rparr>) = owed env S s"
  "owed env S (s\<lparr>fee_log := e\<rparr>) = owed env S s" "owed env S (s\<lparr>validator_tokens := t\<rparr>) = owed env S s"
  "owed env S (s\<lparr>user_tokens := t\<rparr>) = owed env S s"
  by (auto simp: owed_def fun_eq_iff)

interpretation fees: other_storage w_fees
  by unfold_locales simp_all

lemmas zooms_keep_fees = fees.zooms_keep and authorization_keeps_fees = fees.authorization_keeps
  and calls_keep_fees = fees.calls_keep and world_op_keeps_fees = fees.world_op_keeps

subsection \<open>Backing\<close>

text \<open>What is owed plus the amounts \<open>fl\<close> in flight is covered by the holdings.\<close>

definition backed :: "env \<Rightarrow> address set \<Rightarrow> (address \<Rightarrow> int) \<Rightarrow> 'x fee_world_scheme \<Rightarrow> bool" where
  "backed env S fl w \<longleftrightarrow> (\<forall>T. no_allowance TIP_FEE_MANAGER_ADDRESS (tokens w T)) \<and>
     (\<forall>T. T \<in> S \<longrightarrow> int (owed env S (w_fees w) T) + fl T \<le> bal (tokens w T) TIP_FEE_MANAGER_ADDRESS) \<and>
     (\<forall>v. validator_tokens (w_fees w) v \<in> insert 0 S)"

lemma backed_flow:
  assumes "backed env S fl w" "flow TIP_FEE_MANAGER_ADDRESS d w w'" "w_fees w' = w_fees w"
  shows "backed env S (\<lambda>T. fl T + d T) w'"
proof -
  let ?h = TIP_FEE_MANAGER_ADDRESS
  have f: "no_allowance ?h (tokens w' T) \<and> bal (tokens w T) ?h + d T \<le> bal (tokens w' T) ?h" for T
    using assms(1,2) by (simp add: backed_def flow_def tflow_def del: of_nat_unat)
  have "int (owed env S (w_fees w) T) + fl T \<le> bal (tokens w T) ?h" if "T \<in> S" for T
    using assms(1) that by (simp add: backed_def del: of_nat_unat)
  with f have "int (owed env S (w_fees w') T) + (fl T + d T) \<le> bal (tokens w' T) ?h" if "T \<in> S" for T
    using that assms(3) by (smt (verit))
  with f assms(1,3) show ?thesis by (simp add: backed_def del: of_nat_unat)
qed

lemma backed_book:
  assumes "backed env S fl w" "\<And>T. T \<in> S \<Longrightarrow> int (owed env S s' T) = int (owed env S (w_fees w) T) + e T"
    "validator_tokens s' = validator_tokens (w_fees w)"
  shows "backed env S (\<lambda>T. fl T - e T) (w\<lparr>w_fees := s'\<rparr>)"
  using assms by (auto simp: backed_def)

lemma backed_mono: "backed env S fl w \<Longrightarrow> (\<And>T. fl' T \<le> fl T) \<Longrightarrow> backed env S fl' w"
  unfolding backed_def by (metis add_left_mono order_trans)

lemma backed_stepped:
  assumes "backed env S fl w" "m w = (Inr v, w')" "steps (flow TIP_FEE_MANAGER_ADDRESS (\<lambda>_. 0)) m" "keeps w_fees m"
  shows "backed env S fl w'"
  using backed_flow [OF assms(1) steps_run [OF assms(3,2)] keeps_run [OF assms(4,2)]] by simp

text \<open>Tokens that the fee manager receives from others, and tokens that it pays.\<close>

lemma backed_receives:
  assumes "backed env S fl w" "system_transfer_from e T a TIP_FEE_MANAGER_ADDRESS x w = (Inr v, w')" "a \<noteq> TIP_FEE_MANAGER_ADDRESS"
  shows "backed env S (\<lambda>T'. fl T' + only T (int (unat x)) T') w'"
proof -
  have "w_fees w' = w_fees w" by (rule keeps_run [OF calls_keep_fees(5) assms(2)])
  from backed_flow [OF assms(1) wmoves_flow [OF transfer_moves [OF disjI2 [OF assms(2)]]] this] show ?thesis
    by (rule backed_mono) (use assms(3) in \<open>auto simp: moved_def only_def\<close>)
qed

lemma backed_pays:
  assumes "backed env S fl w" "transfer e T TIP_FEE_MANAGER_ADDRESS b x w = (Inr v, w')"
  shows "backed env S (\<lambda>T'. fl T' - only T (int (unat x)) T') w'"
proof -
  have "w_fees w' = w_fees w" by (rule keeps_run [OF calls_keep_fees(1) assms(2)])
  from backed_flow [OF assms(1) wmoves_flow [OF transfer_moves [OF disjI1 [OF assms(2)]]] this] show ?thesis
    by (rule backed_mono) (auto simp: moved_def only_def)
qed

lemma backed_log: "backed env S fl w \<Longrightarrow> on_fees (emit_fee e (eret r)) w = (Inr v, w') \<Longrightarrow> backed env S fl w'"
  by (auto simp: on_fees_ok emit_fee_ok eret_ok backed_def)

text \<open>A change of one pool, with its effect on what is owed.\<close>

lemma backed_pool:
  assumes "backed env S fl w" "no_collision env S" "u \<in> S" "v \<in> S"
    and "s' = (w_fees w)\<lparr>pools := (pools (w_fees w))(pool_id env u v := p')\<rparr>"
    and "int (unat (reserve_user_token p')) = int (unat (reserve_user_token (pools (w_fees w) (pool_id env u v)))) + x"
    and "int (unat (reserve_validator_token p')) = int (unat (reserve_validator_token (pools (w_fees w) (pool_id env u v)))) + y"
  shows "backed env S (\<lambda>T. fl T - (only u x T + only v y T)) (w\<lparr>w_fees := s'\<rparr>)"
proof (rule backed_book [OF assms(1)])
  show "int (owed env S s' T) = int (owed env S (w_fees w) T) + (only u x T + only v y T)" if "T \<in> S" for T
    unfolding assms(5) owed_pool [OF assms(2,3,4) that] using assms(6,7) by (simp del: of_nat_unat)
qed (simp add: assms(5))

lemma rebalance_backed:
  assumes "backed env S fl w" "no_collision env S" "u \<in> S" "v \<in> S" "a \<noteq> TIP_FEE_MANAGER_ADDRESS"
    and "rebalance_swap env a u v x to w = (Inr r, w')"
  shows "backed env S fl w'"
proof -
  from assms(6) obtain i y s1 w2 w3 b1 b2 where
    r1: "rebalance_reserves env u v x (w_fees w) = (Inr (i, y), s1)"
    and r2: "system_transfer_from env v a TIP_FEE_MANAGER_ADDRESS i (w\<lparr>w_fees := s1\<rparr>) = (Inr b1, w2)"
    and r3: "transfer env u TIP_FEE_MANAGER_ADDRESS to y w2 = (Inr b2, w3)"
    and r4: "on_fees (emit_fee (RebalanceSwapEvent u v a i y) (eret i)) w3 = (Inr r, w')"
    by (auto simp: rebalance_swap_def ebind_ok erequire_ok on_fees_ok [of "rebalance_reserves _ _ _ _"] lookup_reads)
  from rebalance_reserves_effect [OF r1] obtain p' where y: "y = x"
    and s1: "s1 = (w_fees w)\<lparr>pools := (pools (w_fees w))(pool_id env u v := p')\<rparr>"
    and p': "unat (reserve_user_token (pools (w_fees w) (pool_id env u v))) = unat (reserve_user_token p') + unat x"
      "unat (reserve_validator_token p') = unat (reserve_validator_token (pools (w_fees w) (pool_id env u v))) + unat i"
    by blast
  have "backed env S (\<lambda>T. fl T - (only u (- int (unat x)) T + only v (int (unat i)) T)) (w\<lparr>w_fees := s1\<rparr>)"
    by (rule backed_pool [OF assms(1-4) s1]) (simp_all add: p' del: of_nat_unat)
  from backed_pays [OF backed_receives [OF this r2 assms(5)] r3]
  have "backed env S fl w3" by (rule backed_mono) (simp add: y only_def)
  then show ?thesis by (rule backed_log [OF _ r4])
qed

lemma mint_backed:
  assumes "backed env S fl w" "no_collision env S" "u \<in> S" "v \<in> S" "a \<noteq> TIP_FEE_MANAGER_ADDRESS"
    and "amm_mint env a u v x to w = (Inr r, w')"
  shows "backed env S fl w'"
proof -
  let ?pid = "pool_id env u v" and ?p = "pools (w_fees w) (pool_id env u v)"
  from assms(6) obtain l t s1 w2 b1 s3 where
    r1: "deposit_liquidity ?pid ?p x (w_fees w) = (Inr (l, t), s1)"
    and r2: "system_transfer_from env v a TIP_FEE_MANAGER_ADDRESS x (w\<lparr>w_fees := s1\<rparr>) = (Inr b1, w2)"
    and r3: "credit_deposit ?pid ?p x t l to (w_fees w2) = (Inr (), s3)"
    and w': "w' = w2\<lparr>w_fees := s3\<lparr>fee_log := fee_log s3 @ [MintEvent a to u v x l]\<rparr>\<rparr>"
    by (auto simp: amm_mint_def ebind_ok erequire_ok validate_usd_currency_def on_fees_ok get_pool_ok lookup_reads
        emit_fee_ok eret_ok)
  have s1: "pools s1 = pools (w_fees w)" "owed env S s1 = owed env S (w_fees w)" "validator_tokens s1 = validator_tokens (w_fees w)"
    using deposit_liquidity_effect [OF r1] by (auto split: if_splits)
  have w2: "w_fees w2 = s1" using keeps_run [OF calls_keep_fees(5) r2] by simp
  have "backed env S (\<lambda>T. fl T - 0) (w\<lparr>w_fees := s1\<rparr>)"
    by (rule backed_book [OF assms(1)]) (simp_all add: s1)
  from backed_receives [OF this r2 assms(5)]
  have b2: "backed env S (\<lambda>T. fl T + only v (int (unat x)) T) w2" by simp
  from credit_deposit_effect [OF r3] obtain v' t' b where
    s3: "s3 = (w_fees w2)\<lparr>pools := (pools (w_fees w2))(?pid := ?p\<lparr>reserve_validator_token := v'\<rparr>),
      lp_supply := (lp_supply (w_fees w2))(?pid := t'),
      liquidity_balances := (liquidity_balances (w_fees w2))(?pid := (liquidity_balances (w_fees w2) ?pid)(to := b))\<rparr>"
    and v': "unat v' = unat (reserve_validator_token ?p) + unat x" by blast
  let ?s = "(w_fees w2)\<lparr>pools := (pools (w_fees w2))(?pid := ?p\<lparr>reserve_validator_token := v'\<rparr>)\<rparr>"
  have "backed env S (\<lambda>T. fl T + only v (int (unat x)) T - (only u 0 T + only v (int (unat x)) T)) (w2\<lparr>w_fees := ?s\<rparr>)"
    by (rule backed_pool [OF b2 assms(2-4) refl]) (simp_all add: w2 s1 v' del: of_nat_unat)
  then show ?thesis by (simp add: backed_def w' s3 only_def del: of_nat_unat)
qed

lemma burn_backed:
  assumes "backed env S fl w" "no_collision env S" "u \<in> S" "v \<in> S"
    and "amm_burn env a u v l to w = (Inr r, w')"
  shows "backed env S fl w'"
proof -
  let ?pid = "pool_id env u v" and ?p = "pools (w_fees w) (pool_id env u v)"
  from assms(5) obtain x y s1 w2 w3 b1 b2 where
    r1: "burn_liquidity env a u v l (w_fees w) = (Inr (x, y), s1)"
    and r2: "transfer env u TIP_FEE_MANAGER_ADDRESS to x (w\<lparr>w_fees := s1\<rparr>) = (Inr b1, w2)"
    and r3: "transfer env v TIP_FEE_MANAGER_ADDRESS to y w2 = (Inr b2, w3)"
    and r4: "on_fees (emit_fee (BurnEvent a u v x y l to) (eret (x, y))) w3 = (Inr r, w')"
    by (auto simp: amm_burn_def ebind_ok erequire_ok validate_usd_currency_def on_fees_ok [of "burn_liquidity _ _ _ _ _"]
        lookup_reads)
  from burn_liquidity_effect [OF r1] obtain p' b t where
    s1: "s1 = (w_fees w)\<lparr>liquidity_balances := (liquidity_balances (w_fees w))(?pid := (liquidity_balances (w_fees w) ?pid)(a := b)),
      lp_supply := (lp_supply (w_fees w))(?pid := t), pools := (pools (w_fees w))(?pid := p')\<rparr>"
    and p': "unat (reserve_user_token ?p) = unat (reserve_user_token p') + unat x"
      "unat (reserve_validator_token ?p) = unat (reserve_validator_token p') + unat y" by blast
  let ?s = "(w_fees w)\<lparr>pools := (pools (w_fees w))(?pid := p')\<rparr>"
  have "backed env S (\<lambda>T. fl T - (only u (- int (unat x)) T + only v (- int (unat y)) T)) (w\<lparr>w_fees := ?s\<rparr>)"
    by (rule backed_pool [OF assms(1-4) refl]) (simp_all add: p' del: of_nat_unat)
  then have "backed env S (\<lambda>T. fl T - (only u (- int (unat x)) T + only v (- int (unat y)) T)) (w\<lparr>w_fees := s1\<rparr>)"
    by (simp add: backed_def s1 owed_def)
  from backed_pays [OF backed_pays [OF this r2] r3]
  have "backed env S fl w3" by (rule backed_mono) (simp add: only_def)
  then show ?thesis by (rule backed_log [OF _ r4])
qed

lemma distribute_backed:
  assumes "backed env S fl w" "distribute_fees e b t w = (Inr r, w')"
  shows "backed env S fl w'"
proof (cases "collected_fees (w_fees w) b t = 0")
  case True
  with assms show ?thesis by (simp add: distribute_fees_def ok on_fees_ok)
next
  case False
  let ?x = "collected_fees (w_fees w) b t"
  let ?s = "(w_fees w)\<lparr>collected_fees := (collected_fees (w_fees w))(b := (collected_fees (w_fees w) b)(t := 0))\<rparr>"
  from False assms(2) obtain w2 b1 where
    r1: "transfer e t TIP_FEE_MANAGER_ADDRESS b ?x (w\<lparr>w_fees := ?s\<rparr>) = (Inr b1, w2)"
    and r2: "on_fees (emit_fee (FeesDistributed b t ?x) (eret ())) w2 = (Inr r, w')"
    by (auto simp: distribute_fees_def ebind_ok on_fees_ok [of "egets _"] on_fees_ok [of "emodify _"] egets_ok emodify_ok
        lookup_reads)
  have "backed env S (\<lambda>T. fl T - only t (0 - int (unat ?x)) T) (w\<lparr>w_fees := ?s\<rparr>)"
    by (rule backed_book [OF assms(1)]) (simp_all add: owed_collected del: of_nat_unat)
  from backed_pays [OF this r1] have "backed env S fl w2" by (rule backed_mono) (simp add: only_def)
  then show ?thesis by (rule backed_log [OF _ r2])
qed

lemma set_tokens_backed:
  assumes "backed env S fl w"
  shows "set_validator_token a t b w = (Inr r, w') \<Longrightarrow> t \<in> S \<Longrightarrow> backed env S fl w'"
    "set_user_token a t w = (Inr r, w') \<Longrightarrow> backed env S fl w'"
  using assms
  by (auto simp: set_validator_token_def set_user_token_def validate_usd_currency_def ebind_ok erequire_ok lookup_reads
      on_fees_ok emodify_ok emit_fee_ok eret_ok backed_def)

text \<open>Settling the fee of a transaction: the spent fee leaves the amount in flight and is owed, in the
  fee token to the pool or in the validator's token to the validator.\<close>

lemma settle_backed:
  assumes "backed env S fl w" "no_collision env S" "DEFAULT_FEE_TOKEN \<in> S" "t \<in> S"
    and "settle_fee env x t b (w_fees w) = (Inr r, s')"
  shows "backed env S (\<lambda>T. fl T - only t (int (unat x)) T) (w\<lparr>w_fees := s'\<rparr>)"
proof -
  define v where "v = (if validator_tokens (w_fees w) b = 0 then DEFAULT_FEE_TOKEN else validator_tokens (w_fees w) b)"
  have v: "v \<in> S" using assms(1,3) by (auto simp: backed_def v_def)
  have "get_validator_token b (w_fees w) = (Inr v, w_fees w)" by (simp add: get_validator_token_ok v_def)
  then have settled: "ebind (if t \<noteq> v then if x \<noteq> 0 then ebind (execute_fee_swap env t v x) (\<lambda>_. eret ()) else eret () else eret ())
      (\<lambda>_. ebind (if t = v then eret x else compute_amount_out x) (increment_collected_fees b v)) (w_fees w) = (Inr r, s')"
    using assms(5) by (simp add: settle_fee_def ebind_def [of "get_validator_token b"])
  show ?thesis
  proof (cases "t = v \<or> x = 0")
    case True
    with settled have "increment_collected_fees b v x (w_fees w) = (Inr r, s')"
      by (cases "t = v") (auto simp: ebind_ok eret_ok amount_out_ok unsigned_eq_0_iff)
    from increment_collected_fees_effect [OF this] obtain c where
      s': "s' = (w_fees w)\<lparr>collected_fees := (collected_fees (w_fees w))(b := (collected_fees (w_fees w) b)(v := c))\<rparr>"
      and c: "unat c = unat (collected_fees (w_fees w) b v) + unat x" by blast
    have "backed env S (\<lambda>T. fl T - only v (int (unat x)) T) (w\<lparr>w_fees := s'\<rparr>)"
      by (rule backed_book [OF assms(1)]) (simp_all add: s' owed_collected c del: of_nat_unat)
    with True show ?thesis by (auto elim: backed_mono simp: only_def)
  next
    case False
    then obtain y y' s1 where r1: "execute_fee_swap env t v x (w_fees w) = (Inr y, s1)" and y': "unat y' = unat x * 9970 div 10000"
      and r2: "increment_collected_fees b v y' s1 = (Inr r, s')"
      using settled by (auto simp: ebind_ok eret_ok amount_out_ok)
    from execute_fee_swap_effect [OF r1] obtain p' where
      s1: "s1 = (w_fees w)\<lparr>pools := (pools (w_fees w))(pool_id env t v := p')\<rparr>"
      and p': "unat (reserve_user_token p') = unat (reserve_user_token (pools (w_fees w) (pool_id env t v))) + unat x"
        "unat (reserve_validator_token (pools (w_fees w) (pool_id env t v))) = unat (reserve_validator_token p') + unat y"
      and y: "y = y'" using y' by (auto simp: word_unat_eq_iff)
    have b1: "backed env S (\<lambda>T. fl T - (only t (int (unat x)) T + only v (- int (unat y)) T)) (w\<lparr>w_fees := s1\<rparr>)"
      by (rule backed_pool [OF assms(1,2,4) v s1]) (simp_all add: p' del: of_nat_unat)
    from increment_collected_fees_effect [OF r2] obtain c where
      s': "s' = s1\<lparr>collected_fees := (collected_fees s1)(b := (collected_fees s1 b)(v := c))\<rparr>"
      and c: "unat c = unat (collected_fees s1 b v) + unat y" unfolding y by blast
    have "backed env S (\<lambda>T. fl T - (only t (int (unat x)) T + only v (- int (unat y)) T) - only v (int (unat y)) T)
        (w\<lparr>w_fees := s1, w_fees := s'\<rparr>)"
      by (rule backed_book [OF b1]) (simp_all add: s' owed_collected c del: of_nat_unat)
    then have "backed env S (\<lambda>T. fl T - (only t (int (unat x)) T + only v (- int (unat y)) T) - only v (int (unat y)) T)
        (w\<lparr>w_fees := s'\<rparr>)" by simp
    then show ?thesis by (rule backed_mono) (simp add: only_def)
  qed
qed

subsection \<open>Transactions\<close>

fun fee_call_in :: "address set \<Rightarrow> fee_call \<Rightarrow> bool" where
  "fee_call_in S (SetValidatorToken t) = (t \<in> S)"
| "fee_call_in S (AmmMint u v x to) = (u \<in> S \<and> v \<in> S)"
| "fee_call_in S (AmmBurn u v l to) = (u \<in> S \<and> v \<in> S)"
| "fee_call_in S (RebalanceSwap u v x to) = (u \<in> S \<and> v \<in> S)"
| "fee_call_in S _ = True"

fun chain_call_ok :: "address set \<Rightarrow> chain_call \<Rightarrow> bool" where
  "chain_call_ok S (WorldCall c) = foreign TIP_FEE_MANAGER_ADDRESS c"
| "chain_call_ok S (FeeCall a c) = (a \<noteq> TIP_FEE_MANAGER_ADDRESS \<and> fee_call_in S c)"

text \<open>A transaction in a block with the same hash function: nobody signs for the fee manager, the fee
  token is in \<open>S\<close>, and the fee spent is within the fee collected, as the gas used is within the limit.\<close>

definition tx_ok :: "env \<Rightarrow> address set \<Rightarrow> env \<times> address \<times> fee_tx \<Rightarrow> bool" where
  "tx_ok env S t = (case t of (e, beneficiary, tx) \<Rightarrow> keccak256 e = keccak256 env \<and>
     fee_payer tx \<noteq> TIP_FEE_MANAGER_ADDRESS \<and> fee_token tx \<in> S \<and> spent tx \<le> max_fee tx \<and>
     list_all (chain_call_ok S) (body tx))"

lemma chain_op_backed:
  assumes "backed env S fl w" "no_collision env S" "chain_call_ok S c" "chain_op env b c w = (Inr r, w')"
  shows "backed env S fl w'"
proof (cases c)
  case (WorldCall wc)
  then have "steps (flow TIP_FEE_MANAGER_ADDRESS (\<lambda>_. 0)) (world_op env wc)" "world_op env wc w = (Inr r, w')"
    using assms(3,4) world_op_stepped [of TIP_FEE_MANAGER_ADDRESS wc] by (simp_all add: contract_account_def)
  from backed_stepped [OF assms(1) this(2,1) world_op_keeps_fees] show ?thesis .
next
  case (FeeCall a fc)
  with assms show ?thesis
    by (cases fc) (auto simp: evoid_ok intro: set_tokens_backed distribute_backed mint_backed burn_backed rebalance_backed)
qed

lemma chain_exec_backed:
  assumes "backed env S fl w" "no_collision env S" "chain_call_ok S c"
  shows "backed env S fl (chain_exec env b c w)"
  using commit_cases [of "chain_op env b c" w] chain_op_backed [OF assms] assms(1) unfolding chain_exec_def by metis

lemma body_backed:
  assumes "no_collision env S" "list_all (chain_call_ok S) cs" "backed env S fl w"
  shows "backed env S fl (fold (chain_exec env b) cs w)"
  using assms(2,3) by (induction cs arbitrary: w) (auto intro: chain_exec_backed [OF _ assms(1)])

lemma pre_tx_backed:
  assumes "backed env S fl w" "a \<noteq> TIP_FEE_MANAGER_ADDRESS" "collect_fee_pre_tx env a t x b w = (Inr r, w')"
  shows "backed env S (\<lambda>T. fl T + only t (int (unat x)) T) w'"
proof -
  from assms(3) obtain w1 where r: "transfer_fee_pre_tx env t a x w = (Inr (), w1)" and w': "w' = w1"
    by (auto simp: collect_fee_pre_tx_def ebind_ok on_fees_ok get_validator_token_ok lookup_reads eret_ok
        check_sufficient_liquidity_def amount_out_ok get_pool_ok erequire_ok dest!: authorization_reads split: if_split_asm)
  have "w_fees w1 = w_fees w" by (rule keeps_run [OF calls_keep_fees(10) r])
  from backed_flow [OF assms(1) wmoves_flow [OF fee_hooks_move(1) [OF r]] this] show ?thesis
    unfolding w' by (rule backed_mono) (use assms(2) in \<open>auto simp: only_def moved_def\<close>)
qed

lemma post_tx_backed:
  assumes "backed env S fl w" "no_collision env S" "DEFAULT_FEE_TOKEN \<in> S" "t \<in> S"
    "collect_fee_post_tx env a x y t b w = (Inr r, w')"
  shows "backed env S (\<lambda>T. fl T - only t (int (unat x) + int (unat y)) T) w'"
proof -
  from assms(5) obtain w1 s' where r1: "on_token t (transfer_fee_post_tx t a y x) w = (Inr (), w1)"
    and r2: "settle_fee env x t b (w_fees w1) = (Inr r, s')" and w': "w' = w1\<lparr>w_fees := s'\<rparr>"
    by (auto simp: collect_fee_post_tx_def ebind_ok on_fees_ok lookup_reads)
  have "w_fees w1 = w_fees w" by (rule keeps_run [OF zooms_keep_fees(1) r1])
  from backed_flow [OF assms(1) wmoves_flow [OF fee_hooks_move(2) [OF r1]] this]
  have "backed env S (\<lambda>T. fl T - only t (int (unat y)) T) w1"
    by (rule backed_mono) (auto simp: only_def moved_def)
  from settle_backed [OF this assms(2-4) r2] show ?thesis
    unfolding w' by (rule backed_mono) (simp add: only_def)
qed

lemma owed_env: "pool_id e = pool_id env \<Longrightarrow> backed e S fl w = backed env S fl w \<and> no_collision e S = no_collision env S"
  by (simp add: backed_def owed_def no_collision_def)

lemma execute_tx_backed:
  assumes "backed env S (\<lambda>_. 0) w" "no_collision env S" "DEFAULT_FEE_TOKEN \<in> S" "tx_ok env S (env, b, tx)"
    "execute_tx env b tx w = (Inr r, w')"
  shows "backed env S (\<lambda>_. 0) w'"
proof -
  from assms(5) obtain w1 where r1: "validate_caller env b tx w = (Inr (), w1)"
    and r2: "reimburse_caller env b tx (fold (chain_exec env b) (body tx) w1) = (Inr r, w')"
    by (auto simp: execute_tx_def ebind_ok emodify_ok)
  note tx = assms(4) [unfolded tx_ok_def, simplified]
  let ?m = "int (unat (max_fee tx))"
  have b1: "backed env S (\<lambda>T. 0 + only (fee_token tx) ?m T) w1"
  proof (cases "max_fee tx = 0")
    case True
    with r1 assms(1) show ?thesis by (simp add: validate_caller_def eret_ok only_def)
  next
    case False
    with r1 obtain t where "collect_fee_pre_tx env (fee_payer tx) (fee_token tx) (max_fee tx) b w = (Inr t, w1)"
      by (auto simp: validate_caller_def evoid_ok)
    from pre_tx_backed [OF assms(1) _ this] tx show ?thesis by simp
  qed
  have refund: "unat (max_fee tx) = unat (spent tx) + unat (max_fee tx - spent tx)"
    using tx by (simp add: unat_sub word_le_nat_alt)
  note b2 = body_backed [OF assms(2) _ b1, of "body tx" b]
  show ?thesis
  proof (cases "spent tx \<noteq> 0 \<or> max_fee tx - spent tx \<noteq> 0")
    case True
    with r2 have "collect_fee_post_tx env (fee_payer tx) (spent tx) (max_fee tx - spent tx) (fee_token tx) b
        (fold (chain_exec env b) (body tx) w1) = (Inr r, w')"
      by (simp add: reimburse_caller_def Let_def)
    from post_tx_backed [OF b2 assms(2,3) _ this] tx show ?thesis
      by (auto elim!: backed_mono simp: only_def refund simp del: of_nat_unat)
  next
    case False
    with r2 have "w' = fold (chain_exec env b) (body tx) w1" by (simp add: reimburse_caller_def Let_def eret_ok)
    with b2 tx show ?thesis by (auto elim!: backed_mono simp: only_def)
  qed
qed

lemma block_exec_backed:
  assumes "backed env S (\<lambda>_. 0) w" "no_collision env S" "DEFAULT_FEE_TOKEN \<in> S" "tx_ok env S t"
  shows "backed env S (\<lambda>_. 0) (block_exec t w)"
proof -
  obtain e b tx where t: "t = (e, b, tx)" by (cases t)
  then have "pool_id e = pool_id env" and tx: "tx_ok e S (e, b, tx)"
    using assms(4) by (auto simp: tx_ok_def pool_id_def fun_eq_iff)
  note same = owed_env [OF this(1)]
  show ?thesis
    using execute_tx_backed [of e S w b tx] commit_cases [of "execute_tx e b tx" w] same assms tx
    unfolding t block_exec_def prod.case by metis
qed

interpretation fee_sys: invariant_system block_exec
  "\<lambda>t. no_collision env S \<and> DEFAULT_FEE_TOKEN \<in> S \<and> tx_ok env S t" "backed env S (\<lambda>_. 0)" for env S
  by unfold_locales (blast intro: block_exec_backed)

lemma backed_empty: "backed env S (\<lambda>_. 0) empty_fee_world"
  by (simp add: backed_def owed_def no_allowance_def empty_fee_world_def empty_world_def world.extend_def empty_tip20_def
      empty_fee_manager_def)

text \<open>C2. The fee manager is solvent: after every sequence of transactions, for every token, the reserves of
  the pools in which it is the user's token, the reserves of those in which it is the validator's
  token, and the fees collected for all validators together are covered by the balance the fee
  manager holds. The transactions use tokens of a set whose pairs have different pool ids.\<close>

theorem fee_manager_solvent:
  assumes "no_collision env S" "DEFAULT_FEE_TOKEN \<in> S" "list_all (tx_ok env S) txs" "T \<in> S"
  defines "w \<equiv> fold block_exec txs empty_fee_world"
  shows "(\<Sum>a\<in>S. unat (reserve_user_token (pools (w_fees w) (pool_id env T a)))) +
     (\<Sum>a\<in>S. unat (reserve_validator_token (pools (w_fees w) (pool_id env a T)))) +
     (\<Sum>v\<in>UNIV. unat (collected_fees (w_fees w) v T))
    \<le> unat (balances (tokens w T) TIP_FEE_MANAGER_ADDRESS)"
proof -
  have "list_all (\<lambda>t. no_collision env S \<and> DEFAULT_FEE_TOKEN \<in> S \<and> tx_ok env S t) txs"
    using assms(1-3) by (auto simp: list_all_iff)
  from fee_sys.fold_keeps [OF this backed_empty] assms(4) show ?thesis
    by (simp add: backed_def owed_def w_def flip: of_nat_add of_nat_sum del: of_nat_unat)
qed

text \<open>A run with two tokens: the chain's own dollar is created, issued and used as liquidity and for a
  fee, and the second token pays a fee that is swapped.\<close>

definition second_token :: address where
  "second_token = 0x20C0000000000000000000000000000000000001"

definition sample_fee_env :: env where
  "sample_fee_env = sample_env\<lparr>keccak256 := (\<lambda>bs. 256 * ucast (last (take 32 bs)) + ucast (last bs))\<rparr>"

definition sample_fee_txs :: "(env \<times> address \<times> fee_tx) list" where
  "sample_fee_txs =
    [(sample_fee_env, 3, \<lparr>fee_payer = 7, fee_token = PATH_USD_ADDRESS, max_fee = 0, spent = 0, body =
       [WorldCall (CreateTokenReserved PATH_USD_ADDRESS ''pathUSD'' ''pathUSD'' ''USD'' 0 7),
        WorldCall (TokenCall 5 PATH_USD_ADDRESS 7 (GrantRoleCall (ISSUER_ROLE sample_fee_env) 7)),
        WorldCall (TokenCall 5 PATH_USD_ADDRESS 7 (MintCall 7 1000000)),
        WorldCall (CreateTokenReserved second_token ''second'' ''second'' ''USD'' PATH_USD_ADDRESS 7),
        FeeCall 7 (AmmMint second_token PATH_USD_ADDRESS 50000 7)]\<rparr>),
     (sample_fee_env, 3, \<lparr>fee_payer = 7, fee_token = second_token, max_fee = 900, spent = 600, body =
       [FeeCall 7 (RebalanceSwap second_token PATH_USD_ADDRESS 10 8), FeeCall 3 (DistributeFees 3 PATH_USD_ADDRESS)]\<rparr>)]"

lemma abi_address_last: "length (abi_encode_address a) = 32" "last (abi_encode_address a) = ucast a"
  by (simp_all add: abi_encode_address_def address_bytes_def last_map)

lemma sample_pool_id: "pool_id sample_fee_env u v = 256 * ucast (ucast u :: u8) + ucast (ucast v :: u8)"
proof -
  have "abi_encode_address v \<noteq> []" using abi_address_last(1) [of v] by auto
  then show ?thesis by (simp add: pool_id_def sample_fee_env_def abi_address_last)
qed

lemma sample_pairs_distinct: "no_collision sample_fee_env {PATH_USD_ADDRESS, second_token}"
  by (simp add: no_collision_def inj_on_def sample_pool_id PATH_USD_ADDRESS_def second_token_def)

theorem fee_manager_solvent_witness:
  "(\<Sum>a\<in>{PATH_USD_ADDRESS, second_token}. unat (reserve_user_token (pools (w_fees (fold block_exec sample_fee_txs empty_fee_world))
      (pool_id sample_fee_env PATH_USD_ADDRESS a)))) +
   (\<Sum>a\<in>{PATH_USD_ADDRESS, second_token}. unat (reserve_validator_token (pools (w_fees (fold block_exec sample_fee_txs empty_fee_world))
      (pool_id sample_fee_env a PATH_USD_ADDRESS)))) +
   (\<Sum>v\<in>UNIV. unat (collected_fees (w_fees (fold block_exec sample_fee_txs empty_fee_world)) v PATH_USD_ADDRESS))
   \<le> unat (balances (tokens (fold block_exec sample_fee_txs empty_fee_world) PATH_USD_ADDRESS) TIP_FEE_MANAGER_ADDRESS)"
proof (rule fee_manager_solvent [OF sample_pairs_distinct])
  show "list_all (tx_ok sample_fee_env {PATH_USD_ADDRESS, second_token}) sample_fee_txs"
    by (simp add: sample_fee_txs_def tx_ok_def TIP_FEE_MANAGER_ADDRESS_def)
qed (simp_all add: DEFAULT_FEE_TOKEN_def)

end
