(* ===== verification/Fee_Properties.thy ===== *)
theory Fee_Properties
  imports Fee_Solvency Tip20_Properties
begin

section \<open>Liquidity shares, prices and fees\<close>

text \<open>
  What liquidity providers and payers can rely on: the shares of a pool add up to its supply, of
  which \<open>MIN_LIQUIDITY\<close> is locked; swaps never lower the value of a pool; depositing and
  withdrawing earns nothing; a transaction costs its payer the fee spent and credits the validator;
  distribution pays out what was collected. A settled fee of one unit in a pair without pool
  makes its pool unusable.
\<close>

subsection \<open>Shares\<close>

definition empty_pool :: "pool \<Rightarrow> bool" where
  "empty_pool p \<longleftrightarrow> reserve_user_token p = 0 \<and> reserve_validator_token p = 0"

definition shares_ok :: "fee_manager \<Rightarrow> b256 \<Rightarrow> bool" where
  "shares_ok s pid \<longleftrightarrow>
     lp_supply s pid = 0 \<and> (\<forall>a. liquidity_balances s pid a = 0) \<or>
     unat (lp_supply s pid) = 1000 + total_of (liquidity_balances s pid) \<and> \<not> empty_pool (pools s pid)"

lemma nonzero_unat: "x \<noteq> 0 \<longleftrightarrow> 0 < unat x" for x :: "'a::len word"
  by (metis gr0I less_irrefl unsigned_0 unsigned_eq_0_iff)

lemma zero_total: "total_of f = 0 \<longleftrightarrow> (\<forall>a. f a = 0)" for f :: "'a::finite \<Rightarrow> 'b::len word"
  by (auto simp: total_of_def unsigned_eq_0_iff)

lemma swap_shares:
  assumes "execute_fee_swap env u v x s = (Inr y, s')" "x \<noteq> 0" "shares_ok s pid"
  shows "shares_ok s' pid"
proof -
  from execute_fee_swap_effect [OF assms(1)] obtain p' where
    "s' = s\<lparr>pools := (pools s)(pool_id env u v := p')\<rparr>"
    "unat (reserve_user_token p') = unat (reserve_user_token (pools s (pool_id env u v))) + unat x" by blast
  with assms(2,3) show ?thesis by (auto simp: shares_ok_def empty_pool_def nonzero_unat)
qed

lemma rebalance_shares:
  assumes "rebalance_reserves env u v x s = (Inr r, s')" "shares_ok s pid"
  shows "shares_ok s' pid"
proof -
  obtain i y where r: "r = (i, y)" by (cases r)
  from rebalance_reserves_effect [OF assms(1) [unfolded r]] obtain p' where
    "s' = s\<lparr>pools := (pools s)(pool_id env u v := p')\<rparr>"
    "unat (reserve_validator_token p') = unat (reserve_validator_token (pools s (pool_id env u v))) + unat i"
    "0 < unat i" by auto
  with assms(2) show ?thesis by (auto simp: shares_ok_def empty_pool_def nonzero_unat)
qed

text \<open>Withdrawing less than the supply leaves something of each reserve.\<close>

lemma div_less_part: "0 < r \<Longrightarrow> l < t \<Longrightarrow> l * r div t < (r :: nat)"
  by (simp add: div_less_iff_less_mult)

lemma burn_shares:
  assumes "burn_liquidity env a u v l s = (Inr (x, y), s')" "shares_ok s pid"
  shows "shares_ok s' pid"
proof -
  define q where "q = pool_id env u v"
  from burn_liquidity_effect [OF assms(1)] obtain p' b t where
    s': "s' = s\<lparr>liquidity_balances := (liquidity_balances s)(q := (liquidity_balances s q)(a := b)),
      lp_supply := (lp_supply s)(q := t), pools := (pools s)(q := p')\<rparr>"
    and b: "unat (liquidity_balances s q a) = unat b + unat l" and t: "unat (lp_supply s q) = unat t + unat l"
    and p': "unat (reserve_user_token (pools s q)) = unat (reserve_user_token p') + unat x"
      "unat (reserve_validator_token (pools s q)) = unat (reserve_validator_token p') + unat y"
    and xy: "unat x = unat l * unat (reserve_user_token (pools s q)) div unat (lp_supply s q)"
      "unat y = unat l * unat (reserve_validator_token (pools s q)) div unat (lp_supply s q)" and "lp_supply s q \<noteq> 0"
    unfolding q_def by blast
  show ?thesis
  proof (cases "pid = q")
    case True
    with assms(2) \<open>lp_supply s q \<noteq> 0\<close> have ok: "unat (lp_supply s q) = 1000 + total_of (liquidity_balances s q)"
      "\<not> empty_pool (pools s q)" by (auto simp: shares_ok_def)
    have sum: "total_of ((liquidity_balances s q)(a := b)) + unat l = total_of (liquidity_balances s q)"
      using total_upd [of "liquidity_balances s q" a b] b by simp
    then have "unat l < unat (lp_supply s q)" using ok by simp
    note part = div_less_part [OF _ this]
    have "unat x < unat (reserve_user_token (pools s q)) \<or> unat y < unat (reserve_validator_token (pools s q))"
      using ok(2) part unfolding xy empty_pool_def nonzero_unat by (metis gr0I unsigned_eq_0_iff)
    then have "\<not> empty_pool p'"
      using p' by (auto simp: empty_pool_def)
    with True ok sum t show ?thesis by (simp add: shares_ok_def s')
  next
    case False
    with assms(2) show ?thesis by (simp add: shares_ok_def s')
  qed
qed

lemma mint_shares:
  assumes "deposit_liquidity q (pools s q) x s = (Inr (l, t), s1)" "l \<noteq> 0"
    and "credit_deposit q (pools s q) x t l to s1 = (Inr r, s2)" "x \<noteq> 0" "shares_ok s pid"
  shows "shares_ok s2 pid"
proof -
  note d = deposit_liquidity_effect [OF assms(1)]
  have same: "liquidity_balances s1 = liquidity_balances s" "pools s1 = pools s" "\<And>p. p \<noteq> q \<Longrightarrow> lp_supply s1 p = lp_supply s p"
    using d by (auto split: if_splits)
  from credit_deposit_effect [OF assms(3)] obtain v t' b where
    s2: "s2 = s1\<lparr>pools := (pools s1)(q := (pools s q)\<lparr>reserve_validator_token := v\<rparr>), lp_supply := (lp_supply s1)(q := t'),
      liquidity_balances := (liquidity_balances s1)(q := (liquidity_balances s1 q)(to := b))\<rparr>"
    and v: "unat v = unat (reserve_validator_token (pools s q)) + unat x" and t': "unat t' = unat t + unat l"
    and b: "unat b = unat (liquidity_balances s q to) + unat l" by (auto simp: same)
  show ?thesis
  proof (cases "pid = q")
    case True
    have sum: "total_of ((liquidity_balances s q)(to := b)) = total_of (liquidity_balances s q) + unat l"
      using total_upd [of "liquidity_balances s q" to b] b by simp
    have full: "v \<noteq> 0" using v assms(4) by (simp add: nonzero_unat)
    have "unat t = 1000 + total_of (liquidity_balances s q)"
    proof (cases "empty_pool (pools s q)")
      case True
      with assms(5) \<open>pid = q\<close> have "lp_supply s q = 0" "total_of (liquidity_balances s q) = 0"
        by (auto simp: shares_ok_def zero_total)
      with True d show ?thesis by (simp add: empty_pool_def)
    next
      case False
      with d have t: "t = lp_supply s q" "unat l = unat x * unat t div (unat (reserve_validator_token (pools s q)) +
          9985 * unat (reserve_user_token (pools s q)) div 10000)"
        by (auto simp: empty_pool_def split: if_splits)
      with assms(2) have "t \<noteq> 0" by (metis div_0 mult_0_right unsigned_0 unsigned_eq_0_iff)
      with t(1) assms(5) \<open>pid = q\<close> show ?thesis by (auto simp: shares_ok_def)
    qed
    with True sum full t' show ?thesis by (simp add: shares_ok_def s2 same empty_pool_def)
  next
    case False
    with assms(5) show ?thesis by (simp add: shares_ok_def s2 same)
  qed
qed

subsection \<open>Predicates of a pool that every call keeps\<close>

text \<open>A predicate of one pool and its shares. When the four operations that write pools and shares keep
  it, every transaction does: the other calls write other fields.\<close>

definition pool_step :: "(fee_manager \<Rightarrow> b256 \<Rightarrow> bool) \<Rightarrow> 'x fee_world_scheme \<Rightarrow> 'x fee_world_scheme \<Rightarrow> bool" where
  "pool_step Q w w' \<longleftrightarrow> (\<forall>pid. Q (w_fees w) pid \<longrightarrow> Q (w_fees w') pid)"

interpretation psteps: step_preorder "pool_step Q" for Q
  by unfold_locales (auto simp: pool_step_def)

lemmas [stepped] = psteps.rules

lemma kept_pools: "keeps w_fees m \<Longrightarrow> steps (pool_step Q) m"
  by (rule psteps.steps_keeps [where f = w_fees]) (auto simp: pool_step_def)

lemma on_fees_pools:
  "(\<And>s v s' pid. m s = (Inr v, s') \<Longrightarrow> Q s pid \<Longrightarrow> Q s' pid) \<Longrightarrow> steps (pool_step Q) (on_fees m)"
  by (auto simp: steps_def pool_step_def on_fees_ok)

lemmas token_calls_pools [stepped] = zooms_keep_fees [THEN kept_pools] authorization_keeps_fees [THEN kept_pools]
  calls_keep_fees [THEN kept_pools] world_op_keeps_fees [THEN kept_pools]

lemma evoid_pools [stepped]: "steps (pool_step Q) m \<Longrightarrow> steps (pool_step Q) (evoid m)"
  unfolding evoid_def by (intro stepped)

locale pool_predicate =
  fixes Q :: "fee_manager \<Rightarrow> b256 \<Rightarrow> bool"
  assumes other: "pools s' = pools s \<Longrightarrow> lp_supply s' = lp_supply s \<Longrightarrow> liquidity_balances s' = liquidity_balances s \<Longrightarrow>
      Q s pid \<Longrightarrow> Q s' pid"
    and swap: "execute_fee_swap env u v x s = (Inr y, s') \<Longrightarrow> x \<noteq> 0 \<Longrightarrow> Q s pid \<Longrightarrow> Q s' pid"
    and rebalance: "rebalance_reserves env u v x s = (Inr r, s') \<Longrightarrow> Q s pid \<Longrightarrow> Q s' pid"
    and burn: "burn_liquidity env a u v l s = (Inr (x, y), s') \<Longrightarrow> Q s pid \<Longrightarrow> Q s' pid"
    and mint: "deposit_liquidity q (pools s q) x s = (Inr (l, t), s1) \<Longrightarrow> l \<noteq> 0 \<Longrightarrow> x \<noteq> 0 \<Longrightarrow>
      credit_deposit q (pools s q) x t l to s1 = (Inr (), s2) \<Longrightarrow> Q s pid \<Longrightarrow> Q s2 pid"
begin

lemma log_kept: "steps (pool_step Q) (on_fees (emit_fee e (eret r)))"
  by (rule on_fees_pools) (auto simp: emit_fee_ok eret_ok elim!: other [rotated 3])

lemma settle_kept: "steps (pool_step Q) (on_fees (settle_fee env x t b))"
proof (rule on_fees_pools)
  fix s r s' pid
  assume "settle_fee env x t b s = (Inr r, s')" "Q s pid"
  then obtain s1 v y where "s1 = s \<or> (x \<noteq> 0 \<and> (\<exists>z. execute_fee_swap env t v x s = (Inr z, s1)))"
    "increment_collected_fees b v y s1 = (Inr r, s')"
    by (auto simp: settle_fee_def ebind_ok get_validator_token_ok eret_ok amount_out_ok split: if_split_asm)
  moreover from this have "Q s1 pid" using \<open>Q s pid\<close> swap by blast
  ultimately show "Q s' pid"
    using other [of s' s1] by (auto dest!: increment_collected_fees_effect)
qed

lemma parts_kept:
  "steps (pool_step Q) (on_fees (rebalance_reserves env u v x))" "steps (pool_step Q) (on_fees (burn_liquidity env a u v l))"
  by (rule on_fees_pools, auto dest: rebalance burn)+

lemma quiet_kept:
  "(\<And>s v s'. m s = (Inr v, s') \<Longrightarrow>
     pools s' = pools s \<and> lp_supply s' = lp_supply s \<and> liquidity_balances s' = liquidity_balances s) \<Longrightarrow>
   steps (pool_step Q) (on_fees m)"
  by (rule on_fees_pools) (metis other)

lemma fee_calls_kept:
  "steps (pool_step Q) (set_validator_token a t b)" "steps (pool_step Q) (set_user_token a t)"
  "steps (pool_step Q) (distribute_fees env b t)" "steps (pool_step Q) (rebalance_swap env a u v x to)"
  "steps (pool_step Q) (amm_burn env a u v l to)" "steps (pool_step Q) (collect_fee_pre_tx env a t x b)"
  "steps (pool_step Q) (collect_fee_post_tx env a x y t b)"
  unfolding set_validator_token_def set_user_token_def distribute_fees_def rebalance_swap_def amm_burn_def
    collect_fee_pre_tx_def collect_fee_post_tx_def
  by (intro stepped settle_kept log_kept parts_kept | rule quiet_kept,
      auto simp: emodify_ok egets_ok ebind_ok emit_fee_ok eret_ok get_validator_token_ok check_sufficient_liquidity_def
        amount_out_ok get_pool_ok erequire_ok)+

lemma amm_mint_kept: "steps (pool_step Q) (amm_mint env a u v x to)"
  unfolding steps_def pool_step_def
proof (intro allI impI)
  fix w w' :: "'a fee_world_scheme" and r pid
  assume run: "amm_mint env a u v x to w = (Inr r, w')" and q: "Q (w_fees w) pid"
  from run obtain l t s1 w2 b1 s3 where
    m: "deposit_liquidity (pool_id env u v) (pools (w_fees w) (pool_id env u v)) x (w_fees w) = (Inr (l, t), s1)" "l \<noteq> 0" "x \<noteq> 0"
    and r2: "system_transfer_from env v a TIP_FEE_MANAGER_ADDRESS x (w\<lparr>w_fees := s1\<rparr>) = (Inr b1, w2)"
    and c: "credit_deposit (pool_id env u v) (pools (w_fees w) (pool_id env u v)) x t l to (w_fees w2) = (Inr (), s3)"
    and w': "w' = w2\<lparr>w_fees := s3\<lparr>fee_log := fee_log s3 @ [MintEvent a to u v x l]\<rparr>\<rparr>"
    by (auto simp: amm_mint_def ebind_ok erequire_ok validate_usd_currency_def on_fees_ok get_pool_ok lookup_reads
        emit_fee_ok eret_ok)
  have "w_fees w2 = s1" using keeps_run [OF calls_keep_fees(5) r2] by simp
  with mint [OF m _ q] c have "Q s3 pid" by simp
  then show "Q (w_fees w') pid" unfolding w' by (elim other [rotated 3]) simp_all
qed

lemma chain_op_kept: "steps (pool_step Q) (chain_op env b c)"
proof (cases c)
  case (FeeCall a fc)
  then show ?thesis by (cases fc) (auto intro!: stepped fee_calls_kept amm_mint_kept)
qed (auto intro: stepped)

lemma body_kept: "pool_step Q w (fold (chain_exec env b) cs w)"
  by (induction cs arbitrary: w)
    (auto simp: chain_exec_def intro: psteps.refl psteps.trans psteps.steps_commit [OF chain_op_kept])

lemma execute_tx_kept: "steps (pool_step Q) (execute_tx env b tx)"
  unfolding execute_tx_def validate_caller_def reimburse_caller_def
  by (intro stepped fee_calls_kept psteps.steps_emodify body_kept)

lemma block_exec_kept: "pool_step Q w (block_exec t w)"
  using psteps.steps_commit [OF execute_tx_kept, of w] unfolding block_exec_def by (cases t) simp

lemma always_kept: "Q (w_fees w) pid \<Longrightarrow> Q (w_fees (fold block_exec txs w)) pid"
proof (induction txs arbitrary: w)
  case (Cons t txs)
  then show ?case using block_exec_kept [of w t] by (simp add: pool_step_def)
qed simp

end

interpretation shares: pool_predicate shares_ok
proof unfold_locales
  show "shares_ok s' pid" if "pools s' = pools s" "lp_supply s' = lp_supply s" "liquidity_balances s' = liquidity_balances s"
    "shares_ok s pid" for s s' pid using that by (simp add: shares_ok_def)
qed (auto intro: swap_shares rebalance_shares burn_shares mint_shares)

text \<open>C15. The shares of every pool add up: after every sequence of transactions, a pool either has no
  shares at all, or its supply is the sum of the providers' shares and the 1000 shares locked by the
  first deposit, and then its reserves are not empty.\<close>

theorem pool_shares_add_up:
  "(let s = w_fees (fold block_exec txs empty_fee_world) in
     lp_supply s pid = 0 \<and> (\<forall>a. liquidity_balances s pid a = 0) \<or>
     unat (lp_supply s pid) = 1000 + total_of (liquidity_balances s pid) \<and>
       0 < unat (reserve_user_token (pools s pid)) + unat (reserve_validator_token (pools s pid)))"
proof -
  have "shares_ok (w_fees empty_fee_world) pid"
    by (simp add: shares_ok_def empty_fee_world_def world.extend_def empty_fee_manager_def empty_world_def)
  from shares.always_kept [OF this, of txs] show ?thesis
    by (auto simp: shares_ok_def empty_pool_def Let_def nonzero_unat)
qed

subsection \<open>A pool without shares\<close>

text \<open>Reserves but no shares: no deposit succeeds, because it would mint no shares, and nothing ever
  empties the reserves again.\<close>

definition shareless :: "fee_manager \<Rightarrow> b256 \<Rightarrow> bool" where
  "shareless s pid \<longleftrightarrow> lp_supply s pid = 0 \<and> \<not> empty_pool (pools s pid)"

lemma shareless_deposit:
  assumes "shareless s q" "deposit_liquidity q (pools s q) x s = (Inr (l, t), s')"
  shows "l = 0"
  using deposit_liquidity_effect [OF assms(2)] assms(1)
  by (auto simp: shareless_def empty_pool_def unsigned_eq_0_iff split: if_splits)

interpretation shareless: pool_predicate shareless
proof unfold_locales
  fix s s' s1 s2 :: fee_manager and env u v x y r a l t to q pid
  show "shareless s' pid" if "pools s' = pools s" "lp_supply s' = lp_supply s" "liquidity_balances s' = liquidity_balances s"
    "shareless s pid" using that by (simp add: shareless_def)
  show "shareless s' pid" if r: "execute_fee_swap env u v x s = (Inr y, s')" and "x \<noteq> 0" "shareless s pid"
    using execute_fee_swap_effect [OF r] that by (auto simp: shareless_def empty_pool_def nonzero_unat)
  show "shareless s' pid" if r: "rebalance_reserves env u v x s = (Inr r, s')" and "shareless s pid" for r
  proof -
    obtain i j where "r = (i, j)" by (cases r)
    with rebalance_reserves_effect [of env u v x s i j s'] that show ?thesis
      by (auto simp: shareless_def empty_pool_def nonzero_unat)
  qed
  show "shareless s' pid" if r: "burn_liquidity env a u v l s = (Inr (x, y), s')" and "shareless s pid"
    using burn_liquidity_effect [OF r] that(2) by (cases "pid = pool_id env u v") (auto simp: shareless_def)
  show "shareless s2 pid" if d: "deposit_liquidity q (pools s q) x s = (Inr (l, t), s1)" and "l \<noteq> 0" "x \<noteq> 0"
    and c: "credit_deposit q (pools s q) x t l to s1 = (Inr (), s2)" and sh: "shareless s pid"
  proof (cases "pid = q")
    case True
    with shareless_deposit [OF _ d] sh \<open>l \<noteq> 0\<close> show ?thesis by simp
  next
    case False
    moreover have "pools s1 = pools s" "lp_supply s1 pid = lp_supply s pid"
      using deposit_liquidity_effect [OF d] False by (auto split: if_splits)
    ultimately show ?thesis using credit_deposit_effect [OF c] sh by (auto simp: shareless_def)
  qed
qed

text \<open>C19. A dust fee closes a pair: when a fee of one unit is settled for a pair whose pool has no
  reserves and no shares, the swap succeeds and pays nothing, and from then on every deposit into the
  pool fails, whatever transactions follow.\<close>

theorem dust_fee_closes_pool:
  assumes "settle_fee env 1 u b (w_fees w) = (Inr (), s')" "get_validator_token b (w_fees w) = (Inr v, w_fees w)" "u \<noteq> v"
    and "pools (w_fees w) (pool_id env u v) = \<lparr>reserve_user_token = 0, reserve_validator_token = 0\<rparr>"
    and "lp_supply (w_fees w) (pool_id env u v) = 0"
  shows "fst (amm_mint env a u v x to (fold block_exec txs (w\<lparr>w_fees := s'\<rparr>))) \<noteq> Inr l"
proof
  let ?w = "fold block_exec txs (w\<lparr>w_fees := s'\<rparr>)" and ?q = "pool_id env u v"
  have "ebind (if u \<noteq> v then if (1 :: u256) \<noteq> 0 then ebind (execute_fee_swap env u v 1) (\<lambda>_. eret ()) else eret () else eret ())
      (\<lambda>_. ebind (if u = v then eret 1 else compute_amount_out 1) (increment_collected_fees b v)) (w_fees w) = (Inr (), s')"
    using assms(1,2) by (simp add: settle_fee_def ebind_def [of "get_validator_token b"])
  with assms(3) obtain y s1 z where r1: "execute_fee_swap env u v 1 (w_fees w) = (Inr y, s1)"
    and r2: "increment_collected_fees b v z s1 = (Inr (), s')"
    by (auto simp: ebind_ok eret_ok amount_out_ok)
  have "shareless s1 ?q"
    using execute_fee_swap_effect [OF r1] assms(4,5) by (auto simp: shareless_def empty_pool_def nonzero_unat)
  with increment_collected_fees_effect [OF r2] have "shareless (w_fees (w\<lparr>w_fees := s'\<rparr>)) ?q"
    by (auto simp: shareless_def)
  from shareless.always_kept [OF this, of txs] have sh: "shareless (w_fees ?w) ?q" .
  assume "fst (amm_mint env a u v x to ?w) = Inr l"
  then obtain w' where "amm_mint env a u v x to ?w = (Inr l, w')" by (cases "amm_mint env a u v x to ?w") auto
  then obtain l' t s1 where "deposit_liquidity ?q (pools (w_fees ?w) ?q) x (w_fees ?w) = (Inr (l', t), s1)" "l' \<noteq> 0"
    by (auto simp: amm_mint_def ebind_ok erequire_ok validate_usd_currency_def on_fees_ok get_pool_ok lookup_reads)
  with shareless_deposit [OF sh] show False by blast
qed

definition dust_world :: fee_world where
  "dust_world = empty_fee_world\<lparr>w_fees := empty_fee_manager\<lparr>
     pools := (\<lambda>_. \<lparr>reserve_user_token = 0, reserve_validator_token = 0\<rparr>)
       (pool_id sample_fee_env second_token PATH_USD_ADDRESS := \<lparr>reserve_user_token = 1, reserve_validator_token = 0\<rparr>)\<rparr>\<rparr>"

lemma dust_swap_runs:
  "settle_fee sample_fee_env 1 second_token 3 (w_fees empty_fee_world) = (Inr (), w_fees dust_world)"
  by (simp add: settle_fee_def get_validator_token_def execute_fee_swap_def compute_amount_out_def get_pool_def write_pool_def
      increment_collected_fees_def run empty_fee_world_def world.extend_def empty_fee_manager_def empty_world_def
      dust_world_def DEFAULT_FEE_TOKEN_def second_token_def PATH_USD_ADDRESS_def M_def SCALE_def checked_mul_def
      try_into_def checked_add_def checked_sub_def widen_def)

theorem dust_fee_closes_pool_witness:
  "fst (amm_mint sample_fee_env 7 second_token PATH_USD_ADDRESS 50000 7
     (fold block_exec sample_fee_txs (empty_fee_world\<lparr>w_fees := w_fees dust_world\<rparr>))) \<noteq> Inr 24000"
  by (rule dust_fee_closes_pool [OF dust_swap_runs])
    (simp_all add: get_validator_token_ok empty_fee_world_def world.extend_def empty_fee_manager_def empty_world_def
      DEFAULT_FEE_TOKEN_def second_token_def PATH_USD_ADDRESS_def)

subsection \<open>Prices\<close>

text \<open>The value of a pool in the validator's token, scaled by 10000, at the rate of a rebalance.\<close>

definition pool_value :: "pool \<Rightarrow> nat" where
  "pool_value p = 9985 * unat (reserve_user_token p) + 10000 * unat (reserve_validator_token p)"

text \<open>C16. Swaps never take value out of a pool: a fee swap at 0.997 and a rebalancing swap at 0.9985 leave
  every pool with at least the value it had, including all rounding.\<close>

theorem swaps_keep_pool_value:
  assumes "execute_fee_swap env u v x s = (Inr y, s') \<or> rebalance_reserves env u v x s = (Inr (i, y), s')"
  shows "pool_value (pools s pid) \<le> pool_value (pools s' pid)"
  using assms
proof
  assume "execute_fee_swap env u v x s = (Inr y, s')"
  from execute_fee_swap_effect [OF this] show ?thesis by (auto simp: pool_value_def)
next
  assume "rebalance_reserves env u v x s = (Inr (i, y), s')"
  from rebalance_reserves_effect [OF this] show ?thesis by (auto simp: pool_value_def)
qed

definition sample_pool_state :: fee_manager where
  "sample_pool_state = empty_fee_manager\<lparr>pools := (\<lambda>_. \<lparr>reserve_user_token = 5000, reserve_validator_token = 7000\<rparr>),
     lp_supply := (\<lambda>_. 1000)\<rparr>"

theorem swaps_keep_pool_value_witness:
  "pool_value (pools sample_pool_state 9) \<le> pool_value (pools (snd (execute_fee_swap sample_env 1 2 600 sample_pool_state)) 9)"
  by (rule swaps_keep_pool_value [where env = sample_env and u = 1 and v = 2 and x = 600 and y = 598 and i = 0])
    (simp add: execute_fee_swap_def compute_amount_out_def get_pool_def write_pool_def run sample_pool_state_def
      M_def SCALE_def checked_mul_def try_into_def checked_add_def checked_sub_def widen_def)

lemma withdrawn_value:
  fixes D T l x u v p q :: nat
  assumes "l * D \<le> x * T" "10000 * v + 9985 * u < 10000 * (D + 1)" "p * (T + l) \<le> l * u" "q * (T + l) \<le> l * (v + x)" "0 < T"
  shows "q + 9985 * p div 10000 \<le> x"
proof -
  have "(10000 * q + 9985 * p) * (T + l) \<le> l * (10000 * (v + x) + 9985 * u)"
    using assms(3,4) by (simp add: algebra_simps)
  also have "\<dots> \<le> l * (10000 * (D + 1 + x))"
    by (rule mult_left_mono) (use assms(2) in simp_all)
  also have "\<dots> \<le> 10000 * (x * T + l + l * x)"
    using assms(1) by (simp add: algebra_simps)
  also have "\<dots> \<le> 10000 * (x + 1) * (T + l) - 10000 * T"
    by (simp add: algebra_simps)
  finally have le: "(10000 * q + 9985 * p) * (T + l) \<le> 10000 * (x + 1) * (T + l) - 10000 * T" .
  have "10000 * q + 9985 * p < 10000 * (x + 1)"
  proof (rule ccontr)
    assume "\<not> ?thesis"
    then have "10000 * (x + 1) * (T + l) \<le> (10000 * q + 9985 * p) * (T + l)" by (intro mult_right_mono) simp_all
    with le assms(5) show False by (simp add: algebra_simps)
  qed
  moreover define k where "k = 9985 * p div 10000"
  then have "10000 * k \<le> 9985 * p" by simp
  ultimately have "10000 * (q + k) < 10000 * (x + 1)" by simp
  then show ?thesis by (simp add: k_def)
qed

text \<open>C17. A deposit that is withdrawn at once earns nothing: the validator tokens and, at the rebalancing
  rate, the user tokens paid for the shares of a deposit are worth at most the deposit.\<close>

theorem deposit_withdraw_no_profit:
  assumes "deposit_liquidity (pool_id env u v) (pools s (pool_id env u v)) x s = (Inr (l, t), s1)" "l \<noteq> 0"
    and "credit_deposit (pool_id env u v) (pools s (pool_id env u v)) x t l to s1 = (Inr (), s2)"
    and "burn_liquidity env a u v l s2 = (Inr (y, z), s3)"
  shows "unat z + 9985 * unat y div 10000 \<le> unat x"
proof -
  define q where "q = pool_id env u v"
  let ?ru = "unat (reserve_user_token (pools s q))" and ?rv = "unat (reserve_validator_token (pools s q))"
  note d = deposit_liquidity_effect [OF assms(1), folded q_def]
  from credit_deposit_effect [OF assms(3)] have
    s2: "reserve_user_token (pools s2 q) = reserve_user_token (pools s q)"
      "unat (reserve_validator_token (pools s2 q)) = ?rv + unat x" "unat (lp_supply s2 q) = unat t + unat l"
    unfolding q_def by auto
  from burn_liquidity_effect [OF assms(4)] have
    yz: "unat y = unat l * ?ru div (unat t + unat l)" "unat z = unat l * (?rv + unat x) div (unat t + unat l)"
    by (auto simp flip: q_def s2)
  then have out: "unat y * (unat t + unat l) \<le> unat l * ?ru" "unat z * (unat t + unat l) \<le> unat l * (?rv + unat x)"
    by simp_all
  show ?thesis
  proof (cases "empty_pool (pools s q)")
    case True
    then have zero: "?ru = 0" "?rv = 0" by (simp_all add: empty_pool_def)
    have "unat z * (unat t + unat l) \<le> unat x * (unat t + unat l)"
      using out(2) by (simp add: zero algebra_simps)
    moreover have "0 < unat t + unat l" using assms(2) by (simp add: nonzero_unat)
    ultimately have "unat z \<le> unat x" by (simp only: mult_le_cancel2)
    with yz(1) show ?thesis by (simp add: zero)
  next
    case False
    let ?D = "?rv + 9985 * ?ru div 10000"
    from False d have t: "t = lp_supply s q" and l: "unat l = unat x * unat t div ?D"
      by (auto simp: empty_pool_def split: if_splits)
    have "0 < unat t" using l assms(2) by (metis div_0 gr0I mult_0_right nonzero_unat less_irrefl)
    moreover have "unat l * ?D \<le> unat x * unat t" unfolding l by simp
    moreover have "10000 * ?rv + 9985 * ?ru < 10000 * (?D + 1)"
      using div_mult_mod_eq [of "9985 * ?ru" 10000] mod_less_divisor [of 10000 "9985 * ?ru"] by (simp add: algebra_simps)
    ultimately show ?thesis using withdrawn_value out by blast
  qed
qed

lemmas pool_eval = deposit_liquidity_def credit_deposit_def burn_liquidity_def calculate_burn_amounts_def write_pool_def
  set_lp_supply_def set_liquidity_balances_def run Let_def M_def N_def SCALE_def MIN_LIQUIDITY_def checked_mul_def
  checked_div_def try_into_def checked_add_def checked_sub_def widen_def

theorem deposit_withdraw_no_profit_witness:
  "unat (613 :: u256) + 9985 * unat (383 :: u256) div 10000 \<le> unat (1000 :: u256)"
proof -
  let ?q = "pool_id sample_env 1 2" and ?s = sample_pool_state
  let ?s2 = "?s\<lparr>pools := (pools ?s)(?q := \<lparr>reserve_user_token = 5000, reserve_validator_token = 8000\<rparr>),
    lp_supply := (lp_supply ?s)(?q := 1083), liquidity_balances := (liquidity_balances ?s)(?q := (liquidity_balances ?s ?q)(5 := 83))\<rparr>"
  have d: "deposit_liquidity ?q (pools ?s ?q) 1000 ?s = (Inr (83, 1000), ?s)"
    by (simp add: pool_eval sample_pool_state_def)
  have c: "credit_deposit ?q (pools ?s ?q) 1000 1000 83 5 ?s = (Inr (), ?s2)"
    by (simp add: pool_eval sample_pool_state_def empty_fee_manager_def)
  obtain s3 where b: "burn_liquidity sample_env 5 1 2 83 ?s2 = (Inr (383, 613), s3)"
    by (simp add: pool_eval sample_pool_state_def empty_fee_manager_def)
  show ?thesis by (rule deposit_withdraw_no_profit [OF d _ c b]) simp
qed

subsection \<open>Fees\<close>

lemma settled_amount:
  assumes "settle_fee env x t b s = (Inr (), s')" "get_validator_token b s = (Inr v, s)"
  shows "unat (collected_fees s' b v) = unat (collected_fees s b v) + (if t = v then unat x else unat x * 9970 div 10000)"
proof -
  have settled: "ebind (if t \<noteq> v then if x \<noteq> 0 then ebind (execute_fee_swap env t v x) (\<lambda>_. eret ()) else eret () else eret ())
      (\<lambda>_. ebind (if t = v then eret x else compute_amount_out x) (increment_collected_fees b v)) s = (Inr (), s')"
    using assms by (simp add: settle_fee_def ebind_def [of "get_validator_token b"])
  then obtain s1 y where s1: "collected_fees s1 = collected_fees s" and r: "increment_collected_fees b v y s1 = (Inr (), s')"
    and y: "unat y = (if t = v then unat x else unat x * 9970 div 10000)"
  proof (cases "t = v \<or> x = 0")
    case True
    with settled that [of s x] that [of s 0] show ?thesis
      by (auto simp: ebind_ok eret_ok amount_out_ok unsigned_eq_0_iff split: if_split_asm)
  next
    case False
    with settled obtain z s1 y where "execute_fee_swap env t v x s = (Inr z, s1)" "unat y = unat x * 9970 div 10000"
      "increment_collected_fees b v y s1 = (Inr (), s')" by (auto simp: ebind_ok eret_ok amount_out_ok)
    with False that [of s1 y] show ?thesis by (auto dest!: execute_fee_swap_effect)
  qed
  from increment_collected_fees_effect [OF r] s1 y show ?thesis by auto
qed

text \<open>C18. A transaction costs its payer the fee spent, however large the fee collected in advance: with no
  calls in between, the payer's balance in the fee token falls by exactly the fee spent, and the
  fees collected for the block's beneficiary grow by it, or by 99.7 percent of it, rounded down,
  when the fee is swapped into the validator's token.\<close>

theorem transaction_costs_fee_spent:
  assumes "execute_tx env b tx w = (Inr (), w')" "body tx = []" "spent tx \<le> max_fee tx"
    and "fee_payer tx \<noteq> TIP_FEE_MANAGER_ADDRESS" "get_validator_token b (w_fees w) = (Inr v, w_fees w)"
  shows "unat (balances (tokens w (fee_token tx)) (fee_payer tx)) =
      unat (balances (tokens w' (fee_token tx)) (fee_payer tx)) + unat (spent tx) \<and>
    unat (collected_fees (w_fees w') b v) = unat (collected_fees (w_fees w) b v) +
      (if fee_token tx = v then unat (spent tx) else unat (spent tx) * 9970 div 10000)"
proof -
  let ?t = "fee_token tx" and ?a = "fee_payer tx" and ?f = TIP_FEE_MANAGER_ADDRESS
  have refund: "unat (max_fee tx) = unat (spent tx) + unat (max_fee tx - spent tx)"
    using assms(3) by (simp add: unat_sub word_le_nat_alt)
  from assms(1,2) obtain w1 where r1: "validate_caller env b tx w = (Inr (), w1)" and r2: "reimburse_caller env b tx w1 = (Inr (), w')"
    by (auto simp: execute_tx_def ebind_ok emodify_ok)
  show ?thesis
  proof (cases "max_fee tx = 0")
    case True
    with assms(3) have "spent tx = 0" by simp
    with True r1 r2 have "w' = w" by (simp add: validate_caller_def reimburse_caller_def eret_ok)
    with \<open>spent tx = 0\<close> show ?thesis by simp
  next
    case False
    from False r1 obtain t where "collect_fee_pre_tx env ?a ?t (max_fee tx) b w = (Inr t, w1)"
      by (auto simp: validate_caller_def evoid_ok)
    then have pre: "transfer_fee_pre_tx env ?t ?a (max_fee tx) w = (Inr (), w1)"
      by (auto simp: collect_fee_pre_tx_def ebind_ok on_fees_ok get_validator_token_ok lookup_reads eret_ok
          check_sufficient_liquidity_def amount_out_ok get_pool_ok erequire_ok dest!: authorization_reads split: if_split_asm)
    have same: "w_fees w1 = w_fees w" by (rule keeps_run [OF calls_keep_fees(10) pre])
    from False refund r2 have "collect_fee_post_tx env ?a (spent tx) (max_fee tx - spent tx) ?t b w1 = (Inr (), w')"
      by (auto simp: reimburse_caller_def Let_def eret_ok split: if_split_asm)
    then obtain w2 s' where post: "on_token ?t (transfer_fee_post_tx ?t ?a (max_fee tx - spent tx) (spent tx)) w1 = (Inr (), w2)"
      and r3: "settle_fee env (spent tx) ?t b (w_fees w2) = (Inr (), s')" and w': "w' = w2\<lparr>w_fees := s'\<rparr>"
      by (auto simp: collect_fee_post_tx_def ebind_ok on_fees_ok lookup_reads)
    have same2: "w_fees w2 = w_fees w" using keeps_run [OF zooms_keep_fees(1) post] same by simp
    have "bal (tokens w2 ?t) ?a = bal (tokens w ?t) ?a + moved ?a ?f (max_fee tx) ?a + moved ?f ?a (max_fee tx - spent tx) ?a"
      using fee_hooks_move(1) [OF pre] fee_hooks_move(2) [OF post] unfolding wmoves_def tmoves_def by metis
    then have "unat (balances (tokens w ?t) ?a) = unat (balances (tokens w' ?t) ?a) + unat (spent tx)"
      using assms(4) refund by (simp add: moved_def w' del: of_nat_unat)
    moreover have "unat (collected_fees s' b v) = unat (collected_fees (w_fees w) b v) +
        (if ?t = v then unat (spent tx) else unat (spent tx) * 9970 div 10000)"
      using settled_amount [OF r3 [unfolded same2] assms(5)] .
    ultimately show ?thesis by (simp add: w')
  qed
qed

definition paying_world :: fee_world where
  "paying_world = empty_fee_world\<lparr>tokens := (\<lambda>_. empty_tip20)(PATH_USD_ADDRESS :=
     empty_tip20\<lparr>balances := (\<lambda>_. 0)(7 := 1000), transfer_policy_id := 1\<rparr>)\<rparr>"

definition paying_tx :: fee_tx where
  "paying_tx = \<lparr>fee_payer = 7, fee_token = PATH_USD_ADDRESS, max_fee = 100, spent = 60, body = []\<rparr>"

lemma paying_tx_runs:
  "fst (execute_tx sample_env 3 paying_tx paying_world) = Inr ()"
  by (simp add: execute_tx_def validate_caller_def reimburse_caller_def collect_fee_pre_tx_def collect_fee_post_tx_def
      transfer_fee_pre_tx_def transfer_fee_post_tx_def settle_fee_def get_validator_token_def on_fees_def
      increment_collected_fees_def token_eval paying_tx_def paying_world_def empty_fee_world_def world.extend_def
      empty_fee_manager_def empty_world_def empty_tip20_def empty_keychain_def DEFAULT_FEE_TOKEN_def TIP_FEE_MANAGER_ADDRESS_def
      word_less_nat_alt)

theorem transaction_costs_fee_spent_witness:
  "unat (balances (tokens (snd (execute_tx sample_env 3 paying_tx paying_world)) PATH_USD_ADDRESS) 7) = 940"
proof -
  have "execute_tx sample_env 3 paying_tx paying_world = (Inr (), snd (execute_tx sample_env 3 paying_tx paying_world))"
    using paying_tx_runs by (simp add: prod_eq_iff)
  from transaction_costs_fee_spent [OF this, of DEFAULT_FEE_TOKEN] show ?thesis
    by (simp add: paying_tx_def get_validator_token_ok TIP_FEE_MANAGER_ADDRESS_def)
      (simp add: paying_world_def empty_fee_world_def world.extend_def empty_fee_manager_def empty_world_def)
qed

text \<open>Distribution pays what was collected, once: a successful call with fees pending moves exactly the
  collected amount from the fee manager to the validator and leaves nothing to collect.\<close>

theorem distribution_pays_collected_fees:
  assumes "distribute_fees env v t w = (Inr (), w')" "v \<noteq> TIP_FEE_MANAGER_ADDRESS"
  shows "unat (balances (tokens w' t) v) = unat (balances (tokens w t) v) + unat (collected_fees (w_fees w) v t) \<and>
    unat (balances (tokens w t) TIP_FEE_MANAGER_ADDRESS) =
      unat (balances (tokens w' t) TIP_FEE_MANAGER_ADDRESS) + unat (collected_fees (w_fees w) v t) \<and>
    collected_fees (w_fees w') v t = 0"
proof (cases "collected_fees (w_fees w) v t = 0")
  case True
  with assms show ?thesis by (simp add: distribute_fees_def ok on_fees_ok)
next
  case False
  let ?x = "collected_fees (w_fees w) v t" and ?f = TIP_FEE_MANAGER_ADDRESS
  let ?s = "(w_fees w)\<lparr>collected_fees := (collected_fees (w_fees w))(v := (collected_fees (w_fees w) v)(t := 0))\<rparr>"
  from False assms(1) obtain w2 b1 where
    r1: "transfer env t ?f v ?x (w\<lparr>w_fees := ?s\<rparr>) = (Inr b1, w2)"
    and w': "w' = w2\<lparr>w_fees := (w_fees w2)\<lparr>fee_log := fee_log (w_fees w2) @ [FeesDistributed v t ?x]\<rparr>\<rparr>"
    by (auto simp: distribute_fees_def ebind_ok on_fees_ok egets_ok emodify_ok lookup_reads emit_fee_ok eret_ok)
  have "w_fees w2 = ?s" using keeps_run [OF calls_keep_fees(1) r1] by simp
  moreover have "bal (tokens w2 t) h = bal (tokens w t) h + moved ?f v ?x h" for h
    using transfer_moves [OF disjI1 [OF r1]] by (simp add: wmoves_def tmoves_def del: of_nat_unat)
  from this [of v] this [of ?f] assms(2) have "unat (balances (tokens w2 t) v) = unat (balances (tokens w t) v) + unat ?x"
    "unat (balances (tokens w t) ?f) = unat (balances (tokens w2 t) ?f) + unat ?x"
    by (simp_all add: moved_def del: of_nat_unat)
  ultimately show ?thesis by (simp add: w')
qed

definition earning_world :: fee_world where
  "earning_world = empty_fee_world\<lparr>tokens := (\<lambda>_. empty_tip20)(PATH_USD_ADDRESS :=
     empty_tip20\<lparr>balances := (\<lambda>_. 0)(TIP_FEE_MANAGER_ADDRESS := 1000), transfer_policy_id := 1\<rparr>),
     w_fees := empty_fee_manager\<lparr>collected_fees := (\<lambda>_ _. 0)(3 := (\<lambda>_. 0)(PATH_USD_ADDRESS := 60))\<rparr>\<rparr>"

lemma distribution_runs: "fst (distribute_fees sample_env 3 PATH_USD_ADDRESS earning_world) = Inr ()"
proof -
  have "\<not> is_tip20_prefix 3" by (simp add: is_tip20_prefix_def address_bytes_def TIP20_TOKEN_PREFIX_def upt_rec)
  then show ?thesis
    by (simp add: distribute_fees_def transfer_def check_recipient_def on_fees_def emit_fee_def token_eval earning_world_def
        empty_fee_world_def world.extend_def empty_fee_manager_def empty_world_def empty_tip20_def empty_keychain_def
        TIP_FEE_MANAGER_ADDRESS_def word_less_nat_alt)
qed

theorem distribution_pays_collected_fees_witness:
  "unat (balances (tokens (snd (distribute_fees sample_env 3 PATH_USD_ADDRESS earning_world)) PATH_USD_ADDRESS) 3) = 60"
proof -
  have "distribute_fees sample_env 3 PATH_USD_ADDRESS earning_world =
      (Inr (), snd (distribute_fees sample_env 3 PATH_USD_ADDRESS earning_world))"
    using distribution_runs by (simp add: prod_eq_iff)
  from distribution_pays_collected_fees [OF this] show ?thesis
    by (simp add: earning_world_def TIP_FEE_MANAGER_ADDRESS_def)
qed

text \<open>The liquidity check before a transaction only reads the pool: nothing is set aside for the swap that
  settles the fee, so a call of the transaction's body can take the liquidity away.\<close>

lemma pre_tx_reserves_nothing:
  assumes "collect_fee_pre_tx env a t x b w = (Inr r, w')"
  shows "w_fees w' = w_fees w"
proof -
  have "transfer_fee_pre_tx env t a x w = (Inr (), w')"
    using assms
    by (auto simp: collect_fee_pre_tx_def ebind_ok on_fees_ok get_validator_token_ok lookup_reads eret_ok
        check_sufficient_liquidity_def amount_out_ok get_pool_ok erequire_ok dest!: authorization_reads split: if_split_asm)
  then show ?thesis by (rule keeps_run [OF calls_keep_fees(10)])
qed

text \<open>A deposit into a small pool can be issued more shares than its part of the pool's value: with one
  unit of each token in reserve, the user's token counts for nothing, because the value of the
  reserve is rounded down before it divides the deposit.\<close>

theorem deposit_over_issues:
  "\<exists>s l s'. deposit_liquidity q \<lparr>reserve_user_token = 1, reserve_validator_token = 1\<rparr> 1000 s = (Inr (l, 1000), s') \<and>
     lp_supply s q = 1000 \<and>
     unat l * pool_value \<lparr>reserve_user_token = 1, reserve_validator_token = 1\<rparr> > 10000 * 1000 * unat (lp_supply s q)"
  by (rule exI [of _ sample_pool_state], rule exI [of _ 1000000])
    (simp add: pool_eval sample_pool_state_def pool_value_def)

end
