(* ===== verification/Orderbook.thy ===== *)
theory Orderbook
  imports Errors
begin

section \<open>Ticks, prices and tick bitmaps of the exchange\<close>

text \<open>
  The helper functions of \<open>precompiles/src/stablecoin_dex/orderbook.rs\<close>: prices in steps of
  1/100000 around one, the conversion of amounts between base and quote token at a tick, and
  the bitmaps by which a book finds its next price level. A tick is Rust's \<open>i16\<close>, here an \<open>int\<close>: its
  shifts and masks are those of a two's complement number of any width, and the casts that
  can lose bits are written out.

  Shown here: the conversions round as they say and never favour the caller on a round trip; prices
  and ticks are inverse to each other; setting a bit marks exactly that tick; and the search by
  words finds the same tick as a scan over all ticks.
\<close>

unbundle bit_operations_syntax

definition MIN_TICK :: int where "MIN_TICK = - 2000"
definition MAX_TICK :: int where "MAX_TICK = 2000"
definition PRICE_SCALE :: u32 where "PRICE_SCALE = 100000"
definition MIN_PRICE :: u32 where "MIN_PRICE = 98000"
definition MAX_PRICE :: u32 where "MAX_PRICE = 102000"

definition I16_MIN :: int where "I16_MIN = - 32768"
definition I16_MAX :: int where "I16_MAX = 32767"

text \<open>The range of an \<open>i16\<close>, and Rust's \<open>as i16\<close> and \<open>as i32\<close>.\<close>

definition is_i16 :: "int \<Rightarrow> bool" where
  "is_i16 t \<longleftrightarrow> I16_MIN \<le> t \<and> t \<le> I16_MAX"

definition as_i16 :: "int \<Rightarrow> int" where
  "as_i16 = signed_take_bit 15"

definition as_i32 :: "int \<Rightarrow> int" where
  "as_i32 = signed_take_bit 31"

subsection \<open>Prices and conversions\<close>

datatype rounding_direction = Down | Up

definition tick_to_price :: "int \<Rightarrow> u32" where
  "tick_to_price tick = word_of_int (as_i32 (as_i32 (uint PRICE_SCALE) + tick))"

definition price_to_tick :: "u32 \<Rightarrow> tempo_error + int" where
  "price_to_tick price =
     (let tick = as_i16 (as_i32 (as_i32 (uint price) - as_i32 (uint PRICE_SCALE))) in
      if \<not> (MIN_PRICE \<le> price \<and> price \<le> MAX_PRICE) then Inl (StablecoinDEX (DEX_TickOutOfBounds tick))
      else Inr tick)"

definition div_ceil :: "u256 \<Rightarrow> u256 \<Rightarrow> u256" where
  "div_ceil a b = (if a mod b = 0 then a div b else a div b + 1)"

fun round_div :: "rounding_direction \<Rightarrow> u256 \<Rightarrow> u256 \<Rightarrow> u256" where
  "round_div Down a b = a div b"
| "round_div Up a b = div_ceil a b"

definition base_to_quote :: "u128 \<Rightarrow> int \<Rightarrow> rounding_direction \<Rightarrow> u128 option" where
  "base_to_quote base_amount tick rounding =
     (let price = ucast (tick_to_price tick); scale = ucast PRICE_SCALE in
      try_into (round_div rounding (widen base_amount * price) scale))"

definition quote_to_base :: "u128 \<Rightarrow> int \<Rightarrow> rounding_direction \<Rightarrow> u128 option" where
  "quote_to_base quote_amount tick rounding =
     (let price = ucast (tick_to_price tick); scale = ucast PRICE_SCALE in
      try_into (round_div rounding (widen quote_amount * scale) price))"

text \<open>The price as a number, and rounded division of numbers.\<close>

definition price :: "int \<Rightarrow> nat" where
  "price t = nat (100000 + t)"

fun rdiv :: "rounding_direction \<Rightarrow> nat \<Rightarrow> nat \<Rightarrow> nat" where
  "rdiv Down a b = a div b"
| "rdiv Up a b = (a + (b - 1)) div b"

lemma as_i16_id: "is_i16 t \<Longrightarrow> as_i16 t = t"
  by (simp add: is_i16_def as_i16_def I16_MIN_def I16_MAX_def signed_take_bit_int_eq_self)

lemma as_i32_id: "- (2 ^ 31) \<le> t \<Longrightarrow> t < 2 ^ 31 \<Longrightarrow> as_i32 t = t"
  by (simp add: as_i32_def signed_take_bit_int_eq_self)

lemma uint_tick_to_price: "is_i16 t \<Longrightarrow> uint (tick_to_price t) = 100000 + t"
  by (simp add: is_i16_def tick_to_price_def PRICE_SCALE_def I16_MIN_def I16_MAX_def as_i32_id
      uint_word_of_int_eq take_bit_int_eq_self del: word_of_int_numeral of_int_add)

lemma unat_tick_to_price: "is_i16 t \<Longrightarrow> unat (tick_to_price t) = price t"
  by (simp add: price_def uint_tick_to_price flip: nat_uint_eq)

lemma price_bounds: "is_i16 t \<Longrightarrow> 67232 \<le> price t \<and> price t \<le> 132767"
  unfolding price_def is_i16_def I16_MIN_def I16_MAX_def by linarith

lemma tick_range: "MIN_TICK \<le> t \<Longrightarrow> t \<le> MAX_TICK \<Longrightarrow> is_i16 t \<and> 98000 \<le> price t \<and> price t \<le> 102000"
  unfolding price_def is_i16_def I16_MIN_def I16_MAX_def MIN_TICK_def MAX_TICK_def by linarith

lemma rdiv_up: "0 < b \<Longrightarrow> rdiv Up a b = (if a mod b = 0 then a div b else a div b + 1)"
proof -
  assume b: "0 < b"
  have "(a + (b - 1)) div b = (a mod b + (b - 1) + a div b * b) div b" by simp
  also have "\<dots> = a div b + (a mod b + (b - 1)) div b" by (rule div_mult_self1) (use b in simp)
  finally have "(a + (b - 1)) div b = a div b + (a mod b + (b - 1)) div b" .
  moreover have "(a mod b + (b - 1)) div b = (if a mod b = 0 then 0 else 1)"
  proof (cases "a mod b = 0")
    case False
    then have "b \<le> a mod b + (b - 1)" "a mod b + (b - 1) < 2 * b" using mod_less_divisor [OF b, of a] by simp_all
    then show ?thesis using False by (simp add: div_nat_eqI)
  qed (use b in simp)
  ultimately show ?thesis by simp
qed

lemma unat_round_div: "b \<noteq> 0 \<Longrightarrow> unat (round_div r a b) = rdiv r (unat a) (unat b)"
proof (cases r)
  case Up
  assume b: "b \<noteq> 0"
  have "a mod b = 0 \<longleftrightarrow> unat a mod unat b = 0" by (metis unat_mod unsigned_eq_0_iff)
  moreover have "unat (a div b + 1) = unat a div unat b + 1" if "a mod b \<noteq> 0"
  proof -
    have "b \<noteq> 1" using that by auto
    then have "1 < unat b" using b by (metis One_nat_def Suc_lessI gr0I unat_1 unsigned_eq_0_iff word_unat_eq_iff)
    moreover have "0 < unat a" using that by (metis gr0I mod_0 unsigned_eq_0_iff)
    ultimately have "unat a div unat b < unat a" by simp
    then have "unat a div unat b + 1 < 2 ^ 256" using unsigned_less [of a, where ?'a = nat] by simp
    then show ?thesis by (simp add: unat_word_ariths unat_div)
  qed
  moreover have "0 < unat b" using b by (metis gr0I unsigned_eq_0_iff)
  ultimately show ?thesis by (simp add: Up div_ceil_def rdiv_up unat_div del: rdiv.simps)
qed (simp add: unat_div)

lemma base_to_quote_Some [checked]:
  assumes "is_i16 t"
  shows "base_to_quote x t r = Some y \<longleftrightarrow> unat y = rdiv r (unat x * price t) 100000"
proof -
  have u: "unat (ucast (tick_to_price t) :: u256) = price t"
    using unat_tick_to_price [OF assms] price_bounds [OF assms] by (simp add: unsigned_ucast_eq take_bit_eq_mod)
  have "unat x * price t < 2 ^ 128 * 132768"
    using price_bounds [OF assms] unsigned_less [of x, where ?'a = nat] by (intro mult_strict_mono) simp_all
  then have "unat (widen x * ucast (tick_to_price t)) = unat x * price t"
    by (simp add: unat_word_ariths u)
  then show ?thesis
    by (simp add: base_to_quote_def Let_def try_into_Some unat_round_div PRICE_SCALE_def)
qed

lemma quote_to_base_Some [checked]:
  assumes "is_i16 t"
  shows "quote_to_base x t r = Some y \<longleftrightarrow> unat y = rdiv r (unat x * 100000) (price t)"
proof -
  have u: "unat (ucast (tick_to_price t) :: u256) = price t"
    using unat_tick_to_price [OF assms] price_bounds [OF assms] by (simp add: unsigned_ucast_eq take_bit_eq_mod)
  then have "ucast (tick_to_price t) \<noteq> (0 :: u256)" using price_bounds [OF assms] by auto
  moreover have "unat (widen x * ucast PRICE_SCALE) = unat x * 100000"
    using unsigned_less [of x, where ?'a = nat] by (simp add: PRICE_SCALE_def unat_word_ariths)
  ultimately show ?thesis
    by (simp add: quote_to_base_def Let_def try_into_Some unat_round_div u)
qed

lemma rdiv_down_le: "rdiv Down a b * b \<le> a"
  by (simp add: div_times_less_eq_dividend)

lemma rdiv_up_ge: "0 < b \<Longrightarrow> a \<le> rdiv Up a b * b"
proof -
  assume b: "0 < b"
  have "a + (b - 1) < ((a + (b - 1)) div b + 1) * b" using b by (simp add: dividend_less_div_times)
  then show ?thesis using b by (simp add: algebra_simps)
qed

lemma rdiv_up_less: "0 < b \<Longrightarrow> rdiv Up a b * b < a + b"
proof -
  assume b: "0 < b"
  have "(a + (b - 1)) div b * b \<le> a + (b - 1)" by (rule div_times_less_eq_dividend)
  also have "\<dots> < a + b" using b by simp
  finally show ?thesis by simp
qed

lemma rdiv_mono: "a \<le> a' \<Longrightarrow> rdiv r a b \<le> rdiv r a' b"
  by (cases r) (simp_all add: div_le_mono)

lemma rdiv_le_iff: "0 < b \<Longrightarrow> rdiv Up a b \<le> c \<longleftrightarrow> a \<le> c * b" "0 < b \<Longrightarrow> c \<le> rdiv Down a b \<longleftrightarrow> c * b \<le> a"
proof -
  assume b: "0 < b"
  show "rdiv Up a b \<le> c \<longleftrightarrow> a \<le> c * b"
  proof
    assume "rdiv Up a b \<le> c"
    then have "rdiv Up a b * b \<le> c * b" by (rule mult_le_mono1)
    with rdiv_up_ge [OF b] show "a \<le> c * b" by (rule order.trans)
  next
    assume "a \<le> c * b"
    then have "rdiv Up a b * b < (c + 1) * b" using rdiv_up_less [OF b, of a] by simp
    then have "rdiv Up a b < c + 1" by (rule mult_right_less_imp_less) simp
    then show "rdiv Up a b \<le> c" by (simp del: rdiv.simps)
  qed
  show "c \<le> rdiv Down a b \<longleftrightarrow> c * b \<le> a" using b by (simp add: less_eq_div_iff_mult_less_eq)
qed

text \<open>A part rounded down and the rest rounded up together are at most the whole rounded up.\<close>

lemma rdiv_split: "0 < b \<Longrightarrow> rdiv Down x b + rdiv Up y b \<le> rdiv Up (x + y) b"
proof -
  assume b: "0 < b"
  have "rdiv Down x b \<le> rdiv Up (x + y) b"
    by (simp add: div_le_mono)
  moreover have "y \<le> (rdiv Up (x + y) b - rdiv Down x b) * b"
    using rdiv_down_le [of x b] rdiv_up_ge [OF b, of "x + y"] by (simp add: diff_mult_distrib del: rdiv.simps)
  then have "rdiv Up y b \<le> rdiv Up (x + y) b - rdiv Down x b" by (simp add: rdiv_le_iff b del: rdiv.simps)
  ultimately show ?thesis by simp
qed

lemma rdiv_up_down: "rdiv Down a b \<le> rdiv Up a b"
  by (simp add: div_le_mono)

text \<open>C32. Conversions never favour the trader: rounding up gives at most one unit more than rounding
  down; the base that is collected for an exact output of quote is worth at least that output; and
  the quote that buying base costs, after the base was rounded down, is at most the quote that was
  put in.\<close>

theorem conversions_favour_exchange:
  assumes "is_i16 t"
  shows "(\<forall>x d u. base_to_quote x t Down = Some d \<and> base_to_quote x t Up = Some u \<longrightarrow> d \<le> u \<and> unat u \<le> unat d + 1) \<and>
    (\<forall>q b q'. quote_to_base q t Up = Some b \<and> base_to_quote b t Down = Some q' \<longrightarrow> q \<le> q') \<and>
    (\<forall>q b q'. quote_to_base q t Down = Some b \<and> base_to_quote b t Up = Some q' \<longrightarrow> q' \<le> q)"
proof -
  have p: "0 < price t" using price_bounds [OF assms] by simp
  note conv = base_to_quote_Some [OF assms] quote_to_base_Some [OF assms] word_le_nat_alt
  have "rdiv Up a 100000 \<le> rdiv Down a 100000 + 1" for a by (simp add: rdiv_up del: rdiv.simps(2))
  moreover have "q \<le> rdiv Down (rdiv Up (q * 100000) (price t) * price t) 100000" for q
    using rdiv_up_ge [OF p, of "q * 100000"] by (simp add: rdiv_le_iff del: rdiv.simps)
  moreover have "rdiv Up (rdiv Down (q * 100000) (price t) * price t) 100000 \<le> q" for q
    using rdiv_down_le [of "q * 100000" "price t"] by (simp add: rdiv_le_iff del: rdiv.simps)
  ultimately show ?thesis
    by (simp add: conv rdiv_up_down del: rdiv.simps)
qed

theorem conversions_favour_exchange_witness:
  "base_to_quote 3 (- 2000) Down = Some 2 \<and> base_to_quote 3 (- 2000) Up = Some 3 \<and> (2 :: u128) \<le> 3 \<and> unat (3 :: u128) \<le> unat (2 :: u128) + 1 \<and>
   quote_to_base 3 (- 2000) Up = Some 4 \<and> base_to_quote 4 (- 2000) Down = Some 3 \<and> (3 :: u128) \<le> 3"
proof -
  have t: "is_i16 (- 2000)" "price (- 2000) = 98000" by (simp_all add: is_i16_def I16_MIN_def I16_MAX_def price_def)
  have e: "base_to_quote 3 (- 2000) Down = Some 2" "base_to_quote 3 (- 2000) Up = Some 3"
    "quote_to_base 3 (- 2000) Up = Some 4" "base_to_quote 4 (- 2000) Down = Some 3"
    by (simp_all add: base_to_quote_Some [OF t(1)] quote_to_base_Some [OF t(1)] t(2))
  note all = conversions_favour_exchange [OF t(1)]
  have "(2 :: u128) \<le> 3 \<and> unat (3 :: u128) \<le> unat (2 :: u128) + 1"
    by (rule all [THEN conjunct1, rule_format, OF conjI, OF e(1,2)])
  moreover have "(3 :: u128) \<le> 3"
    by (rule all [THEN conjunct2, THEN conjunct1, rule_format, OF conjI, OF e(3,4)])
  ultimately show ?thesis using e by (intro conjI) auto
qed

text \<open>Prices and ticks are inverse to each other: every tick within the bounds is the tick of its
  price, and every price that has a tick is the price of that tick; all other prices are
  rejected.\<close>

theorem tick_price_roundtrip:
  "(if MIN_TICK \<le> t \<and> t \<le> MAX_TICK then price_to_tick (tick_to_price t) = Inr t else True) \<and>
   (case price_to_tick p of Inr t \<Rightarrow> MIN_TICK \<le> t \<and> t \<le> MAX_TICK \<and> tick_to_price t = p
     | Inl e \<Rightarrow> p < MIN_PRICE \<or> MAX_PRICE < p)"
proof -
  have "price_to_tick (tick_to_price t) = Inr t" if t: "MIN_TICK \<le> t" "t \<le> MAX_TICK"
  proof -
    have u: "uint (tick_to_price t) = 100000 + t" using tick_range [OF t] by (simp add: uint_tick_to_price)
    then show ?thesis
      using t tick_range [OF t]
      by (simp add: price_to_tick_def Let_def PRICE_SCALE_def as_i32_id as_i16_id word_le_def MIN_PRICE_def MAX_PRICE_def
          MIN_TICK_def MAX_TICK_def)
  qed
  moreover have "MIN_TICK \<le> t \<and> t \<le> MAX_TICK \<and> tick_to_price t = p" if "price_to_tick p = Inr t" for t
  proof -
    from that have p: "98000 \<le> uint p" "uint p \<le> 102000"
      and t: "t = as_i16 (as_i32 (as_i32 (uint p) - as_i32 (uint PRICE_SCALE)))"
      by (auto simp: price_to_tick_def Let_def word_le_def MIN_PRICE_def MAX_PRICE_def split: if_splits)
    from p have "t = uint p - 100000"
      by (simp add: t PRICE_SCALE_def as_i32_id as_i16_id is_i16_def I16_MIN_def I16_MAX_def)
    with p show ?thesis
      using uint_tick_to_price [of t]
      by (auto simp: MIN_TICK_def MAX_TICK_def is_i16_def I16_MIN_def I16_MAX_def intro: word_uint_eqI)
  qed
  moreover have "p < MIN_PRICE \<or> MAX_PRICE < p" if "price_to_tick p = Inl e" for e
    using that by (auto simp: price_to_tick_def Let_def not_le split: if_splits)
  ultimately show ?thesis by (auto split: sum.split)
qed

subsection \<open>Bits of a tick\<close>

text \<open>The word index and the bit index of a tick are its quotient and remainder by 256.\<close>

lemma tick_index:
  "drop_bit 8 t = t div 256" "t AND 255 = t mod 256" "drop_bit 8 (push_bit 8 t) = t" for t :: int
  using take_bit_eq_mask [of 8 t] by (simp_all add: drop_bit_eq_div push_bit_eq_mult take_bit_eq_mod mask_eq_exp_minus_1)

lemma tick_join: "0 \<le> k \<Longrightarrow> k < 256 \<Longrightarrow> push_bit 8 t OR k = 256 * t + k" for t k :: int
  using concat_bit_eq [of 8 k t] concat_bit_def [of 8 k t] by (simp add: push_bit_eq_mult take_bit_int_eq_self or.commute)

subsection \<open>Price levels and books\<close>

record tick_level =
  lv_head :: u128
  lv_tail :: u128
  lv_liquidity :: u128

definition empty_level :: tick_level where
  "empty_level = \<lparr>lv_head = 0, lv_tail = 0, lv_liquidity = 0\<rparr>"

record orderbook =
  bk_base :: address
  bk_quote :: address
  bk_bids :: "int \<Rightarrow> tick_level"
  bk_asks :: "int \<Rightarrow> tick_level"
  best_bid_tick :: int
  best_ask_tick :: int
  bid_bitmap :: "int \<Rightarrow> u256"
  ask_bitmap :: "int \<Rightarrow> u256"

text \<open>A book that was never written reads as zeros.\<close>

definition empty_book :: orderbook where
  "empty_book = \<lparr>bk_base = 0, bk_quote = 0, bk_bids = (\<lambda>_. empty_level), bk_asks = (\<lambda>_. empty_level),
     best_bid_tick = 0, best_ask_tick = 0, bid_bitmap = (\<lambda>_. 0), ask_bitmap = (\<lambda>_. 0)\<rparr>"

type_synonym 'a ob = "(orderbook, tempo_error, 'a) pre"

text \<open>Writing \<open>Orderbook::new\<close>: its mappings have no slot of their own, so writing the struct leaves
  their entries alone.\<close>

definition write_new_orderbook :: "address \<Rightarrow> address \<Rightarrow> unit ob" where
  "write_new_orderbook base quote =
     emodify (\<lambda>b. b\<lparr>bk_base := base, bk_quote := quote, best_bid_tick := I16_MIN, best_ask_tick := I16_MAX\<rparr>)"

definition is_initialized :: "orderbook \<Rightarrow> bool" where
  "is_initialized book \<longleftrightarrow> bk_base book \<noteq> 0"

definition tick_level_handler :: "int \<Rightarrow> bool \<Rightarrow> tick_level ob" where
  "tick_level_handler tick is_bid = egets (\<lambda>b. if is_bid then bk_bids b tick else bk_asks b tick)"

definition write_tick_level :: "int \<Rightarrow> bool \<Rightarrow> tick_level \<Rightarrow> unit ob" where
  "write_tick_level tick is_bid level =
     (if is_bid then emodify (\<lambda>b. b\<lparr>bk_bids := (bk_bids b)(tick := level)\<rparr>)
      else emodify (\<lambda>b. b\<lparr>bk_asks := (bk_asks b)(tick := level)\<rparr>))"

definition calc_tick_word_idx :: "int \<Rightarrow> int ob" where
  "calc_tick_word_idx tick =
     ebind (erequire (MIN_TICK \<le> tick \<and> tick \<le> MAX_TICK) (StablecoinDEX DEX_InvalidTick)) (\<lambda>_.
     eret (drop_bit 8 tick))"

definition bitmap :: "bool \<Rightarrow> orderbook \<Rightarrow> int \<Rightarrow> u256" where
  "bitmap is_bid book = (if is_bid then bid_bitmap book else ask_bitmap book)"

definition write_bitmap :: "bool \<Rightarrow> int \<Rightarrow> u256 \<Rightarrow> unit ob" where
  "write_bitmap is_bid word_index v =
     (if is_bid then emodify (\<lambda>b. b\<lparr>bid_bitmap := (bid_bitmap b)(word_index := v)\<rparr>)
      else emodify (\<lambda>b. b\<lparr>ask_bitmap := (ask_bitmap b)(word_index := v)\<rparr>))"

definition set_tick_bit :: "int \<Rightarrow> bool \<Rightarrow> unit ob" where
  "set_tick_bit tick is_bid =
     ebind (calc_tick_word_idx tick) (\<lambda>word_index.
     ebind (egets (\<lambda>b. bitmap is_bid b word_index)) (\<lambda>current_word.
     let bit_index = nat (tick AND 0xFF); mask = push_bit bit_index 1 in
     write_bitmap is_bid word_index (current_word OR mask)))"

definition delete_tick_bit :: "int \<Rightarrow> bool \<Rightarrow> unit ob" where
  "delete_tick_bit tick is_bid =
     ebind (calc_tick_word_idx tick) (\<lambda>word_index.
     ebind (egets (\<lambda>b. bitmap is_bid b word_index)) (\<lambda>current_word.
     let bit_index = nat (tick AND 0xFF); mask = NOT (push_bit bit_index 1) in
     write_bitmap is_bid word_index (current_word AND mask)))"

definition is_tick_initialized :: "int \<Rightarrow> bool \<Rightarrow> bool ob" where
  "is_tick_initialized tick is_bid =
     ebind (calc_tick_word_idx tick) (\<lambda>word_index.
     ebind (egets (\<lambda>b. bitmap is_bid b word_index)) (\<lambda>word.
     let bit_index = nat (tick AND 0xFF); mask = push_bit bit_index 1 in
     eret (word AND mask \<noteq> 0)))"

text \<open>\<open>U256::trailing_zeros\<close> and \<open>leading_zeros\<close>.\<close>

definition trailing_zeros :: "u256 \<Rightarrow> nat" where
  "trailing_zeros w = length (takeWhile (\<lambda>i. \<not> bit w i) [0..<256])"

definition leading_zeros :: "u256 \<Rightarrow> nat" where
  "leading_zeros w = length (takeWhile (\<lambda>i. \<not> bit w (255 - i)) [0..<256])"

text \<open>The two loops over words of the bitmap, from the word of \<open>next_tick\<close> on.\<close>

function ask_words :: "(int \<Rightarrow> u256) \<Rightarrow> int \<Rightarrow> int \<times> bool" where
  "ask_words bm next_tick =
     (let max_word_index = drop_bit 8 MAX_TICK; word_index = drop_bit 8 next_tick in
      if word_index > max_word_index then (next_tick, False)
      else
        let bit_index = nat (next_tick AND 0xFF);
            mask = (if bit_index = 0 then MAX_WORD else push_bit bit_index MAX_WORD);
            masked_word = bm word_index AND mask in
        if masked_word \<noteq> 0 then
          let found_tick = push_bit 8 word_index OR int (trailing_zeros masked_word) in
          if found_tick \<le> MAX_TICK then (found_tick, True) else (found_tick, False)
        else
          let next_word_index = word_index + 1 in
          if next_word_index > max_word_index then (push_bit 8 next_word_index, False)
          else ask_words bm (push_bit 8 next_word_index))"
  by pat_completeness auto
termination
  by (relation "measure (\<lambda>(bm, t). nat (drop_bit 8 MAX_TICK + 1 - drop_bit 8 t))") (auto simp: tick_index push_bit_eq_mult MAX_TICK_def)

function bid_words :: "(int \<Rightarrow> u256) \<Rightarrow> int \<Rightarrow> int \<times> bool" where
  "bid_words bm next_tick =
     (let min_word_index = drop_bit 8 MIN_TICK; word_index = drop_bit 8 next_tick in
      if word_index < min_word_index then (next_tick, False)
      else
        let bit_index = nat (next_tick AND 0xFF);
            mask = (if bit_index = 255 then MAX_WORD else drop_bit (255 - bit_index) MAX_WORD);
            masked_word = bm word_index AND mask in
        if masked_word \<noteq> 0 then
          let highest_bit = 255 - leading_zeros masked_word;
              found_tick = push_bit 8 word_index OR int highest_bit in
          if found_tick \<ge> MIN_TICK then (found_tick, True) else (found_tick, False)
        else
          let prev_word_index = word_index - 1 in
          if prev_word_index < min_word_index then (push_bit 8 prev_word_index OR 0xFF, False)
          else bid_words bm (push_bit 8 prev_word_index OR 0xFF))"
  by pat_completeness auto
termination
  by (relation "measure (\<lambda>(bm, t). nat (drop_bit 8 t - drop_bit 8 MIN_TICK + 1))") (auto simp: tick_index tick_join MIN_TICK_def)

declare ask_words.simps [simp del] bid_words.simps [simp del]

definition next_initialized_ask_tick :: "(int \<Rightarrow> u256) \<Rightarrow> int \<Rightarrow> int \<times> bool" where
  "next_initialized_ask_tick bm tick = (if tick \<ge> MAX_TICK then (MAX_TICK, False) else ask_words bm (tick + 1))"

definition next_initialized_bid_tick :: "(int \<Rightarrow> u256) \<Rightarrow> int \<Rightarrow> int \<times> bool" where
  "next_initialized_bid_tick bm tick = (if tick \<le> MIN_TICK then (MIN_TICK, False) else bid_words bm (tick - 1))"

definition next_initialized_tick :: "int \<Rightarrow> bool \<Rightarrow> (int \<times> bool) ob" where
  "next_initialized_tick tick is_bid =
     egets (\<lambda>b. if is_bid then next_initialized_bid_tick (bid_bitmap b) tick
       else next_initialized_ask_tick (ask_bitmap b) tick)"

subsection \<open>The bitmap as a set of ticks\<close>

definition tick_bit :: "(int \<Rightarrow> u256) \<Rightarrow> int \<Rightarrow> bool" where
  "tick_bit bm t \<longleftrightarrow> bit (bm (t div 256)) (nat (t mod 256))"

lemma same_tick: "s div 256 = t div 256 \<Longrightarrow> nat (s mod 256) = nat (t mod 256) \<Longrightarrow> s = t" for s t :: int
  by (metis div_mult_mod_eq eq_nat_nat_iff pos_mod_sign zero_less_numeral)

lemma bit_index_less: "nat (t mod 256) < 256" for t :: int
  using pos_mod_bound [of 256 t] by linarith

lemma tick_bit_set:
  "tick_bit (bm (t div 256 := bm (t div 256) OR push_bit (nat (t mod 256)) 1)) u \<longleftrightarrow> u = t \<or> tick_bit bm u"
  using bit_index_less [of u] same_tick [of u t] by (auto simp: tick_bit_def bit_simps)

lemma tick_bit_delete:
  "tick_bit (bm (t div 256 := bm (t div 256) AND NOT (push_bit (nat (t mod 256)) 1))) u \<longleftrightarrow> u \<noteq> t \<and> tick_bit bm u"
  using bit_index_less [of u] same_tick [of u t] by (auto simp: tick_bit_def bit_simps)

lemma trailing_zeros:
  assumes "w \<noteq> 0"
  shows "trailing_zeros w < 256" "bit w (trailing_zeros w)" "j < trailing_zeros w \<Longrightarrow> \<not> bit w j"
proof -
  let ?t = "takeWhile (\<lambda>i. \<not> bit w i) [0..<256]"
  from assms obtain i where "bit w i" by (auto simp: bit_eq_iff)
  then have "i < 256" using bit_imp_le_length [of w i] by simp
  have "length ?t \<noteq> 256"
  proof
    assume "length ?t = 256"
    then have "?t = [0..<256]" by (metis diff_zero length_upt takeWhile_eq_take take_all_iff order.refl)
    then have "\<forall>j\<in>set [0..<256]. \<not> bit w j" by (metis takeWhile_eq_all_conv)
    with \<open>bit w i\<close> \<open>i < 256\<close> show False by simp
  qed
  with length_takeWhile_le [of "\<lambda>i. \<not> bit w i" "[0..<256]"] show l: "trailing_zeros w < 256"
    by (simp add: trailing_zeros_def)
  show "bit w (trailing_zeros w)"
    using nth_length_takeWhile [of "\<lambda>i. \<not> bit w i" "[0..<256]"] l by (simp add: trailing_zeros_def)
  show "\<not> bit w j" if "j < trailing_zeros w"
    using that l nth_mem [of j ?t] takeWhile_nth [of j "\<lambda>i. \<not> bit w i" "[0..<256]"] set_takeWhileD [of j "\<lambda>i. \<not> bit w i" "[0..<256]"]
    by (auto simp: trailing_zeros_def)
qed

lemma leading_zeros:
  assumes "w \<noteq> 0"
  shows "leading_zeros w < 256" "bit w (255 - leading_zeros w)" "255 - leading_zeros w < j \<Longrightarrow> \<not> bit w j"
proof -
  let ?P = "\<lambda>i. \<not> bit w (255 - i)"
  let ?t = "takeWhile ?P [0..<256]"
  from assms obtain i where "bit w i" by (auto simp: bit_eq_iff)
  then have "i < 256" using bit_imp_le_length [of w i] by simp
  have "length ?t \<noteq> 256"
  proof
    assume "length ?t = 256"
    then have "?t = [0..<256]" by (metis diff_zero length_upt takeWhile_eq_take take_all_iff order.refl)
    then have "\<forall>j\<in>set [0..<256]. ?P j" by (metis takeWhile_eq_all_conv)
    then have "?P (255 - i)" by (rule bspec) simp
    with \<open>bit w i\<close> \<open>i < 256\<close> show False by simp
  qed
  with length_takeWhile_le [of ?P "[0..<256]"] show l: "leading_zeros w < 256"
    by (simp add: leading_zeros_def)
  show "bit w (255 - leading_zeros w)"
    using nth_length_takeWhile [of ?P "[0..<256]"] l by (simp add: leading_zeros_def)
  show "\<not> bit w j" if "255 - leading_zeros w < j"
  proof (cases "j < 256")
    case True
    with that have "255 - j < leading_zeros w" by simp
    then have "?P (255 - j)"
      using l nth_mem [of "255 - j" ?t] takeWhile_nth [of "255 - j" ?P "[0..<256]"] set_takeWhileD [of "255 - j" ?P "[0..<256]"]
      by (auto simp: leading_zeros_def)
    with True show ?thesis by simp
  qed (use bit_imp_le_length [of w j] in auto)
qed

subsection \<open>The search by words\<close>

text \<open>The masked word holds the bits of the ticks from \<open>t\<close> on, or up to \<open>t\<close>.\<close>

lemma ask_mask:
  "bit (w AND (if nat (t mod 256) = 0 then MAX_WORD else push_bit (nat (t mod 256)) MAX_WORD)) i \<longleftrightarrow>
    bit w i \<and> nat (t mod 256) \<le> i" for w :: u256
  using bit_imp_le_length [of w i] by (auto simp: bit_simps)

lemma bid_mask:
  "bit (w AND (if nat (t mod 256) = 255 then MAX_WORD else drop_bit (255 - nat (t mod 256)) MAX_WORD)) i \<longleftrightarrow>
    bit w i \<and> i \<le> nat (t mod 256)" for w :: u256
  using bit_imp_le_length [of w i] bit_index_less [of t] by (auto simp: bit_simps)

lemma tick_of: "i < 256 \<Longrightarrow> (256 * w + int i) div 256 = w \<and> nat ((256 * w + int i) mod 256) = i" for w :: int
  by simp

lemma within_word:
  fixes t u :: int
  assumes "u div 256 = t div 256" "t \<le> u"
  shows "nat (t mod 256) \<le> nat (u mod 256)"
proof -
  have "t mod 256 \<le> u mod 256" using assms div_mult_mod_eq [of t 256] div_mult_mod_eq [of u 256] by linarith
  then show ?thesis by (rule nat_mono)
qed

lemma between_words: "t \<le> v \<Longrightarrow> v \<le> u \<Longrightarrow> t div 256 = u div 256 \<Longrightarrow> v div 256 = u div 256" for t u v :: int
  by (metis dual_order.antisym zdiv_mono1 zero_less_numeral)

definition first_ask :: "(int \<Rightarrow> u256) \<Rightarrow> int \<Rightarrow> int \<times> bool \<Rightarrow> bool" where
  "first_ask bm t r = (case r of (u, found) \<Rightarrow>
     if found then t \<le> u \<and> u \<le> MAX_TICK \<and> tick_bit bm u \<and> (\<forall>v. t \<le> v \<and> v < u \<longrightarrow> \<not> tick_bit bm v)
     else (\<forall>v. t \<le> v \<and> v \<le> MAX_TICK \<longrightarrow> \<not> tick_bit bm v))"

definition first_bid :: "(int \<Rightarrow> u256) \<Rightarrow> int \<Rightarrow> int \<times> bool \<Rightarrow> bool" where
  "first_bid bm t r = (case r of (u, found) \<Rightarrow>
     if found then u \<le> t \<and> MIN_TICK \<le> u \<and> tick_bit bm u \<and> (\<forall>v. u < v \<and> v \<le> t \<longrightarrow> \<not> tick_bit bm v)
     else (\<forall>v. MIN_TICK \<le> v \<and> v \<le> t \<longrightarrow> \<not> tick_bit bm v))"

lemma ask_word_hit:
  assumes "m = bm (t div 256) AND (if nat (t mod 256) = 0 then MAX_WORD else push_bit (nat (t mod 256)) MAX_WORD)"
    and "m \<noteq> 0" "u = 256 * (t div 256) + int (trailing_zeros m)"
  shows "t \<le> u" "tick_bit bm u" "t \<le> v \<Longrightarrow> v < u \<Longrightarrow> \<not> tick_bit bm v"
proof -
  note z = trailing_zeros [OF assms(2)]
  have u: "u div 256 = t div 256" "nat (u mod 256) = trailing_zeros m" using tick_of [OF z(1)] assms(3) by simp_all
  have hit: "bit (bm (t div 256)) (trailing_zeros m)" "nat (t mod 256) \<le> trailing_zeros m"
    using z(2) ask_mask [of "bm (t div 256)" t] assms(1) by auto
  then show "tick_bit bm u" by (simp add: tick_bit_def u)
  from hit(2) have "t mod 256 \<le> int (trailing_zeros m)" by linarith
  then show "t \<le> u" using div_mult_mod_eq [of t 256] assms(3) by linarith
  show "\<not> tick_bit bm v" if v: "t \<le> v" "v < u"
  proof -
    have w: "v div 256 = t div 256" using between_words [of t v u] v u by simp
    have "nat (t mod 256) \<le> nat (v mod 256)" by (rule within_word) (use w v in auto)
    moreover have "nat (v mod 256) < trailing_zeros m"
      using div_mult_mod_eq [of v 256] v(2) assms(3) w pos_mod_sign [of 256 v] by linarith
    ultimately show ?thesis
      using z(3) [of "nat (v mod 256)"] ask_mask [of "bm (t div 256)" t] assms(1) by (auto simp: tick_bit_def w)
  qed
qed

lemma bid_word_hit:
  assumes "m = bm (t div 256) AND (if nat (t mod 256) = 255 then MAX_WORD else drop_bit (255 - nat (t mod 256)) MAX_WORD)"
    and "m \<noteq> 0" "u = 256 * (t div 256) + int (255 - leading_zeros m)"
  shows "u \<le> t" "tick_bit bm u" "u < v \<Longrightarrow> v \<le> t \<Longrightarrow> \<not> tick_bit bm v"
proof -
  note z = leading_zeros [OF assms(2)]
  have u: "u div 256 = t div 256" "nat (u mod 256) = 255 - leading_zeros m"
    using tick_of [of "255 - leading_zeros m" "t div 256"] assms(3) by simp_all
  have hit: "bit (bm (t div 256)) (255 - leading_zeros m)" "255 - leading_zeros m \<le> nat (t mod 256)"
    using z(2) bid_mask [of "bm (t div 256)" t] assms(1) by auto
  then show "tick_bit bm u" by (simp add: tick_bit_def u)
  from hit(2) have "int (255 - leading_zeros m) \<le> t mod 256" using pos_mod_sign [of 256 t] by linarith
  then show "u \<le> t" using div_mult_mod_eq [of t 256] assms(3) by linarith
  show "\<not> tick_bit bm v" if v: "u < v" "v \<le> t"
  proof -
    have w: "v div 256 = t div 256" using between_words [of u v t] v u by simp
    have "nat (v mod 256) \<le> nat (t mod 256)" by (rule within_word) (use w v in auto)
    moreover have "255 - leading_zeros m < nat (v mod 256)"
      using div_mult_mod_eq [of v 256] v(1) assms(3) w pos_mod_sign [of 256 v] by linarith
    ultimately show ?thesis
      using z(3) [of "nat (v mod 256)"] bid_mask [of "bm (t div 256)" t] assms(1) by (auto simp: tick_bit_def w)
  qed
qed

lemma ask_word_miss:
  assumes "bm (t div 256) AND (if nat (t mod 256) = 0 then MAX_WORD else push_bit (nat (t mod 256)) MAX_WORD) = 0"
    and "t \<le> v" "v < 256 * (t div 256 + 1)"
  shows "\<not> tick_bit bm v"
proof -
  have w: "v div 256 = t div 256" using between_words [of t v "256 * (t div 256) + 255"] assms(2,3) by simp
  moreover have "nat (t mod 256) \<le> nat (v mod 256)" by (rule within_word) (use w assms(2) in auto)
  ultimately show ?thesis
    using ask_mask [of "bm (t div 256)" t "nat (v mod 256)"] assms(1) by (simp add: tick_bit_def)
qed

lemma bid_word_miss:
  assumes "bm (t div 256) AND (if nat (t mod 256) = 255 then MAX_WORD else drop_bit (255 - nat (t mod 256)) MAX_WORD) = 0"
    and "v \<le> t" "256 * (t div 256) \<le> v"
  shows "\<not> tick_bit bm v"
proof -
  have w: "v div 256 = t div 256" using between_words [of "256 * (t div 256)" v t] assms(2,3) by simp
  moreover have "nat (v mod 256) \<le> nat (t mod 256)" by (rule within_word) (use w assms(2) in auto)
  ultimately show ?thesis
    using bid_mask [of "bm (t div 256)" t "nat (v mod 256)"] assms(1) by (simp add: tick_bit_def)
qed

lemma ask_words_first: "first_ask bm t (ask_words bm t)"
proof (induction bm t rule: ask_words.induct)
  case (1 bm t)
  define m where "m = bm (t div 256) AND (if nat (t mod 256) = 0 then MAX_WORD else push_bit (nat (t mod 256)) MAX_WORD)"
  define n where "n = 256 * (t div 256 + 1)"
  have step: "ask_words bm t =
     (if t div 256 > 7 then (t, False)
      else if m \<noteq> 0 then (let u = 256 * (t div 256) + int (trailing_zeros m) in if u \<le> MAX_TICK then (u, True) else (u, False))
      else if t div 256 + 1 > 7 then (n, False) else ask_words bm n)"
  proof -
    have j: "push_bit 8 (t div 256) OR int (trailing_zeros m) = 256 * (t div 256) + int (trailing_zeros m)" if "m \<noteq> 0"
      by (rule tick_join) (use trailing_zeros(1) [OF that] in simp_all)
    have c: "MAX_TICK div 256 = 7" "push_bit 8 (t div 256 + 1) = n" by (simp_all add: MAX_TICK_def n_def push_bit_eq_mult)
    show ?thesis
      unfolding ask_words.simps [of bm t] Let_def tick_index m_def [symmetric] c
      by (cases "m = 0") (simp_all only: j if_True if_False not_True_eq_False not_False_eq_True simp_thms)
  qed
  show ?case
  proof (cases "t div 256 > 7 \<or> m \<noteq> 0 \<or> t div 256 + 1 > 7")
    case True
    consider "t div 256 > 7" | "t div 256 \<le> 7" "m \<noteq> 0" | "m = 0" "t div 256 = 7" using True by linarith
    then show ?thesis
    proof cases
      case 1
      then have "2000 < t" by linarith
      with 1 show ?thesis by (auto simp: step first_ask_def MAX_TICK_def)
    next
      case 2
      show ?thesis
        using 2 ask_word_hit [of m bm t, OF m_def 2(2) refl] by (auto simp: step first_ask_def Let_def)
    next
      case 3
      then show ?thesis using ask_word_miss [of bm t, OF m_def [symmetric, unfolded 3(1)]] by (auto simp: step first_ask_def MAX_TICK_def)
    qed
  next
    case False
    then have "first_ask bm n (ask_words bm n)"
      using "1.IH" [OF refl refl _ refl refl refl _ refl, unfolded tick_index, folded m_def]
      by (simp add: push_bit_eq_mult MAX_TICK_def n_def mult.commute)
    moreover have "\<not> tick_bit bm v" if "t \<le> v" "v < n" for v
      using ask_word_miss [of bm t v] that False unfolding m_def n_def by blast
    ultimately show ?thesis
      using False by (auto simp: step first_ask_def MAX_TICK_def n_def split: if_splits)
  qed
qed

lemma bid_words_first: "first_bid bm t (bid_words bm t)"
proof (induction bm t rule: bid_words.induct)
  case (1 bm t)
  define m where
    "m = bm (t div 256) AND (if nat (t mod 256) = 255 then MAX_WORD else drop_bit (255 - nat (t mod 256)) MAX_WORD)"
  define n where "n = 256 * (t div 256) - 1"
  have step: "bid_words bm t =
     (if t div 256 < - 8 then (t, False)
      else if m \<noteq> 0 then (let u = 256 * (t div 256) + int (255 - leading_zeros m) in if u \<ge> MIN_TICK then (u, True) else (u, False))
      else if t div 256 - 1 < - 8 then (n, False) else bid_words bm n)"
  proof -
    have j: "push_bit 8 (t div 256) OR int (255 - leading_zeros m) = 256 * (t div 256) + int (255 - leading_zeros m)"
      by (rule tick_join) simp_all
    have c: "MIN_TICK div 256 = - 8" "push_bit 8 (t div 256 - 1) OR 255 = n" by (simp_all add: MIN_TICK_def n_def tick_join)
    show ?thesis
      unfolding bid_words.simps [of bm t] Let_def tick_index m_def [symmetric] c j by (rule refl)
  qed
  show ?case
  proof (cases "t div 256 < - 8 \<or> m \<noteq> 0 \<or> t div 256 - 1 < - 8")
    case True
    consider "t div 256 < - 8" | "- 8 \<le> t div 256" "m \<noteq> 0" | "m = 0" "t div 256 = - 8" using True by linarith
    then show ?thesis
    proof cases
      case 1
      then have "t < - 2000" by linarith
      with 1 show ?thesis by (auto simp: step first_bid_def MIN_TICK_def)
    next
      case 2
      show ?thesis
        using 2 bid_word_hit [of m bm t, OF m_def 2(2) refl] by (auto simp: step first_bid_def Let_def)
    next
      case 3
      then show ?thesis using bid_word_miss [of bm t, OF m_def [symmetric, unfolded 3(1)]] by (auto simp: step first_bid_def MIN_TICK_def)
    qed
  next
    case False
    then have "first_bid bm n (bid_words bm n)"
      using "1.IH" [OF refl refl _ refl refl refl _ refl, unfolded tick_index, folded m_def]
      by (simp add: tick_join MIN_TICK_def n_def)
    moreover have "\<not> tick_bit bm v" if "v \<le> t" "n < v" for v
      using bid_word_miss [of bm t v] that False unfolding m_def n_def by (simp del: diff_less_eq)
    ultimately show ?thesis
      using False by (auto simp: step first_bid_def MIN_TICK_def n_def split: if_splits) (smt (verit))+
  qed
qed

text \<open>The reference: a scan over all ticks, best price first.\<close>

definition next_tick_by_scan :: "(int \<Rightarrow> u256) \<Rightarrow> int \<Rightarrow> bool \<Rightarrow> int option" where
  "next_tick_by_scan bm t is_bid =
     find (tick_bit bm) (if is_bid then rev [MIN_TICK..t - 1] else [t + 1..MAX_TICK])"

lemma find_first: "find P (xs @ u # ys) = Some u" if "P u" "\<And>v. v \<in> set xs \<Longrightarrow> \<not> P v"
  using that by (induction xs) auto

lemma scan_ask:
  assumes "first_ask bm (t + 1) r"
  shows "next_tick_by_scan bm t False = (if snd r then Some (fst r) else None)"
proof (cases "snd r")
  case True
  with assms have r: "t + 1 \<le> fst r" "fst r \<le> MAX_TICK" "tick_bit bm (fst r)" "\<And>v. t + 1 \<le> v \<Longrightarrow> v < fst r \<Longrightarrow> \<not> tick_bit bm v"
    by (auto simp: first_ask_def split: prod.splits)
  from r(1,2) have "[t + 1..MAX_TICK] = [t + 1..fst r - 1] @ fst r # [fst r + 1..MAX_TICK]" by (rule upto_split3)
  with r True show ?thesis by (auto simp: next_tick_by_scan_def intro!: find_first)
next
  case False
  with assms show ?thesis
    by (auto simp: first_ask_def next_tick_by_scan_def find_None_iff split: prod.splits)
qed

lemma scan_bid:
  assumes "first_bid bm (t - 1) r"
  shows "next_tick_by_scan bm t True = (if snd r then Some (fst r) else None)"
proof (cases "snd r")
  case True
  with assms have r: "MIN_TICK \<le> fst r" "fst r \<le> t - 1" "tick_bit bm (fst r)" "\<And>v. fst r < v \<Longrightarrow> v \<le> t - 1 \<Longrightarrow> \<not> tick_bit bm v"
    by (auto simp: first_bid_def split: prod.splits)
  from r(1,2) have "[MIN_TICK..t - 1] = [MIN_TICK..fst r - 1] @ fst r # [fst r + 1..t - 1]" by (rule upto_split3)
  with r True show ?thesis by (auto simp: next_tick_by_scan_def intro!: find_first)
next
  case False
  with assms show ?thesis
    by (auto simp: first_bid_def next_tick_by_scan_def find_None_iff split: prod.splits)
qed

lemma next_ask_first: "first_ask bm (t + 1) (next_initialized_ask_tick bm t)"
  using ask_words_first [of bm "t + 1"] by (cases "MAX_TICK \<le> t") (auto simp: next_initialized_ask_tick_def first_ask_def)

lemma next_bid_first: "first_bid bm (t - 1) (next_initialized_bid_tick bm t)"
  using bid_words_first [of bm "t - 1"] by (cases "t \<le> MIN_TICK") (auto simp: next_initialized_bid_tick_def first_bid_def)

text \<open>C31. The bitmap search is a scan: whatever the bitmaps hold, the traversal by 256-bit words returns the
  tick that a scan over the single ticks finds first, best price first, and reports no liquidity
  exactly when there is none.\<close>

theorem bitmap_search_is_scan:
  "\<exists>u found. next_initialized_tick t is_bid b = (Inr (u, found), b) \<and>
     next_tick_by_scan (bitmap is_bid b) t is_bid = (if found then Some u else None)"
proof -
  obtain u found where
    "(if is_bid then next_initialized_bid_tick (bid_bitmap b) t else next_initialized_ask_tick (ask_bitmap b) t) = (u, found)"
    by fastforce
  then show ?thesis
    using scan_ask [OF next_ask_first, of "ask_bitmap b" t] scan_bid [OF next_bid_first, of "bid_bitmap b" t]
    by (auto simp: next_initialized_tick_def egets_run bitmap_def split: if_splits)
qed

end
