(* ===== verification/Dex.thy ===== *)
theory Dex
  imports Fee_Manager Orderbook
begin

section \<open>The stablecoin exchange\<close>

text \<open>
  The contract \<open>StablecoinDEX\<close> of \<open>precompiles/src/stablecoin_dex/mod.rs\<close> with the orders of
  \<open>order.rs\<close> and the dispatch of \<open>dispatch.rs\<close>. Its storage is the record \<open>dex\<close>, which extends the world
  of the tokens and the fee manager. A book keeps, for every price level of each side, a doubly linked
  list of orders in the order of their arrival, the liquidity of the level, a bitmap of the levels
  in use and the best level; the order records carry the links.

  Operations of the type \<open>dx\<close> work on the exchange's own storage, those of the type \<open>dop\<close> call
  tokens as well. A longer method is split where it turns from one to the other. The loops that fill
  orders and walk the books read storage in every round and are bounded by gas; here the
  bound is a number of rounds. A flip order that cannot be placed again is dropped: \<open>eignore\<close> keeps
  whatever the failed attempt wrote, as the code does.
\<close>

definition MIN_ORDER_AMOUNT :: u128 where "MIN_ORDER_AMOUNT = 100000000"
definition TICK_SPACING :: int where "TICK_SPACING = 10"

subsection \<open>Orders\<close>

record order =
  o_id :: u128
  o_maker :: address
  o_book_key :: b256
  o_is_bid :: bool
  o_tick :: int
  o_amount :: u128
  o_remaining :: u128
  o_prev :: u128
  o_next :: u128
  o_is_flip :: bool
  o_flip_tick :: int

datatype order_error =
    InvalidBidFlipTick int int
  | InvalidAskFlipTick int int
  | NotAFlipOrder
  | OrderNotFullyFilled u128
  | FillAmountExceedsRemaining u128 u128
  | InvalidOrderTick int int int

text \<open>What an unused or deleted slot reads as.\<close>

definition empty_order :: order where
  "empty_order = \<lparr>o_id = 0, o_maker = 0, o_book_key = 0, o_is_bid = False, o_tick = 0, o_amount = 0, o_remaining = 0,
     o_prev = 0, o_next = 0, o_is_flip = False, o_flip_tick = 0\<rparr>"

definition new_order :: "u128 \<Rightarrow> address \<Rightarrow> b256 \<Rightarrow> u128 \<Rightarrow> int \<Rightarrow> bool \<Rightarrow> bool \<Rightarrow> int \<Rightarrow> order" where
  "new_order order_id maker book_key amount tick is_bid is_flip flip_tick =
     \<lparr>o_id = order_id, o_maker = maker, o_book_key = book_key, o_is_bid = is_bid, o_tick = tick, o_amount = amount,
      o_remaining = amount, o_prev = 0, o_next = 0, o_is_flip = is_flip, o_flip_tick = flip_tick\<rparr>"

definition new_bid :: "u128 \<Rightarrow> address \<Rightarrow> b256 \<Rightarrow> u128 \<Rightarrow> int \<Rightarrow> order" where
  "new_bid order_id maker book_key amount tick = new_order order_id maker book_key amount tick True False 0"

definition new_ask :: "u128 \<Rightarrow> address \<Rightarrow> b256 \<Rightarrow> u128 \<Rightarrow> int \<Rightarrow> order" where
  "new_ask order_id maker book_key amount tick = new_order order_id maker book_key amount tick False False 0"

definition new_flip ::
  "u128 \<Rightarrow> address \<Rightarrow> b256 \<Rightarrow> u128 \<Rightarrow> int \<Rightarrow> bool \<Rightarrow> int \<Rightarrow> order_error + order" where
  "new_flip order_id maker book_key amount tick is_bid flip_tick =
     (if is_bid \<and> flip_tick \<le> tick then Inl (InvalidBidFlipTick tick flip_tick)
      else if \<not> is_bid \<and> flip_tick \<ge> tick then Inl (InvalidAskFlipTick tick flip_tick)
      else Inr (new_order order_id maker book_key amount tick is_bid True flip_tick))"

definition fill :: "u128 \<Rightarrow> order \<Rightarrow> order_error + order" where
  "fill fill_amount ord =
     (if fill_amount > o_remaining ord then Inl (FillAmountExceedsRemaining fill_amount (o_remaining ord))
      else Inr (ord\<lparr>o_remaining := saturating_sub (o_remaining ord) fill_amount\<rparr>))"

definition create_flipped_order :: "u128 \<Rightarrow> order \<Rightarrow> order_error + order" where
  "create_flipped_order new_order_id ord =
     (if \<not> o_is_flip ord then Inl NotAFlipOrder
      else if o_remaining ord \<noteq> 0 then Inl (OrderNotFullyFilled (o_remaining ord))
      else Inr \<lparr>o_id = new_order_id, o_maker = o_maker ord, o_book_key = o_book_key ord, o_is_bid = \<not> o_is_bid ord,
        o_tick = o_flip_tick ord, o_amount = o_amount ord, o_remaining = o_amount ord, o_prev = 0, o_next = 0,
        o_is_flip = True, o_flip_tick = o_tick ord\<rparr>)"

subsection \<open>Storage\<close>

datatype dex_event =
    OrderPlaced u128 address address u128 bool int bool int
  | OrderFilled u128 address address u128 bool
  | OrderCancelled u128
  | PairCreated b256 address address

record dex =
  dx_books :: "b256 \<Rightarrow> orderbook"
  dx_orders :: "u128 \<Rightarrow> order"
  dx_balances :: "address \<Rightarrow> address \<Rightarrow> u128"
  dx_next_order_id :: u128
  dx_book_keys :: "b256 list"
  dx_log :: "dex_event list"

record dex_world = fee_world +
  w_dex :: dex

type_synonym 'a dx = "(dex, tempo_error, 'a) pre"
type_synonym ('x, 'a) dop = "('x dex_world_ext, 'a) fop"

definition empty_dex :: dex where
  "empty_dex = \<lparr>dx_books = (\<lambda>_. empty_book), dx_orders = (\<lambda>_. empty_order), dx_balances = (\<lambda>_ _. 0),
     dx_next_order_id = 0, dx_book_keys = [], dx_log = []\<rparr>"

definition empty_dex_world :: dex_world where
  "empty_dex_world = fee_world.extend empty_fee_world \<lparr>w_dex = empty_dex\<rparr>"

definition on_dex :: "'a dx \<Rightarrow> ('x, 'a) dop" where
  "on_dex m = ezoom w_dex (\<lambda>s w. w\<lparr>w_dex := s\<rparr>) m"

definition on_book :: "b256 \<Rightarrow> 'a ob \<Rightarrow> 'a dx" where
  "on_book key m = ezoom (\<lambda>s. dx_books s key) (\<lambda>b s. s\<lparr>dx_books := (dx_books s)(key := b)\<rparr>) m"

definition emit_dex :: "dex_event \<Rightarrow> unit dx" where
  "emit_dex e = emodify (\<lambda>s. s\<lparr>dx_log := dx_log s @ [e]\<rparr>)"

definition write_order :: "u128 \<Rightarrow> order \<Rightarrow> unit dx" where
  "write_order i ord = emodify (\<lambda>s. s\<lparr>dx_orders := (dx_orders s)(i := ord)\<rparr>)"

definition read_order :: "u128 \<Rightarrow> order dx" where
  "read_order i = egets (\<lambda>s. dx_orders s i)"

definition read_book :: "b256 \<Rightarrow> orderbook dx" where
  "read_book key = egets (\<lambda>s. dx_books s key)"

definition write_best_tick :: "bool \<Rightarrow> int \<Rightarrow> unit ob" where
  "write_best_tick is_bid tick =
     (if is_bid then emodify (\<lambda>b. b\<lparr>best_bid_tick := tick\<rparr>) else emodify (\<lambda>b. b\<lparr>best_ask_tick := tick\<rparr>))"

definition next_order_id :: "u128 dx" where
  "next_order_id = egets (\<lambda>s. max (dx_next_order_id s) 1)"

definition increment_next_order_id :: "unit dx" where
  "increment_next_order_id =
     ebind next_order_id (\<lambda>n. emodify (\<lambda>s. s\<lparr>dx_next_order_id := n + 1\<rparr>))"

definition balance_of :: "address \<Rightarrow> address \<Rightarrow> u128 dx" where
  "balance_of user token = egets (\<lambda>s. dx_balances s user token)"

definition get_order :: "u128 \<Rightarrow> order dx" where
  "get_order order_id =
     ebind (read_order order_id) (\<lambda>ord.
     ebind next_order_id (\<lambda>n.
     if o_maker ord \<noteq> 0 \<and> o_id ord < n then eret ord else efail (StablecoinDEX DEX_OrderDoesNotExist)))"

definition set_dex_balance :: "address \<Rightarrow> address \<Rightarrow> u128 \<Rightarrow> unit dx" where
  "set_dex_balance user token amount =
     emodify (\<lambda>s. s\<lparr>dx_balances := (dx_balances s)(user := (dx_balances s user)(token := amount))\<rparr>)"

definition increment_balance :: "address \<Rightarrow> address \<Rightarrow> u128 \<Rightarrow> unit dx" where
  "increment_balance user token amount =
     ebind (balance_of user token) (\<lambda>current.
     ebind (eok_or (checked_add current amount) under_overflow) (\<lambda>v.
     set_dex_balance user token v))"

definition sub_balance :: "address \<Rightarrow> address \<Rightarrow> u128 \<Rightarrow> unit dx" where
  "sub_balance user token amount =
     ebind (balance_of user token) (\<lambda>current. set_dex_balance user token (saturating_sub current amount))"

definition compute_book_key :: "env \<Rightarrow> address \<Rightarrow> address \<Rightarrow> b256" where
  "compute_book_key env base quote = keccak256 env (address_bytes base @ address_bytes quote)"

subsection \<open>Tokens in and out\<close>

definition dex_transfer :: "env \<Rightarrow> address \<Rightarrow> address \<Rightarrow> u128 \<Rightarrow> ('x, unit) dop" where
  "dex_transfer env token to amount =
     ebind (from_address token) (\<lambda>_. evoid (transfer env token STABLECOIN_DEX_ADDRESS to (widen amount)))"

definition dex_transfer_from :: "env \<Rightarrow> address \<Rightarrow> address \<Rightarrow> u128 \<Rightarrow> ('x, unit) dop" where
  "dex_transfer_from env token from amount =
     ebind (from_address token) (\<lambda>_.
     evoid (transfer_from env token STABLECOIN_DEX_ADDRESS from STABLECOIN_DEX_ADDRESS (widen amount)))"

definition decrement_balance_or_transfer_from :: "env \<Rightarrow> address \<Rightarrow> address \<Rightarrow> u128 \<Rightarrow> ('x, unit) dop" where
  "decrement_balance_or_transfer_from env user token amount =
     ebind (from_address token) (\<lambda>_.
     ebind (ensure_transfer_authorized env token user STABLECOIN_DEX_ADDRESS) (\<lambda>_.
     ebind (on_dex (balance_of user token)) (\<lambda>user_balance.
     if user_balance \<ge> amount then on_dex (sub_balance user token amount)
     else
       ebind (eok_or (checked_sub amount user_balance) under_overflow) (\<lambda>remaining.
       ebind (dex_transfer_from env token user remaining) (\<lambda>_.
       on_dex (set_dex_balance user token 0))))))"

subsection \<open>Pairs\<close>

definition create_pair :: "env \<Rightarrow> address \<Rightarrow> ('x, b256) dop" where
  "create_pair env base =
     ebind (is_tip20 base) (\<lambda>deployed.
     ebind (erequire deployed (StablecoinDEX DEX_InvalidBaseToken)) (\<lambda>_.
     ebind (token_quote base) (\<lambda>quote.
     ebind (validate_usd_currency base) (\<lambda>_.
     ebind (validate_usd_currency quote) (\<lambda>_.
     let book_key = compute_book_key env base quote in
     on_dex
       (ebind (read_book book_key) (\<lambda>book.
        ebind (erequire (\<not> is_initialized book) (StablecoinDEX DEX_PairAlreadyExists)) (\<lambda>_.
        ebind (on_book book_key (write_new_orderbook base quote)) (\<lambda>_.
        ebind (emodify (\<lambda>s. s\<lparr>dx_book_keys := dx_book_keys s @ [book_key]\<rparr>)) (\<lambda>_.
        ebind (emit_dex (PairCreated book_key base quote)) (\<lambda>_.
        eret book_key)))))))))))"

definition validate_or_create_pair :: "env \<Rightarrow> orderbook \<Rightarrow> address \<Rightarrow> ('x, unit) dop" where
  "validate_or_create_pair env book token = (if bk_base book = 0 then evoid (create_pair env token) else eret ())"

subsection \<open>Placing orders\<close>

text \<open>The list and the tick level of an order that is added at the tail.\<close>

definition commit_order_to_book :: "order \<Rightarrow> unit dx" where
  "commit_order_to_book ord =
     (let key = o_book_key ord; tick = o_tick ord; is_bid = o_is_bid ord; i = o_id ord in
     ebind (read_book key) (\<lambda>orderbook.
     ebind (on_book key (tick_level_handler tick is_bid)) (\<lambda>level.
     let prev_tail = lv_tail level in
     ebind
       (if prev_tail = 0 then
          ebind (on_book key (set_tick_bit tick is_bid)) (\<lambda>_.
          ebind
            (if is_bid then
               (if tick > best_bid_tick orderbook then on_book key (write_best_tick True tick) else eret ())
             else
               (if tick < best_ask_tick orderbook then on_book key (write_best_tick False tick) else eret ())) (\<lambda>_.
          eret (level\<lparr>lv_head := i, lv_tail := i\<rparr>, ord)))
        else
          ebind (read_order prev_tail) (\<lambda>prev_order.
          ebind (write_order prev_tail (prev_order\<lparr>o_next := i\<rparr>)) (\<lambda>_.
          eret (level\<lparr>lv_tail := i\<rparr>, ord\<lparr>o_prev := prev_tail\<rparr>)))) (\<lambda>(level, ord).
     ebind (eok_or (checked_add (lv_liquidity level) (o_remaining ord)) under_overflow) (\<lambda>new_liquidity.
     ebind (on_book key (write_tick_level tick is_bid (level\<lparr>lv_liquidity := new_liquidity\<rparr>))) (\<lambda>_.
     write_order i ord))))))"

definition order_escrow ::
  "address \<Rightarrow> address \<Rightarrow> u128 \<Rightarrow> bool \<Rightarrow> int \<Rightarrow> ('s, tempo_error, address \<times> u128 \<times> address) pre" where
  "order_escrow token quote amount is_bid tick =
     (if is_bid then
        ebind (eok_or (base_to_quote amount tick Up) (StablecoinDEX DEX_InsufficientBalance)) (\<lambda>quote_amount.
        eret (quote, quote_amount, token))
      else eret (token, amount, quote))"

text \<open>Placing an order: the pair first, then the checks, the escrow and the entry into the book.\<close>

definition enter_order :: "env \<Rightarrow> address \<Rightarrow> address \<Rightarrow> address \<Rightarrow> u128 \<Rightarrow> bool \<Rightarrow> int \<Rightarrow> ('x, u128) dop" where
  "enter_order env sender token quote amount is_bid tick =
     (let book_key = compute_book_key env token quote in
     ebind (erequire (MIN_TICK \<le> tick \<and> tick \<le> MAX_TICK) (StablecoinDEX (DEX_TickOutOfBounds tick))) (\<lambda>_.
     ebind (erequire (tick mod TICK_SPACING = 0) (StablecoinDEX DEX_InvalidTick)) (\<lambda>_.
     ebind (erequire (\<not> amount < MIN_ORDER_AMOUNT) (StablecoinDEX (DEX_BelowMinimumOrderSize amount))) (\<lambda>_.
     ebind (order_escrow token quote amount is_bid tick) (\<lambda>(escrow_token, escrow_amount, non_escrow_token).
     ebind (from_address non_escrow_token) (\<lambda>_.
     ebind (ensure_transfer_authorized env non_escrow_token sender STABLECOIN_DEX_ADDRESS) (\<lambda>_.
     ebind (decrement_balance_or_transfer_from env sender escrow_token escrow_amount) (\<lambda>_.
     on_dex
       (ebind next_order_id (\<lambda>order_id.
        ebind increment_next_order_id (\<lambda>_.
        ebind (commit_order_to_book
                (if is_bid then new_bid order_id sender book_key amount tick
                 else new_ask order_id sender book_key amount tick)) (\<lambda>_.
        ebind (emit_dex (OrderPlaced order_id sender token amount is_bid tick False 0)) (\<lambda>_.
        eret order_id)))))))))))))"

definition place :: "env \<Rightarrow> address \<Rightarrow> address \<Rightarrow> u128 \<Rightarrow> bool \<Rightarrow> int \<Rightarrow> ('x, u128) dop" where
  "place env sender token amount is_bid tick =
     ebind (token_quote token) (\<lambda>quote.
     ebind (on_dex (read_book (compute_book_key env token quote))) (\<lambda>book.
     ebind (validate_or_create_pair env book token) (\<lambda>_.
     enter_order env sender token quote amount is_bid tick)))"

definition pay_flip_escrow :: "env \<Rightarrow> address \<Rightarrow> address \<Rightarrow> u128 \<Rightarrow> bool \<Rightarrow> ('x, unit) dop" where
  "pay_flip_escrow env sender token amount internal_balance_only =
     (if internal_balance_only then
        ebind (from_address token) (\<lambda>_.
        ebind (ensure_transfer_authorized env token sender STABLECOIN_DEX_ADDRESS) (\<lambda>_.
        ebind (on_dex (balance_of sender token)) (\<lambda>user_balance.
        ebind (erequire (\<not> user_balance < amount) (StablecoinDEX DEX_InsufficientBalance)) (\<lambda>_.
        on_dex (sub_balance sender token amount)))))
      else decrement_balance_or_transfer_from env sender token amount)"

definition enter_flip_order ::
  "env \<Rightarrow> address \<Rightarrow> address \<Rightarrow> address \<Rightarrow> u128 \<Rightarrow> bool \<Rightarrow> int \<Rightarrow> int \<Rightarrow> bool \<Rightarrow> ('x, u128) dop" where
  "enter_flip_order env sender token quote amount is_bid tick flip_tick internal_balance_only =
     (let book_key = compute_book_key env token quote in
     ebind (erequire (MIN_TICK \<le> tick \<and> tick \<le> MAX_TICK) (StablecoinDEX (DEX_TickOutOfBounds tick))) (\<lambda>_.
     ebind (erequire (tick mod TICK_SPACING = 0) (StablecoinDEX DEX_InvalidTick)) (\<lambda>_.
     ebind (erequire (MIN_TICK \<le> flip_tick \<and> flip_tick \<le> MAX_TICK) (StablecoinDEX (DEX_TickOutOfBounds flip_tick))) (\<lambda>_.
     ebind (erequire (flip_tick mod TICK_SPACING = 0) (StablecoinDEX DEX_InvalidFlipTick)) (\<lambda>_.
     ebind (erequire (\<not> ((is_bid \<and> flip_tick \<le> tick) \<or> (\<not> is_bid \<and> flip_tick \<ge> tick))) (StablecoinDEX DEX_InvalidFlipTick)) (\<lambda>_.
     ebind (erequire (\<not> amount < MIN_ORDER_AMOUNT) (StablecoinDEX (DEX_BelowMinimumOrderSize amount))) (\<lambda>_.
     ebind (order_escrow token quote amount is_bid tick) (\<lambda>(escrow_token, escrow_amount, non_escrow_token).
     ebind (from_address non_escrow_token) (\<lambda>_.
     ebind (ensure_transfer_authorized env non_escrow_token sender STABLECOIN_DEX_ADDRESS) (\<lambda>_.
     ebind (pay_flip_escrow env sender escrow_token escrow_amount internal_balance_only) (\<lambda>_.
     on_dex
       (ebind next_order_id (\<lambda>order_id.
        ebind increment_next_order_id (\<lambda>_.
        ebind (case new_flip order_id sender book_key amount tick is_bid flip_tick of
                 Inl _ \<Rightarrow> efail (StablecoinDEX DEX_InvalidFlipTick) | Inr ord \<Rightarrow> eret ord) (\<lambda>ord.
        ebind (commit_order_to_book ord) (\<lambda>_.
        ebind (emit_dex (OrderPlaced order_id sender token amount is_bid tick True flip_tick)) (\<lambda>_.
        eret order_id)))))))))))))))))"

definition place_flip ::
  "env \<Rightarrow> address \<Rightarrow> address \<Rightarrow> u128 \<Rightarrow> bool \<Rightarrow> int \<Rightarrow> int \<Rightarrow> bool \<Rightarrow> ('x, u128) dop" where
  "place_flip env sender token amount is_bid tick flip_tick internal_balance_only =
     ebind (token_quote token) (\<lambda>quote.
     ebind (on_dex (read_book (compute_book_key env token quote))) (\<lambda>book.
     ebind (validate_or_create_pair env book token) (\<lambda>_.
     enter_flip_order env sender token quote amount is_bid tick flip_tick internal_balance_only)))"

subsection \<open>Filling orders\<close>

definition partial_fill_order :: "order \<Rightarrow> tick_level \<Rightarrow> u128 \<Rightarrow> address \<Rightarrow> u128 dx" where
  "partial_fill_order ord level fill_amount taker =
     ebind (read_book (o_book_key ord)) (\<lambda>orderbook.
     let new_remaining = o_remaining ord - fill_amount in
     ebind (emodify (\<lambda>s. s\<lparr>dx_orders := (dx_orders s)(o_id ord := (dx_orders s (o_id ord))\<lparr>o_remaining := new_remaining\<rparr>)\<rparr>)) (\<lambda>_.
     ebind (eok_or (base_to_quote fill_amount (o_tick ord) (if o_is_bid ord then Down else Up)) under_overflow) (\<lambda>quote_amount.
     ebind (if o_is_bid ord then increment_balance (o_maker ord) (bk_base orderbook) fill_amount
            else increment_balance (o_maker ord) (bk_quote orderbook) quote_amount) (\<lambda>_.
     let amount_out = (if o_is_bid ord then quote_amount else fill_amount) in
     ebind (eok_or (checked_sub (lv_liquidity level) fill_amount) under_overflow) (\<lambda>new_liquidity.
     ebind (on_book (o_book_key ord) (write_tick_level (o_tick ord) (o_is_bid ord) (level\<lparr>lv_liquidity := new_liquidity\<rparr>))) (\<lambda>_.
     ebind (emit_dex (OrderFilled (o_id ord) (o_maker ord) taker fill_amount True)) (\<lambda>_.
     eret amount_out)))))))"

text \<open>\<open>fill_order\<close>: pay the maker, place the flipped order, delete the order and move on to the next one.\<close>

definition settle_fill :: "orderbook \<Rightarrow> order \<Rightarrow> address \<Rightarrow> u128 dx" where
  "settle_fill orderbook ord taker =
     (let fill_amount = o_remaining ord in
     ebind
       (if o_is_bid ord then
          ebind (increment_balance (o_maker ord) (bk_base orderbook) fill_amount) (\<lambda>_.
          eok_or (base_to_quote fill_amount (o_tick ord) Down) under_overflow)
        else
          ebind (eok_or (base_to_quote fill_amount (o_tick ord) Up) under_overflow) (\<lambda>quote_amount.
          ebind (increment_balance (o_maker ord) (bk_quote orderbook) quote_amount) (\<lambda>_.
          eret fill_amount))) (\<lambda>amount_out.
     ebind (emit_dex (OrderFilled (o_id ord) (o_maker ord) taker fill_amount False)) (\<lambda>_.
     eret amount_out)))"

definition advance_best_tick :: "b256 \<Rightarrow> bool \<Rightarrow> int \<times> bool \<Rightarrow> unit dx" where
  "advance_best_tick book_key is_bid nxt = (case nxt of (tick, has_liquidity) \<Rightarrow>
     on_book book_key (write_best_tick is_bid
       (if has_liquidity then tick else if is_bid then I16_MIN else I16_MAX)))"

definition advance_book :: "b256 \<Rightarrow> order \<Rightarrow> tick_level \<Rightarrow> (tick_level \<times> order) option dx" where
  "advance_book book_key ord level =
     ebind (write_order (o_id ord) empty_order) (\<lambda>_.
     if o_next ord = 0 then
       ebind (on_book book_key (write_tick_level (o_tick ord) (o_is_bid ord) empty_level)) (\<lambda>_.
       ebind (on_book book_key (delete_tick_bit (o_tick ord) (o_is_bid ord))) (\<lambda>_.
       ebind (on_book book_key (next_initialized_tick (o_tick ord) (o_is_bid ord))) (\<lambda>(tick, has_liquidity).
       ebind (advance_best_tick book_key (o_is_bid ord) (tick, has_liquidity)) (\<lambda>_.
       if \<not> has_liquidity then eret None
       else
         ebind (on_book book_key (tick_level_handler tick (o_is_bid ord))) (\<lambda>new_level.
         ebind (read_order (lv_head new_level)) (\<lambda>ord'.
         eret (Some (new_level, ord'))))))))
     else
       ebind (emodify (\<lambda>s. s\<lparr>dx_orders := (dx_orders s)(o_next ord := (dx_orders s (o_next ord))\<lparr>o_prev := 0\<rparr>)\<rparr>)) (\<lambda>_.
       ebind (eok_or (checked_sub (lv_liquidity level) (o_remaining ord)) under_overflow) (\<lambda>new_liquidity.
       let level = level\<lparr>lv_head := o_next ord, lv_liquidity := new_liquidity\<rparr> in
       ebind (on_book book_key (write_tick_level (o_tick ord) (o_is_bid ord) level)) (\<lambda>_.
       ebind (read_order (o_next ord)) (\<lambda>ord'.
       eret (Some (level, ord')))))))"

definition flip_filled :: "env \<Rightarrow> orderbook \<Rightarrow> order \<Rightarrow> ('x, unit) dop" where
  "flip_filled env orderbook ord =
     (if o_is_flip ord then
        eignore (place_flip env (o_maker ord) (bk_base orderbook) (o_amount ord) (\<not> o_is_bid ord)
          (o_flip_tick ord) (o_tick ord) True)
      else eret ())"

definition fill_order ::
  "env \<Rightarrow> b256 \<Rightarrow> order \<Rightarrow> tick_level \<Rightarrow> address \<Rightarrow> ('x, u128 \<times> (tick_level \<times> order) option) dop" where
  "fill_order env book_key ord level taker =
     ebind (on_dex (read_book book_key)) (\<lambda>orderbook.
     ebind (on_dex (settle_fill orderbook ord taker)) (\<lambda>amount_out.
     ebind (flip_filled env orderbook ord) (\<lambda>_.
     ebind (on_dex (advance_book book_key ord level)) (\<lambda>next_tick_info.
     eret (amount_out, next_tick_info)))))"

definition get_best_price_level :: "b256 \<Rightarrow> bool \<Rightarrow> tick_level dx" where
  "get_best_price_level book_key is_bid =
     ebind (read_book book_key) (\<lambda>orderbook.
     let current_tick = (if is_bid then best_bid_tick orderbook else best_ask_tick orderbook) in
     ebind (erequire (current_tick \<noteq> (if is_bid then I16_MIN else I16_MAX)) (StablecoinDEX DEX_InsufficientLiquidity)) (\<lambda>_.
     on_book book_key (tick_level_handler current_tick is_bid)))"

text \<open>One round with an exact output: how much of the order is filled and what the taker pays for it, and
  what is left to fill after a complete fill.\<close>

definition exact_out_fill :: "bool \<Rightarrow> u128 \<Rightarrow> order \<Rightarrow> ('s, tempo_error, u128 \<times> u128) pre" where
  "exact_out_fill bid amount_out ord =
     (if bid then
        ebind (eok_or (quote_to_base amount_out (o_tick ord) Up) under_overflow) (\<lambda>base_needed.
        let fill_amount = min base_needed (o_remaining ord) in eret (fill_amount, fill_amount))
      else
        let fill_amount = min amount_out (o_remaining ord) in
        ebind (eok_or (base_to_quote fill_amount (o_tick ord) Up) under_overflow) (\<lambda>amount_in.
        eret (fill_amount, amount_in)))"

definition exact_out_left :: "bool \<Rightarrow> u128 \<Rightarrow> order \<Rightarrow> u128 \<Rightarrow> ('s, tempo_error, u128) pre" where
  "exact_out_left bid amount_out ord received =
     (if bid then
        ebind (eok_or (quote_to_base amount_out (o_tick ord) Up) under_overflow) (\<lambda>base_needed.
        if base_needed > o_remaining ord then eok_or (checked_sub amount_out received) under_overflow else eret 0)
      else if amount_out > o_remaining ord then eok_or (checked_sub amount_out received) under_overflow else eret 0)"

fun fill_loop_out ::
  "env \<Rightarrow> nat \<Rightarrow> b256 \<Rightarrow> bool \<Rightarrow> address \<Rightarrow> u128 \<Rightarrow> tick_level \<Rightarrow> order \<Rightarrow> u128 \<Rightarrow> ('x, u128) dop" where
  "fill_loop_out env 0 book_key bid taker amount_out level ord total_amount_in = efail OutOfGas"
| "fill_loop_out env (Suc gas) book_key bid taker amount_out level ord total_amount_in =
     (if amount_out = 0 then eret total_amount_in
      else
        ebind (exact_out_fill bid amount_out ord) (\<lambda>(fill_amount, amount_in).
        if fill_amount < o_remaining ord then
          ebind (on_dex (partial_fill_order ord level fill_amount taker)) (\<lambda>_.
          eok_or (checked_add total_amount_in amount_in) under_overflow)
        else
          ebind (fill_order env book_key ord level taker) (\<lambda>(amount_out_received, next_order_info).
          ebind (eok_or (checked_add total_amount_in amount_in) under_overflow) (\<lambda>total_amount_in.
          ebind (exact_out_left bid amount_out ord amount_out_received) (\<lambda>amount_out.
          case next_order_info of
            Some (level, ord) \<Rightarrow> fill_loop_out env gas book_key bid taker amount_out level ord total_amount_in
          | None \<Rightarrow>
              if amount_out > 0 then efail (StablecoinDEX DEX_InsufficientLiquidity) else eret total_amount_in)))))"

definition fill_orders_exact_out ::
  "env \<Rightarrow> nat \<Rightarrow> b256 \<Rightarrow> bool \<Rightarrow> u128 \<Rightarrow> address \<Rightarrow> ('x, u128) dop" where
  "fill_orders_exact_out env gas book_key bid amount_out taker =
     ebind (on_dex (get_best_price_level book_key bid)) (\<lambda>level.
     ebind (on_dex (read_order (lv_head level))) (\<lambda>ord.
     fill_loop_out env gas book_key bid taker amount_out level ord 0))"

text \<open>The same with an exact input.\<close>

definition exact_in_fill :: "bool \<Rightarrow> u128 \<Rightarrow> order \<Rightarrow> ('s, tempo_error, u128) pre" where
  "exact_in_fill bid amount_in ord =
     (if bid then eret (min amount_in (o_remaining ord))
      else
        ebind (eok_or (quote_to_base amount_in (o_tick ord) Down) under_overflow) (\<lambda>base_out.
        eret (min base_out (o_remaining ord))))"

definition exact_in_left :: "bool \<Rightarrow> u128 \<Rightarrow> order \<Rightarrow> ('s, tempo_error, u128) pre" where
  "exact_in_left bid amount_in ord =
     (if bid then
        (if amount_in > o_remaining ord then eok_or (checked_sub amount_in (o_remaining ord)) under_overflow else eret 0)
      else
        ebind (eok_or (quote_to_base amount_in (o_tick ord) Down) under_overflow) (\<lambda>base_out.
        if base_out > o_remaining ord then
          ebind (eok_or (base_to_quote (o_remaining ord) (o_tick ord) Up) under_overflow) (\<lambda>quote_needed.
          eok_or (checked_sub amount_in quote_needed) under_overflow)
        else eret 0))"

fun fill_loop_in ::
  "env \<Rightarrow> nat \<Rightarrow> b256 \<Rightarrow> bool \<Rightarrow> address \<Rightarrow> u128 \<Rightarrow> tick_level \<Rightarrow> order \<Rightarrow> u128 \<Rightarrow> ('x, u128) dop" where
  "fill_loop_in env 0 book_key bid taker amount_in level ord total_amount_out = efail OutOfGas"
| "fill_loop_in env (Suc gas) book_key bid taker amount_in level ord total_amount_out =
     (if amount_in = 0 then eret total_amount_out
      else
        ebind (exact_in_fill bid amount_in ord) (\<lambda>fill_amount.
        if fill_amount < o_remaining ord then
          ebind (on_dex (partial_fill_order ord level fill_amount taker)) (\<lambda>amount_out.
          eok_or (checked_add total_amount_out amount_out) under_overflow)
        else
          ebind (fill_order env book_key ord level taker) (\<lambda>(amount_out, next_order_info).
          ebind (eok_or (checked_add total_amount_out amount_out) under_overflow) (\<lambda>total_amount_out.
          ebind (exact_in_left bid amount_in ord) (\<lambda>amount_in.
          case next_order_info of
            Some (level, ord) \<Rightarrow> fill_loop_in env gas book_key bid taker amount_in level ord total_amount_out
          | None \<Rightarrow>
              if amount_in > 0 then efail (StablecoinDEX DEX_InsufficientLiquidity) else eret total_amount_out)))))"

definition fill_orders_exact_in ::
  "env \<Rightarrow> nat \<Rightarrow> b256 \<Rightarrow> bool \<Rightarrow> u128 \<Rightarrow> address \<Rightarrow> ('x, u128) dop" where
  "fill_orders_exact_in env gas book_key bid amount_in taker =
     ebind (on_dex (get_best_price_level book_key bid)) (\<lambda>level.
     ebind (on_dex (read_order (lv_head level))) (\<lambda>ord.
     fill_loop_in env gas book_key bid taker amount_in level ord 0))"

subsection \<open>Cancelling and withdrawing\<close>

text \<open>The order leaves the list of its level: its neighbours are linked to each other, the head and the tail
  of the level follow.\<close>

definition unlink_order :: "order \<Rightarrow> tick_level \<Rightarrow> tick_level dx" where
  "unlink_order ord level =
     ebind
       (if o_prev ord \<noteq> 0 then
          ebind (emodify (\<lambda>s. s\<lparr>dx_orders := (dx_orders s)(o_prev ord := (dx_orders s (o_prev ord))\<lparr>o_next := o_next ord\<rparr>)\<rparr>)) (\<lambda>_.
          eret level)
        else eret (level\<lparr>lv_head := o_next ord\<rparr>)) (\<lambda>level.
     if o_next ord \<noteq> 0 then
       ebind (emodify (\<lambda>s. s\<lparr>dx_orders := (dx_orders s)(o_next ord := (dx_orders s (o_next ord))\<lparr>o_prev := o_prev ord\<rparr>)\<rparr>)) (\<lambda>_.
       eret level)
     else eret (level\<lparr>lv_tail := o_prev ord\<rparr>))"

definition clear_tick :: "order \<Rightarrow> unit dx" where
  "clear_tick ord =
     ebind (on_book (o_book_key ord) (delete_tick_bit (o_tick ord) (o_is_bid ord))) (\<lambda>_.
     ebind (read_book (o_book_key ord)) (\<lambda>orderbook.
     let best_tick = (if o_is_bid ord then best_bid_tick orderbook else best_ask_tick orderbook) in
     if best_tick = o_tick ord then
       ebind (on_book (o_book_key ord) (next_initialized_tick (o_tick ord) (o_is_bid ord))) (\<lambda>nxt.
       advance_best_tick (o_book_key ord) (o_is_bid ord) nxt)
     else eret ()))"

definition cancel_active_order :: "order \<Rightarrow> unit dx" where
  "cancel_active_order ord =
     ebind (on_book (o_book_key ord) (tick_level_handler (o_tick ord) (o_is_bid ord))) (\<lambda>level.
     ebind (unlink_order ord level) (\<lambda>level.
     ebind (eok_or (checked_sub (lv_liquidity level) (o_remaining ord)) under_overflow) (\<lambda>new_liquidity.
     let level = level\<lparr>lv_liquidity := new_liquidity\<rparr> in
     ebind (if lv_head level = 0 then clear_tick ord else eret ()) (\<lambda>_.
     ebind (on_book (o_book_key ord) (write_tick_level (o_tick ord) (o_is_bid ord) level)) (\<lambda>_.
     ebind (read_book (o_book_key ord)) (\<lambda>orderbook.
     ebind
       (if o_is_bid ord then
          ebind (eok_or (base_to_quote (o_remaining ord) (o_tick ord) Up) under_overflow) (\<lambda>quote_amount.
          increment_balance (o_maker ord) (bk_quote orderbook) quote_amount)
        else increment_balance (o_maker ord) (bk_base orderbook) (o_remaining ord)) (\<lambda>_.
     ebind (write_order (o_id ord) empty_order) (\<lambda>_.
     emit_dex (OrderCancelled (o_id ord))))))))))"

definition cancel :: "address \<Rightarrow> u128 \<Rightarrow> unit dx" where
  "cancel sender order_id =
     ebind (read_order order_id) (\<lambda>ord.
     ebind (erequire (o_maker ord \<noteq> 0) (StablecoinDEX DEX_OrderDoesNotExist)) (\<lambda>_.
     ebind (erequire (o_maker ord = sender) (StablecoinDEX DEX_Unauthorized)) (\<lambda>_.
     ebind (erequire (o_remaining ord \<noteq> 0) (StablecoinDEX DEX_OrderDoesNotExist)) (\<lambda>_.
     cancel_active_order ord))))"

definition cancel_stale_order :: "env \<Rightarrow> u128 \<Rightarrow> ('x, unit) dop" where
  "cancel_stale_order env order_id =
     ebind (on_dex (read_order order_id)) (\<lambda>ord.
     ebind (erequire (o_maker ord \<noteq> 0) (StablecoinDEX DEX_OrderDoesNotExist)) (\<lambda>_.
     ebind (on_dex (read_book (o_book_key ord))) (\<lambda>book.
     let token = (if o_is_bid ord then bk_quote book else bk_base book) in
     ebind (from_address token) (\<lambda>_.
     ebind (is_user_authorized env token (o_maker ord)) (\<lambda>authorized.
     ebind (erequire (\<not> authorized) (StablecoinDEX DEX_OrderNotStale)) (\<lambda>_.
     on_dex (cancel_active_order ord)))))))"

definition withdraw :: "env \<Rightarrow> address \<Rightarrow> address \<Rightarrow> u128 \<Rightarrow> ('x, unit) dop" where
  "withdraw env user token amount =
     ebind (on_dex (balance_of user token)) (\<lambda>current_balance.
     ebind (erequire (\<not> current_balance < amount) (StablecoinDEX DEX_InsufficientBalance)) (\<lambda>_.
     ebind (on_dex (sub_balance user token amount)) (\<lambda>_.
     dex_transfer env token user amount)))"

subsection \<open>Quotes\<close>

text \<open>What one level contributes to a quote.\<close>

definition quote_out_level :: "bool \<Rightarrow> int \<Rightarrow> u128 \<Rightarrow> u128 \<Rightarrow> ('s, tempo_error, u128 \<times> u128 \<times> u128) pre" where
  "quote_out_level is_bid tick liquidity remaining_out =
     ebind
       (if is_bid then
          ebind (eok_or (quote_to_base remaining_out tick Up) under_overflow) (\<lambda>base_needed.
          let fill_amount = (if base_needed > liquidity then liquidity else base_needed) in
          eret (fill_amount, fill_amount))
        else
          let fill_amount = (if remaining_out > liquidity then liquidity else remaining_out) in
          ebind (eok_or (base_to_quote fill_amount tick Up) under_overflow) (\<lambda>quote_needed.
          eret (fill_amount, quote_needed))) (\<lambda>(fill_amount, amount_in_tick).
     ebind (if is_bid then eok_or (base_to_quote fill_amount tick Down) under_overflow else eret fill_amount) (\<lambda>amount_out_tick.
     eret (fill_amount, amount_in_tick, amount_out_tick)))"

definition quote_in_level :: "bool \<Rightarrow> int \<Rightarrow> u128 \<Rightarrow> u128 \<Rightarrow> ('s, tempo_error, u128 \<times> u128 \<times> u128) pre" where
  "quote_in_level is_bid tick liquidity remaining_in =
     (if is_bid then
        let fill_amount = min remaining_in liquidity in
        ebind (eok_or (base_to_quote fill_amount tick Down) under_overflow) (\<lambda>quote_out.
        eret (fill_amount, quote_out, fill_amount))
      else
        ebind (eok_or (quote_to_base remaining_in tick Down) under_overflow) (\<lambda>base_to_get.
        let fill_amount = min base_to_get liquidity in
        ebind (eok_or (base_to_quote fill_amount tick Up) under_overflow) (\<lambda>quote_consumed.
        eret (fill_amount, fill_amount, quote_consumed))))"

fun quote_out_loop :: "nat \<Rightarrow> b256 \<Rightarrow> bool \<Rightarrow> int \<Rightarrow> u128 \<Rightarrow> u128 \<Rightarrow> u128 dx" where
  "quote_out_loop 0 book_key is_bid current_tick remaining_out amount_in = efail OutOfGas"
| "quote_out_loop (Suc gas) book_key is_bid current_tick remaining_out amount_in =
     (if remaining_out = 0 then eret amount_in
      else
        ebind (on_book book_key (tick_level_handler current_tick is_bid)) (\<lambda>level.
        if lv_liquidity level = 0 then
          ebind (on_book book_key (next_initialized_tick current_tick is_bid)) (\<lambda>(next_tick, initialized).
          ebind (erequire initialized (StablecoinDEX DEX_InsufficientLiquidity)) (\<lambda>_.
          quote_out_loop gas book_key is_bid next_tick remaining_out amount_in))
        else
          ebind (quote_out_level is_bid current_tick (lv_liquidity level) remaining_out) (\<lambda>(fill_amount, amount_in_tick, amount_out_tick).
          ebind (eok_or (checked_sub remaining_out amount_out_tick) under_overflow) (\<lambda>remaining_out.
          ebind (eok_or (checked_add amount_in amount_in_tick) under_overflow) (\<lambda>amount_in.
          if fill_amount = lv_liquidity level then
            ebind (on_book book_key (next_initialized_tick current_tick is_bid)) (\<lambda>(next_tick, initialized).
            ebind (erequire (\<not> (\<not> initialized \<and> remaining_out > 0)) (StablecoinDEX DEX_InsufficientLiquidity)) (\<lambda>_.
            quote_out_loop gas book_key is_bid next_tick remaining_out amount_in))
          else eret amount_in)))))"

fun quote_in_loop :: "nat \<Rightarrow> b256 \<Rightarrow> bool \<Rightarrow> int \<Rightarrow> u128 \<Rightarrow> u128 \<Rightarrow> u128 dx" where
  "quote_in_loop 0 book_key is_bid current_tick remaining_in amount_out = efail OutOfGas"
| "quote_in_loop (Suc gas) book_key is_bid current_tick remaining_in amount_out =
     (if remaining_in = 0 then eret amount_out
      else
        ebind (on_book book_key (tick_level_handler current_tick is_bid)) (\<lambda>level.
        if lv_liquidity level = 0 then
          ebind (on_book book_key (next_initialized_tick current_tick is_bid)) (\<lambda>(next_tick, initialized).
          ebind (erequire initialized (StablecoinDEX DEX_InsufficientLiquidity)) (\<lambda>_.
          quote_in_loop gas book_key is_bid next_tick remaining_in amount_out))
        else
          ebind (quote_in_level is_bid current_tick (lv_liquidity level) remaining_in) (\<lambda>(fill_amount, amount_out_tick, amount_consumed).
          ebind (eok_or (checked_sub remaining_in amount_consumed) under_overflow) (\<lambda>remaining_in.
          ebind (eok_or (checked_add amount_out amount_out_tick) under_overflow) (\<lambda>amount_out.
          if fill_amount = lv_liquidity level then
            ebind (on_book book_key (next_initialized_tick current_tick is_bid)) (\<lambda>(next_tick, initialized).
            ebind (erequire (\<not> (\<not> initialized \<and> remaining_in > 0)) (StablecoinDEX DEX_InsufficientLiquidity)) (\<lambda>_.
            quote_in_loop gas book_key is_bid next_tick remaining_in amount_out))
          else eret amount_out)))))"

definition best_tick_for_quote :: "b256 \<Rightarrow> bool \<Rightarrow> int dx" where
  "best_tick_for_quote book_key is_bid =
     ebind (read_book book_key) (\<lambda>orderbook.
     let current_tick = (if is_bid then best_bid_tick orderbook else best_ask_tick orderbook) in
     ebind (erequire (\<not> (current_tick = I16_MIN \<or> current_tick = I16_MAX)) (StablecoinDEX DEX_InsufficientLiquidity)) (\<lambda>_.
     eret current_tick))"

definition quote_exact_out :: "nat \<Rightarrow> b256 \<Rightarrow> u128 \<Rightarrow> bool \<Rightarrow> u128 dx" where
  "quote_exact_out gas book_key amount_out is_bid =
     ebind (best_tick_for_quote book_key is_bid) (\<lambda>current_tick. quote_out_loop gas book_key is_bid current_tick amount_out 0)"

definition quote_exact_in :: "nat \<Rightarrow> b256 \<Rightarrow> u128 \<Rightarrow> bool \<Rightarrow> u128 dx" where
  "quote_exact_in gas book_key amount_in is_bid =
     ebind (best_tick_for_quote book_key is_bid) (\<lambda>current_tick. quote_in_loop gas book_key is_bid current_tick amount_in 0)"

subsection \<open>Routes\<close>

text \<open>The loop of \<open>find_path_to_root\<close>; \<open>path\<close> is what was pushed so far.\<close>

fun path_loop :: "nat \<Rightarrow> address \<Rightarrow> address list \<Rightarrow> ('x, address list) dop" where
  "path_loop 0 token path = efail OutOfGas"
| "path_loop (Suc gas) token path =
     (if token = PATH_USD_ADDRESS then eret path
      else ebind (token_quote token) (\<lambda>token. path_loop gas token (path @ [token])))"

definition find_path_to_root :: "nat \<Rightarrow> address \<Rightarrow> ('x, address list) dop" where
  "find_path_to_root gas token = path_loop gas token [token]"

definition route_hop :: "env \<Rightarrow> address \<Rightarrow> address \<Rightarrow> ('x, b256 \<times> bool) dop" where
  "route_hop env token_in token_out =
     ebind (token_quote token_in) (\<lambda>in_quote.
     ebind
       (if in_quote = token_out then eret (token_in, token_out)
        else
          ebind (token_quote token_out) (\<lambda>out_quote.
          if out_quote = token_in then eret (token_out, token_in)
          else efail (StablecoinDEX DEX_PairDoesNotExist))) (\<lambda>(base, quote).
     let book_key = compute_book_key env base quote in
     ebind (on_dex (read_book book_key)) (\<lambda>orderbook.
     ebind (erequire (bk_base orderbook \<noteq> 0) (StablecoinDEX DEX_PairDoesNotExist)) (\<lambda>_.
     eret (book_key, token_in = base)))))"

fun validate_and_build_route :: "env \<Rightarrow> address list \<Rightarrow> ('x, (b256 \<times> bool) list) dop" where
  "validate_and_build_route env (token_in # token_out # path) =
     ebind (route_hop env token_in token_out) (\<lambda>hop.
     ebind (validate_and_build_route env (token_out # path)) (\<lambda>route.
     eret (hop # route)))"
| "validate_and_build_route env path = eret []"

text \<open>The path from the input token up to the first token that is also on the way from the output token to
  the root, and from there down to the output token.\<close>

definition join_paths :: "address list \<Rightarrow> address list \<Rightarrow> address list option" where
  "join_paths path_in path_out =
     map_option (\<lambda>lca. takeWhile (\<lambda>t. t \<noteq> lca) path_in @ [lca] @ rev (takeWhile (\<lambda>t. t \<noteq> lca) path_out))
       (find (\<lambda>t. t \<in> set path_out) path_in)"

definition find_trade_path :: "env \<Rightarrow> nat \<Rightarrow> address \<Rightarrow> address \<Rightarrow> ('x, (b256 \<times> bool) list) dop" where
  "find_trade_path env gas token_in token_out =
     ebind (erequire (token_in \<noteq> token_out) (StablecoinDEX DEX_IdenticalTokens)) (\<lambda>_.
     ebind (erequire (is_tip20_prefix token_in \<and> is_tip20_prefix token_out) (StablecoinDEX DEX_InvalidToken)) (\<lambda>_.
     ebind (token_quote token_in) (\<lambda>in_quote.
     ebind (token_quote token_out) (\<lambda>out_quote.
     if in_quote = token_out \<or> out_quote = token_in then validate_and_build_route env [token_in, token_out]
     else
       ebind (find_path_to_root gas token_in) (\<lambda>path_in.
       ebind (find_path_to_root gas token_out) (\<lambda>path_out.
       ebind (eok_or (join_paths path_in path_out) (StablecoinDEX DEX_PairDoesNotExist)) (\<lambda>trade_path.
       validate_and_build_route env trade_path)))))))"

fun quote_route :: "(b256 \<Rightarrow> u128 \<Rightarrow> bool \<Rightarrow> u128 dx) \<Rightarrow> (b256 \<times> bool) list \<Rightarrow> u128 \<Rightarrow> u128 dx" where
  "quote_route quote [] amount = eret amount"
| "quote_route quote ((book_key, base_for_quote) # route) amount =
     ebind (quote book_key amount base_for_quote) (\<lambda>amount. quote_route quote route amount)"

definition quote_swap_exact_amount_out :: "env \<Rightarrow> nat \<Rightarrow> address \<Rightarrow> address \<Rightarrow> u128 \<Rightarrow> ('x, u128) dop" where
  "quote_swap_exact_amount_out env gas token_in token_out amount_out =
     ebind (find_trade_path env gas token_in token_out) (\<lambda>route.
     on_dex (quote_route (quote_exact_out gas) (rev route) amount_out))"

definition quote_swap_exact_amount_in :: "env \<Rightarrow> nat \<Rightarrow> address \<Rightarrow> address \<Rightarrow> u128 \<Rightarrow> ('x, u128) dop" where
  "quote_swap_exact_amount_in env gas token_in token_out amount_in =
     ebind (find_trade_path env gas token_in token_out) (\<lambda>route.
     on_dex (quote_route (quote_exact_in gas) route amount_in))"

subsection \<open>Swaps\<close>

fun swap_route ::
  "(b256 \<Rightarrow> bool \<Rightarrow> u128 \<Rightarrow> address \<Rightarrow> ('x, u128) dop) \<Rightarrow> (b256 \<times> bool) list \<Rightarrow> u128 \<Rightarrow> address \<Rightarrow> ('x, u128) dop" where
  "swap_route hop [] amount taker = eret amount"
| "swap_route hop ((book_key, base_for_quote) # route) amount taker =
     ebind (hop book_key base_for_quote amount taker) (\<lambda>amount. swap_route hop route amount taker)"

definition swap_exact_amount_in ::
  "env \<Rightarrow> nat \<Rightarrow> address \<Rightarrow> address \<Rightarrow> address \<Rightarrow> u128 \<Rightarrow> u128 \<Rightarrow> ('x, u128) dop" where
  "swap_exact_amount_in env gas sender token_in token_out amount_in min_amount_out =
     ebind (find_trade_path env gas token_in token_out) (\<lambda>route.
     ebind (decrement_balance_or_transfer_from env sender token_in amount_in) (\<lambda>_.
     ebind (swap_route (fill_orders_exact_in env gas) route amount_in sender) (\<lambda>amount.
     ebind (erequire (\<not> amount < min_amount_out) (StablecoinDEX DEX_InsufficientOutput)) (\<lambda>_.
     ebind (dex_transfer env token_out sender amount) (\<lambda>_.
     eret amount)))))"

definition swap_exact_amount_out ::
  "env \<Rightarrow> nat \<Rightarrow> address \<Rightarrow> address \<Rightarrow> address \<Rightarrow> u128 \<Rightarrow> u128 \<Rightarrow> ('x, u128) dop" where
  "swap_exact_amount_out env gas sender token_in token_out amount_out max_amount_in =
     ebind (find_trade_path env gas token_in token_out) (\<lambda>route.
     ebind (swap_route (fill_orders_exact_out env gas) (rev route) amount_out sender) (\<lambda>amount.
     ebind (erequire (\<not> amount > max_amount_in) (StablecoinDEX DEX_MaxInputExceeded)) (\<lambda>_.
     ebind (decrement_balance_or_transfer_from env sender token_in amount) (\<lambda>_.
     ebind (dex_transfer env token_out sender amount_out) (\<lambda>_.
     eret amount)))))"

definition get_price_level :: "env \<Rightarrow> address \<Rightarrow> int \<Rightarrow> bool \<Rightarrow> ('x, tick_level) dop" where
  "get_price_level env base tick is_bid =
     ebind (token_quote base) (\<lambda>quote.
     on_dex (on_book (compute_book_key env base quote) (tick_level_handler tick is_bid)))"

subsection \<open>Dispatch\<close>

datatype dex_call =
    Place address u128 bool int
  | PlaceFlip address u128 bool int int
  | CreatePair address
  | Withdraw address u128
  | Cancel u128
  | CancelStaleOrder u128
  | SwapExactAmountIn address address u128 u128
  | SwapExactAmountOut address address u128 u128

fun dex_dispatch :: "env \<Rightarrow> nat \<Rightarrow> address \<Rightarrow> dex_call \<Rightarrow> ('x, unit) dop" where
  "dex_dispatch env gas s (Place token amount is_bid tick) = evoid (place env s token amount is_bid tick)"
| "dex_dispatch env gas s (PlaceFlip token amount is_bid tick flip_tick) =
     evoid (place_flip env s token amount is_bid tick flip_tick False)"
| "dex_dispatch env gas s (CreatePair base) = evoid (create_pair env base)"
| "dex_dispatch env gas s (Withdraw token amount) = withdraw env s token amount"
| "dex_dispatch env gas s (Cancel order_id) = on_dex (cancel s order_id)"
| "dex_dispatch env gas s (CancelStaleOrder order_id) = cancel_stale_order env order_id"
| "dex_dispatch env gas s (SwapExactAmountIn token_in token_out amount_in min_amount_out) =
     evoid (swap_exact_amount_in env gas s token_in token_out amount_in min_amount_out)"
| "dex_dispatch env gas s (SwapExactAmountOut token_in token_out amount_out max_amount_in) =
     evoid (swap_exact_amount_out env gas s token_in token_out amount_out max_amount_in)"

end
