(* ===== verification/Dex_Book.thy ===== *)
theory Dex_Book
  imports Dex
begin

section \<open>Books as queues of orders\<close>

text \<open>
  The exchange stores the orders of a price level as a doubly linked list through the order
  records, next to a bitmap and a best tick. This theory relates that storage to what it stands for: a
  queue of order ids for every book, side and tick. The relation \<open>book_rep s Q\<close> says that the links
  of every level run through its queue, that the queues hold exactly the live orders, that
  liquidity is the sum of what remains of them, that the bitmap marks the levels in use and that the
  best tick is the best of them. Placing appends to a queue, cancelling removes from it, and filling
  takes its first order: each operation is shown to carry the storage of a queue to that of
  the changed queue.
\<close>

subsection \<open>Views of a book\<close>

text \<open>Both sides of a book behave alike. These accessors and updates take the side as an argument, so that
  one lemma serves both.\<close>

definition book_level :: "bool \<Rightarrow> int \<Rightarrow> orderbook \<Rightarrow> tick_level" where
  "book_level b t bk = (if b then bk_bids bk t else bk_asks bk t)"

definition best_tick :: "bool \<Rightarrow> orderbook \<Rightarrow> int" where
  "best_tick b bk = (if b then best_bid_tick bk else best_ask_tick bk)"

definition put_level :: "bool \<Rightarrow> int \<Rightarrow> tick_level \<Rightarrow> orderbook \<Rightarrow> orderbook" where
  "put_level b t l bk =
     (if b then bk\<lparr>bk_bids := (bk_bids bk)(t := l)\<rparr> else bk\<lparr>bk_asks := (bk_asks bk)(t := l)\<rparr>)"

definition put_best :: "bool \<Rightarrow> int \<Rightarrow> orderbook \<Rightarrow> orderbook" where
  "put_best b t bk = (if b then bk\<lparr>best_bid_tick := t\<rparr> else bk\<lparr>best_ask_tick := t\<rparr>)"

definition put_word :: "bool \<Rightarrow> int \<Rightarrow> u256 \<Rightarrow> orderbook \<Rightarrow> orderbook" where
  "put_word b i v bk =
     (if b then bk\<lparr>bid_bitmap := (bid_bitmap bk)(i := v)\<rparr> else bk\<lparr>ask_bitmap := (ask_bitmap bk)(i := v)\<rparr>)"

definition mark :: "bool \<Rightarrow> int \<Rightarrow> orderbook \<Rightarrow> orderbook" where
  "mark b t bk = put_word b (t div 256) (bitmap b bk (t div 256) OR push_bit (nat (t mod 256)) 1) bk"

definition unmark :: "bool \<Rightarrow> int \<Rightarrow> orderbook \<Rightarrow> orderbook" where
  "unmark b t bk = put_word b (t div 256) (bitmap b bk (t div 256) AND NOT (push_bit (nat (t mod 256)) 1)) bk"

lemmas book_views = book_level_def best_tick_def bitmap_def put_level_def put_best_def put_word_def

lemma book_level_put [simp]:
  "book_level b t (put_level b' t' l bk) = (if b = b' \<and> t = t' then l else book_level b t bk)"
  "book_level b t (put_best b' t' bk) = book_level b t bk" "book_level b t (put_word b' t' v bk) = book_level b t bk"
  "book_level b t (mark b' t' bk) = book_level b t bk" "book_level b t (unmark b' t' bk) = book_level b t bk"
  by (auto simp: book_views mark_def unmark_def)

lemma best_tick_put [simp]:
  "best_tick b (put_level b' t l bk) = best_tick b bk" "best_tick b (put_best b' t bk) = (if b = b' then t else best_tick b bk)"
  "best_tick b (put_word b' t v bk) = best_tick b bk"
  "best_tick b (mark b' t bk) = best_tick b bk" "best_tick b (unmark b' t bk) = best_tick b bk"
  by (auto simp: book_views mark_def unmark_def)

lemma bitmap_put [simp]:
  "bitmap b (put_level b' t l bk) = bitmap b bk" "bitmap b (put_best b' t bk) = bitmap b bk"
  "bitmap b (put_word b' i v bk) = (if b = b' then (bitmap b bk)(i := v) else bitmap b bk)"
  by (auto simp: book_views)

lemma tokens_put [simp]:
  "bk_base (put_level b t l bk) = bk_base bk" "bk_quote (put_level b t l bk) = bk_quote bk"
  "bk_base (put_best b t bk) = bk_base bk" "bk_quote (put_best b t bk) = bk_quote bk"
  "bk_base (mark b t bk) = bk_base bk" "bk_quote (mark b t bk) = bk_quote bk"
  "bk_base (unmark b t bk) = bk_base bk" "bk_quote (unmark b t bk) = bk_quote bk"
  by (auto simp: book_views mark_def unmark_def)

lemma tick_bit_put [simp]:
  "tick_bit (bitmap b (mark b' t bk)) u \<longleftrightarrow> b = b' \<and> u = t \<or> tick_bit (bitmap b bk) u"
  "tick_bit (bitmap b (unmark b' t bk)) u \<longleftrightarrow> \<not> (b = b' \<and> u = t) \<and> tick_bit (bitmap b bk) u"
  by (auto simp: mark_def unmark_def tick_bit_set tick_bit_delete simp del: push_bit_of_1)

lemma book_ops:
  "tick_level_handler t b = egets (book_level b t)" "write_tick_level t b l = emodify (put_level b t l)"
  "write_best_tick b t = emodify (put_best b t)" "write_bitmap b i v = emodify (put_word b i v)"
  by (auto simp: fun_eq_iff tick_level_handler_def write_tick_level_def write_best_tick_def write_bitmap_def book_views
      egets_run emodify_run)

lemma tick_bit_ops:
  "set_tick_bit t b bk = (if MIN_TICK \<le> t \<and> t \<le> MAX_TICK then (Inr (), mark b t bk) else (Inl (StablecoinDEX DEX_InvalidTick), bk))"
  "delete_tick_bit t b bk = (if MIN_TICK \<le> t \<and> t \<le> MAX_TICK then (Inr (), unmark b t bk) else (Inl (StablecoinDEX DEX_InvalidTick), bk))"
  by (auto simp: set_tick_bit_def delete_tick_bit_def calc_tick_word_idx_def run Let_def mark_def unmark_def book_ops tick_index)

lemma on_book_ok:
  "on_book k m s = (Inr v, s') \<longleftrightarrow> (\<exists>b'. m (dx_books s k) = (Inr v, b') \<and> s' = s\<lparr>dx_books := (dx_books s)(k := b')\<rparr>)"
  by (auto simp: on_book_def ezoom_ok)

lemma on_book_run:
  "on_book k (egets f) s = (Inr (f (dx_books s k)), s)"
  "on_book k (emodify g) s = (Inr (), s\<lparr>dx_books := (dx_books s)(k := g (dx_books s k))\<rparr>)"
  by (simp_all add: on_book_def ezoom_def run)

text \<open>The best tick above or below, as the bitmap gives it.\<close>

definition next_tick :: "bool \<Rightarrow> int \<Rightarrow> orderbook \<Rightarrow> int \<times> bool" where
  "next_tick b t bk = (if b then next_initialized_bid_tick (bitmap b bk) t else next_initialized_ask_tick (bitmap b bk) t)"

lemma next_initialized_tick_eq: "next_initialized_tick t b = egets (next_tick b t)"
  by (auto simp: next_initialized_tick_def next_tick_def bitmap_def egets_def fun_eq_iff)

subsection \<open>Linked lists\<close>

definition first_id :: "u128 list \<Rightarrow> u128 \<Rightarrow> u128" where
  "first_id q n = (case q of [] \<Rightarrow> n | i # _ \<Rightarrow> i)"

definition last_id :: "u128 list \<Rightarrow> u128 \<Rightarrow> u128" where
  "last_id q p = (if q = [] then p else last q)"

fun chained :: "(u128 \<Rightarrow> order) \<Rightarrow> u128 \<Rightarrow> u128 list \<Rightarrow> u128 \<Rightarrow> bool" where
  "chained os p [] n \<longleftrightarrow> True"
| "chained os p (i # q) n \<longleftrightarrow> o_prev (os i) = p \<and> o_next (os i) = first_id q n \<and> chained os i q n"

lemma id_simps [simp]:
  "first_id [] n = n" "first_id (i # q) n = i" "last_id [] p = p" "last_id (i # q) p = last_id q i" "last_id (q @ [i]) p = i"
  by (auto simp: first_id_def last_id_def)

lemma first_id_append [simp]: "first_id (xs @ ys) n = first_id xs (first_id ys n)"
  by (cases xs) auto

lemma chained_append [simp]:
  "chained os p (xs @ ys) n \<longleftrightarrow> chained os p xs (first_id ys n) \<and> chained os (last_id xs p) ys n"
  by (induction xs arbitrary: p) auto

lemma chained_cong:
  "(\<And>i. i \<in> set q \<Longrightarrow> o_prev (os' i) = o_prev (os i) \<and> o_next (os' i) = o_next (os i)) \<Longrightarrow> chained os' p q n = chained os p q n"
  by (induction q arbitrary: p) auto

lemma chained_upd [simp]: "i \<notin> set q \<Longrightarrow> chained (os(i := x)) p q n = chained os p q n"
  by (rule chained_cong) auto

text \<open>Appending an order and removing one.\<close>

lemma chained_snoc:
  assumes "chained os 0 q 0" "distinct q" "n \<notin> set q" "q \<noteq> []" "o_prev x = last q" "o_next x = 0"
  shows "chained (os(last q := (os (last q))\<lparr>o_next := n\<rparr>, n := x)) 0 (q @ [n]) 0"
proof -
  obtain ys t where "q = ys @ [t]" using assms(4) by (metis rev_exhaust)
  with assms show ?thesis by (auto simp: first_id_def)
qed

lemma first_id_in: "xs \<noteq> [] \<Longrightarrow> first_id xs n \<in> set xs"
  by (cases xs) auto

lemma chained_remove:
  assumes l: "chained os 0 (xs @ i # ys) 0" and d: "distinct (xs @ i # ys)" and nz: "0 \<notin> set (xs @ i # ys)"
    and os': "\<And>j. j \<in> set xs \<union> set ys \<Longrightarrow>
      o_next (os' j) = (if j = o_prev (os i) then o_next (os i) else o_next (os j)) \<and>
      o_prev (os' j) = (if j = o_next (os i) then o_prev (os i) else o_prev (os j))"
  shows "chained os' 0 (xs @ ys) 0"
proof -
  have p: "o_prev (os i) = last_id xs 0" and n: "o_next (os i) = first_id ys 0" using l by auto
  have out: "last_id xs 0 \<notin> set ys" "first_id ys 0 \<notin> set xs"
    using d nz by (cases xs rule: rev_cases, auto) (cases ys, auto)+
  have xs: "chained os' 0 xs (first_id ys 0)"
  proof (cases xs rule: rev_cases)
    case (snoc us t)
    then have "chained os' 0 us t = chained os 0 us t"
      using d os' out unfolding p n by (intro chained_cong) auto
    moreover have "o_prev (os' t) = o_prev (os t)" "o_next (os' t) = first_id ys 0"
      using d os' [of t] out snoc unfolding p n by auto
    ultimately show ?thesis using l snoc by simp
  qed simp
  have "chained os' (last_id xs 0) ys 0"
  proof (cases ys)
    case (Cons v vs)
    then have "chained os' v vs 0 = chained os v vs 0"
      using d os' out unfolding p n by (intro chained_cong) auto
    moreover have "o_prev (os' v) = last_id xs 0" "o_next (os' v) = o_next (os v)"
      using d os' [of v] out Cons unfolding p n by auto
    ultimately show ?thesis using l Cons by simp
  qed simp
  with xs show ?thesis by simp
qed

subsection \<open>The representation\<close>

type_synonym level_key = "b256 \<times> bool \<times> int"
type_synonym queues = "level_key \<Rightarrow> u128 list"

definition home :: "order \<Rightarrow> level_key" where
  "home ord = (o_book_key ord, o_is_bid ord, o_tick ord)"

definition level_of :: "dex \<Rightarrow> level_key \<Rightarrow> tick_level" where
  "level_of s L = (case L of (k, b, t) \<Rightarrow> book_level b t (dx_books s k))"

definition liquidity :: "(u128 \<Rightarrow> order) \<Rightarrow> u128 list \<Rightarrow> nat" where
  "liquidity os q = sum_list (map (\<lambda>i. unat (o_remaining (os i))) q)"

definition queue_rep :: "(u128 \<Rightarrow> order) \<Rightarrow> tick_level \<Rightarrow> u128 list \<Rightarrow> bool" where
  "queue_rep os l q \<longleftrightarrow> distinct q \<and> chained os 0 q 0 \<and> lv_head l = first_id q 0 \<and> lv_tail l = last_id q 0 \<and>
     unat (lv_liquidity l) = liquidity os q"

text \<open>A stored order: it is named by its id, its book exists, its tick is in range, something of it remains,
  and the quote amount of a bid fits its type.\<close>

definition live_order :: "dex \<Rightarrow> u128 \<Rightarrow> order \<Rightarrow> bool" where
  "live_order s i ord \<longleftrightarrow> o_id ord = i \<and> i \<noteq> 0 \<and> i < dx_next_order_id s \<and> MIN_TICK \<le> o_tick ord \<and> o_tick ord \<le> MAX_TICK \<and>
     o_remaining ord \<noteq> 0 \<and> o_remaining ord \<le> o_amount ord \<and> bk_base (dx_books s (o_book_key ord)) \<noteq> 0 \<and>
     (o_is_bid ord \<longrightarrow> rdiv Up (unat (o_amount ord) * price (o_tick ord)) 100000 < 2 ^ 128)"

definition empty_best :: "bool \<Rightarrow> int" where
  "empty_best b = (if b then I16_MIN else I16_MAX)"

definition best_rep :: "(int \<Rightarrow> bool) \<Rightarrow> bool \<Rightarrow> int \<Rightarrow> bool" where
  "best_rep used b m \<longleftrightarrow>
     (if \<exists>t. used t then used m \<and> (\<forall>t. used t \<longrightarrow> (if b then t \<le> m else m \<le> t)) else m = empty_best b)"

definition book_rep :: "dex \<Rightarrow> queues \<Rightarrow> bool" where
  "book_rep s Q \<longleftrightarrow>
     (\<forall>L. queue_rep (dx_orders s) (level_of s L) (Q L)) \<and>
     (\<forall>L i. i \<in> set (Q L) \<longleftrightarrow> dx_orders s i \<noteq> empty_order \<and> home (dx_orders s i) = L) \<and>
     (\<forall>i. dx_orders s i \<noteq> empty_order \<longrightarrow> live_order s i (dx_orders s i)) \<and>
     (\<forall>k b t. tick_bit (bitmap b (dx_books s k)) t \<longleftrightarrow> Q (k, b, t) \<noteq> []) \<and>
     (\<forall>k b. bk_base (dx_books s k) \<noteq> 0 \<longrightarrow> best_rep (\<lambda>t. Q (k, b, t) \<noteq> []) b (best_tick b (dx_books s k)))"

lemma book_repD:
  assumes "book_rep s Q"
  shows "queue_rep (dx_orders s) (level_of s L) (Q L)"
    and "i \<in> set (Q L) \<longleftrightarrow> dx_orders s i \<noteq> empty_order \<and> home (dx_orders s i) = L"
    and "dx_orders s i \<noteq> empty_order \<Longrightarrow> live_order s i (dx_orders s i)"
    and "tick_bit (bitmap b (dx_books s k)) t \<longleftrightarrow> Q (k, b, t) \<noteq> []"
    and "bk_base (dx_books s k) \<noteq> 0 \<Longrightarrow> best_rep (\<lambda>t. Q (k, b, t) \<noteq> []) b (best_tick b (dx_books s k))"
  using assms unfolding book_rep_def by blast+

lemma level_of_simp [simp]: "level_of s (k, b, t) = book_level b t (dx_books s k)"
  by (simp add: level_of_def)

lemma liquidity_simps [simp]:
  "liquidity os [] = 0" "liquidity os (i # q) = unat (o_remaining (os i)) + liquidity os q"
  "liquidity os (xs @ ys) = liquidity os xs + liquidity os ys"
  by (simp_all add: liquidity_def)

lemma liquidity_cong: "(\<And>i. i \<in> set q \<Longrightarrow> o_remaining (os' i) = o_remaining (os i)) \<Longrightarrow> liquidity os' q = liquidity os q"
  by (simp add: liquidity_def cong: map_cong)

lemma queue_rep_cong:
  assumes "\<And>i. i \<in> set q \<Longrightarrow> o_prev (os' i) = o_prev (os i) \<and> o_next (os' i) = o_next (os i) \<and> o_remaining (os' i) = o_remaining (os i)"
  shows "queue_rep os' l q = queue_rep os l q"
  using chained_cong [of q os' os 0 0] liquidity_cong [of q os' os] assms by (simp add: queue_rep_def)

lemma book_rep_ids:
  assumes "book_rep s Q" "i \<in> set (Q L)"
  shows "i \<noteq> 0" "o_id (dx_orders s i) = i" "home (dx_orders s i) = L" "live_order s i (dx_orders s i)" "dx_orders s i \<noteq> empty_order"
  using assms book_repD(2) [OF assms(1), of i L] book_repD(3) [OF assms(1), of i] by (auto simp: live_order_def)

lemma book_rep_initialized:
  assumes "book_rep s Q" "Q (k, b, t) \<noteq> []"
  shows "bk_base (dx_books s k) \<noteq> 0" "MIN_TICK \<le> t" "t \<le> MAX_TICK"
proof -
  obtain i where "i \<in> set (Q (k, b, t))" using assms(2) by (metis list.set_sel(1))
  from book_rep_ids(3,4) [OF assms(1) this] show "bk_base (dx_books s k) \<noteq> 0" "MIN_TICK \<le> t" "t \<le> MAX_TICK"
    by (auto simp: live_order_def home_def)
qed

text \<open>The head of a level, and an empty level.\<close>

lemma queue_rep_head: "queue_rep os l q \<Longrightarrow> 0 \<notin> set q \<Longrightarrow> lv_head l = 0 \<longleftrightarrow> q = []" "queue_rep os l q \<Longrightarrow> 0 \<notin> set q \<Longrightarrow> lv_tail l = 0 \<longleftrightarrow> q = []"
  using last_in_set [of q] by (cases q; auto simp: queue_rep_def last_id_def)+

lemma queue_rep_empty: "queue_rep os l [] \<longleftrightarrow> l = empty_level"
  by (cases l) (auto simp: queue_rep_def empty_level_def unsigned_eq_0_iff)

text \<open>Rebuilding the relation after a change at one level.\<close>

lemma book_rep_change:
  assumes rep: "book_rep s Q"
    and level: "queue_rep (dx_orders s') (level_of s' L) q" "\<And>L'. L' \<noteq> L \<Longrightarrow> level_of s' L' = level_of s L'"
    and mem: "\<And>i. i \<in> set q \<longleftrightarrow> dx_orders s' i \<noteq> empty_order \<and> home (dx_orders s' i) = L"
    and moved: "\<And>i. dx_orders s' i \<noteq> dx_orders s i \<Longrightarrow>
      (dx_orders s i = empty_order \<or> home (dx_orders s i) = L) \<and> (dx_orders s' i = empty_order \<or> home (dx_orders s' i) = L)"
    and live: "\<And>i. dx_orders s' i \<noteq> empty_order \<Longrightarrow> live_order s' i (dx_orders s' i)"
    and bits: "\<And>k b t. tick_bit (bitmap b (dx_books s' k)) t \<longleftrightarrow> (if (k, b, t) = L then q \<noteq> [] else tick_bit (bitmap b (dx_books s k)) t)"
    and best: "\<And>k b. bk_base (dx_books s' k) \<noteq> 0 \<Longrightarrow> best_rep (\<lambda>t. (Q(L := q)) (k, b, t) \<noteq> []) b (best_tick b (dx_books s' k))"
  shows "book_rep s' (Q(L := q))"
proof -
  have "queue_rep (dx_orders s') (level_of s' L') ((Q(L := q)) L')" for L'
  proof (cases "L' = L")
    case False
    have same: "dx_orders s' i = dx_orders s i" if "i \<in> set (Q L')" for i
      using moved [of i] book_repD(2) [OF rep, of i L'] that False by auto
    show ?thesis
      using queue_rep_cong [of "Q L'" "dx_orders s'" "dx_orders s"] same book_repD(1) [OF rep, of L'] False level(2) [of L'] by simp
  qed (use level(1) in simp)
  moreover have "i \<in> set ((Q(L := q)) L') \<longleftrightarrow> dx_orders s' i \<noteq> empty_order \<and> home (dx_orders s' i) = L'" for L' i
    using mem [of i] moved [of i] book_repD(2) [OF rep, of i L'] by (cases "dx_orders s' i = dx_orders s i") auto
  moreover have "tick_bit (bitmap b (dx_books s' k)) t \<longleftrightarrow> (Q(L := q)) (k, b, t) \<noteq> []" for k b t
    using bits [where k = k and b = b and t = t] book_repD(4) [OF rep, of b k t] by auto
  ultimately show ?thesis using live best unfolding book_rep_def by blast
qed

subsection \<open>Best ticks\<close>

definition better :: "bool \<Rightarrow> int \<Rightarrow> int \<Rightarrow> bool" where
  "better b t m \<longleftrightarrow> (if b then t > m else t < m)"

lemma best_rep_add:
  assumes "best_rep used b m" "MIN_TICK \<le> t" "t \<le> MAX_TICK"
  shows "best_rep (\<lambda>u. u = t \<or> used u) b (if better b t m then t else m)"
proof (cases "\<exists>u. used u")
  case True
  with assms(1) have "used m" "\<And>u. used u \<Longrightarrow> if b then u \<le> m else m \<le> u" by (auto simp: best_rep_def)
  then show ?thesis by (cases b) (force simp: best_rep_def better_def)+
next
  case False
  with assms show ?thesis
    by (auto simp: best_rep_def better_def empty_best_def I16_MIN_def I16_MAX_def MIN_TICK_def MAX_TICK_def)
qed

lemma best_rep_other:
  assumes "best_rep used b m" "m \<noteq> t" "used t"
  shows "best_rep (\<lambda>u. u \<noteq> t \<and> used u) b m"
  using assms by (auto simp: best_rep_def split: if_splits)

text \<open>When the best level empties, the bitmap search from it gives the new best.\<close>

lemma best_rep_next:
  assumes "best_rep used b t" "\<And>u. tick_bit (bitmap b bk) u \<longleftrightarrow> u \<noteq> t \<and> used u" "used t"
    and "\<And>u. used u \<Longrightarrow> MIN_TICK \<le> u \<and> u \<le> MAX_TICK" "next_tick b t bk = (n, found)"
  shows "best_rep (\<lambda>u. u \<noteq> t \<and> used u) b (if found then n else empty_best b)" "found \<longleftrightarrow> (\<exists>u. u \<noteq> t \<and> used u)"
proof -
  have top: "if b then u < t else t < u" if "u \<noteq> t" "used u" for u
    using assms(1,3) that by (force simp: best_rep_def split: if_splits)
  have "if found then n \<noteq> t \<and> used n \<and> (\<forall>u. u \<noteq> t \<and> used u \<longrightarrow> (if b then u \<le> n else n \<le> u)) else \<not> (\<exists>u. u \<noteq> t \<and> used u)"
  proof (cases b)
    case True
    with next_bid_first [of "bitmap b bk" t] assms(5) have f: "first_bid (bitmap b bk) (t - 1) (n, found)" by (simp add: next_tick_def)
    show ?thesis
    proof (cases found)
      case True
      with f have n: "tick_bit (bitmap b bk) n" "\<And>v. n < v \<Longrightarrow> v \<le> t - 1 \<Longrightarrow> \<not> tick_bit (bitmap b bk) v" by (auto simp: first_bid_def)
      have "u \<le> n" if "u \<noteq> t" "used u" for u
        using n(2) [of u] top [OF that] that \<open>b\<close> unfolding assms(2) by (intro leI notI) auto
      with True \<open>b\<close> n(1) show ?thesis unfolding assms(2) by simp
    next
      case False
      with f have n: "\<And>v. MIN_TICK \<le> v \<Longrightarrow> v \<le> t - 1 \<Longrightarrow> \<not> tick_bit (bitmap b bk) v" by (auto simp: first_bid_def)
      have False if "u \<noteq> t" "used u" for u
        using n [of u] assms(4) [OF that(2)] top [OF that] that \<open>b\<close> unfolding assms(2) by simp
      with False show ?thesis by auto
    qed
  next
    case False
    with next_ask_first [of "bitmap b bk" t] assms(5) have f: "first_ask (bitmap b bk) (t + 1) (n, found)" by (simp add: next_tick_def)
    show ?thesis
    proof (cases found)
      case True
      with f have n: "tick_bit (bitmap b bk) n" "\<And>v. t + 1 \<le> v \<Longrightarrow> v < n \<Longrightarrow> \<not> tick_bit (bitmap b bk) v" by (auto simp: first_ask_def)
      have "n \<le> u" if "u \<noteq> t" "used u" for u
        using n(2) [of u] top [OF that] that \<open>\<not> b\<close> unfolding assms(2) by (intro leI notI) auto
      with True \<open>\<not> b\<close> n(1) show ?thesis unfolding assms(2) by simp
    next
      case False
      with f have n: "\<And>v. t + 1 \<le> v \<Longrightarrow> v \<le> MAX_TICK \<Longrightarrow> \<not> tick_bit (bitmap b bk) v" by (auto simp: first_ask_def)
      have False if "u \<noteq> t" "used u" for u
        using n [of u] assms(4) [OF that(2)] top [OF that] that \<open>\<not> b\<close> unfolding assms(2) by simp
      with False show ?thesis by auto
    qed
  qed
  then show "best_rep (\<lambda>u. u \<noteq> t \<and> used u) b (if found then n else empty_best b)" "found \<longleftrightarrow> (\<exists>u. u \<noteq> t \<and> used u)"
    by (auto simp: best_rep_def split: if_splits)
qed

subsection \<open>Placing\<close>

text \<open>The storage after an order was added at the tail of its level.\<close>

definition committed :: "order \<Rightarrow> dex \<Rightarrow> dex" where
  "committed ord s = (case home ord of (k, b, t) \<Rightarrow>
     let l = book_level b t (dx_books s k); bk = dx_books s k; i = o_id ord; liq = lv_liquidity l + o_remaining ord in
     if lv_tail l = 0 then
       s\<lparr>dx_books := (dx_books s)(k := put_level b t (l\<lparr>lv_head := i, lv_tail := i, lv_liquidity := liq\<rparr>)
            (if better b t (best_tick b bk) then put_best b t (mark b t bk) else mark b t bk)),
         dx_orders := (dx_orders s)(i := ord)\<rparr>
     else
       s\<lparr>dx_books := (dx_books s)(k := put_level b t (l\<lparr>lv_tail := i, lv_liquidity := liq\<rparr>) bk),
         dx_orders := (dx_orders s)(lv_tail l := (dx_orders s (lv_tail l))\<lparr>o_next := i\<rparr>, i := ord\<lparr>o_prev := lv_tail l\<rparr>)\<rparr>)"

lemma dex_prims:
  "read_book k s = (Inr (dx_books s k), s)" "read_order i s = (Inr (dx_orders s i), s)"
  "write_order i x s = (Inr (), s\<lparr>dx_orders := (dx_orders s)(i := x)\<rparr>)"
  "emit_dex e s = (Inr (), s\<lparr>dx_log := dx_log s @ [e]\<rparr>)"
  "balance_of u t s = (Inr (dx_balances s u t), s)"
  "set_dex_balance u t v s = (Inr (), s\<lparr>dx_balances := (dx_balances s)(u := (dx_balances s u)(t := v))\<rparr>)"
  by (simp_all add: read_book_def read_order_def write_order_def emit_dex_def balance_of_def set_dex_balance_def run)

lemma on_book_tick_bit:
  "on_book k (set_tick_bit t b) s = (if MIN_TICK \<le> t \<and> t \<le> MAX_TICK then (Inr (), s\<lparr>dx_books := (dx_books s)(k := mark b t (dx_books s k))\<rparr>)
     else (Inl (StablecoinDEX DEX_InvalidTick), s))"
  "on_book k (delete_tick_bit t b) s = (if MIN_TICK \<le> t \<and> t \<le> MAX_TICK then (Inr (), s\<lparr>dx_books := (dx_books s)(k := unmark b t (dx_books s k))\<rparr>)
     else (Inl (StablecoinDEX DEX_InvalidTick), s))"
  by (simp_all add: on_book_def ezoom_def tick_bit_ops)

lemmas dex_run = run dex_prims on_book_run on_book_tick_bit book_ops next_initialized_tick_eq Let_def

lemma commit_run:
  assumes "MIN_TICK \<le> o_tick ord" "o_tick ord \<le> MAX_TICK"
    and "unat (lv_liquidity (level_of s (home ord))) + unat (o_remaining ord) < 2 ^ 128"
  shows "commit_order_to_book ord s = (Inr (), committed ord s)"
proof -
  have "checked_add (lv_liquidity (level_of s (home ord))) (o_remaining ord) =
      Some (lv_liquidity (level_of s (home ord)) + o_remaining ord)"
    using assms(3) by (simp add: checked_add_def)
  then show ?thesis
    using assms(1,2)
    by (cases "o_is_bid ord")
      (auto simp: commit_order_to_book_def committed_def home_def dex_run better_def best_tick_def fun_upd_twist)
qed

lemma live_order_cong:
  assumes "dx_next_order_id s' = dx_next_order_id s" "\<And>k. bk_base (dx_books s' k) = bk_base (dx_books s k)"
  shows "live_order s' i x = live_order s i x"
  using assms by (simp add: live_order_def)

lemma live_order_links [simp]:
  "live_order s i (x\<lparr>o_next := n\<rparr>) = live_order s i x" "live_order s i (x\<lparr>o_prev := n\<rparr>) = live_order s i x"
  "home (x\<lparr>o_next := n\<rparr>) = home x" "home (x\<lparr>o_prev := n\<rparr>) = home x" "home (x\<lparr>o_remaining := r\<rparr>) = home x"
  by (simp_all add: live_order_def home_def)

lemma live_order_ne: "live_order s i x \<Longrightarrow> x \<noteq> empty_order"
  by (auto simp: live_order_def empty_order_def)

lemma committed_unchanged:
  "dx_next_order_id (committed ord s) = dx_next_order_id s" "dx_balances (committed ord s) = dx_balances s"
  "dx_log (committed ord s) = dx_log s" "dx_book_keys (committed ord s) = dx_book_keys s"
  "bk_base (dx_books (committed ord s) k) = bk_base (dx_books s k)"
  "bk_quote (dx_books (committed ord s) k) = bk_quote (dx_books s k)"
  by (auto simp: committed_def home_def Let_def)

lemma committed_level:
  "L \<noteq> home ord \<Longrightarrow> level_of (committed ord s) L = level_of s L"
  by (cases L) (auto simp: committed_def Let_def split: prod.split)

lemma commit_to_empty:
  assumes rep: "book_rep s Q" and h: "home ord = (k, b, t)" and q: "Q (k, b, t) = []"
    and fresh: "dx_orders s (o_id ord) = empty_order" and live: "live_order s (o_id ord) ord" and links: "o_prev ord = 0" "o_next ord = 0"
  shows "book_rep (committed ord s) (Q((k, b, t) := [o_id ord]))"
proof -
  let ?s = "committed ord s" and ?bk = "dx_books s k"
  have l: "book_level b t ?bk = empty_level" using book_repD(1) [OF rep, of "(k, b, t)"] q by (simp add: queue_rep_empty)
  have s': "?s = s\<lparr>dx_books := (dx_books s)(k := put_level b t (empty_level\<lparr>lv_head := o_id ord, lv_tail := o_id ord, lv_liquidity := o_remaining ord\<rparr>)
      (if better b t (best_tick b ?bk) then put_best b t (mark b t ?bk) else mark b t ?bk)), dx_orders := (dx_orders s)(o_id ord := ord)\<rparr>"
    by (simp add: committed_def h l Let_def empty_level_def)
  have live': "live_order ?s i x = live_order s i x" for i x by (rule live_order_cong) (simp_all add: committed_unchanged)
  show ?thesis
  proof (rule book_rep_change [OF rep])
    show "queue_rep (dx_orders ?s) (level_of ?s (k, b, t)) [o_id ord]"
      by (simp add: s' queue_rep_def links)
    show "level_of ?s L = level_of s L" if "L \<noteq> (k, b, t)" for L using committed_level [of L ord s] that h by simp
    show "i \<in> set [o_id ord] \<longleftrightarrow> dx_orders ?s i \<noteq> empty_order \<and> home (dx_orders ?s i) = (k, b, t)" for i
      using q book_repD(2) [OF rep, of i "(k, b, t)"] live_order_ne [OF live] h by (auto simp: s')
    show "(dx_orders s i = empty_order \<or> home (dx_orders s i) = (k, b, t)) \<and> (dx_orders ?s i = empty_order \<or> home (dx_orders ?s i) = (k, b, t))"
      if "dx_orders ?s i \<noteq> dx_orders s i" for i using that fresh h by (auto simp: s' split: if_splits)
    show "live_order ?s i (dx_orders ?s i)" if "dx_orders ?s i \<noteq> empty_order" for i
      using that live book_repD(3) [OF rep, of i] unfolding live' by (auto simp: s' split: if_splits)
    show "tick_bit (bitmap b' (dx_books ?s k')) u \<longleftrightarrow> (if (k', b', u) = (k, b, t) then [o_id ord] \<noteq> [] else tick_bit (bitmap b' (dx_books s k')) u)"
      for k' b' u by (auto simp: s')
    show "best_rep (\<lambda>u. (Q((k, b, t) := [o_id ord])) (k', b', u) \<noteq> []) b' (best_tick b' (dx_books ?s k'))"
      if "bk_base (dx_books ?s k') \<noteq> 0" for k' b'
    proof (cases "k' = k \<and> b' = b")
      case True
      have "MIN_TICK \<le> t" "t \<le> MAX_TICK" "bk_base ?bk \<noteq> 0" using live h by (auto simp: live_order_def home_def)
      from best_rep_add [OF book_repD(5) [OF rep this(3)] this(1,2), of b]
      have "best_rep (\<lambda>u. u = t \<or> Q (k, b, u) \<noteq> []) b (if better b t (best_tick b ?bk) then t else best_tick b ?bk)" .
      moreover have "(\<lambda>u. (Q((k, b, t) := [o_id ord])) (k, b, u) \<noteq> []) = (\<lambda>u. u = t \<or> Q (k, b, u) \<noteq> [])" by auto
      moreover have "best_tick b (dx_books ?s k) = (if better b t (best_tick b ?bk) then t else best_tick b ?bk)" by (simp add: s')
      ultimately show ?thesis using True by (simp only: simp_thms)
    next
      case False
      then have "best_tick b' (dx_books ?s k') = best_tick b' (dx_books s k')"
        "(\<lambda>u. (Q((k, b, t) := [o_id ord])) (k', b', u) \<noteq> []) = (\<lambda>u. Q (k', b', u) \<noteq> [])" by (auto simp: s')
      with book_repD(5) [OF rep, of k' b'] that show ?thesis by (simp add: committed_unchanged del: fun_upd_apply)
    qed
  qed
qed

lemma commit_to_tail:
  assumes rep: "book_rep s Q" and h: "home ord = (k, b, t)" and q: "Q (k, b, t) \<noteq> []"
    and fresh: "dx_orders s (o_id ord) = empty_order" and live: "live_order s (o_id ord) ord" and links: "o_prev ord = 0" "o_next ord = 0"
    and room: "unat (lv_liquidity (level_of s (k, b, t))) + unat (o_remaining ord) < 2 ^ 128"
  shows "book_rep (committed ord s) (Q((k, b, t) := Q (k, b, t) @ [o_id ord]))"
proof -
  let ?s = "committed ord s" and ?bk = "dx_books s k" and ?q = "Q (k, b, t)" and ?i = "o_id ord"
  have qr: "queue_rep (dx_orders s) (book_level b t ?bk) ?q" using book_repD(1) [OF rep, of "(k, b, t)"] by simp
  have mem: "j \<in> set ?q \<longleftrightarrow> dx_orders s j \<noteq> empty_order \<and> home (dx_orders s j) = (k, b, t)" for j by (rule book_repD(2) [OF rep])
  have nz: "0 \<notin> set ?q" using book_rep_ids(1) [OF rep] by blast
  have out: "?i \<notin> set ?q" using mem [of ?i] fresh by simp
  let ?t = "last ?q"
  have tq: "?t \<in> set ?q" by (rule last_in_set [OF q])
  have t: "lv_tail (book_level b t ?bk) = ?t" "?t \<in> set ?q" "?t \<noteq> ?i" "?t \<noteq> 0"
    using qr q tq by (simp_all add: queue_rep_def last_id_def) (use tq out nz in metis)+
  let ?liq = "lv_liquidity (book_level b t ?bk) + o_remaining ord"
  have s': "?s = s\<lparr>dx_books := (dx_books s)(k := put_level b t ((book_level b t ?bk)\<lparr>lv_tail := ?i, lv_liquidity := ?liq\<rparr>) ?bk),
      dx_orders := (dx_orders s)(?t := (dx_orders s ?t)\<lparr>o_next := ?i\<rparr>, ?i := ord\<lparr>o_prev := ?t\<rparr>)\<rparr>"
    using t by (simp add: committed_def h Let_def)
  have live': "live_order ?s i x = live_order s i x" for i x by (rule live_order_cong) (simp_all add: committed_unchanged)
  have tne: "(dx_orders s ?t)\<lparr>o_next := ?i\<rparr> \<noteq> empty_order" "ord\<lparr>o_prev := ?t\<rparr> \<noteq> empty_order"
    using live_order_ne [of s _ "(dx_orders s ?t)\<lparr>o_next := ?i\<rparr>"] live_order_ne [of s _ "ord\<lparr>o_prev := ?t\<rparr>"] live
      book_repD(3) [OF rep, of ?t] mem [of ?t] t by auto
  show ?thesis
  proof (rule book_rep_change [OF rep])
    have "chained (dx_orders ?s) 0 (?q @ [?i]) 0"
    proof -
      have "chained (dx_orders s) 0 ?q 0" "distinct ?q" using qr by (auto simp: queue_rep_def)
      from chained_snoc [OF this out q, of "ord\<lparr>o_prev := ?t\<rparr>"] links show ?thesis by (simp add: s' del: chained_append)
    qed
    moreover have "liquidity (dx_orders ?s) ?q = liquidity (dx_orders s) ?q"
      using out by (intro liquidity_cong) (auto simp: s')
    moreover have "unat ?liq = unat (lv_liquidity (book_level b t ?bk)) + unat (o_remaining ord)"
      using room by (simp add: unat_word_ariths)
    moreover have "first_id (?q @ [?i]) 0 = first_id ?q 0" using q by (cases ?q) auto
    moreover have "level_of ?s (k, b, t) = (book_level b t ?bk)\<lparr>lv_tail := ?i, lv_liquidity := ?liq\<rparr>" "dx_orders ?s ?i = ord\<lparr>o_prev := ?t\<rparr>"
      by (simp_all add: s')
    ultimately show "queue_rep (dx_orders ?s) (level_of ?s (k, b, t)) (?q @ [?i])"
      using qr out by (simp add: queue_rep_def del: chained_append first_id_append)
    show "level_of ?s L = level_of s L" if "L \<noteq> (k, b, t)" for L using committed_level [of L ord s] that h by simp
    show "j \<in> set (?q @ [?i]) \<longleftrightarrow> dx_orders ?s j \<noteq> empty_order \<and> home (dx_orders ?s j) = (k, b, t)" for j
      using mem [of j] mem [of ?t] t tne h by (auto simp: s')
    show "(dx_orders s j = empty_order \<or> home (dx_orders s j) = (k, b, t)) \<and> (dx_orders ?s j = empty_order \<or> home (dx_orders ?s j) = (k, b, t))"
      if "dx_orders ?s j \<noteq> dx_orders s j" for j using that fresh h mem [of ?t] t by (auto simp: s' split: if_splits)
    show "live_order ?s j (dx_orders ?s j)" if "dx_orders ?s j \<noteq> empty_order" for j
      using that live book_repD(3) [OF rep, of j] mem [of ?t] t unfolding live' by (auto simp: s' split: if_splits)
    show "tick_bit (bitmap b' (dx_books ?s k')) u \<longleftrightarrow> (if (k', b', u) = (k, b, t) then ?q @ [?i] \<noteq> [] else tick_bit (bitmap b' (dx_books s k')) u)"
      for k' b' u using book_repD(4) [OF rep, of b k t] q by (auto simp: s')
    show "best_rep (\<lambda>u. (Q((k, b, t) := ?q @ [?i])) (k', b', u) \<noteq> []) b' (best_tick b' (dx_books ?s k'))"
      if "bk_base (dx_books ?s k') \<noteq> 0" for k' b'
    proof -
      have "best_tick b' (dx_books ?s k') = best_tick b' (dx_books s k')"
        "(\<lambda>u. (Q((k, b, t) := ?q @ [?i])) (k', b', u) \<noteq> []) = (\<lambda>u. Q (k', b', u) \<noteq> [])" using q by (auto simp: s' fun_eq_iff)
      with book_repD(5) [OF rep, of k' b'] that show ?thesis by (simp add: committed_unchanged del: fun_upd_apply)
    qed
  qed
qed

lemma committed_rep:
  assumes "book_rep s Q" "dx_orders s (o_id ord) = empty_order" "live_order s (o_id ord) ord" "o_prev ord = 0" "o_next ord = 0"
    and "unat (lv_liquidity (level_of s (home ord))) + unat (o_remaining ord) < 2 ^ 128"
  shows "book_rep (committed ord s) (Q(home ord := Q (home ord) @ [o_id ord]))"
proof -
  obtain k b t where "home ord = (k, b, t)" by (cases "home ord")
  then show ?thesis
    using commit_to_empty [OF assms(1) _ _ assms(2-5)] commit_to_tail [OF assms(1) _ _ assms(2-5)] assms(6)
    by (cases "Q (k, b, t) = []") auto
qed

subsection \<open>Removing\<close>

text \<open>The storage after an order was taken out of its level: what cancelling does to any order, and filling to
  the first one of the best level.\<close>

definition relink :: "order \<Rightarrow> (u128 \<Rightarrow> order) \<Rightarrow> u128 \<Rightarrow> order" where
  "relink ord os =
     (let os = (if o_prev ord \<noteq> 0 then os(o_prev ord := (os (o_prev ord))\<lparr>o_next := o_next ord\<rparr>) else os) in
      if o_next ord \<noteq> 0 then os(o_next ord := (os (o_next ord))\<lparr>o_prev := o_prev ord\<rparr>) else os)"

definition drop_level :: "order \<Rightarrow> tick_level \<Rightarrow> tick_level" where
  "drop_level ord l =
     \<lparr>lv_head = (if o_prev ord = 0 then o_next ord else lv_head l), lv_tail = (if o_next ord = 0 then o_prev ord else lv_tail l),
      lv_liquidity = lv_liquidity l - o_remaining ord\<rparr>"

definition next_best :: "bool \<Rightarrow> int \<times> bool \<Rightarrow> int" where
  "next_best b nxt = (case nxt of (n, found) \<Rightarrow> if found then n else empty_best b)"

definition drop_tick :: "bool \<Rightarrow> int \<Rightarrow> orderbook \<Rightarrow> orderbook" where
  "drop_tick b t bk =
     (let bk = unmark b t bk in if best_tick b bk = t then put_best b (next_best b (next_tick b t bk)) bk else bk)"

definition dropped :: "order \<Rightarrow> dex \<Rightarrow> dex" where
  "dropped ord s = (case home ord of (k, b, t) \<Rightarrow>
     let bk = dx_books s k; l = drop_level ord (book_level b t bk) in
     s\<lparr>dx_books := (dx_books s)(k := put_level b t l (if lv_head l = 0 then drop_tick b t bk else bk)),
       dx_orders := (relink ord (dx_orders s))(o_id ord := empty_order)\<rparr>)"

lemma drop_tick_views [simp]:
  "bk_base (drop_tick b t bk) = bk_base bk" "bk_quote (drop_tick b t bk) = bk_quote bk"
  "book_level b' t' (drop_tick b t bk) = book_level b' t' bk"
  "tick_bit (bitmap b' (drop_tick b t bk)) u \<longleftrightarrow> \<not> (b' = b \<and> u = t) \<and> tick_bit (bitmap b' bk) u"
  "b' \<noteq> b \<Longrightarrow> best_tick b' (drop_tick b t bk) = best_tick b' bk"
  by (auto simp: drop_tick_def Let_def)

lemma dropped_unchanged:
  "dx_next_order_id (dropped ord s) = dx_next_order_id s" "dx_balances (dropped ord s) = dx_balances s"
  "dx_log (dropped ord s) = dx_log s" "dx_book_keys (dropped ord s) = dx_book_keys s"
  "bk_base (dx_books (dropped ord s) k) = bk_base (dx_books s k)"
  "bk_quote (dx_books (dropped ord s) k) = bk_quote (dx_books s k)"
  by (auto simp: dropped_def home_def Let_def)

lemma dropped_level: "L \<noteq> home ord \<Longrightarrow> level_of (dropped ord s) L = level_of s L"
  by (cases L) (auto simp: dropped_def Let_def split: prod.split)

lemma relink_fields:
  "o_next (relink ord os j) = (if j \<noteq> 0 \<and> j = o_prev ord then o_next ord else o_next (os j))"
  "o_prev (relink ord os j) = (if j \<noteq> 0 \<and> j = o_next ord then o_prev ord else o_prev (os j))"
  "o_remaining (relink ord os j) = o_remaining (os j)" "home (relink ord os j) = home (os j)"
  "live_order s i (relink ord os j) = live_order s i (os j)"
  "relink ord os j \<noteq> os j \<Longrightarrow> j = o_prev ord \<or> j = o_next ord"
  by (auto simp: relink_def Let_def split: if_splits)

lemma first_last_remove:
  assumes "distinct (xs @ i # ys)" "0 \<notin> set (xs @ i # ys)"
  shows "first_id (xs @ ys) 0 = (if last_id xs 0 = 0 then first_id ys 0 else first_id (xs @ i # ys) 0)"
    and "last_id (xs @ ys) 0 = (if first_id ys 0 = 0 then last_id xs 0 else last_id (xs @ i # ys) 0)"
  using assms by (cases xs; cases ys; auto simp: last_id_def split: if_splits; metis last_in_set)+

lemma dropped_rep:
  assumes rep: "book_rep s Q" and i: "i \<in> set (Q (k, b, t))" and ord: "ord = dx_orders s i"
  shows "book_rep (dropped ord s) (Q((k, b, t) := remove1 i (Q (k, b, t))))"
proof -
  let ?s = "dropped ord s" and ?bk = "dx_books s k" and ?q = "Q (k, b, t)"
  have id: "i \<noteq> 0" "o_id ord = i" "home ord = (k, b, t)" "live_order s i ord" using book_rep_ids [OF rep i] ord by auto
  obtain xs ys where q: "?q = xs @ i # ys" "i \<notin> set xs" using split_list_first [OF i] by blast
  have qr: "queue_rep (dx_orders s) (book_level b t ?bk) ?q" using book_repD(1) [OF rep, of "(k, b, t)"] by simp
  have d: "distinct (xs @ i # ys)" "chained (dx_orders s) 0 (xs @ i # ys) 0" using qr q by (auto simp: queue_rep_def)
  have nz: "0 \<notin> set (xs @ i # ys)" using book_rep_ids(1) [OF rep, of _ "(k, b, t)"] q by metis
  have pn: "o_prev ord = last_id xs 0" "o_next ord = first_id ys 0" using d(2) ord by auto
  have rm: "remove1 i ?q = xs @ ys" using q by (simp add: remove1_append)
  have mem: "j \<in> set ?q \<longleftrightarrow> dx_orders s j \<noteq> empty_order \<and> home (dx_orders s j) = (k, b, t)" for j by (rule book_repD(2) [OF rep])
  have os: "dx_orders ?s j = (if j = i then empty_order else relink ord (dx_orders s) j)" for j
    by (simp add: dropped_def id Let_def)
  have keep: "relink ord (dx_orders s) j = empty_order \<longleftrightarrow> dx_orders s j = empty_order" for j
  proof (cases "relink ord (dx_orders s) j = dx_orders s j")
    case False
    then have "j \<in> set xs \<union> set ys \<or> j = 0"
      using relink_fields(6) [OF False] pn by (cases xs rule: rev_cases; cases ys) auto
    moreover have "relink ord (dx_orders s) 0 = dx_orders s 0" by (simp add: relink_def Let_def)
    ultimately have "dx_orders s j \<noteq> empty_order" using False mem [of j] q by auto
    then have "live_order s j (dx_orders s j)" by (rule book_repD(3) [OF rep])
    then have "live_order s j (relink ord (dx_orders s) j)" by (simp add: relink_fields)
    with \<open>dx_orders s j \<noteq> empty_order\<close> show ?thesis by (simp add: live_order_ne)
  qed simp
  have live': "live_order ?s j x = live_order s j x" for j x by (rule live_order_cong) (simp_all add: dropped_unchanged)
  let ?l = "drop_level ord (book_level b t ?bk)"
  have lev: "level_of ?s (k, b, t) = ?l" by (simp add: dropped_def id Let_def)
  have empty: "lv_head ?l = 0 \<longleftrightarrow> xs @ ys = []"
  proof -
    have "lv_head ?l = first_id (xs @ ys) 0"
      using first_last_remove(1) [OF d(1) nz] qr q(1) by (simp add: drop_level_def pn queue_rep_def)
    moreover have "first_id (xs @ ys) 0 = 0 \<longleftrightarrow> xs @ ys = []" using nz by (cases "xs @ ys") (auto simp: append_eq_Cons_conv)
    ultimately show ?thesis by simp
  qed
  show ?thesis
    unfolding rm
  proof (rule book_rep_change [OF rep])
    show "queue_rep (dx_orders ?s) (level_of ?s (k, b, t)) (xs @ ys)"
    proof -
      have "chained (dx_orders ?s) 0 (xs @ ys) 0"
      proof (rule chained_remove [OF d(2,1) nz], unfold ord [symmetric])
        show "o_next (dx_orders ?s j) = (if j = o_prev ord then o_next ord else o_next (dx_orders s j)) \<and>
          o_prev (dx_orders ?s j) = (if j = o_next ord then o_prev ord else o_prev (dx_orders s j))" if "j \<in> set xs \<union> set ys" for j
          using that d(1) nz unfolding os by (auto simp: relink_fields)
      qed
      moreover have "liquidity (dx_orders ?s) (xs @ ys) = liquidity (dx_orders s) (xs @ ys)"
        using d(1) by (intro liquidity_cong) (auto simp: os relink_fields)
      moreover have "unat (lv_liquidity (book_level b t ?bk) - o_remaining ord) = liquidity (dx_orders s) (xs @ ys)"
        using qr q(1) ord by (simp add: queue_rep_def unat_sub word_le_nat_alt)
      ultimately show ?thesis
        using d(1) first_last_remove [OF d(1) nz] qr q(1) unfolding lev
        by (auto simp: queue_rep_def drop_level_def pn)
    qed
    show "level_of ?s L = level_of s L" if "L \<noteq> (k, b, t)" for L using dropped_level [of L ord s] that id by simp
    show "j \<in> set (xs @ ys) \<longleftrightarrow> dx_orders ?s j \<noteq> empty_order \<and> home (dx_orders ?s j) = (k, b, t)" for j
      using mem [of j] q d(1) by (auto simp: os keep relink_fields)
    show "(dx_orders s j = empty_order \<or> home (dx_orders s j) = (k, b, t)) \<and> (dx_orders ?s j = empty_order \<or> home (dx_orders ?s j) = (k, b, t))"
      if "dx_orders ?s j \<noteq> dx_orders s j" for j
    proof (cases "j = i")
      case True
      then show ?thesis using id(3) by (simp add: os flip: ord)
    next
      case False
      with that have "relink ord (dx_orders s) j \<noteq> dx_orders s j" by (simp add: os)
      moreover have "relink ord (dx_orders s) 0 = dx_orders s 0" by (simp add: relink_def Let_def)
      ultimately have "j \<in> set (xs @ ys)" using relink_fields(6) [of ord "dx_orders s" j] pn by (cases xs rule: rev_cases; cases ys) auto
      then show ?thesis using mem [of j] q False by (simp add: os relink_fields)
    qed
    show "live_order ?s j (dx_orders ?s j)" if "dx_orders ?s j \<noteq> empty_order" for j
      using that book_repD(3) [OF rep, of j] unfolding live' by (simp add: os keep relink_fields split: if_splits)
    show "tick_bit (bitmap b' (dx_books ?s k')) u \<longleftrightarrow> (if (k', b', u) = (k, b, t) then xs @ ys \<noteq> [] else tick_bit (bitmap b' (dx_books s k')) u)"
      for k' b' u using book_repD(4) [OF rep, of b k t] empty q(1) by (auto simp: dropped_def id Let_def)
    show "best_rep (\<lambda>u. (Q((k, b, t) := xs @ ys)) (k', b', u) \<noteq> []) b' (best_tick b' (dx_books ?s k'))"
      if base: "bk_base (dx_books ?s k') \<noteq> 0" for k' b'
    proof (cases "k' = k \<and> b' = b \<and> xs @ ys = []")
      case True
      let ?u = "\<lambda>u. Q (k, b, u) \<noteq> []"
      have used: "(\<lambda>u. (Q((k, b, t) := xs @ ys)) (k, b, u) \<noteq> []) = (\<lambda>u. u \<noteq> t \<and> ?u u)" using True by (auto simp: fun_eq_iff)
      have best: "best_rep ?u b (best_tick b ?bk)"
        by (rule book_repD(5) [OF rep]) (use base True in \<open>simp add: dropped_unchanged\<close>)
      obtain n f where n: "next_tick b t (unmark b t ?bk) = (n, f)" by fastforce
      have "best_rep (\<lambda>u. u \<noteq> t \<and> ?u u) b (next_best b (n, f))" if "best_tick b ?bk = t"
        using best_rep_next(1) [of ?u b t "unmark b t ?bk" n f] best that n q(1) book_repD(4) [OF rep, of b k]
          book_rep_initialized [OF rep, of k b] by (simp add: next_best_def)
      moreover have "best_rep (\<lambda>u. u \<noteq> t \<and> ?u u) b (best_tick b ?bk)" if "best_tick b ?bk \<noteq> t"
        using best_rep_other [OF best that] q(1) by simp
      moreover have "best_tick b (dx_books ?s k) = (if best_tick b ?bk = t then next_best b (n, f) else best_tick b ?bk)"
        using empty True n by (simp add: dropped_def id Let_def drop_tick_def)
      ultimately have "best_rep (\<lambda>u. u \<noteq> t \<and> ?u u) b (best_tick b (dx_books ?s k))"
        by (cases "best_tick b ?bk = t") (simp_all only: simp_thms if_True if_False)
      then show ?thesis using True used by (simp only: simp_thms)
    next
      case False
      have "best_tick b' (dx_books ?s k') = best_tick b' (dx_books s k')"
        using False empty by (cases "b' = b") (auto simp: dropped_def id Let_def)
      moreover have "(\<lambda>u. (Q((k, b, t) := xs @ ys)) (k', b', u) \<noteq> []) = (\<lambda>u. Q (k', b', u) \<noteq> [])"
        using False q(1) by (auto simp: fun_eq_iff)
      ultimately show ?thesis using book_repD(5) [OF rep, of k' b'] base by (simp add: dropped_unchanged del: fun_upd_apply)
    qed
  qed
qed

subsection \<open>What the operations on a book do\<close>

definition credit :: "address \<Rightarrow> address \<Rightarrow> u128 \<Rightarrow> dex \<Rightarrow> dex" where
  "credit u tok x s = s\<lparr>dx_balances := (dx_balances s)(u := (dx_balances s u)(tok := dx_balances s u tok + x))\<rparr>"

definition log_event :: "dex_event \<Rightarrow> dex \<Rightarrow> dex" where
  "log_event e s = s\<lparr>dx_log := dx_log s @ [e]\<rparr>"

lemma increment_balance_run:
  "increment_balance u tok x s =
     (if unat (dx_balances s u tok) + unat x < 2 ^ 128 then (Inr (), credit u tok x s) else (Inl under_overflow, s))"
  by (simp add: increment_balance_def dex_run checked_add_def credit_def)

text \<open>What an order has in escrow: base tokens for an ask, and for a bid the quote tokens that its remaining
  amount costs, rounded up.\<close>

definition escrow :: "order \<Rightarrow> nat" where
  "escrow ord = (if o_is_bid ord then rdiv Up (unat (o_remaining ord) * price (o_tick ord)) 100000 else unat (o_remaining ord))"

definition escrow_token :: "orderbook \<Rightarrow> order \<Rightarrow> address" where
  "escrow_token bk ord = (if o_is_bid ord then bk_quote bk else bk_base bk)"

lemma live_tick: "live_order s i ord \<Longrightarrow> is_i16 (o_tick ord)"
  using tick_range by (auto simp: live_order_def)

lemma live_escrow: "live_order s i ord \<Longrightarrow> escrow ord < 2 ^ 128"
proof (cases "o_is_bid ord")
  case True
  assume l: "live_order s i ord"
  then have "unat (o_remaining ord) * price (o_tick ord) \<le> unat (o_amount ord) * price (o_tick ord)"
    by (intro mult_le_mono1) (simp add: live_order_def word_le_nat_alt)
  from rdiv_mono [OF this, of Up 100000] l True show ?thesis by (simp add: escrow_def live_order_def del: rdiv.simps)
qed (use unsigned_less [of "o_remaining ord", where ?'a = nat] in \<open>simp add: escrow_def\<close>)

lemma base_to_quote_fits:
  "is_i16 t \<Longrightarrow> rdiv r (unat x * price t) 100000 < 2 ^ 128 \<Longrightarrow>
    base_to_quote x t r = Some (of_nat (rdiv r (unat x * price t) 100000))"
  by (simp add: base_to_quote_Some unsigned_of_nat take_bit_eq_mod del: rdiv.simps)

lemma book_commutes:
  "put_best b n (put_level b' t l bk) = put_level b' t l (put_best b n bk)"
  "unmark b n (put_level b' t l bk) = put_level b' t l (unmark b n bk)"
  "next_tick b u (put_level b' t l bk) = next_tick b u bk"
  by (auto simp: book_views unmark_def next_tick_def)

lemma advance_best_tick_run:
  "advance_best_tick k b nxt s = (Inr (), s\<lparr>dx_books := (dx_books s)(k := put_best b (next_best b nxt) (dx_books s k))\<rparr>)"
  by (cases nxt) (auto simp: advance_best_tick_def dex_run next_best_def empty_best_def)

lemma drop_level_liquidity:
  assumes "book_rep s Q" "i \<in> set (Q (k, b, t))"
  shows "o_remaining (dx_orders s i) \<le> lv_liquidity (book_level b t (dx_books s k))"
proof -
  from split_list [OF assms(2)] obtain xs ys where "Q (k, b, t) = xs @ i # ys" by blast
  with book_repD(1) [OF assms(1), of "(k, b, t)"] show ?thesis by (simp add: queue_rep_def word_le_nat_alt)
qed

lemma unlink_order_run:
  "unlink_order ord l s =
     (Inr (l\<lparr>lv_head := if o_prev ord = 0 then o_next ord else lv_head l, lv_tail := if o_next ord = 0 then o_prev ord else lv_tail l\<rparr>),
      s\<lparr>dx_orders := relink ord (dx_orders s)\<rparr>)"
  by (cases l; cases s) (auto simp: unlink_order_def relink_def dex_run)

lemma clear_tick_run:
  assumes "home ord = (k, b, t)" "MIN_TICK \<le> t" "t \<le> MAX_TICK"
  shows "clear_tick ord s = (Inr (), s\<lparr>dx_books := (dx_books s)(k := drop_tick b t (dx_books s k))\<rparr>)"
proof -
  have "(if b then best_bid_tick bk else best_ask_tick bk) = best_tick b bk" for bk by (simp add: best_tick_def)
  with assms show ?thesis
    by (auto simp: clear_tick_def home_def dex_run drop_tick_def advance_best_tick_run)
qed

lemma drop_level_eq:
  "l\<lparr>lv_head := if o_prev ord = 0 then o_next ord else lv_head l, lv_tail := if o_next ord = 0 then o_prev ord else lv_tail l,
     lv_liquidity := lv_liquidity l - o_remaining ord\<rparr> = drop_level ord l"
  by (cases l) (simp add: drop_level_def)

text \<open>Cancelling refunds exactly what the order has in escrow.\<close>

lemma cancel_active_run:
  assumes rep: "book_rep s Q" and i: "i \<in> set (Q (k, b, t))" and ord: "ord = dx_orders s i"
  defines "room \<equiv> unat (dx_balances s (o_maker ord) (escrow_token (dx_books s k) ord)) + escrow ord < 2 ^ 128"
  shows "room \<Longrightarrow> cancel_active_order ord s = (Inr (), log_event (OrderCancelled i)
    (credit (o_maker ord) (escrow_token (dx_books s k) ord) (of_nat (escrow ord)) (dropped ord s)))"
    and "\<not> room \<Longrightarrow> fst (cancel_active_order ord s) = Inl under_overflow"
proof -
  have id: "i \<noteq> 0" "o_id ord = i" "home ord = (k, b, t)" "live_order s i ord" using book_rep_ids [OF rep i] ord by auto
  then have h: "o_book_key ord = k" "o_is_bid ord = b" "o_tick ord = t" by (auto simp: home_def)
  have tick: "MIN_TICK \<le> t" "t \<le> MAX_TICK" "is_i16 t" using id(4) live_tick [OF id(4)] h by (auto simp: live_order_def)
  have sub: "checked_sub (lv_liquidity l) (o_remaining ord) = Some (lv_liquidity l - o_remaining ord)"
    if "lv_liquidity l = lv_liquidity (book_level b t (dx_books s k))" for l :: tick_level
    using drop_level_liquidity [OF rep i] ord that by (simp add: checked_sub_def)
  have "unat (of_nat (escrow ord) :: u128) = escrow ord"
    using live_escrow [OF id(4)] by (simp add: unsigned_of_nat take_bit_eq_mod)
  moreover have "b \<Longrightarrow> base_to_quote (o_remaining ord) t Up = Some (of_nat (escrow ord))"
    using base_to_quote_fits [OF tick(3), of Up "o_remaining ord"] live_escrow [OF id(4)] by (simp add: escrow_def h del: rdiv.simps)
  moreover have "\<not> b \<Longrightarrow> of_nat (escrow ord) = o_remaining ord" "\<not> b \<Longrightarrow> escrow ord = unat (o_remaining ord)" by (simp_all add: escrow_def h)
  moreover have "lv_head (drop_level ord l) = (if o_prev ord = 0 then o_next ord else lv_head l)" for l by (simp add: drop_level_def)
  note amounts = calculation this
  note simps = cancel_active_order_def dex_run unlink_order_run h drop_level_eq [of _ ord] clear_tick_run [OF id(3)]
    increment_balance_run escrow_token_def credit_def log_event_def dropped_def
  show "cancel_active_order ord s = (Inr (), log_event (OrderCancelled i)
    (credit (o_maker ord) (escrow_token (dx_books s k) ord) (of_nat (escrow ord)) (dropped ord s)))" if room
    using that amounts tick id(2,3) sub unfolding room_def by (cases b) (simp_all add: simps cong: if_cong)
  show "fst (cancel_active_order ord s) = Inl under_overflow" if "\<not> room"
    using that amounts tick id(2,3) sub unfolding room_def by (cases b) (simp_all add: simps cong: if_cong)
qed

subsection \<open>Filling\<close>

text \<open>The first order of the best level of a side: the one with price-time priority.\<close>

definition best_order :: "b256 \<Rightarrow> bool \<Rightarrow> dex \<Rightarrow> (tick_level \<times> order) option" where
  "best_order k b s =
     (let t = best_tick b (dx_books s k); l = book_level b t (dx_books s k) in
      if t = empty_best b then None else Some (l, dx_orders s (lv_head l)))"

lemma best_order_Some:
  assumes rep: "book_rep s Q" and init: "bk_base (dx_books s k) \<noteq> 0" and best: "best_order k b s = Some (l, ord)"
  shows "\<exists>i q t. Q (k, b, t) = i # q \<and> best_tick b (dx_books s k) = t \<and> l = book_level b t (dx_books s k) \<and> ord = dx_orders s i \<and>
    live_order s i ord \<and> home ord = (k, b, t) \<and> o_prev ord = 0 \<and> o_next ord = first_id q 0"
proof -
  let ?t = "best_tick b (dx_books s k)"
  have "Q (k, b, ?t) \<noteq> []"
    using book_repD(5) [OF rep init, of b] best by (auto simp: best_rep_def best_order_def Let_def split: if_splits)
  then obtain i q where q: "Q (k, b, ?t) = i # q" by (cases "Q (k, b, ?t)") auto
  have "queue_rep (dx_orders s) (book_level b ?t (dx_books s k)) (i # q)" using book_repD(1) [OF rep, of "(k, b, ?t)"] q by simp
  with best have "l = book_level b ?t (dx_books s k)" "ord = dx_orders s i" "o_prev ord = 0" "o_next ord = first_id q 0"
    by (auto simp: best_order_def Let_def queue_rep_def split: if_splits)
  with q book_rep_ids [OF rep, of i "(k, b, ?t)"] show ?thesis by auto
qed

lemma best_order_None:
  assumes rep: "book_rep s Q" and init: "bk_base (dx_books s k) \<noteq> 0" and best: "best_order k b s = None"
  shows "Q (k, b, t) = []"
proof (rule ccontr)
  assume q: "Q (k, b, t) \<noteq> []"
  have "Q (k, b, empty_best b) \<noteq> []"
    using book_repD(5) [OF rep init, of b] best q by (auto simp: best_rep_def best_order_def Let_def split: if_splits)
  from book_rep_initialized [OF rep this] show False
    by (auto simp: empty_best_def I16_MIN_def I16_MAX_def MIN_TICK_def MAX_TICK_def split: if_splits)
qed

lemma get_best_price_level_run:
  "ebind (get_best_price_level k b) (\<lambda>l. ebind (read_order (lv_head l)) (\<lambda>ord. f l ord)) s =
     (case best_order k b s of None \<Rightarrow> (Inl (StablecoinDEX DEX_InsufficientLiquidity), s) | Some (l, ord) \<Rightarrow> f l ord s)"
  by (cases b) (simp_all add: get_best_price_level_def dex_run best_order_def best_tick_def empty_best_def)

text \<open>Filling the best order removes it and returns the order that is then the best.\<close>

lemma advance_book_run:
  assumes rep: "book_rep s Q" and init: "bk_base (dx_books s k) \<noteq> 0" and best: "best_order k b s = Some (l, ord)"
  shows "advance_book k ord l s = (Inr (best_order k b (dropped ord s)), dropped ord s)"
proof -
  from best_order_Some [OF assms] obtain i q t where q: "Q (k, b, t) = i # q" and t: "best_tick b (dx_books s k) = t"
    and l: "l = book_level b t (dx_books s k)" and ord: "ord = dx_orders s i" and live: "live_order s i ord"
    and h: "home ord = (k, b, t)" and pn: "o_prev ord = 0" "o_next ord = first_id q 0" by blast
  have o: "o_id ord = i" "o_book_key ord = k" "o_is_bid ord = b" "o_tick ord = t" "MIN_TICK \<le> t" "t \<le> MAX_TICK"
    using h live by (auto simp: home_def live_order_def)
  have tne: "t \<noteq> empty_best b" using o(5,6) by (auto simp: empty_best_def I16_MIN_def I16_MAX_def MIN_TICK_def MAX_TICK_def)
  have qr: "queue_rep (dx_orders s) l (i # q)" using book_repD(1) [OF rep, of "(k, b, t)"] q l by simp
  have nz: "0 \<notin> set (i # q)" using book_rep_ids(1) [OF rep, of _ "(k, b, t)"] q by metis
  show ?thesis
  proof (cases "q = []")
    case True
    have "lv_liquidity l = o_remaining ord" using qr True ord by (simp add: queue_rep_def word_unat_eq_iff)
    then have dl: "drop_level ord l = empty_level" using pn True by (simp add: drop_level_def empty_level_def)
    let ?bk = "unmark b t (dx_books s k)"
    obtain n f where n: "next_tick b t ?bk = (n, f)" by fastforce
    have s': "dropped ord s = s\<lparr>dx_books := (dx_books s)(k := put_level b t empty_level (put_best b (next_best b (n, f)) ?bk)),
        dx_orders := (dx_orders s)(i := empty_order)\<rparr>"
      using dl t n by (simp add: dropped_def h o l [symmetric] drop_tick_def relink_def pn True Let_def empty_level_def)
    have "f \<Longrightarrow> MIN_TICK \<le> n \<and> n \<le> MAX_TICK \<and> n \<noteq> t"
      using next_bid_first [of "bitmap b ?bk" t] next_ask_first [of "bitmap b ?bk" t] n o(5,6)
      by (cases b) (auto simp: next_tick_def first_bid_def first_ask_def)
    then have "f \<Longrightarrow> n \<noteq> empty_best b \<and> n \<noteq> t"
      by (auto simp: empty_best_def I16_MIN_def I16_MAX_def MIN_TICK_def MAX_TICK_def)
    then show ?thesis
      using n o(5,6) pn True
      by (auto simp: advance_book_def dex_run o s' book_commutes advance_best_tick_run best_order_def next_best_def split: if_splits)
  next
    case False
    then obtain j q' where j: "q = j # q'" by (cases q) auto
    have nn: "o_next ord = j" "j \<noteq> 0" "j \<noteq> i" using pn(2) j nz qr by (auto simp: queue_rep_def)
    have le: "o_remaining ord \<le> lv_liquidity l" using drop_level_liquidity [OF rep, of i k b t] q l ord by simp
    have dl: "drop_level ord l = l\<lparr>lv_head := j, lv_liquidity := lv_liquidity l - o_remaining ord\<rparr>"
      using nn pn by (cases l) (simp add: drop_level_def)
    have s': "dropped ord s = s\<lparr>dx_books := (dx_books s)(k := put_level b t (drop_level ord l) (dx_books s k)),
        dx_orders := (dx_orders s)(j := (dx_orders s j)\<lparr>o_prev := 0\<rparr>, i := empty_order)\<rparr>"
      using nn by (simp add: dropped_def h o l [symmetric] relink_def pn dl Let_def)
    show ?thesis
      using nn le t tne by (simp add: advance_book_def dex_run o dl s' checked_sub_def best_order_def fun_upd_twist [of j i])
  qed
qed

text \<open>A partial fill leaves the order at the head of its queue.\<close>

definition partly_filled :: "order \<Rightarrow> u128 \<Rightarrow> dex \<Rightarrow> dex" where
  "partly_filled ord x s = (case home ord of (k, b, t) \<Rightarrow>
     let l = book_level b t (dx_books s k) in
     s\<lparr>dx_books := (dx_books s)(k := put_level b t (l\<lparr>lv_liquidity := lv_liquidity l - x\<rparr>) (dx_books s k)),
       dx_orders := (dx_orders s)(o_id ord := (dx_orders s (o_id ord))\<lparr>o_remaining := o_remaining ord - x\<rparr>)\<rparr>)"

lemma partly_filled_unchanged:
  "dx_next_order_id (partly_filled ord x s) = dx_next_order_id s" "dx_balances (partly_filled ord x s) = dx_balances s"
  "dx_log (partly_filled ord x s) = dx_log s" "dx_book_keys (partly_filled ord x s) = dx_book_keys s"
  "bk_base (dx_books (partly_filled ord x s) k) = bk_base (dx_books s k)"
  "bk_quote (dx_books (partly_filled ord x s) k) = bk_quote (dx_books s k)"
  by (auto simp: partly_filled_def home_def Let_def)

lemma partly_filled_rep:
  assumes rep: "book_rep s Q" and i: "i \<in> set (Q (k, b, t))" and ord: "ord = dx_orders s i" and x: "x < o_remaining ord"
  shows "book_rep (partly_filled ord x s) Q"
proof -
  let ?s = "partly_filled ord x s" and ?bk = "dx_books s k" and ?q = "Q (k, b, t)"
  have id: "i \<noteq> 0" "o_id ord = i" "home ord = (k, b, t)" "live_order s i ord" using book_rep_ids [OF rep i] ord by auto
  have s': "?s = s\<lparr>dx_books := (dx_books s)(k := put_level b t ((book_level b t ?bk)\<lparr>lv_liquidity := lv_liquidity (book_level b t ?bk) - x\<rparr>) ?bk),
      dx_orders := (dx_orders s)(i := ord\<lparr>o_remaining := o_remaining ord - x\<rparr>)\<rparr>"
    by (simp add: partly_filled_def id ord [symmetric] Let_def)
  have live': "live_order ?s j y = live_order s j y" for j y by (rule live_order_cong) (simp_all add: partly_filled_unchanged)
  have rem: "unat (o_remaining ord - x) = unat (o_remaining ord) - unat x" "0 < unat (o_remaining ord) - unat x"
    using x by (simp_all add: unat_sub word_less_nat_alt word_le_nat_alt)
  have live: "live_order s i (ord\<lparr>o_remaining := o_remaining ord - x\<rparr>)"
    using id(4) rem by (auto simp: live_order_def word_le_nat_alt simp flip: unsigned_eq_0_iff)
  have mem: "j \<in> set ?q \<longleftrightarrow> dx_orders s j \<noteq> empty_order \<and> home (dx_orders s j) = (k, b, t)" for j by (rule book_repD(2) [OF rep])
  have "book_rep ?s (Q((k, b, t) := ?q))"
  proof (rule book_rep_change [OF rep])
    have qr: "queue_rep (dx_orders s) (book_level b t ?bk) ?q" using book_repD(1) [OF rep, of "(k, b, t)"] by simp
    obtain xs ys where q: "?q = xs @ i # ys" using split_list [OF i] by blast
    then have "i \<notin> set xs \<union> set ys" using qr by (simp add: queue_rep_def)
    then have "liquidity (dx_orders ?s) xs = liquidity (dx_orders s) xs" "liquidity (dx_orders ?s) ys = liquidity (dx_orders s) ys"
      by (auto intro!: liquidity_cong simp: s')
    then have "liquidity (dx_orders ?s) ?q + unat x = liquidity (dx_orders s) ?q" using rem q by (simp add: s' flip: ord)
    moreover have "chained (dx_orders ?s) 0 ?q 0 = chained (dx_orders s) 0 ?q 0" by (rule chained_cong) (simp add: s' flip: ord)
    ultimately show "queue_rep (dx_orders ?s) (level_of ?s (k, b, t)) ?q"
      using qr by (auto simp: queue_rep_def s' unat_sub word_le_nat_alt)
    show "level_of ?s L = level_of s L" if "L \<noteq> (k, b, t)" for L using that by (cases L) (auto simp: s')
    show "j \<in> set ?q \<longleftrightarrow> dx_orders ?s j \<noteq> empty_order \<and> home (dx_orders ?s j) = (k, b, t)" for j
      using mem [of j] live_order_ne [OF live] id(3) i by (auto simp: s')
    show "(dx_orders s j = empty_order \<or> home (dx_orders s j) = (k, b, t)) \<and> (dx_orders ?s j = empty_order \<or> home (dx_orders ?s j) = (k, b, t))"
      if "dx_orders ?s j \<noteq> dx_orders s j" for j using that id(3) by (auto simp: s' split: if_splits simp flip: ord)
    show "live_order ?s j (dx_orders ?s j)" if "dx_orders ?s j \<noteq> empty_order" for j
      using that live book_repD(3) [OF rep, of j] unfolding live' by (auto simp: s' split: if_splits)
    show "tick_bit (bitmap b' (dx_books ?s k')) u \<longleftrightarrow> (if (k', b', u) = (k, b, t) then ?q \<noteq> [] else tick_bit (bitmap b' (dx_books s k')) u)"
      for k' b' u using book_repD(4) [OF rep, of b k t] i by (auto simp: s')
    show "best_rep (\<lambda>u. (Q((k, b, t) := ?q)) (k', b', u) \<noteq> []) b' (best_tick b' (dx_books ?s k'))" if "bk_base (dx_books ?s k') \<noteq> 0" for k' b'
      using book_repD(5) [OF rep, of k' b'] that by (auto simp: s')
  qed
  then show ?thesis by simp
qed

lemma partial_fill_run:
  assumes rep: "book_rep s Q" and i: "i \<in> set (Q (k, b, t))" and ord: "ord = dx_orders s i" and l: "l = book_level b t (dx_books s k)"
    and x: "x < o_remaining ord" and run: "partial_fill_order ord l x taker s = (Inr y, s')"
  shows "\<exists>q. unat q = rdiv (if b then Down else Up) (unat x * price t) 100000 \<and> y = (if b then q else x) \<and>
    (let tok = (if b then bk_base (dx_books s k) else bk_quote (dx_books s k)); z = (if b then x else q) in
     unat (dx_balances s (o_maker ord) tok) + unat z < 2 ^ 128 \<and>
     s' = log_event (OrderFilled i (o_maker ord) taker x True) (credit (o_maker ord) tok z (partly_filled ord x s)))"
proof -
  have id: "o_id ord = i" "home ord = (k, b, t)" "live_order s i ord" using book_rep_ids [OF rep i] ord by auto
  then have h: "o_book_key ord = k" "o_is_bid ord = b" "o_tick ord = t" by (auto simp: home_def)
  have i16: "is_i16 t" using live_tick [OF id(3)] h by simp
  have le: "x \<le> lv_liquidity l" using x drop_level_liquidity [OF rep i] ord l by (meson order.strict_implies_order order.trans)
  from run obtain q where "base_to_quote x t (if b then Down else Up) = Some q"
    by (auto simp: partial_fill_order_def dex_run h split: option.splits sum.splits prod.splits)
  with run i16 le show ?thesis
    by (intro exI [of _ q])
      (auto simp: partial_fill_order_def dex_run h id l ord [symmetric] base_to_quote_Some increment_balance_run checked_sub_def partly_filled_def credit_def
        log_event_def split: if_splits)
qed

subsection \<open>Frames\<close>

lemma book_rep_frame:
  assumes "dx_orders s' = dx_orders s" "dx_books s' = dx_books s" "dx_next_order_id s \<le> dx_next_order_id s'" "book_rep s Q"
  shows "book_rep s' Q"
proof -
  have "live_order s' i x" if "live_order s i x" for i x using that assms(1-3) by (auto simp: live_order_def)
  moreover have "level_of s' L = level_of s L" for L using assms(2) by (cases L) simp
  ultimately show ?thesis using assms(1,2,4) unfolding book_rep_def by simp
qed

lemma credit_unchanged [simp]:
  "dx_orders (credit u tok x s) = dx_orders s" "dx_books (credit u tok x s) = dx_books s"
  "dx_next_order_id (credit u tok x s) = dx_next_order_id s" "dx_book_keys (credit u tok x s) = dx_book_keys s"
  "dx_orders (log_event e s) = dx_orders s" "dx_books (log_event e s) = dx_books s"
  "dx_next_order_id (log_event e s) = dx_next_order_id s" "dx_balances (log_event e s) = dx_balances s"
  by (simp_all add: credit_def log_event_def)

lemma credit_rep [simp]: "book_rep (credit u tok x s) Q = book_rep s Q" "book_rep (log_event e s) Q = book_rep s Q"
  by (intro iffI; erule book_rep_frame [rotated 3]; simp)+

end
