(* ===== verification/Dex_Ledger.thy ===== *)
theory Dex_Ledger
  imports Dex_Book
begin

section \<open>What the exchange owes\<close>

text \<open>
  The exchange owes its users their internal balances and what their orders have in escrow. Here: by how much
  each change of the storage changes what is owed in a token. A fill releases at least what the taker
  receives: the part of a bid that is filled is rounded down and the rest up, so their sum never
  exceeds what was in escrow.
\<close>

definition order_owes :: "dex \<Rightarrow> address \<Rightarrow> u128 \<Rightarrow> nat" where
  "order_owes s T i = (let ord = dx_orders s i in
     if escrow_token (dx_books s (o_book_key ord)) ord = T then escrow ord else 0)"

definition dex_owes :: "dex \<Rightarrow> address \<Rightarrow> nat" where
  "dex_owes s T = (\<Sum>i\<in>UNIV. order_owes s T i) + (\<Sum>u\<in>UNIV. unat (dx_balances s u T))"

text \<open>The sizes of all orders on the books, as they were placed.\<close>

definition placed :: "dex \<Rightarrow> nat" where
  "placed s = (\<Sum>i\<in>UNIV. unat (o_amount (dx_orders s i)))"

definition in_token :: "address \<Rightarrow> nat \<Rightarrow> address \<Rightarrow> nat" where
  "in_token T x T' = (if T' = T then x else 0)"

lemma sum_one:
  fixes f g :: "'a::finite \<Rightarrow> nat"
  assumes "\<And>j. j \<noteq> i \<Longrightarrow> g j = f j"
  shows "(\<Sum>j\<in>UNIV. g j) + f i = (\<Sum>j\<in>UNIV. f j) + g i"
proof -
  have "g = f(i := g i)" using assms by (auto simp: fun_eq_iff)
  then show ?thesis using sum_fun_upd [of f i "g i"] by simp
qed

lemma escrow_empty [simp]: "escrow empty_order = 0" "o_amount empty_order = 0"
  by (simp_all add: escrow_def empty_order_def)

lemma owes_other [simp]:
  "dex_owes (log_event e s) = dex_owes s" "placed (log_event e s) = placed s" "placed (credit u tok x s) = placed s"
  "dex_owes (s\<lparr>dx_next_order_id := n\<rparr>) = dex_owes s" "placed (s\<lparr>dx_next_order_id := n\<rparr>) = placed s"
  by (auto simp: dex_owes_def order_owes_def placed_def log_event_def credit_def fun_eq_iff)

lemma owes_balance:
  "dex_owes (s\<lparr>dx_balances := (dx_balances s)(u := (dx_balances s u)(tok := v))\<rparr>) T + in_token tok (unat (dx_balances s u tok)) T =
     dex_owes s T + in_token tok (unat v) T"
proof -
  have "(\<Sum>a\<in>UNIV. unat (((dx_balances s)(u := (dx_balances s u)(tok := v))) a T)) + unat (dx_balances s u T) =
      (\<Sum>a\<in>UNIV. unat (dx_balances s a T)) + unat (((dx_balances s)(u := (dx_balances s u)(tok := v))) u T)"
    by (rule sum_one [of u]) simp
  then show ?thesis by (cases "T = tok") (simp_all add: dex_owes_def order_owes_def in_token_def)
qed

lemma owes_credit:
  assumes "unat (dx_balances s u tok) + unat x < 2 ^ 128"
  shows "dex_owes (credit u tok x s) T = dex_owes s T + in_token tok (unat x) T"
  using owes_balance [of s u tok "dx_balances s u tok + x" T] assms
  by (auto simp: credit_def in_token_def unat_word_ariths)

lemma committed_order:
  assumes "lv_tail (level_of s (home ord)) \<noteq> o_id ord"
  shows "order_owes (committed ord s) T j = (if j = o_id ord then in_token (escrow_token (dx_books s (o_book_key ord)) ord) (escrow ord) T else order_owes s T j)"
    and "o_amount (dx_orders (committed ord s) j) = (if j = o_id ord then o_amount ord else o_amount (dx_orders s j))"
  using assms by (auto simp: order_owes_def committed_def Let_def home_def escrow_def escrow_token_def in_token_def)

lemma owes_committed:
  assumes "lv_tail (level_of s (home ord)) \<noteq> o_id ord" "dx_orders s (o_id ord) = empty_order"
  shows "dex_owes (committed ord s) T = dex_owes s T + in_token (escrow_token (dx_books s (o_book_key ord)) ord) (escrow ord) T"
    and "placed (committed ord s) = placed s + unat (o_amount ord)"
proof -
  have "order_owes s T (o_id ord) = 0" by (simp add: order_owes_def assms(2))
  then show "dex_owes (committed ord s) T = dex_owes s T + in_token (escrow_token (dx_books s (o_book_key ord)) ord) (escrow ord) T"
    using sum_one [of "o_id ord" "order_owes (committed ord s) T" "order_owes s T"]
    by (simp add: committed_order [OF assms(1)] dex_owes_def committed_unchanged)
  show "placed (committed ord s) = placed s + unat (o_amount ord)"
    using sum_one [of "o_id ord" "\<lambda>j. unat (o_amount (dx_orders (committed ord s) j))" "\<lambda>j. unat (o_amount (dx_orders s j))"] assms(2)
    by (simp add: placed_def committed_order(2) [OF assms(1)])
qed

lemma relink_owes:
  "escrow (relink ord os j) = escrow (os j)" "o_book_key (relink ord os j) = o_book_key (os j)"
  "escrow_token bk (relink ord os j) = escrow_token bk (os j)" "o_amount (relink ord os j) = o_amount (os j)"
  by (auto simp: relink_def Let_def escrow_def escrow_token_def)

lemma owes_dropped:
  assumes "ord = dx_orders s (o_id ord)"
  shows "dex_owes (dropped ord s) T + in_token (escrow_token (dx_books s (o_book_key ord)) ord) (escrow ord) T = dex_owes s T"
    and "placed (dropped ord s) + unat (o_amount ord) = placed s"
proof -
  let ?i = "o_id ord"
  have os: "dx_orders (dropped ord s) j = (if j = ?i then empty_order else relink ord (dx_orders s) j)" for j
    by (simp add: dropped_def home_def Let_def)
  have bk: "escrow_token (dx_books (dropped ord s) k) x = escrow_token (dx_books s k) x" for k x
    by (simp add: escrow_token_def dropped_unchanged)
  have "order_owes (dropped ord s) T j = (if j = ?i then 0 else order_owes s T j)" for j
    by (simp add: order_owes_def os bk relink_owes)
  moreover have "order_owes s T ?i = in_token (escrow_token (dx_books s (o_book_key ord)) ord) (escrow ord) T"
    by (auto simp: order_owes_def assms [symmetric] in_token_def Let_def)
  ultimately show "dex_owes (dropped ord s) T + in_token (escrow_token (dx_books s (o_book_key ord)) ord) (escrow ord) T = dex_owes s T"
    using sum_one [of ?i "order_owes (dropped ord s) T" "order_owes s T"] by (simp add: dex_owes_def dropped_unchanged)
  show "placed (dropped ord s) + unat (o_amount ord) = placed s"
    using sum_one [of ?i "\<lambda>j. unat (o_amount (dx_orders (dropped ord s) j))" "\<lambda>j. unat (o_amount (dx_orders s j))"] assms
    by (simp add: placed_def os relink_owes)
qed

text \<open>What a fill of \<open>x\<close> base units takes out of the escrow of an order.\<close>

definition released :: "order \<Rightarrow> u128 \<Rightarrow> nat" where
  "released ord x = (if o_is_bid ord then rdiv Down (unat x * price (o_tick ord)) 100000 else unat x)"

lemma released_all: "released ord (o_remaining ord) \<le> escrow ord"
  by (simp add: released_def escrow_def rdiv_up_down del: rdiv.simps)

lemma released_part:
  assumes "x \<le> o_remaining ord"
  shows "released ord x + escrow (ord\<lparr>o_remaining := o_remaining ord - x\<rparr>) \<le> escrow ord"
proof -
  have r: "unat (o_remaining ord) = unat x + unat (o_remaining ord - x)" using assms by (simp add: unat_sub word_le_nat_alt)
  show ?thesis
  proof (cases "o_is_bid ord")
    case True
    let ?p = "price (o_tick ord)"
    have "rdiv Down (unat x * ?p) 100000 + rdiv Up (unat (o_remaining ord - x) * ?p) 100000
        \<le> rdiv Up (unat x * ?p + unat (o_remaining ord - x) * ?p) 100000"
      by (rule rdiv_split) simp
    also have "unat x * ?p + unat (o_remaining ord - x) * ?p = unat (o_remaining ord) * ?p" by (subst r) (simp add: distrib_right)
    finally show ?thesis using True by (simp add: released_def escrow_def del: rdiv.simps)
  qed (simp add: released_def escrow_def r)
qed

lemma owes_partly_filled:
  assumes "ord = dx_orders s (o_id ord)" "x \<le> o_remaining ord"
  shows "dex_owes (partly_filled ord x s) T + in_token (escrow_token (dx_books s (o_book_key ord)) ord) (released ord x) T \<le> dex_owes s T"
    and "placed (partly_filled ord x s) = placed s"
proof -
  let ?i = "o_id ord" and ?ord = "ord\<lparr>o_remaining := o_remaining ord - x\<rparr>" and ?tok = "escrow_token (dx_books s (o_book_key ord)) ord"
  have os: "dx_orders (partly_filled ord x s) j = (if j = ?i then ?ord else dx_orders s j)" for j
    by (simp add: partly_filled_def home_def Let_def flip: assms(1))
  have bk: "escrow_token (dx_books (partly_filled ord x s) k) y = escrow_token (dx_books s k) y" for k y
    by (simp add: escrow_token_def partly_filled_unchanged)
  have "order_owes (partly_filled ord x s) T j = (if j = ?i then in_token ?tok (escrow ?ord) T else order_owes s T j)" for j
    by (simp add: order_owes_def os bk in_token_def Let_def) (simp add: escrow_token_def)
  moreover have "order_owes s T ?i = in_token ?tok (escrow ord) T"
    by (auto simp: order_owes_def assms(1) [symmetric] in_token_def Let_def)
  moreover have "in_token ?tok (escrow ?ord) T + in_token ?tok (released ord x) T \<le> in_token ?tok (escrow ord) T"
    using released_part [OF assms(2)] by (simp add: in_token_def)
  ultimately show "dex_owes (partly_filled ord x s) T + in_token ?tok (released ord x) T \<le> dex_owes s T"
    using sum_one [of ?i "order_owes (partly_filled ord x s) T" "order_owes s T"] by (simp add: dex_owes_def partly_filled_unchanged)
  show "placed (partly_filled ord x s) = placed s"
    using assms(1) by (auto simp: placed_def os intro!: sum.cong)
qed

text \<open>The liquidity of a level is within what was placed, also without an order of another level.\<close>

lemma liquidity_amounts:
  assumes "book_rep s Q"
  shows "unat (lv_liquidity (level_of s L)) \<le> (\<Sum>j\<in>set (Q L). unat (o_amount (dx_orders s j)))"
proof -
  have q: "queue_rep (dx_orders s) (level_of s L) (Q L)" by (rule book_repD(1) [OF assms])
  then have "unat (lv_liquidity (level_of s L)) = (\<Sum>j\<in>set (Q L). unat (o_remaining (dx_orders s j)))"
    by (simp add: liquidity_def queue_rep_def sum_list_distinct_conv_sum_set)
  also have "\<dots> \<le> (\<Sum>j\<in>set (Q L). unat (o_amount (dx_orders s j)))"
    using book_rep_ids(4) [OF assms] by (intro sum_mono) (auto simp: live_order_def word_le_nat_alt)
  finally show ?thesis .
qed

lemma liquidity_placed:
  assumes "book_rep s Q"
  shows "unat (lv_liquidity (level_of s L)) \<le> placed s"
    and "home (dx_orders s i) \<noteq> L \<Longrightarrow> unat (lv_liquidity (level_of s L)) + unat (o_amount (dx_orders s i)) \<le> placed s"
proof -
  have le: "(\<Sum>j\<in>A. unat (o_amount (dx_orders s j))) \<le> placed s" for A unfolding placed_def by (rule sum_mono2) auto
  note liq = liquidity_amounts [OF assms, of L]
  from order.trans [OF liq le] show "unat (lv_liquidity (level_of s L)) \<le> placed s" .
  show "unat (lv_liquidity (level_of s L)) + unat (o_amount (dx_orders s i)) \<le> placed s" if "home (dx_orders s i) \<noteq> L"
  proof -
    have "i \<notin> set (Q L)" using book_repD(2) [OF assms, of i L] that by blast
    with liq le [of "insert i (set (Q L))"] show ?thesis by simp
  qed
qed

end
