(* ===== verification/Dex_Entry.thy ===== *)
theory Dex_Entry
  imports Dex_Ledger Fee_Solvency
begin

section \<open>Entering orders into the books\<close>

text \<open>
  Every call of the exchange is followed through the books, the internal balances and the tokens. For each
  token, what the exchange owes plus what is in flight inside a call is covered by its
  holdings. A swap of several hops carries its intermediate amount in flight: no
  balance is written for it.

  The books are stored under hashed pairs of tokens, so the accounting assumes that pairs of TIP-20
  addresses have different keys. Order ids and the total size of the orders on the books are bounded by
  their types: the invariant carries how many more ids and how much more size it has room for.
\<close>

subsection \<open>Operations that only read\<close>

abbreviation reads :: "('s, 'e, 'a) pre \<Rightarrow> bool" where
  "reads m \<equiv> keeps (\<lambda>s. s) m"

lemma reads_ezoom [kept]: "reads m \<Longrightarrow> (\<And>w. put (get w) w = w) \<Longrightarrow> reads (ezoom get put m)"
  by (simp add: keeps_def ezoom_def Let_def split: prod.split) (metis snd_conv)

lemma token_reads [kept]:
  "reads (from_address a)" "reads (is_tip20 a)" "reads (token_currency a)" "reads (token_quote a)" "reads (validate_usd_currency a)"
  "reads (ensure_transfer_authorized env self a b)" "reads (is_user_authorized env self a)"
proof -
  have "reads (is_authorized env pid a)" for pid a by (simp add: keeps_def is_authorized_state)
  then show "reads (from_address a)" "reads (is_tip20 a)" "reads (token_currency a)" "reads (token_quote a)" "reads (validate_usd_currency a)"
    "reads (ensure_transfer_authorized env self a b)" "reads (is_user_authorized env self a)"
    unfolding from_address_def is_tip20_def token_currency_def token_quote_def validate_usd_currency_def ensure_transfer_authorized_def
      is_transfer_authorized_def is_user_authorized_def on_registry_def on_token_def by (intro kept | simp)+
qed

lemma on_dex_ok: "on_dex m w = (Inr v, w') \<longleftrightarrow> (\<exists>s'. m (w_dex w) = (Inr v, s') \<and> w' = w\<lparr>w_dex := s'\<rparr>)"
  by (simp add: on_dex_def ezoom_ok)

lemma on_dex_reads [kept]: "reads m \<Longrightarrow> reads (on_dex m)"
  unfolding on_dex_def by (rule reads_ezoom) simp_all

lemma dex_reads [kept]: "reads (read_book k)" "reads (read_order i)" "reads (balance_of u tok)"
  by (simp_all add: keeps_def dex_prims)

lemma escrow_reads [kept]: "reads (order_escrow tok quote x b t)"
  unfolding order_escrow_def by (intro kept)

text \<open>What holds of the state after a run, whether it succeeds or fails.\<close>

definition ends :: "('s \<Rightarrow> bool) \<Rightarrow> ('s, 'e, 'a) pre \<Rightarrow> 's \<Rightarrow> bool" where
  "ends P m s \<longleftrightarrow> P (snd (m s))"

lemma ends_read: "reads m \<Longrightarrow> P s \<Longrightarrow> (\<And>x. m s = (Inr x, s) \<Longrightarrow> ends P (f x) s) \<Longrightarrow> ends P (ebind m f) s"
  by (auto simp: ends_def ebind_def keeps_def split: prod.splits sum.splits) (metis snd_conv)+

lemma ends_require: "P s \<Longrightarrow> (c \<Longrightarrow> ends P m s) \<Longrightarrow> ends P (ebind (erequire c e) (\<lambda>_. m)) s"
  by (auto simp: ends_def run)

lemma ends_ebind:
  "(\<And>e s'. m s = (Inl e, s') \<Longrightarrow> P s') \<Longrightarrow> (\<And>x s'. m s = (Inr x, s') \<Longrightarrow> ends P (f x) s') \<Longrightarrow> ends P (ebind m f) s"
  by (auto simp: ends_def ebind_def split: prod.splits sum.splits)

subsection \<open>Pairs\<close>

text \<open>Every book is stored under the key of its pair.\<close>

definition keyed :: "env \<Rightarrow> dex \<Rightarrow> bool" where
  "keyed env s \<longleftrightarrow> (\<forall>k. bk_base (dx_books s k) \<noteq> 0 \<longrightarrow> is_tip20_prefix (bk_base (dx_books s k)) \<and>
     is_tip20_prefix (bk_quote (dx_books s k)) \<and> k = compute_book_key env (bk_base (dx_books s k)) (bk_quote (dx_books s k)))"

definition keys_distinct :: "env \<Rightarrow> bool" where
  "keys_distinct env \<longleftrightarrow> inj_on (\<lambda>(b, q). compute_book_key env b q) ({a. is_tip20_prefix a} \<times> {a. is_tip20_prefix a})"

lemma keyed_pair:
  assumes "keyed env s" "keys_distinct env" "is_tip20_prefix tok" "is_tip20_prefix quote"
    and "bk_base (dx_books s (compute_book_key env tok quote)) \<noteq> 0"
  shows "bk_base (dx_books s (compute_book_key env tok quote)) = tok" "bk_quote (dx_books s (compute_book_key env tok quote)) = quote"
proof -
  let ?bk = "dx_books s (compute_book_key env tok quote)"
  have "(bk_base ?bk, bk_quote ?bk) = (tok, quote)"
    using assms(2) unfolding keys_distinct_def by (rule inj_onD) (use assms in \<open>auto simp: keyed_def\<close>)
  then show "bk_base ?bk = tok" "bk_quote ?bk = quote" by simp_all
qed

lemma keyed_frame:
  "keyed env s \<Longrightarrow> (\<And>k. bk_base (dx_books s' k) = bk_base (dx_books s k) \<and> bk_quote (dx_books s' k) = bk_quote (dx_books s k)) \<Longrightarrow> keyed env s'"
  by (simp add: keyed_def)

text \<open>A pair that exists keeps its tokens.\<close>

definition books_kept :: "dex \<Rightarrow> dex \<Rightarrow> bool" where
  "books_kept s s' \<longleftrightarrow> (\<forall>k. bk_base (dx_books s k) \<noteq> 0 \<longrightarrow>
     bk_base (dx_books s' k) = bk_base (dx_books s k) \<and> bk_quote (dx_books s' k) = bk_quote (dx_books s k))"

lemma books_kept_refl [simp]: "books_kept s s"
  by (simp add: books_kept_def)

lemma books_kept_trans: "books_kept s s' \<Longrightarrow> books_kept s' s'' \<Longrightarrow> books_kept s s''"
  unfolding books_kept_def by metis

lemma books_keptD:
  "books_kept s s' \<Longrightarrow> bk_base (dx_books s k) \<noteq> 0 \<Longrightarrow> bk_base (dx_books s' k) = bk_base (dx_books s k) \<and> bk_quote (dx_books s' k) = bk_quote (dx_books s k)"
  by (simp add: books_kept_def)

text \<open>The storage after a pair was created.\<close>

definition paired :: "env \<Rightarrow> address \<Rightarrow> address \<Rightarrow> dex \<Rightarrow> dex" where
  "paired env base quote s = (let k = compute_book_key env base quote in
     s\<lparr>dx_books := (dx_books s)(k := (dx_books s k)\<lparr>bk_base := base, bk_quote := quote, best_bid_tick := I16_MIN, best_ask_tick := I16_MAX\<rparr>),
       dx_book_keys := dx_book_keys s @ [k], dx_log := dx_log s @ [PairCreated k base quote]\<rparr>)"

lemma create_pair_run:
  "create_pair env base w = (r, w') \<Longrightarrow>
    (\<exists>e. r = Inl e) \<and> w' = w \<or> (w' = w\<lparr>w_dex := paired env base (quote_of w base) (w_dex w)\<rparr> \<and> is_tip20_prefix base \<and> is_tip20_prefix (quote_of w base) \<and>
      bk_base (dx_books (w_dex w) (compute_book_key env base (quote_of w base))) = 0 \<and> (\<exists>k. r = Inr k))"
  by (auto simp: create_pair_def run is_tip20_def token_quote_def token_currency_def from_address_def validate_usd_currency_def Let_def
      on_dex_def ezoom_def dex_run is_initialized_def write_new_orderbook_def paired_def quote_of_def split: if_splits)

lemma prefix_nonzero: "is_tip20_prefix a \<Longrightarrow> a \<noteq> 0"
  by (auto simp: is_tip20_prefix_system)

lemma paired_books:
  "dx_books (paired env base quote s) k' = (if k' = compute_book_key env base quote
     then (dx_books s k')\<lparr>bk_base := base, bk_quote := quote, best_bid_tick := I16_MIN, best_ask_tick := I16_MAX\<rparr> else dx_books s k')"
  "dx_orders (paired env base quote s) = dx_orders s" "dx_balances (paired env base quote s) = dx_balances s"
  "dx_next_order_id (paired env base quote s) = dx_next_order_id s"
  by (simp_all add: paired_def Let_def)

lemma paired_rep:
  assumes rep: "book_rep s Q" and new: "bk_base (dx_books s (compute_book_key env base quote)) = 0" and base: "base \<noteq> 0"
  shows "book_rep (paired env base quote s) Q" "dex_owes (paired env base quote s) = dex_owes s" "placed (paired env base quote s) = placed s"
proof -
  let ?s = "paired env base quote s" and ?k = "compute_book_key env base quote"
  have e: "Q (?k, b, t) = []" for b t using book_rep_initialized(1) [OF rep, of ?k b t] new by blast
  have key: "o_book_key ord \<noteq> ?k" if "live_order s i ord" for i ord using that new by (auto simp: live_order_def)
  have live: "live_order ?s i ord" if "live_order s i ord" for i ord
    using that key [OF that] by (auto simp: live_order_def paired_books)
  have "level_of ?s L = level_of s L" for L by (cases L) (auto simp: book_level_def paired_books)
  moreover have "bitmap b (dx_books ?s k) = bitmap b (dx_books s k)" for b k by (simp add: bitmap_def paired_books)
  moreover have "best_rep (\<lambda>t. Q (k, b, t) \<noteq> []) b (best_tick b (dx_books ?s k))" if "bk_base (dx_books ?s k) \<noteq> 0" for k b
    using that e book_repD(5) [OF rep, of k b] by (auto simp: paired_books best_rep_def best_tick_def empty_best_def split: if_splits)
  ultimately show "book_rep ?s Q" using rep live unfolding book_rep_def by (simp add: paired_books(2))
  have "order_owes ?s T i = order_owes s T i" for T i
  proof (cases "dx_orders s i = empty_order")
    case False
    from key [OF book_repD(3) [OF rep False]] show ?thesis by (simp add: order_owes_def paired_books)
  qed (simp add: order_owes_def paired_books(2))
  then show "dex_owes ?s = dex_owes s" by (simp add: fun_eq_iff dex_owes_def paired_books(3))
  show "placed ?s = placed s" by (simp add: placed_def paired_books(2))
qed

lemma paired_keyed:
  "keyed env s \<Longrightarrow> is_tip20_prefix base \<Longrightarrow> is_tip20_prefix quote \<Longrightarrow> keyed env (paired env base quote s)"
  by (auto simp: keyed_def paired_books)

lemma paired_kept: "bk_base (dx_books s (compute_book_key env base quote)) = 0 \<Longrightarrow> books_kept s (paired env base quote s)"
  by (auto simp: books_kept_def paired_books)

lemma paired_best:
  "bk_base (dx_books s k) \<noteq> 0 \<Longrightarrow> bk_base (dx_books s (compute_book_key env base quote)) = 0 \<Longrightarrow>
    dx_books (paired env base quote s) k = dx_books s k \<and> best_order k b (paired env base quote s) = best_order k b s"
  by (auto simp: best_order_def paired_books Let_def)

subsection \<open>New orders\<close>

definition entered :: "order \<Rightarrow> dex \<Rightarrow> dex" where
  "entered ord s = committed ord (s\<lparr>dx_next_order_id := o_id ord + 1\<rparr>)"

text \<open>An order that can be entered.\<close>

definition enterable :: "dex \<Rightarrow> order \<Rightarrow> bool" where
  "enterable s ord \<longleftrightarrow> o_id ord = max (dx_next_order_id s) 1 \<and> unat (o_id ord) + 1 < 2 ^ 128 \<and> MIN_TICK \<le> o_tick ord \<and>
     o_tick ord \<le> MAX_TICK \<and> o_remaining ord = o_amount ord \<and> o_amount ord \<noteq> 0 \<and> o_prev ord = 0 \<and> o_next ord = 0 \<and>
     bk_base (dx_books s (o_book_key ord)) \<noteq> 0 \<and>
     (o_is_bid ord \<longrightarrow> rdiv Up (unat (o_amount ord) * price (o_tick ord)) 100000 < 2 ^ 128) \<and>
     unat (lv_liquidity (level_of s (home ord))) + unat (o_amount ord) < 2 ^ 128"

lemma enterable_id:
  assumes "book_rep s Q" "enterable s ord"
  shows "o_id ord \<noteq> 0" "dx_orders s (o_id ord) = empty_order" "unat (o_id ord + 1) = unat (o_id ord) + 1"
    "lv_tail (level_of s (home ord)) \<noteq> o_id ord" "dx_next_order_id s \<le> o_id ord + 1"
proof -
  have n: "o_id ord = max (dx_next_order_id s) 1" "unat (o_id ord) + 1 < 2 ^ 128" using assms(2) by (auto simp: enterable_def)
  show nz: "o_id ord \<noteq> 0" using n(1) by (auto simp: max_def split: if_splits)
  show suc: "unat (o_id ord + 1) = unat (o_id ord) + 1" using n(2) by (simp add: unat_word_ariths)
  have le: "dx_next_order_id s \<le> o_id ord" using n(1) by simp
  show free: "dx_orders s (o_id ord) = empty_order"
  proof (rule ccontr)
    assume "dx_orders s (o_id ord) \<noteq> empty_order"
    from book_repD(3) [OF assms(1) this] have "o_id ord < dx_next_order_id s" by (simp add: live_order_def)
    with le show False by (simp add: leD)
  qed
  show "dx_next_order_id s \<le> o_id ord + 1" using le suc by (simp add: word_le_nat_alt)
  have q: "queue_rep (dx_orders s) (level_of s (home ord)) (Q (home ord))" by (rule book_repD(1) [OF assms(1)])
  have "o_id ord \<notin> set (Q (home ord))" using book_repD(2) [OF assms(1), of "o_id ord"] free by simp
  then show "lv_tail (level_of s (home ord)) \<noteq> o_id ord"
    using q nz by (cases "Q (home ord)" rule: rev_cases) (auto simp: queue_rep_def)
qed

lemma entered_unchanged:
  "dx_next_order_id (entered ord s) = o_id ord + 1" "dx_balances (entered ord s) = dx_balances s"
  "bk_base (dx_books (entered ord s) k) = bk_base (dx_books s k)" "bk_quote (dx_books (entered ord s) k) = bk_quote (dx_books s k)"
  by (simp_all add: entered_def committed_unchanged)

lemma enter_run:
  assumes "enterable s (f (max (dx_next_order_id s) 1))"
  shows "ebind next_order_id (\<lambda>i. ebind increment_next_order_id (\<lambda>_. ebind (commit_order_to_book (f i)) (\<lambda>_. ebind (emit_dex (e i)) (\<lambda>_. eret i)))) s =
    (Inr (max (dx_next_order_id s) 1), log_event (e (max (dx_next_order_id s) 1)) (entered (f (max (dx_next_order_id s) 1)) s))"
proof -
  let ?n = "max (dx_next_order_id s) 1" and ?s = "s\<lparr>dx_next_order_id := max (dx_next_order_id s) 1 + 1\<rparr>"
  have "level_of ?s L = level_of s L" for L by (cases L) simp
  then have "commit_order_to_book (f ?n) ?s = (Inr (), committed (f ?n) ?s)"
    by (intro commit_run) (use assms in \<open>auto simp: enterable_def\<close>)
  with assms show ?thesis
    by (simp add: run next_order_id_def increment_next_order_id_def dex_prims entered_def log_event_def enterable_def)
qed

lemma entered_rep:
  assumes rep: "book_rep s Q" and ord: "enterable s ord"
  shows "book_rep (entered ord s) (Q(home ord := Q (home ord) @ [o_id ord]))"
    and "dex_owes (entered ord s) T = dex_owes s T + in_token (escrow_token (dx_books s (o_book_key ord)) ord) (escrow ord) T"
    and "placed (entered ord s) = placed s + unat (o_amount ord)"
proof -
  let ?s = "s\<lparr>dx_next_order_id := o_id ord + 1\<rparr>"
  note id = enterable_id [OF assms]
  have lev: "level_of ?s L = level_of s L" for L by (cases L) simp
  have rep': "book_rep ?s Q" by (rule book_rep_frame [OF _ _ _ rep]) (use id(5) in simp_all)
  have "live_order ?s (o_id ord) ord"
    using ord id(1,3) by (auto simp: enterable_def live_order_def word_less_nat_alt)
  then show "book_rep (entered ord s) (Q(home ord := Q (home ord) @ [o_id ord]))"
    unfolding entered_def by (intro committed_rep [OF rep']) (use ord id(2) lev in \<open>auto simp: enterable_def\<close>)
  show "dex_owes (entered ord s) T = dex_owes s T + in_token (escrow_token (dx_books s (o_book_key ord)) ord) (escrow ord) T"
    "placed (entered ord s) = placed s + unat (o_amount ord)"
    unfolding entered_def using owes_committed [of ?s ord] id(2,4) lev by simp_all
qed

text \<open>An order on one side leaves the best order of the other side alone.\<close>

lemma entered_best:
  assumes rep: "book_rep s Q" and ord: "enterable s ord" and side: "o_is_bid ord \<noteq> b"
    and best: "best_order k b s = Some (l, x)" "bk_base (dx_books s k) \<noteq> 0"
  shows "best_order k b (entered ord s) = Some (l, x)"
proof -
  from best_order_Some [OF rep best(2,1)] obtain i q t where i: "Q (k, b, t) = i # q" "best_tick b (dx_books s k) = t" "l = book_level b t (dx_books s k)"
    "x = dx_orders s i" "live_order s i x" "home x = (k, b, t)" by blast
  have hd: "lv_head l = i" using book_repD(1) [OF rep, of "(k, b, t)"] i by (simp add: queue_rep_def)
  have "x \<noteq> empty_order" using live_order_ne [OF i(5)] .
  then have ne: "i \<noteq> o_id ord" using enterable_id(2) [OF rep ord] i(4) by auto
  obtain k' t' where h: "home ord = (k', \<not> b, t')" using side by (auto simp: home_def)
  let ?l = "book_level (\<not> b) t' (dx_books s k')"
  have tail: "lv_tail ?l = 0 \<or> i \<noteq> lv_tail ?l"
  proof (cases "Q (k', \<not> b, t') = []")
    case True
    then show ?thesis using book_repD(1) [OF rep, of "(k', \<not> b, t')"] by (simp add: queue_rep_empty empty_level_def)
  next
    case False
    then have "lv_tail ?l \<in> set (Q (k', \<not> b, t'))" using book_repD(1) [OF rep, of "(k', \<not> b, t')"] by (simp add: queue_rep_def last_id_def)
    then have "home (dx_orders s (lv_tail ?l)) = (k', \<not> b, t')" by (rule book_rep_ids(3) [OF rep])
    with i show ?thesis by auto
  qed
  have "best_tick b (dx_books (entered ord s) k) = t" "book_level b t (dx_books (entered ord s) k) = l"
    using i by (auto simp: entered_def committed_def h Let_def)
  moreover have "dx_orders (entered ord s) i = x"
    using tail ne i(4) by (auto simp: entered_def committed_def h Let_def)
  ultimately show ?thesis using best i(2) hd by (simp add: best_order_def Let_def split: if_splits)
qed

text \<open>The ids of the orders on one side of a book.\<close>

definition side_orders :: "b256 \<Rightarrow> bool \<Rightarrow> dex \<Rightarrow> u128 set" where
  "side_orders k b s = {i. dx_orders s i \<noteq> empty_order \<and> o_book_key (dx_orders s i) = k \<and> o_is_bid (dx_orders s i) = b}"

lemma side_orders_queues: "book_rep s Q \<Longrightarrow> side_orders k b s = (\<Union>t. set (Q (k, b, t)))"
  using book_repD(2) [of s Q] by (auto simp: side_orders_def home_def)

lemma entered_side:
  assumes "book_rep s Q" "enterable s ord" "o_is_bid ord \<noteq> b"
  shows "side_orders k b (entered ord s) = side_orders k b s"
  using assms(3) by (auto simp: side_orders_queues [OF entered_rep(1) [OF assms(1,2)]] side_orders_queues [OF assms(1)] home_def)

lemma order_terms:
  assumes "order_escrow tok quote x b t s = (Inr (et, ea, nt), s')" "MIN_TICK \<le> t" "t \<le> MAX_TICK"
  shows "s' = s" "et = (if b then quote else tok)" "nt = (if b then tok else quote)"
    "unat ea = escrow (new_order i m k x t b fl ft)" "b \<longrightarrow> rdiv Up (unat x * price t) 100000 < 2 ^ 128"
proof -
  have t: "is_i16 t" using tick_range [OF assms(2,3)] by simp
  show "s' = s" "et = (if b then quote else tok)" "nt = (if b then tok else quote)"
    using assms(1) by (auto simp: order_escrow_def ok split: if_splits)
  have "b \<Longrightarrow> unat ea = rdiv Up (unat x * price t) 100000"
    using assms(1) by (simp add: order_escrow_def ok base_to_quote_Some [OF t] del: rdiv.simps)
  moreover have "\<not> b \<Longrightarrow> ea = x" using assms(1) by (simp add: order_escrow_def ok)
  ultimately show "unat ea = escrow (new_order i m k x t b fl ft)" "b \<longrightarrow> rdiv Up (unat x * price t) 100000 < 2 ^ 128"
    using unsigned_less [of ea, where ?'a = nat] by (cases b; simp add: escrow_def new_order_def del: rdiv.simps)+
qed

lemma new_order_fields [simp]:
  "o_id (new_order i m k x t b fl ft) = i" "o_maker (new_order i m k x t b fl ft) = m" "o_book_key (new_order i m k x t b fl ft) = k"
  "o_is_bid (new_order i m k x t b fl ft) = b" "o_tick (new_order i m k x t b fl ft) = t" "o_amount (new_order i m k x t b fl ft) = x"
  "o_remaining (new_order i m k x t b fl ft) = x" "o_prev (new_order i m k x t b fl ft) = 0" "o_next (new_order i m k x t b fl ft) = 0"
  "home (new_order i m k x t b fl ft) = (k, b, t)"
  by (simp_all add: new_order_def home_def)

text \<open>A balance that pays for the escrow of a new order: what is owed stays the same.\<close>

definition debit :: "address \<Rightarrow> address \<Rightarrow> u128 \<Rightarrow> dex \<Rightarrow> dex" where
  "debit u tok x s = s\<lparr>dx_balances := (dx_balances s)(u := (dx_balances s u)(tok := saturating_sub (dx_balances s u tok) x))\<rparr>"

lemma debit_unchanged [simp]:
  "dx_orders (debit u tok x s) = dx_orders s" "dx_books (debit u tok x s) = dx_books s"
  "dx_next_order_id (debit u tok x s) = dx_next_order_id s" "placed (debit u tok x s) = placed s"
  "level_of (debit u tok x s) L = level_of s L"
  by (auto simp: debit_def placed_def level_of_def)

lemma best_order_same [simp]:
  "best_order k b (debit u tok x s) = best_order k b s" "best_order k b (credit u tok x s) = best_order k b s"
  "best_order k b (log_event e s) = best_order k b s"
  by (simp_all add: best_order_def Let_def)

lemma side_orders_same [simp]:
  "side_orders k b (debit u tok x s) = side_orders k b s" "side_orders k b (credit u tok x s) = side_orders k b s"
  "side_orders k b (log_event e s) = side_orders k b s" "side_orders k b (paired env base quote s) = side_orders k b s"
  by (simp_all add: side_orders_def paired_books)

lemma debit_rep [simp]: "book_rep (debit u tok x s) Q = book_rep s Q"
  by (intro iffI; erule book_rep_frame [rotated 3]; simp)

lemma sub_balance_run: "sub_balance u tok x s = (Inr (), debit u tok x s)"
  by (simp add: sub_balance_def dex_run debit_def)

lemma owes_debit: "x \<le> dx_balances s u tok \<Longrightarrow> dex_owes (debit u tok x s) T + in_token tok (unat x) T = dex_owes s T"
  using owes_balance [of s u tok "saturating_sub (dx_balances s u tok) x" T]
  by (auto simp: debit_def in_token_def word_le_nat_alt split: if_splits)

lemma owes_debit_le: "dex_owes (debit u tok x s) T \<le> dex_owes s T"
  using owes_balance [of s u tok "saturating_sub (dx_balances s u tok) x" T] by (auto simp: debit_def in_token_def split: if_splits)

subsection \<open>The invariant\<close>

abbreviation DEX :: address where
  "DEX \<equiv> STABLECOIN_DEX_ADDRESS"

text \<open>The storage represents queues, has room for \<open>n\<close> more ids and orders of \<open>a\<close> more base units, and its books are
  under their keys.\<close>

definition dex_ok :: "env \<Rightarrow> nat \<Rightarrow> nat \<Rightarrow> dex \<Rightarrow> bool" where
  "dex_ok env n a s \<longleftrightarrow> (\<exists>Q. book_rep s Q) \<and> unat (max (dx_next_order_id s) 1) + n < 2 ^ 128 \<and> placed s + a < 2 ^ 128 \<and> keyed env s"

definition dex_backed :: "env \<Rightarrow> nat \<Rightarrow> nat \<Rightarrow> (address \<Rightarrow> int) \<Rightarrow> 'x dex_world_scheme \<Rightarrow> bool" where
  "dex_backed env n a fl w \<longleftrightarrow> dex_ok env n a (w_dex w) \<and> (\<forall>T. no_allowance DEX (tokens w T)) \<and>
     (\<forall>T. int (dex_owes (w_dex w) T) + fl T \<le> bal (tokens w T) DEX)"

lemma dex_okD:
  assumes "dex_ok env n a s"
  obtains Q where "book_rep s Q" "unat (max (dx_next_order_id s) 1) + n < 2 ^ 128" "placed s + a < 2 ^ 128" "keyed env s"
  using assms by (auto simp: dex_ok_def)

lemma dex_ok_mono: "dex_ok env n a s \<Longrightarrow> m \<le> n \<Longrightarrow> c \<le> a \<Longrightarrow> dex_ok env m c s"
  by (auto simp: dex_ok_def)

lemma max_next: "unat (max (i :: u128) 1) = max (unat i) 1"
  by (auto simp: max_def word_le_nat_alt)

lemma dex_ok_paired:
  assumes "dex_ok env n a s" "bk_base (dx_books s (compute_book_key env base quote)) = 0" "is_tip20_prefix base" "is_tip20_prefix quote"
  shows "dex_ok env n a (paired env base quote s)"
  using assms paired_rep [OF _ assms(2) prefix_nonzero [OF assms(3)]] paired_keyed [of env s base quote]
  by (auto simp: dex_ok_def paired_books(4))

lemma dex_ok_entered:
  assumes "dex_ok env (Suc n) (a + unat (o_amount ord)) s" "enterable s ord"
  shows "dex_ok env n a (entered ord s)"
proof -
  from assms(1) obtain Q where Q: "book_rep s Q" "unat (max (dx_next_order_id s) 1) + Suc n < 2 ^ 128"
    "placed s + (a + unat (o_amount ord)) < 2 ^ 128" "keyed env s" by (rule dex_okD)
  have "unat (o_id ord) = max (unat (dx_next_order_id s)) 1" using assms(2) by (simp add: enterable_def max_next)
  then have "unat (max (dx_next_order_id (entered ord s)) 1) + n < 2 ^ 128"
    using Q(2) enterable_id(3) [OF Q(1) assms(2)] by (simp add: max_next entered_unchanged)
  moreover have "keyed env (entered ord s)" by (rule keyed_frame [OF Q(4)]) (simp add: entered_unchanged)
  ultimately show ?thesis using entered_rep [OF Q(1) assms(2)] Q(3) by (auto simp: dex_ok_def)
qed

subsection \<open>Flipping a filled order\<close>

text \<open>What the attempt to place the flipped order leaves behind, whether it succeeds or fails, seen from the
  order \<open>ord\<close> that is being filled.\<close>

definition flipped :: "env \<Rightarrow> nat \<Rightarrow> dex \<Rightarrow> b256 \<Rightarrow> bool \<Rightarrow> tick_level \<Rightarrow> order \<Rightarrow> dex \<Rightarrow> bool" where
  "flipped env n s k b l ord s' \<longleftrightarrow> (\<exists>Q. book_rep s' Q) \<and> unat (max (dx_next_order_id s') 1) + n < 2 ^ 128 \<and>
     placed s' \<le> placed s + unat (o_amount ord) \<and> keyed env s' \<and> (\<forall>T. dex_owes s' T \<le> dex_owes s T) \<and>
     best_order k b s' = Some (l, ord) \<and> books_kept s s' \<and>
     side_orders k b s' = side_orders k b s"

lemma flipped_entered:
  assumes ok: "dex_ok env (Suc n) a s" and kd: "keys_distinct env"
    and best: "best_order k b s = Some (l, ord)" "bk_base (dx_books s k) \<noteq> 0"
    and prefix: "is_tip20_prefix tok" "is_tip20_prefix quote" and key: "key = compute_book_key env tok quote"
    and init: "bk_base (dx_books s key) \<noteq> 0" and tick: "MIN_TICK \<le> t" "t \<le> MAX_TICK" and nz: "o_amount ord \<noteq> 0"
    and terms: "order_escrow tok quote (o_amount ord) (\<not> b) t w0 = (Inr (et, ea, nt), w1)"
    and funds: "ea \<le> dx_balances s u et"
  shows "let ord' = new_order (max (dx_next_order_id s) 1) u key (o_amount ord) t (\<not> b) True ft in
    enterable (debit u et ea s) ord' \<and> flipped env n s k b l ord (entered ord' (debit u et ea s))"
proof -
  define ord' where "ord' = new_order (max (dx_next_order_id s) 1) u key (o_amount ord) t (\<not> b) True ft"
  let ?s = "debit u et ea s"
  from ok obtain Q where Q: "book_rep s Q" "unat (max (dx_next_order_id s) 1) + Suc n < 2 ^ 128" "placed s + a < 2 ^ 128" "keyed env s"
    by (rule dex_okD)
  from best_order_Some [OF Q(1) best(2,1)] obtain i t0 where i: "ord = dx_orders s i" "home ord = (k, b, t0)" by blast
  note tm = order_terms [OF terms tick]
  have room: "unat (lv_liquidity (level_of s (key, \<not> b, t))) + unat (o_amount ord) \<le> placed s"
    using liquidity_placed(2) [OF Q(1), of i "(key, \<not> b, t)"] i by auto
  have e: "enterable ?s ord'"
    using Q(2,3) room tick nz init tm(5) by (simp add: enterable_def ord'_def del: rdiv.simps)
  have rep: "book_rep ?s Q" using Q(1) by simp
  note en = entered_rep [OF rep e]
  have "escrow_token (dx_books s key) ord' = et"
    using keyed_pair [OF Q(4) kd prefix] init tm(2) by (auto simp: escrow_token_def ord'_def key)
  then have "dex_owes (entered ord' ?s) T = dex_owes s T" for T
    using en(2) [of T] owes_debit [OF funds, of T] tm(4) [of "max (dx_next_order_id s) 1" u key True ft] by (simp add: ord'_def)
  moreover have "placed (entered ord' ?s) = placed s + unat (o_amount ord)" using en(3) by (simp add: ord'_def)
  moreover have "unat (max (dx_next_order_id (entered ord' ?s)) 1) + n < 2 ^ 128"
    using Q(2) enterable_id(3) [OF rep e] by (simp add: max_next entered_unchanged ord'_def)
  moreover have "keyed env (entered ord' ?s)" by (rule keyed_frame [OF Q(4)]) (simp add: entered_unchanged)
  moreover have "best_order k b (entered ord' ?s) = Some (l, ord)"
    by (rule entered_best [OF rep e]) (use best in \<open>auto simp: ord'_def best_order_same\<close>)
  moreover have "side_orders k b (entered ord' ?s) = side_orders k b s"
    using entered_side [OF rep e, of b k] by (simp add: ord'_def)
  ultimately show ?thesis
    using e en(1) unfolding flipped_def ord'_def [symmetric] by (auto simp: Let_def entered_unchanged books_kept_def)
qed

lemma flipped_refl:
  assumes "dex_ok env (Suc n) a s" "best_order k b s = Some (l, ord)"
  shows "flipped env n s k b l ord s"
  using assms by (auto simp: flipped_def dex_ok_def)

lemma keyed_same [simp]: "keyed env (log_event e s) = keyed env s" "keyed env (credit u tok x s) = keyed env s" "keyed env (debit u tok x s) = keyed env s"
  by (simp_all add: keyed_def)

lemma flipped_log: "flipped env n s k b l ord (log_event e s') = flipped env n s k b l ord s'"
  by (simp add: flipped_def books_kept_def)

lemma debit_then:
  "m (debit u tok x (w_dex w)) = (r, s') \<Longrightarrow> ebind (on_dex (sub_balance u tok x)) (\<lambda>_. on_dex m) w = (r, w\<lparr>w_dex := s'\<rparr>)"
  by (simp add: ebind_run on_dex_def ezoom_def sub_balance_run)

lemma flip_entry_run:
  assumes ok: "dex_ok env (Suc n) a (w_dex w)" and kd: "keys_distinct env"
    and best: "best_order k b (w_dex w) = Some (l, ord)" "bk_base (dx_books (w_dex w) k) \<noteq> 0"
    and prefix: "is_tip20_prefix tok" "is_tip20_prefix quote" and key: "key = compute_book_key env tok quote"
    and init: "bk_base (dx_books (w_dex w) key) \<noteq> 0" and tick: "MIN_TICK \<le> t" "t \<le> MAX_TICK" and nz: "o_amount ord \<noteq> 0"
    and terms: "order_escrow tok quote (o_amount ord) (\<not> b) t w0 = (Inr (et, ea, nt), w1)"
    and funds: "ea \<le> dx_balances (w_dex w) u et" and flip: "if b then ft < t else t < ft"
  shows "\<exists>D. ebind (on_dex (sub_balance u et ea)) (\<lambda>_. on_dex
       (ebind next_order_id (\<lambda>i. ebind increment_next_order_id (\<lambda>_.
        ebind (case new_flip i u key (o_amount ord) t (\<not> b) ft of Inl _ \<Rightarrow> efail (StablecoinDEX DEX_InvalidFlipTick) | Inr ord \<Rightarrow> eret ord) (\<lambda>ord.
        ebind (commit_order_to_book ord) (\<lambda>_. ebind (emit_dex (e i)) (\<lambda>_. eret i))))))) w =
      (Inr (max (dx_next_order_id (w_dex w)) 1), w\<lparr>w_dex := D\<rparr>) \<and> flipped env n (w_dex w) k b l ord D"
proof -
  let ?s = "debit u et ea (w_dex w)"
  define f where "f i = new_order i u key (o_amount ord) t (\<not> b) True ft" for i
  have nf: "(case new_flip i u key (o_amount ord) t (\<not> b) ft of Inl _ \<Rightarrow> efail (StablecoinDEX DEX_InvalidFlipTick) | Inr ord \<Rightarrow> eret ord) = eret (f i)" for i
    using flip by (auto simp: new_flip_def f_def split: if_splits)
  have eb: "ebind (eret x) g = g x" for x g by (simp add: fun_eq_iff run)
  note fe = flipped_entered [OF ok kd best prefix key init tick nz terms funds, of ft, unfolded Let_def, folded f_def]
  have "enterable ?s (f (max (dx_next_order_id ?s) 1))" using fe by simp
  note er = enter_run [of ?s f, OF this, of e]
  show ?thesis
    unfolding nf eb
    by (intro exI conjI, rule debit_then, rule er [simplified debit_unchanged]) (use fe in \<open>simp add: flipped_log\<close>)
qed

lemma flipped_paired:
  assumes "dex_ok env (Suc n) a s" "bk_base (dx_books s (compute_book_key env tok quote)) = 0" "is_tip20_prefix tok" "is_tip20_prefix quote"
  shows "flipped env n (paired env tok quote s) k b l ord D \<Longrightarrow> flipped env n s k b l ord D"
proof -
  from assms(1) obtain Q where "book_rep s Q" by (rule dex_okD)
  from paired_rep [OF this assms(2) prefix_nonzero [OF assms(3)]]
  show "flipped env n (paired env tok quote s) k b l ord D \<Longrightarrow> flipped env n s k b l ord D"
    using books_kept_trans [OF paired_kept [OF assms(2)]] by (simp add: flipped_def)
qed

lemma pay_internal_ok:
  "pay_flip_escrow env u tok x True w = (Inr v, w') \<Longrightarrow>
    is_tip20_prefix tok \<and> x \<le> dx_balances (w_dex w) u tok \<and> on_dex (sub_balance u tok x) w = (Inr v, w')"
  by (auto simp: pay_flip_escrow_def ebind_ok lookup_reads erequire_ok on_dex_ok [of "balance_of _ _"] dex_prims not_less
      dest!: authorization_reads)

lemma pay_internal_fails: "pay_flip_escrow env u tok x True w = (Inl e, w') \<Longrightarrow> w' = w"
proof -
  assume "pay_flip_escrow env u tok x True w = (Inl e, w')"
  then show ?thesis
    using keeps_run [OF token_reads(6), of env tok u DEX w]
    by (auto simp: pay_flip_escrow_def run from_address_def on_dex_def ezoom_def dex_prims sub_balance_run split: prod.splits sum.splits if_splits)
qed

lemma enter_flip_ends:
  fixes w :: "'x dex_world_scheme"
  assumes ok: "dex_ok env (Suc n) a (w_dex w)" and kd: "keys_distinct env"
    and best: "best_order k b (w_dex w) = Some (l, ord)" "bk_base (dx_books (w_dex w) k) \<noteq> 0"
    and init: "bk_base (dx_books (w_dex w) (compute_book_key env tok quote)) \<noteq> 0" and tok: "is_tip20_prefix tok"
  shows "ends (\<lambda>w'. \<exists>D. w' = w\<lparr>w_dex := D\<rparr> \<and> flipped env n (w_dex w) k b l ord D)
    (enter_flip_order env u tok quote (o_amount ord) (\<not> b) t ft True) w"
proof -
  let ?P = "\<lambda>w'. \<exists>D. w' = w\<lparr>w_dex := D\<rparr> \<and> flipped env n (w_dex w) k b l ord D"
  have here: "?P w" using flipped_refl [OF ok best(1)] by (intro exI [of _ "w_dex w"]) simp
  have pay: "ends ?P (ebind (pay_flip_escrow env u et ea True) f) w"
    if main: "is_tip20_prefix et \<Longrightarrow> ea \<le> dx_balances (w_dex w) u et \<Longrightarrow> ends ?P (ebind (on_dex (sub_balance u et ea)) f) w" for et ea f
  proof (rule ends_ebind)
    show "?P w'" if "pay_flip_escrow env u et ea True w = (Inl e, w')" for e w'
      using here pay_internal_fails [OF that] by simp
    show "ends ?P (f x) w'" if r: "pay_flip_escrow env u et ea True w = (Inr x, w')" for x w'
      using main pay_internal_ok [OF r] by (simp add: ends_def ebind_run)
  qed
  show ?thesis
    unfolding enter_flip_order_def Let_def
  proof (intro ends_require here ends_read [where P = ?P, OF escrow_reads here])
    fix x
    assume t: "MIN_TICK \<le> t \<and> t \<le> MAX_TICK" and flip': "\<not> (\<not> b \<and> ft \<le> t \<or> \<not> \<not> b \<and> t \<le> ft)" and min: "\<not> o_amount ord < MIN_ORDER_AMOUNT"
      and esc: "order_escrow tok quote (o_amount ord) (\<not> b) t w = (Inr x, w)"
    obtain et ea nt where x: "x = (et, ea, nt)" by (cases x)
    note terms = esc [unfolded x] and c = t [THEN conjunct1] t [THEN conjunct2]
    have nz: "o_amount ord \<noteq> 0" using min by (auto simp: MIN_ORDER_AMOUNT_def)
    have flip: "if b then ft < t else t < ft" using flip' by auto
    note tm = order_terms(2,3) [OF terms c]
    show "ends ?P (case x of (et, ea, nt) \<Rightarrow> ebind (from_address nt) (\<lambda>_. ebind (ensure_transfer_authorized env nt u DEX) (\<lambda>_.
       ebind (pay_flip_escrow env u et ea True) (\<lambda>_. on_dex (ebind next_order_id (\<lambda>i. ebind increment_next_order_id (\<lambda>_.
        ebind (case new_flip i u (compute_book_key env tok quote) (o_amount ord) t (\<not> b) ft of Inl _ \<Rightarrow> efail (StablecoinDEX DEX_InvalidFlipTick)
          | Inr ord \<Rightarrow> eret ord) (\<lambda>ord'. ebind (commit_order_to_book ord') (\<lambda>_.
        ebind (emit_dex (OrderPlaced i u tok (o_amount ord) (\<not> b) t True ft)) (\<lambda>_. eret i)))))))))) w"
      unfolding x prod.case
    proof (rule ends_read [where P = ?P, OF token_reads(1) here], rule ends_read [where P = ?P, OF token_reads(6) here], rule pay)
      fix x :: unit
      assume "from_address nt w = (Inr x, w)" and et: "is_tip20_prefix et" and funds: "ea \<le> dx_balances (w_dex w) u et"
      then have quote: "is_tip20_prefix quote" using tm by (auto simp: lookup_reads split: if_splits)
      from flip_entry_run [OF ok kd best tok quote refl init c nz terms funds flip]
      show "ends ?P (ebind (on_dex (sub_balance u et ea)) (\<lambda>_. on_dex (ebind next_order_id (\<lambda>i. ebind increment_next_order_id (\<lambda>_.
        ebind (case new_flip i u (compute_book_key env tok quote) (o_amount ord) t (\<not> b) ft of Inl _ \<Rightarrow> efail (StablecoinDEX DEX_InvalidFlipTick)
          | Inr ord \<Rightarrow> eret ord) (\<lambda>ord'. ebind (commit_order_to_book ord') (\<lambda>_.
        ebind (emit_dex (OrderPlaced i u tok (o_amount ord) (\<not> b) t True ft)) (\<lambda>_. eret i)))))))) w"
        unfolding ends_def by (metis snd_conv)
    qed
  qed
qed

end
