(* ===== verification/Dex_Fill.thy ===== *)
theory Dex_Fill
  imports Dex_Entry
begin

section \<open>Filling orders\<close>

text \<open>
  A complete fill pays the maker, lets a flip order come back on the other side, removes the order and hands
  over the order that is now the best one. Here: the loops over fills keep the books in order, and what the taker
  receives is released from the escrow of the orders that are filled, while what the taker pays is owed to
  their makers.
\<close>

subsection \<open>Placing the flipped order\<close>

lemma place_flip_ends:
  fixes w :: "'x dex_world_scheme"
  assumes ok: "dex_ok env (Suc n) a (w_dex w)" and kd: "keys_distinct env"
    and best: "best_order k b (w_dex w) = Some (l, ord)" "bk_base (dx_books (w_dex w) k) \<noteq> 0"
  shows "ends (\<lambda>w'. \<exists>D. w' = w\<lparr>w_dex := D\<rparr> \<and> flipped env n (w_dex w) k b l ord D)
    (place_flip env u tok (o_amount ord) (\<not> b) t ft True) w"
proof -
  let ?P = "\<lambda>w'. \<exists>D. w' = w\<lparr>w_dex := D\<rparr> \<and> flipped env n (w_dex w) k b l ord D"
  have here: "?P w" using flipped_refl [OF ok best(1)] by (intro exI [of _ "w_dex w"]) simp
  have main: "ends ?P (ebind (validate_or_create_pair env book tok) (\<lambda>_. enter_flip_order env u tok quote (o_amount ord) (\<not> b) t ft True)) w"
    if q: "token_quote tok w = (Inr quote, w)" and book: "book = dx_books (w_dex w) (compute_book_key env tok quote)" for quote book
  proof (cases "bk_base book = 0")
    case False
    have "ebind (validate_or_create_pair env book tok) (\<lambda>_. m) = m" for m :: "('x, u128) dop"
      using False by (simp add: validate_or_create_pair_def fun_eq_iff run)
    moreover have "is_tip20_prefix tok" using q by (simp add: lookup_reads)
    ultimately show ?thesis using enter_flip_ends [OF ok kd best, of tok quote] False book by simp
  next
    case True
    have tok: "is_tip20_prefix tok" "quote = quote_of w tok" using q by (simp_all add: lookup_reads quote_of_def)
    show ?thesis
    proof (rule ends_ebind)
      fix e w' assume "validate_or_create_pair env book tok w = (Inl e, w')"
      then have "create_pair env tok w = (Inl e, w')" using True by (auto simp: validate_or_create_pair_def evoid_def run split: prod.splits sum.splits)
      from create_pair_run [OF this] here show "?P w'" by auto
    next
      fix x w' assume "validate_or_create_pair env book tok w = (Inr x, w')"
      then obtain key where "create_pair env tok w = (Inr key, w')" using True by (auto simp: validate_or_create_pair_def evoid_def ebind_ok eret_ok)
      from create_pair_run [OF this] have w': "w' = w\<lparr>w_dex := paired env tok quote (w_dex w)\<rparr>" and quote: "is_tip20_prefix quote"
        and new: "bk_base (dx_books (w_dex w) (compute_book_key env tok quote)) = 0" using tok by auto
      let ?s = "paired env tok quote (w_dex w)"
      note same = paired_best [OF best(2) new]
      have "ends (\<lambda>w''. \<exists>D. w'' = w'\<lparr>w_dex := D\<rparr> \<and> flipped env n (w_dex w') k b l ord D) (enter_flip_order env u tok quote (o_amount ord) (\<not> b) t ft True) w'"
        by (rule enter_flip_ends [OF _ kd]) (use w' dex_ok_paired [OF ok new tok(1) quote] same best tok prefix_nonzero [OF tok(1)] in \<open>simp_all add: paired_books\<close>)
      moreover have "flipped env n (w_dex w') k b l ord D \<Longrightarrow> flipped env n (w_dex w) k b l ord D" for D
        using flipped_paired [OF ok new tok(1) quote] w' by simp
      ultimately show "ends ?P (enter_flip_order env u tok quote (o_amount ord) (\<not> b) t ft True) w'" using w' by (auto simp: ends_def)
    qed
  qed
  show ?thesis
    unfolding place_flip_def
    by (intro ends_read [where P = ?P, OF token_reads(4) here] ends_read [where P = ?P, OF on_dex_reads [OF dex_reads(1)] here] main)
      (simp_all add: on_dex_ok dex_prims)
qed

lemma flip_filled_run:
  fixes w :: "'x dex_world_scheme"
  assumes "dex_ok env (Suc n) a (w_dex w)" "keys_distinct env"
    "best_order k b (w_dex w) = Some (l, ord)" "bk_base (dx_books (w_dex w) k) \<noteq> 0" "o_is_bid ord = b"
  obtains D where "flip_filled env bk ord w = (Inr (), w\<lparr>w_dex := D\<rparr>)" "flipped env n (w_dex w) k b l ord D"
proof (cases "o_is_flip ord")
  case True
  with place_flip_ends [OF assms(1-4), of "o_maker ord" "bk_base bk" "o_flip_tick ord" "o_tick ord"] that show ?thesis
    by (auto simp: flip_filled_def eignore_def ends_def assms(5))
next
  case False
  with flipped_refl [OF assms(1,3)] that [of "w_dex w"] show ?thesis by (simp add: flip_filled_def run)
qed

subsection \<open>A complete fill\<close>

text \<open>The token that the taker pays on a side of a book and the one that the taker receives; what a fill pays to the maker.\<close>

definition token_paid :: "bool \<Rightarrow> orderbook \<Rightarrow> address" where
  "token_paid b bk = (if b then bk_base bk else bk_quote bk)"

definition token_received :: "bool \<Rightarrow> orderbook \<Rightarrow> address" where
  "token_received b bk = (if b then bk_quote bk else bk_base bk)"

definition maker_gets :: "order \<Rightarrow> u128 \<Rightarrow> nat" where
  "maker_gets ord x = (if o_is_bid ord then unat x else rdiv Up (unat x * price (o_tick ord)) 100000)"

lemma settle_fill_run:
  assumes "settle_fill bk ord taker s = (Inr y, s')" "is_i16 (o_tick ord)"
  shows "\<exists>z. unat z = maker_gets ord (o_remaining ord) \<and> unat y = released ord (o_remaining ord) \<and>
    unat (dx_balances s (o_maker ord) (token_paid (o_is_bid ord) bk)) + unat z < 2 ^ 128 \<and>
    s' = log_event (OrderFilled (o_id ord) (o_maker ord) taker (o_remaining ord) False) (credit (o_maker ord) (token_paid (o_is_bid ord) bk) z s)"
  using assms
  by (cases "o_is_bid ord")
    (auto simp: settle_fill_def Let_def ebind_ok eok_or_ok increment_balance_run emit_dex_def emodify_ok eret_ok maker_gets_def released_def token_paid_def
      base_to_quote_Some log_event_def simp del: rdiv.simps split: if_splits)

lemma fill_order_run:
  fixes w :: "'x dex_world_scheme"
  assumes ok: "dex_ok env (Suc n) a (w_dex w)" and kd: "keys_distinct env"
    and best: "best_order k b (w_dex w) = Some (l, ord)" and init: "bk_base (dx_books (w_dex w) k) \<noteq> 0"
    and run: "fill_order env k ord l taker w = (Inr (y, nxt), w')"
  defines "bk \<equiv> dx_books (w_dex w) k"
  obtains D where "w' = w\<lparr>w_dex := D\<rparr>" "dex_ok env n a D" "nxt = best_order k b D" "unat y = released ord (o_remaining ord)"
    "\<And>T. dex_owes D T + in_token (token_received b bk) (unat y) T \<le> dex_owes (w_dex w) T + in_token (token_paid b bk) (maker_gets ord (o_remaining ord)) T"
    "books_kept (w_dex w) D" "side_orders k b D = side_orders k b (w_dex w) - {o_id ord}"  "o_id ord \<in> side_orders k b (w_dex w)"
proof -
  from ok obtain Q where Q: "book_rep (w_dex w) Q" "unat (max (dx_next_order_id (w_dex w)) 1) + Suc n < 2 ^ 128"
    "placed (w_dex w) + a < 2 ^ 128" "keyed env (w_dex w)" by (rule dex_okD)
  from best_order_Some [OF Q(1) init best] obtain i t where i: "live_order (w_dex w) i ord" "home ord = (k, b, t)" by blast
  have o: "o_book_key ord = k" "o_is_bid ord = b" using i(2) by (auto simp: home_def)
  from run obtain s1 w2 where settle: "settle_fill bk ord taker (w_dex w) = (Inr y, s1)"
    and flip: "flip_filled env bk ord (w\<lparr>w_dex := s1\<rparr>) = (Inr (), w2)"
    and adv: "on_dex (advance_book k ord l) w2 = (Inr nxt, w')"
    by (auto simp: fill_order_def bk_def ebind_ok eret_ok on_dex_ok [of "read_book _"] on_dex_ok [of "settle_fill _ _ _"] dex_prims)
  from settle_fill_run [OF settle live_tick [OF i(1)]] obtain z where z: "unat z = maker_gets ord (o_remaining ord)"
    and y: "unat y = released ord (o_remaining ord)"
    and room: "unat (dx_balances (w_dex w) (o_maker ord) (token_paid b bk)) + unat z < 2 ^ 128"
    and s1: "s1 = log_event (OrderFilled (o_id ord) (o_maker ord) taker (o_remaining ord) False) (credit (o_maker ord) (token_paid b bk) z (w_dex w))"
    using o(2) by auto
  have ok1: "dex_ok env (Suc n) a (w_dex (w\<lparr>w_dex := s1\<rparr>))" using ok by (simp add: dex_ok_def s1)
  obtain D1 where "flip_filled env bk ord (w\<lparr>w_dex := s1\<rparr>) = (Inr (), w\<lparr>w_dex := s1, w_dex := D1\<rparr>)" and fl: "flipped env n s1 k b l ord D1"
    by (rule flip_filled_run [OF ok1 kd, of k b l ord bk]) (use best init o in \<open>auto simp: s1\<close>)
  with flip have w2: "w2 = w\<lparr>w_dex := D1\<rparr>" by simp
  from fl obtain Q1 where Q1: "book_rep D1 Q1" by (auto simp: flipped_def)
  have init1: "bk_base (dx_books D1 k) \<noteq> 0" and best1: "best_order k b D1 = Some (l, ord)"
    using fl init by (auto simp: flipped_def s1 books_kept_def)
  from best_order_Some [OF Q1 init1 best1] obtain j q t' where j: "ord = dx_orders D1 j" "live_order D1 j ord" "Q1 (k, b, t') = j # q" by blast
  let ?D = "dropped ord D1"
  have w': "w' = w\<lparr>w_dex := ?D\<rparr>" "nxt = best_order k b ?D"
    using adv advance_book_run [OF Q1 init1 best1] by (auto simp: on_dex_ok w2)
  have ord: "ord = dx_orders D1 (o_id ord)" using j(1,2) by (simp add: live_order_def)
  note drop = owes_dropped [OF ord]
  have rep: "\<exists>Q. book_rep ?D Q" using dropped_rep [OF Q1, of j k b t' ord] j by auto
  have "dex_ok env n a ?D"
    using fl Q(3) drop(2) rep keyed_frame [of env D1 ?D]
    by (auto simp: dex_ok_def flipped_def dropped_unchanged s1)
  moreover have "dex_owes ?D T + in_token (token_received b bk) (unat y) T \<le> dex_owes (w_dex w) T + in_token (token_paid b bk) (maker_gets ord (o_remaining ord)) T" for T
  proof -
    have tok: "escrow_token (dx_books D1 (o_book_key ord)) ord = token_received b bk"
      using fl o init by (auto simp: flipped_def s1 escrow_token_def token_received_def bk_def books_kept_def)
    have "dex_owes ?D T + in_token (token_received b bk) (escrow ord) T = dex_owes D1 T" using drop(1) [of T] tok by simp
    moreover have "dex_owes D1 T \<le> dex_owes s1 T" using fl by (simp add: flipped_def)
    moreover have "dex_owes s1 T = dex_owes (w_dex w) T + in_token (token_paid b bk) (unat z) T"
      using owes_credit [OF room, of T] by (simp add: s1)
    moreover have "in_token (token_received b bk) (unat y) T \<le> in_token (token_received b bk) (escrow ord) T"
      using released_all [of ord] y by (simp add: in_token_def)
    ultimately show ?thesis using z by simp
  qed
  moreover have "books_kept (w_dex w) ?D" using fl by (simp add: flipped_def dropped_unchanged s1 books_kept_def)
  moreover have "o_id ord \<in> side_orders k b D1" using ord o live_order_ne [OF j(2)] by (auto simp: side_orders_def)
  moreover have "side_orders k b ?D = side_orders k b D1 - {o_id ord}"
  proof -
    have "o_id ord = j" using j(2) by (simp add: live_order_def)
    moreover have "distinct (Q1 (k, b, t'))" using book_repD(1) [OF Q1, of "(k, b, t')"] by (simp add: queue_rep_def)
    moreover have "j \<notin> set (Q1 (k, b, u))" if "u \<noteq> t'" for u
      using book_repD(2) [OF Q1, of j "(k, b, u)"] book_repD(2) [OF Q1, of j "(k, b, t')"] j(3) that by auto
    moreover have "book_rep ?D (Q1((k, b, t') := q))" using dropped_rep [OF Q1, of j k b t' ord] j by simp
    ultimately show ?thesis
      using j(3) by (auto simp: side_orders_queues [OF Q1] side_orders_queues [of ?D "Q1((k, b, t') := q)"] split: if_splits) (metis set_ConsD)
  qed
  moreover have "side_orders k b D1 = side_orders k b (w_dex w)" using fl by (simp add: flipped_def s1)
  ultimately show ?thesis using that w' y by metis
qed

subsection \<open>The rounds of a fill\<close>

lemma partial_fill_ok:
  assumes ok: "dex_ok env n a s" and best: "best_order k b s = Some (l, ord)" and init: "bk_base (dx_books s k) \<noteq> 0"
    and x: "x < o_remaining ord" and run: "partial_fill_order ord l x taker s = (Inr y, s')"
  shows "dex_ok env n a s'" "unat y = released ord x"
    "dex_owes s' T + in_token (token_received b (dx_books s k)) (unat y) T \<le> dex_owes s T + in_token (token_paid b (dx_books s k)) (maker_gets ord x) T"
    "books_kept s s'"
proof -
  from ok obtain Q where Q: "book_rep s Q" "unat (max (dx_next_order_id s) 1) + n < 2 ^ 128" "placed s + a < 2 ^ 128" "keyed env s" by (rule dex_okD)
  from best_order_Some [OF Q(1) init best] obtain i q t where i: "Q (k, b, t) = i # q" "l = book_level b t (dx_books s k)" "ord = dx_orders s i"
    "live_order s i ord" "home ord = (k, b, t)" by blast
  have o: "o_book_key ord = k" "o_is_bid ord = b" "o_tick ord = t" "ord = dx_orders s (o_id ord)" using i by (auto simp: home_def live_order_def)
  have mem: "i \<in> set (Q (k, b, t))" using i(1) by simp
  from partial_fill_run [OF Q(1) mem i(3,2) x run] obtain z u where z: "unat z = rdiv (if b then Down else Up) (unat x * price t) 100000"
    and y: "y = (if b then z else x)" and u: "u = (if b then x else z)"
    and room: "unat (dx_balances s (o_maker ord) (token_paid b (dx_books s k))) + unat u < 2 ^ 128"
    and s': "s' = log_event (OrderFilled i (o_maker ord) taker x True) (credit (o_maker ord) (token_paid b (dx_books s k)) u (partly_filled ord x s))"
    by (auto simp: Let_def token_paid_def)
  show y': "unat y = released ord x" using y z o by (simp add: released_def del: rdiv.simps)
  have u': "unat u = maker_gets ord x" using u z o by (simp add: maker_gets_def del: rdiv.simps)
  note part = owes_partly_filled [OF o(4) order.strict_implies_order [OF x]]
  have "keyed env (partly_filled ord x s)" by (rule keyed_frame [OF Q(4)]) (simp add: partly_filled_unchanged)
  then show "dex_ok env n a s'"
    using Q part(2) partly_filled_rep [OF Q(1) mem i(3) x] by (auto simp: dex_ok_def s' partly_filled_unchanged)
  have "dex_owes s' T = dex_owes (partly_filled ord x s) T + in_token (token_paid b (dx_books s k)) (unat u) T"
    using owes_credit [of "partly_filled ord x s" "o_maker ord" "token_paid b (dx_books s k)" u T] room by (simp add: s' partly_filled_unchanged)
  moreover have "escrow_token (dx_books s (o_book_key ord)) ord = token_received b (dx_books s k)"
    using o by (simp add: escrow_token_def token_received_def)
  ultimately show "dex_owes s' T + in_token (token_received b (dx_books s k)) (unat y) T \<le> dex_owes s T + in_token (token_paid b (dx_books s k)) (maker_gets ord x) T"
    using part(1) [of T] y' u' by simp
  show "books_kept s s'" by (simp add: s' partly_filled_unchanged books_kept_def)
qed

lemma maker_gets_le:
  assumes "unat y * price (o_tick ord) \<le> c * 100000" "\<not> o_is_bid ord"
  shows "maker_gets ord y \<le> c"
  using assms by (simp add: maker_gets_def rdiv_le_iff del: rdiv.simps)

text \<open>With an exact input, a round takes no more than is left of the input.\<close>

lemma exact_in_fill_bound:
  assumes "exact_in_fill b x ord s = (Inr y, s')" "o_is_bid ord = b" "is_i16 (o_tick ord)"
  shows "s' = s" "y \<le> o_remaining ord" "maker_gets ord y \<le> unat x"
proof -
  show "s' = s" "y \<le> o_remaining ord" using assms by (auto simp: exact_in_fill_def ok split: if_splits)
  show "maker_gets ord y \<le> unat x"
  proof (cases b)
    case True
    then show ?thesis using assms by (auto simp: exact_in_fill_def ok maker_gets_def min_def word_le_nat_alt split: if_splits)
  next
    case False
    with assms obtain z where z: "unat z = rdiv Down (unat x * 100000) (price (o_tick ord))" "y = min z (o_remaining ord)"
      by (auto simp: exact_in_fill_def ok quote_to_base_Some simp del: rdiv.simps)
    then have "unat y \<le> unat z" by (auto simp: min_def word_le_nat_alt)
    then have "unat y * price (o_tick ord) \<le> unat z * price (o_tick ord)" by (rule mult_le_mono1)
    also have "\<dots> \<le> unat x * 100000" using rdiv_down_le z(1) by metis
    finally show ?thesis using False assms(2) by (intro maker_gets_le) simp_all
  qed
qed

lemma read_run: "reads m \<Longrightarrow> m s = (Inr v, s') \<Longrightarrow> s' = s"
  using keeps_run [of "\<lambda>s. s" m s "Inr v" s'] by simp

lemma fill_reads: "reads (exact_in_fill b x ord)" "reads (exact_out_fill b x ord)"
  unfolding exact_in_fill_def exact_out_fill_def Let_def by (intro kept)+

lemma left_reads: "reads (exact_in_left b x ord)" "reads (exact_out_left b x ord r)"
  unfolding exact_in_left_def exact_out_left_def by (intro kept)+

lemma exact_in_left_bound:
  assumes "exact_in_left b x ord s = (Inr x', s')" "o_is_bid ord = b" "is_i16 (o_tick ord)" "maker_gets ord (o_remaining ord) \<le> unat x"
  shows "unat x' + maker_gets ord (o_remaining ord) \<le> unat x"
  using assms by (cases b) (auto simp: exact_in_left_def ok checked maker_gets_def base_to_quote_Some simp del: rdiv.simps split: if_splits)

text \<open>With an exact output, a round pays the makers what it charges, and releases what it counts as output.\<close>

lemma exact_out_fill_eq:
  assumes "exact_out_fill b x ord s = (Inr (y, c), s')" "o_is_bid ord = b" "is_i16 (o_tick ord)"
  shows "s' = s" "y \<le> o_remaining ord" "unat c = maker_gets ord y" "y < o_remaining ord \<Longrightarrow> unat x \<le> released ord y"
proof -
  show "s' = s" "y \<le> o_remaining ord" "unat c = maker_gets ord y"
    using assms by (auto simp: exact_out_fill_def ok Let_def maker_gets_def base_to_quote_Some simp del: rdiv.simps split: if_splits)
  show "unat x \<le> released ord y" if y: "y < o_remaining ord"
  proof (cases b)
    case True
    with assms obtain z where z: "unat z = rdiv Up (unat x * 100000) (price (o_tick ord))" "y = min z (o_remaining ord)"
      by (auto simp: exact_out_fill_def ok Let_def quote_to_base_Some simp del: rdiv.simps)
    with y have "y = z" by (auto simp: min_def split: if_splits)
    moreover have "unat x * 100000 \<le> rdiv Up (unat x * 100000) (price (o_tick ord)) * price (o_tick ord)"
      by (rule rdiv_up_ge) (use price_bounds [OF assms(3)] in simp)
    ultimately show ?thesis using z(1) True assms(2) by (simp add: released_def rdiv_le_iff del: rdiv.simps)
  next
    case False
    with assms y show ?thesis by (auto simp: exact_out_fill_def ok Let_def released_def min_def split: if_splits)
  qed
qed

lemma exact_out_left_bound:
  assumes "exact_out_left b x ord r s = (Inr x', s')" "o_is_bid ord = b" "is_i16 (o_tick ord)" "unat r = released ord (o_remaining ord)"
    "exact_out_fill b x ord s0 = (Inr (o_remaining ord, c), s1)"
  shows "unat x \<le> unat x' + unat r"
proof (cases b)
  case True
  with assms obtain z where z: "unat z = rdiv Up (unat x * 100000) (price (o_tick ord))"
    and x': "if o_remaining ord < z then checked_sub x r = Some x' else x' = 0"
    by (auto simp: exact_out_left_def ok quote_to_base_Some simp del: rdiv.simps split: if_splits)
  show ?thesis
  proof (cases "o_remaining ord < z")
    case True
    with x' show ?thesis by (simp add: checked)
  next
    case False
    have "unat x * 100000 \<le> rdiv Up (unat x * 100000) (price (o_tick ord)) * price (o_tick ord)"
      by (rule rdiv_up_ge) (use price_bounds [OF assms(3)] in simp)
    also have "\<dots> \<le> unat (o_remaining ord) * price (o_tick ord)" using False z by (simp add: word_less_nat_alt not_less del: rdiv.simps)
    finally have "unat x \<le> unat r" using assms(2,4) \<open>b\<close> by (simp add: released_def rdiv_le_iff del: rdiv.simps)
    then show ?thesis by simp
  qed
next
  case False
  with assms show ?thesis
    by (auto simp: exact_out_left_def ok checked released_def word_less_nat_alt split: if_splits)
qed

subsection \<open>The loops\<close>

text \<open>What a sequence of fills does: the books stay in order, and what is owed changes by what is paid in and taken out.\<close>

definition traded :: "env \<Rightarrow> nat \<Rightarrow> nat \<Rightarrow> b256 \<Rightarrow> bool \<Rightarrow> nat \<Rightarrow> nat \<Rightarrow> dex \<Rightarrow> dex \<Rightarrow> bool" where
  "traded env n a k b paid received s s' \<longleftrightarrow> dex_ok env n a s' \<and> bk_base (dx_books s k) \<noteq> 0 \<and> books_kept s s' \<and>
     (\<forall>T. dex_owes s' T + in_token (token_received b (dx_books s k)) received T \<le> dex_owes s T + in_token (token_paid b (dx_books s k)) paid T)"

lemma in_token_add: "in_token tok (x + y) T = in_token tok x T + in_token tok y T"
  by (simp add: in_token_def)

lemma in_token_mono: "x \<le> y \<Longrightarrow> in_token tok x T \<le> in_token tok y T"
  by (simp add: in_token_def)

lemma traded_nothing: "dex_ok env m a s \<Longrightarrow> n \<le> m \<Longrightarrow> bk_base (dx_books s k) \<noteq> 0 \<Longrightarrow> traded env n a k b 0 0 s s"
  by (auto simp: traded_def in_token_def intro: dex_ok_mono)

lemma traded_trans:
  assumes "traded env m a k b p r s s'" "traded env n a k b p' r' s' s''"
  shows "traded env n a k b (p + p') (r + r') s s''"
proof -
  have "token_paid b (dx_books s' k) = token_paid b (dx_books s k)" "token_received b (dx_books s' k) = token_received b (dx_books s k)"
    using assms(1) by (auto simp: traded_def token_paid_def token_received_def books_kept_def)
  moreover have "z + (r + r') \<le> y + (p + p')" if "x + r \<le> y + p" "z + r' \<le> x + p'" for x y z r p r' p' :: nat using that by linarith
  ultimately show ?thesis using assms books_kept_trans [of s s' s''] unfolding traded_def in_token_add by metis
qed

lemma traded_weaken: "traded env n a k b p r s s' \<Longrightarrow> p \<le> p' \<Longrightarrow> r' \<le> r \<Longrightarrow> traded env n a k b p' r' s s'"
  unfolding traded_def by (meson add_left_mono add_le_mono in_token_mono order.trans order.refl)

lemma fill_order_traded:
  fixes w :: "'x dex_world_scheme"
  assumes "dex_ok env (Suc n) a (w_dex w)" "keys_distinct env" "best_order k b (w_dex w) = Some (l, ord)"
    "bk_base (dx_books (w_dex w) k) \<noteq> 0" "fill_order env k ord l taker w = (Inr (y, nxt), w')"
  obtains D where "w' = w\<lparr>w_dex := D\<rparr>" "traded env n a k b (maker_gets ord (o_remaining ord)) (unat y) (w_dex w) D"
    "nxt = best_order k b D" "unat y = released ord (o_remaining ord)"
  by (rule fill_order_run [OF assms]) (rule that; simp add: traded_def assms(4))

lemma partial_fill_traded:
  fixes w :: "'x dex_world_scheme"
  assumes "dex_ok env n a (w_dex w)" "best_order k b (w_dex w) = Some (l, ord)" "bk_base (dx_books (w_dex w) k) \<noteq> 0"
    "x < o_remaining ord" "on_dex (partial_fill_order ord l x taker) w = (Inr y, w')"
  obtains D where "w' = w\<lparr>w_dex := D\<rparr>" "traded env n a k b (maker_gets ord x) (unat y) (w_dex w) D" "unat y = released ord x"
proof -
  from assms(5) obtain D where D: "w' = w\<lparr>w_dex := D\<rparr>" "partial_fill_order ord l x taker (w_dex w) = (Inr y, D)" by (auto simp: on_dex_ok)
  from partial_fill_ok [OF assms(1-4) D(2)] D(1) assms(3) that show ?thesis by (simp add: traded_def)
qed

lemma best_order_side:
  assumes "dex_ok env n a s" "best_order k b s = Some (l, ord)" "bk_base (dx_books s k) \<noteq> 0"
  shows "o_is_bid ord = b" "is_i16 (o_tick ord)"
proof -
  from assms(1) obtain Q where "book_rep s Q" by (rule dex_okD)
  from best_order_Some [OF this assms(3,2)] show "o_is_bid ord = b" "is_i16 (o_tick ord)" by (auto simp: home_def dest: live_tick)
qed

lemma fill_loop_in_traded:
  fixes w :: "'x dex_world_scheme"
  assumes "fill_loop_in env gas k b taker x l ord tot w = (Inr r, w')" "dex_ok env (gas + n) a (w_dex w)" "keys_distinct env"
    "best_order k b (w_dex w) = Some (l, ord)" "bk_base (dx_books (w_dex w) k) \<noteq> 0"
  shows "\<exists>D y. w' = w\<lparr>w_dex := D\<rparr> \<and> unat r = unat tot + y \<and> traded env n a k b (unat x) y (w_dex w) D"
  using assms
proof (induction gas arbitrary: x l ord tot w)
  case (Suc gas)
  note side = best_order_side [OF Suc.prems(2,4,5)]
  show ?case
  proof (cases "x = 0")
    case True
    with Suc.prems(1,2) traded_nothing [of env "Suc gas + n" a "w_dex w" n k b] Suc.prems(5) show ?thesis
      by (intro exI [of _ "w_dex w"] exI [of _ 0]) (simp add: eret_ok)
  next
    case False
    with Suc.prems(1) obtain y w1 where y: "exact_in_fill b x ord w = (Inr y, w1)" by (auto simp: ebind_ok)
    note yb = exact_in_fill_bound [OF y side]
    show ?thesis
    proof (cases "y < o_remaining ord")
      case True
      with Suc.prems(1) False y obtain z where z: "on_dex (partial_fill_order ord l y taker) w = (Inr z, w')"
        and tot: "checked_add tot z = Some r" by (auto simp: ebind_ok yb(1) eok_or_ok)
      obtain D where D: "w' = w\<lparr>w_dex := D\<rparr>" "traded env (Suc gas + n) a k b (maker_gets ord y) (unat z) (w_dex w) D"
        by (rule partial_fill_traded [OF Suc.prems(2,4,5) True z])
      have "traded env n a k b 0 0 D D" by (rule traded_nothing) (use D(2) in \<open>auto simp: traded_def books_kept_def\<close>)
      from traded_weaken [OF traded_trans [OF D(2) this], of "unat x" "unat z"] yb(3) D(1) tot show ?thesis by (auto simp: checked)
    next
      case f: False
      then have full: "y = o_remaining ord" using yb(2) by simp
      from Suc.prems(1) False f y obtain z nxt w2 tot' x' w3 where fo: "fill_order env k ord l taker w = (Inr (z, nxt), w2)"
        and tot: "checked_add tot z = Some tot'" and left: "exact_in_left b x ord w2 = (Inr x', w3)"
        and go: "(case nxt of Some (l, ord) \<Rightarrow> fill_loop_in env gas k b taker x' l ord tot'
          | None \<Rightarrow> if x' > 0 then efail (StablecoinDEX DEX_InsufficientLiquidity) else eret tot') w3 = (Inr r, w')"
        by (auto simp: ebind_ok yb(1) eok_or_ok)
      have w3: "w3 = w2" by (rule read_run [OF left_reads(1) left])
      obtain D where D: "w2 = w\<lparr>w_dex := D\<rparr>" "traded env (gas + n) a k b (maker_gets ord (o_remaining ord)) (unat z) (w_dex w) D" "nxt = best_order k b D"
        by (rule fill_order_traded [OF _ Suc.prems(3,4,5) fo, of "gas + n" a]) (use Suc.prems(2) in simp_all)
      have ok: "dex_ok env (gas + n) a D" "bk_base (dx_books D k) \<noteq> 0" using D(2) Suc.prems(5) by (auto simp: traded_def books_kept_def)
      have le: "unat x' + maker_gets ord (o_remaining ord) \<le> unat x" using exact_in_left_bound [OF left side] yb(3) full by simp
      have "\<exists>D' u. w' = w\<lparr>w_dex := D'\<rparr> \<and> unat r = unat tot' + u \<and> traded env n a k b (unat x') u D D'"
      proof (cases nxt)
        case None
        with go traded_nothing [OF ok(1), of n k b] ok(2) show ?thesis by (intro exI [of _ D] exI [of _ 0]) (auto simp: D(1) w3 eret_ok efail_ok word_gt_0 split: if_splits)
      next
        case (Some p)
        obtain l' ord' where p: "p = (l', ord')" by (cases p)
        from Suc.IH [of x' l' ord' tot' w2] go Some p ok Suc.prems(3) D(1,3) w3 show ?thesis by auto
      qed
      then obtain D' u where D': "w' = w\<lparr>w_dex := D'\<rparr>" "unat r = unat tot' + u" "traded env n a k b (unat x') u D D'" by blast
      from traded_weaken [OF traded_trans [OF D(2) D'(3)], of "unat x" "unat z + u"] le D'(1,2) tot show ?thesis
        by (intro exI [of _ D'] exI [of _ "unat z + u"]) (simp add: checked)
    qed
  qed
qed (simp add: efail_ok)

lemma fill_loop_out_traded:
  fixes w :: "'x dex_world_scheme"
  assumes "fill_loop_out env gas k b taker x l ord tot w = (Inr r, w')" "dex_ok env (gas + n) a (w_dex w)" "keys_distinct env"
    "best_order k b (w_dex w) = Some (l, ord)" "bk_base (dx_books (w_dex w) k) \<noteq> 0"
  shows "\<exists>D c. w' = w\<lparr>w_dex := D\<rparr> \<and> unat r = unat tot + c \<and> traded env n a k b c (unat x) (w_dex w) D"
  using assms
proof (induction gas arbitrary: x l ord tot w)
  case (Suc gas)
  note side = best_order_side [OF Suc.prems(2,4,5)]
  show ?case
  proof (cases "x = 0")
    case True
    with Suc.prems(1,2) traded_nothing [of env "Suc gas + n" a "w_dex w" n k b] Suc.prems(5) show ?thesis
      by (intro exI [of _ "w_dex w"] exI [of _ 0]) (simp add: eret_ok)
  next
    case False
    with Suc.prems(1) obtain y c w1 where y: "exact_out_fill b x ord w = (Inr (y, c), w1)" by (auto simp: ebind_ok)
    note yb = exact_out_fill_eq [OF y side]
    show ?thesis
    proof (cases "y < o_remaining ord")
      case True
      with Suc.prems(1) False y obtain z where z: "on_dex (partial_fill_order ord l y taker) w = (Inr z, w')"
        and tot: "checked_add tot c = Some r" by (auto simp: ebind_ok yb(1) eok_or_ok)
      obtain D where D: "w' = w\<lparr>w_dex := D\<rparr>" "traded env (Suc gas + n) a k b (maker_gets ord y) (unat z) (w_dex w) D" "unat z = released ord y"
        by (rule partial_fill_traded [OF Suc.prems(2,4,5) True z])
      have "traded env n a k b 0 0 D D" by (rule traded_nothing) (use D(2) in \<open>auto simp: traded_def books_kept_def\<close>)
      from traded_weaken [OF traded_trans [OF D(2) this], of "unat c" "unat x"] yb(3) yb(4) [OF True] D(1,3) tot show ?thesis
        by (auto simp: checked)
    next
      case f: False
      then have full: "y = o_remaining ord" using yb(2) by simp
      from Suc.prems(1) False f y obtain z nxt w2 tot' x' w3 where fo: "fill_order env k ord l taker w = (Inr (z, nxt), w2)"
        and tot: "checked_add tot c = Some tot'" and left: "exact_out_left b x ord z w2 = (Inr x', w3)"
        and go: "(case nxt of Some (l, ord) \<Rightarrow> fill_loop_out env gas k b taker x' l ord tot'
          | None \<Rightarrow> if x' > 0 then efail (StablecoinDEX DEX_InsufficientLiquidity) else eret tot') w3 = (Inr r, w')"
        by (auto simp: ebind_ok yb(1) eok_or_ok)
      have w3: "w3 = w2" by (rule read_run [OF left_reads(2) left])
      obtain D where D: "w2 = w\<lparr>w_dex := D\<rparr>" "traded env (gas + n) a k b (maker_gets ord (o_remaining ord)) (unat z) (w_dex w) D" "nxt = best_order k b D"
        "unat z = released ord (o_remaining ord)"
        by (rule fill_order_traded [OF _ Suc.prems(3,4,5) fo, of "gas + n" a]) (use Suc.prems(2) in simp_all)
      have ok: "dex_ok env (gas + n) a D" "bk_base (dx_books D k) \<noteq> 0" using D(2) Suc.prems(5) by (auto simp: traded_def books_kept_def)
      have le: "unat x \<le> unat x' + unat z" by (rule exact_out_left_bound [OF left side D(4) y [unfolded full]])
      have "\<exists>D' u. w' = w\<lparr>w_dex := D'\<rparr> \<and> unat r = unat tot' + u \<and> traded env n a k b u (unat x') D D'"
      proof (cases nxt)
        case None
        with go traded_nothing [OF ok(1), of n k b] ok(2) show ?thesis
          by (intro exI [of _ D] exI [of _ 0]) (auto simp: D(1) w3 eret_ok efail_ok word_gt_0 split: if_splits)
      next
        case (Some p)
        obtain l' ord' where p: "p = (l', ord')" by (cases p)
        from Suc.IH [of x' l' ord' tot' w2] go Some p ok Suc.prems(3) D(1,3) w3 show ?thesis by auto
      qed
      then obtain D' u where D': "w' = w\<lparr>w_dex := D'\<rparr>" "unat r = unat tot' + u" "traded env n a k b u (unat x') D D'" by blast
      have "unat c = maker_gets ord (o_remaining ord)" using yb(3) full by simp
      with traded_weaken [OF traded_trans [OF D(2) D'(3)], of "unat c + u" "unat x"] le D'(1,2) tot show ?thesis
        by (intro exI [of _ D'] exI [of _ "unat c + u"]) (simp add: checked)
    qed
  qed
qed (simp add: efail_ok)

lemma best_price_ok:
  "ebind (on_dex (get_best_price_level k b)) (\<lambda>l. ebind (on_dex (read_order (lv_head l))) (\<lambda>ord. f l ord)) w = (Inr r, w') \<Longrightarrow>
    \<exists>l ord. best_order k b (w_dex w) = Some (l, ord) \<and> f l ord w = (Inr r, w')"
  by (cases b) (auto simp: get_best_price_level_def ebind_ok on_dex_ok on_book_ok erequire_ok egets_ok dex_prims book_ops best_order_def best_tick_def empty_best_def
      Let_def book_level_def split: if_splits)

lemma fill_orders_traded:
  fixes w :: "'x dex_world_scheme"
  assumes "dex_ok env (gas + n) a (w_dex w)" "keys_distinct env" "bk_base (dx_books (w_dex w) k) \<noteq> 0"
  shows "fill_orders_exact_in env gas k b x taker w = (Inr r, w') \<Longrightarrow>
      \<exists>D. w' = w\<lparr>w_dex := D\<rparr> \<and> traded env n a k b (unat x) (unat r) (w_dex w) D"
    and "fill_orders_exact_out env gas k b x taker w = (Inr r, w') \<Longrightarrow>
      \<exists>D. w' = w\<lparr>w_dex := D\<rparr> \<and> traded env n a k b (unat r) (unat x) (w_dex w) D"
  unfolding fill_orders_exact_in_def fill_orders_exact_out_def
  by (drule best_price_ok; use assms fill_loop_in_traded [of env gas k b taker x _ _ 0 w r w' n a]
      fill_loop_out_traded [of env gas k b taker x _ _ 0 w r w' n a] in fastforce)+

subsection \<open>The loops end\<close>

text \<open>A run that does not stop for lack of gas. Every round of a loop removes an order from the side that is being filled and adds
  none to it: a flipped order goes to the other side.\<close>

definition ends_well :: "('s, tempo_error, 'a) pre \<Rightarrow> bool" where
  "ends_well m \<longleftrightarrow> (\<forall>s. fst (m s) \<noteq> Inl OutOfGas)"

lemma ends_well_rules:
  "ends_well (eret x)" "ends_well (egets g)" "ends_well (emodify h)" "e \<noteq> OutOfGas \<Longrightarrow> ends_well (eok_or v e)"
  "ends_well m \<Longrightarrow> (\<And>x. ends_well (k x)) \<Longrightarrow> ends_well (ebind m k)" "ends_well m \<Longrightarrow> ends_well n \<Longrightarrow> ends_well (if c then m else n)"
  "ends_well m \<Longrightarrow> ends_well (ezoom get put m)" "ends_well (eignore m')"
  by (auto simp: ends_well_def run eignore_def ezoom_def Let_def split: prod.splits sum.splits option.splits) (metis fst_conv)+

lemma under_overflow_gas [simp]: "under_overflow \<noteq> OutOfGas"
  by (simp add: under_overflow_def)

lemma fills_end_well:
  "ends_well (increment_balance u tok x)" "ends_well (settle_fill bk ord taker)" "ends_well (partial_fill_order ord l x taker)"
  "ends_well (flip_filled env bk ord)" "ends_well (exact_in_fill b x ord)" "ends_well (exact_in_left b x ord)"
  "ends_well (exact_out_fill b x ord)" "ends_well (exact_out_left b x ord r)"
proof -
  have w: "ends_well (write_tick_level t b l)" for t b l by (cases b) (simp_all add: write_tick_level_def ends_well_rules)
  note defs = increment_balance_def balance_of_def set_dex_balance_def emit_dex_def read_book_def on_book_def
  show i: "ends_well (increment_balance u tok x)" for u tok x unfolding defs by (intro ends_well_rules under_overflow_gas)
  show "ends_well (settle_fill bk ord taker)" "ends_well (partial_fill_order ord l x taker)"
    unfolding settle_fill_def partial_fill_order_def Let_def by (intro ends_well_rules under_overflow_gas i w | simp add: defs)+
  show "ends_well (flip_filled env bk ord)" unfolding flip_filled_def by (intro ends_well_rules)
  show "ends_well (exact_in_fill b x ord)" "ends_well (exact_in_left b x ord)"
    "ends_well (exact_out_fill b x ord)" "ends_well (exact_out_left b x ord r)"
    unfolding exact_in_fill_def exact_in_left_def exact_out_fill_def exact_out_left_def Let_def by (intro ends_well_rules under_overflow_gas)+
qed

definition has_gas :: "('s, tempo_error, 'a) pre \<Rightarrow> 's \<Rightarrow> bool" where
  "has_gas m s \<longleftrightarrow> fst (m s) \<noteq> Inl OutOfGas"

lemma ebind_gas: "has_gas m s \<Longrightarrow> (\<And>x s'. m s = (Inr x, s') \<Longrightarrow> has_gas (f x) s') \<Longrightarrow> has_gas (ebind m f) s"
  by (auto simp: has_gas_def ebind_run split: prod.splits sum.splits)

lemma if_gas: "(c \<Longrightarrow> has_gas m s) \<Longrightarrow> (\<not> c \<Longrightarrow> has_gas n s) \<Longrightarrow> has_gas (if c then m else n) s"
  by simp

lemma pair_gas: "(\<And>x y. p = (x, y) \<Longrightarrow> has_gas (f x y) s) \<Longrightarrow> has_gas (case p of (x, y) \<Rightarrow> f x y) s"
  by (cases p) simp

lemma ends_wellD: "ends_well m \<Longrightarrow> has_gas m s"
  by (simp add: ends_well_def has_gas_def)

lemma on_dex_ends_well: "ends_well m \<Longrightarrow> ends_well (on_dex m)"
  unfolding on_dex_def by (rule ends_well_rules)

lemma fill_order_gas:
  fixes w :: "'x dex_world_scheme"
  assumes ok: "dex_ok env (Suc n) a (w_dex w)" "keys_distinct env" "best_order k b (w_dex w) = Some (l, ord)" "bk_base (dx_books (w_dex w) k) \<noteq> 0"
  shows "has_gas (fill_order env k ord l taker) w"
  unfolding fill_order_def
proof (rule ebind_gas)
  fix bk w0 assume bk: "on_dex (read_book k) w = (Inr bk, w0)"
  have w0: "w0 = w" by (rule read_run [OF on_dex_reads [OF dex_reads(1)] bk])
  show "has_gas (ebind (on_dex (settle_fill bk ord taker)) (\<lambda>y. ebind (flip_filled env bk ord) (\<lambda>_.
      ebind (on_dex (advance_book k ord l)) (\<lambda>nxt. eret (y, nxt))))) w0"
  proof (rule ebind_gas)
    fix y w1 assume s: "on_dex (settle_fill bk ord taker) w0 = (Inr y, w1)"
    obtain s1 where w1: "w1 = w\<lparr>w_dex := s1\<rparr>" and s1: "settle_fill bk ord taker (w_dex w) = (Inr y, s1)"
      using s by (auto simp: on_dex_ok w0)
    from settle_fill_run [OF s1 best_order_side(2) [OF ok(1,3,4)]]
    obtain e u tok z where c: "s1 = log_event e (credit u tok z (w_dex w))" by blast
    have "dex_ok env (Suc n) a (w_dex w1)" using ok(1) by (simp add: dex_ok_def w1 c)
    then obtain D where D: "flip_filled env bk ord w1 = (Inr (), w1\<lparr>w_dex := D\<rparr>)" "flipped env n (w_dex w1) k b l ord D"
      by (rule flip_filled_run [OF _ ok(2)]) (use ok(3,4) best_order_side(1) [OF ok(1,3,4)] in \<open>auto simp: w1 c\<close>)
    then obtain Q where Q: "book_rep D Q" by (auto simp: flipped_def)
    have "bk_base (dx_books D k) \<noteq> 0" "best_order k b D = Some (l, ord)" using D(2) ok(4) by (auto simp: flipped_def books_kept_def w1 c)
    note adv = advance_book_run [OF Q this]
    show "has_gas (ebind (flip_filled env bk ord) (\<lambda>_. ebind (on_dex (advance_book k ord l)) (\<lambda>nxt. eret (y, nxt)))) w1"
      using adv by (simp add: has_gas_def ebind_run D(1) on_dex_def ezoom_def eret_def)
  qed (rule ends_wellD [OF on_dex_ends_well [OF fills_end_well(2)]])
qed (simp add: has_gas_def on_dex_def ezoom_def dex_prims)

lemma card_side: "i \<in> A \<Longrightarrow> card (A - {i}) < card A" for A :: "u128 set"
  by (rule card_Diff1_less) simp_all

text \<open>With more gas than there are orders on the side, the loops do not run out of it.\<close>

lemma fill_loops_gas:
  fixes w :: "'x dex_world_scheme"
  assumes "dex_ok env (gas + n) a (w_dex w)" "keys_distinct env" "best_order k b (w_dex w) = Some (l, ord)"
    "bk_base (dx_books (w_dex w) k) \<noteq> 0" "card (side_orders k b (w_dex w)) < gas"
  shows "has_gas (fill_loop_in env gas k b taker x l ord tot) w"
    and "has_gas (fill_loop_out env gas k b taker x l ord tot) w"
proof -
  have next_ok: "dex_ok env (gas + n) a (w_dex w2)" "nxt = best_order k b (w_dex w2)" "bk_base (dx_books (w_dex w2) k) \<noteq> 0" "card (side_orders k b (w_dex w2)) < gas"
    if "dex_ok env (Suc gas + n) a (w_dex w)" "best_order k b (w_dex w) = Some (l, ord)" "bk_base (dx_books (w_dex w) k) \<noteq> 0"
      "card (side_orders k b (w_dex w)) < Suc gas" "fill_order env k ord l taker w = (Inr (z, nxt), w2)"
    for gas l ord z nxt and w w2 :: "'x dex_world_scheme"
  proof -
    note prems = that
    have ok: "dex_ok env (Suc (gas + n)) a (w_dex w)" using prems(1) by simp
    obtain D where "w2 = w\<lparr>w_dex := D\<rparr>" "dex_ok env (gas + n) a D" "nxt = best_order k b D" "books_kept (w_dex w) D"
      "side_orders k b D = side_orders k b (w_dex w) - {o_id ord}" "o_id ord \<in> side_orders k b (w_dex w)"
      by (rule fill_order_run [OF ok assms(2) prems(2,3,5)])
    with prems(3,4) card_side [of "o_id ord" "side_orders k b (w_dex w)"] show "dex_ok env (gas + n) a (w_dex w2)" "nxt = best_order k b (w_dex w2)"
      "bk_base (dx_books (w_dex w2) k) \<noteq> 0" "card (side_orders k b (w_dex w2)) < gas"
      by (auto simp: books_kept_def)
  qed
  note well = fills_end_well [THEN ends_wellD] ends_wellD [OF on_dex_ends_well [OF fills_end_well(3)]] ends_wellD [OF ends_well_rules(4) [OF under_overflow_gas]]
  show "has_gas (fill_loop_in env gas k b taker x l ord tot) w"
    using assms(1,3,4,5)
  proof (induction gas arbitrary: x l ord tot w)
    case (Suc gas)
    have go: "has_gas (case nxt of None \<Rightarrow> if 0 < x' then efail (StablecoinDEX DEX_InsufficientLiquidity) else eret t
        | Some (l', ord') \<Rightarrow> fill_loop_in env gas k b taker x' l' ord' t) w2"
      if "fill_order env k ord l taker w = (Inr (z, nxt), w2)" for x' z nxt w2 t
      using Suc.IH next_ok [OF Suc.prems that] by (auto simp: has_gas_def efail_def eret_def split: option.split)
    show ?case
    proof (cases "x = 0")
      case False
      then show ?thesis
        using fill_order_gas [OF _ assms(2) Suc.prems(2,3), of "gas + n" a taker] Suc.prems(1)
        by (auto intro!: ebind_gas if_gas pair_gas well go simp: eok_or_ok dest!: read_run [OF fill_reads(1)] read_run [OF left_reads(1)])
    qed (simp add: has_gas_def eret_def)
  qed (simp add: efail_def)
  show "has_gas (fill_loop_out env gas k b taker x l ord tot) w"
    using assms(1,3,4,5)
  proof (induction gas arbitrary: x l ord tot w)
    case (Suc gas)
    have go: "has_gas (case nxt of None \<Rightarrow> if 0 < x' then efail (StablecoinDEX DEX_InsufficientLiquidity) else eret t
        | Some (l', ord') \<Rightarrow> fill_loop_out env gas k b taker x' l' ord' t) w2"
      if "fill_order env k ord l taker w = (Inr (z, nxt), w2)" for x' z nxt w2 t
      using Suc.IH next_ok [OF Suc.prems that] by (auto simp: has_gas_def efail_def eret_def split: option.split)
    show ?case
    proof (cases "x = 0")
      case False
      then show ?thesis
        using fill_order_gas [OF _ assms(2) Suc.prems(2,3), of "gas + n" a taker] Suc.prems(1)
        by (auto intro!: ebind_gas if_gas pair_gas well go simp: eok_or_ok dest!: read_run [OF fill_reads(2)] read_run [OF left_reads(2)])
    qed (simp add: has_gas_def eret_def)
  qed (simp add: efail_def)
qed

end
