(* ===== verification/Dex_Route.thy ===== *)
theory Dex_Route
  imports Dex_Fill
begin

section \<open>Routes and swaps\<close>

text \<open>
  A trade between two tokens follows their quote tokens to the first common one. The route is a chain
  of books in which every hop pays out the token that the next one takes, so a swap passes each intermediate
  amount from one book to the next.
\<close>

subsection \<open>Routes\<close>

fun route_ok :: "dex \<Rightarrow> address \<Rightarrow> (b256 \<times> bool) list \<Rightarrow> address \<Rightarrow> bool" where
  "route_ok s token_in [] token_out \<longleftrightarrow> token_in = token_out"
| "route_ok s token_in ((k, b) # route) token_out \<longleftrightarrow> bk_base (dx_books s k) \<noteq> 0 \<and> token_paid b (dx_books s k) = token_in \<and>
     route_ok s (token_received b (dx_books s k)) route token_out"

lemma route_ok_kept: "books_kept s s' \<Longrightarrow> route_ok s u r v \<Longrightarrow> route_ok s' u r v"
proof (induction r arbitrary: u)
  case (Cons h r)
  obtain k b where h: "h = (k, b)" by fastforce
  with Cons show ?case using books_keptD [OF Cons.prems(1), of k] by (auto simp: token_paid_def token_received_def split: if_splits)
qed simp

lemma route_ok_append:
  "route_ok s u (r @ [(k, b)]) v \<longleftrightarrow> bk_base (dx_books s k) \<noteq> 0 \<and> token_received b (dx_books s k) = v \<and> route_ok s u r (token_paid b (dx_books s k))"
  by (induction r arbitrary: u) auto

lemma route_hop_ok:
  assumes "route_hop env u v w = (Inr (k, b), w')" "keyed env (w_dex w)" "keys_distinct env" "is_tip20_prefix u" "is_tip20_prefix v"
  shows "w' = w" "bk_base (dx_books (w_dex w) k) \<noteq> 0" "token_paid b (dx_books (w_dex w) k) = u" "token_received b (dx_books (w_dex w) k) = v"
proof -
  from assms(1) obtain base quote where r: "w' = w" "k = compute_book_key env base quote" "b \<longleftrightarrow> u = base" "bk_base (dx_books (w_dex w) k) \<noteq> 0"
    "base = u \<and> quote = v \<or> base = v \<and> quote = u \<and> quote_of w u \<noteq> v \<and> quote_of w v = u"
    by (auto simp: route_hop_def ebind_ok erequire_ok eret_ok efail_ok lookup_reads on_dex_ok dex_prims Let_def quote_of_def split: if_splits)
  have pre: "is_tip20_prefix base" "is_tip20_prefix quote" using r(5) assms(4,5) by auto
  note bk = keyed_pair [OF assms(2,3) pre r(4) [unfolded r(2)]]
  show "w' = w" "bk_base (dx_books (w_dex w) k) \<noteq> 0" using r by auto
  show "token_paid b (dx_books (w_dex w) k) = u" "token_received b (dx_books (w_dex w) k) = v"
    using r(2,3,5) bk by (auto simp: token_paid_def token_received_def)
qed

lemma build_route_ok:
  assumes "validate_and_build_route env p w = (Inr r, w')" "keyed env (w_dex w)" "keys_distinct env" "\<forall>t\<in>set p. is_tip20_prefix t" "p \<noteq> []"
  shows "w' = w \<and> route_ok (w_dex w) (hd p) r (last p) \<and> Suc (length r) = length p"
  using assms
proof (induction p arbitrary: r rule: validate_and_build_route.induct)
  case (1 env u v p)
  from "1.prems"(1) obtain k b w1 r' where h: "route_hop env u v w = (Inr (k, b), w1)"
    and rest: "validate_and_build_route env (v # p) w1 = (Inr r', w')" and r: "r = (k, b) # r'"
    by (auto simp: ebind_ok eret_ok)
  note hop = route_hop_ok [OF h "1.prems"(2,3)]
  have "w' = w \<and> route_ok (w_dex w) v r' (last (v # p)) \<and> Suc (length r') = length (v # p)"
    using "1.IH" [of r'] rest hop(1) "1.prems" by auto
  with hop r "1.prems"(4) show ?case by auto
qed (auto simp: eret_ok)

lemma path_loop_ok:
  assumes "path_loop gas tok p w = (Inr p', w')" "tok \<in> set p" "\<forall>x\<in>set p. x = tok \<or> is_tip20_prefix x"
  shows "w' = w \<and> (\<exists>q. p' = p @ q \<and> length q < gas) \<and> (\<forall>x\<in>set p'. is_tip20_prefix x)"
  using assms
proof (induction gas arbitrary: tok p)
  case (Suc gas)
  show ?case
  proof (cases "tok = PATH_USD_ADDRESS")
    case True
    then show ?thesis using Suc.prems by (auto simp: eret_ok is_tip20_prefix_system)
  next
    case False
    with Suc.prems(1) have tok: "is_tip20_prefix tok" and rest: "path_loop gas (quote_of w tok) (p @ [quote_of w tok]) w = (Inr p', w')"
      by (auto simp: ebind_ok lookup_reads quote_of_def)
    from Suc.IH [OF rest] Suc.prems(3) tok show ?thesis by fastforce
  qed
qed (simp add: efail_ok)

lemma join_paths_ok:
  assumes "join_paths p q = Some r" "p \<noteq> []" "q \<noteq> []"
  shows "r \<noteq> [] \<and> hd r = hd p \<and> last r = hd q \<and> set r \<subseteq> set p \<union> set q \<and> length r \<le> length p + length q"
proof -
  from assms(1) obtain c where c: "c \<in> set p" "c \<in> set q" and r: "r = takeWhile (\<lambda>t. t \<noteq> c) p @ [c] @ rev (takeWhile (\<lambda>t. t \<noteq> c) q)"
    unfolding join_paths_def by (metis (no_types, lifting) find_Some_iff map_option_eq_Some nth_mem)
  have "hd r = hd p" using assms(2) by (cases p) (auto simp: r)
  moreover have "last r = hd q" using assms(3) by (cases q) (auto simp: r)
  moreover have "length (takeWhile (\<lambda>t. t \<noteq> c) p) < length p"
    using takeWhile_dropWhile_id [of "\<lambda>t. t \<noteq> c" p] c(1) dropWhile_eq_Nil_conv [of "\<lambda>t. t \<noteq> c" p]
    by (metis length_append length_greater_0_conv less_add_same_cancel1)
  then have "length r \<le> length p + length q" using length_takeWhile_le [of "\<lambda>t. t \<noteq> c" q] by (simp add: r)
  moreover have "set r \<subseteq> set p \<union> set q" using c by (auto simp: r dest: set_takeWhileD)
  ultimately show ?thesis by (simp add: r)
qed

text \<open>A trade path is a route from the input token to the output token.\<close>

lemma trade_path_ok:
  assumes "find_trade_path env gas u v w = (Inr r, w')" "keyed env (w_dex w)" "keys_distinct env"
  shows "w' = w \<and> route_ok (w_dex w) u r v \<and> length r \<le> 2 * gas + 1"
proof -
  note b = build_route_ok [OF _ assms(2,3)]
  from assms(1) have pre: "is_tip20_prefix u" "is_tip20_prefix v" by (auto simp: find_trade_path_def ebind_ok erequire_ok)
  from assms(1) consider (direct) "validate_and_build_route env [u, v] w = (Inr r, w')"
    | (far) p q t where "path_loop gas u [u] w = (Inr p, w)" "path_loop gas v [v] w = (Inr q, w)" "join_paths p q = Some t"
        "validate_and_build_route env t w = (Inr r, w')"
  proof (cases "quote_of w u = v \<or> quote_of w v = u")
    case True
    then show ?thesis using assms(1) direct by (auto simp: find_trade_path_def ebind_ok erequire_ok lookup_reads quote_of_def)
  next
    case False
    with assms(1) obtain p w1 q w2 t where r: "path_loop gas u [u] w = (Inr p, w1)" "path_loop gas v [v] w1 = (Inr q, w2)"
        "join_paths p q = Some t" "validate_and_build_route env t w2 = (Inr r, w')"
      by (auto simp: find_trade_path_def find_path_to_root_def ebind_ok erequire_ok eok_or_ok lookup_reads quote_of_def)
    moreover have "w1 = w" using path_loop_ok [OF r(1)] by simp
    moreover have "w2 = w1" using path_loop_ok [OF r(2)] by simp
    ultimately show ?thesis using far by simp
  qed
  then show ?thesis
  proof cases
    case direct
    from b [OF direct] pre show ?thesis by simp
  next
    case far
    from path_loop_ok [OF far(1)] path_loop_ok [OF far(2)] pre obtain p' q' where
      p: "p = u # p'" "length p' < gas" "\<forall>x\<in>set p. is_tip20_prefix x" and q: "q = v # q'" "length q' < gas" "\<forall>x\<in>set q. is_tip20_prefix x" by auto
    note j = join_paths_ok [OF far(3)]
    have "\<forall>x\<in>set t. is_tip20_prefix x" using j p q by blast
    from b [OF far(4) this] j p q show ?thesis by auto
  qed
qed

subsection \<open>Swaps on the books\<close>

text \<open>What a run of the exchange's own storage takes in and gives out.\<close>

definition exchanged :: "env \<Rightarrow> nat \<Rightarrow> nat \<Rightarrow> address \<Rightarrow> nat \<Rightarrow> address \<Rightarrow> nat \<Rightarrow> dex \<Rightarrow> dex \<Rightarrow> bool" where
  "exchanged env n a u x v y s s' \<longleftrightarrow> dex_ok env n a s' \<and> books_kept s s' \<and>
     (\<forall>T. dex_owes s' T + in_token v y T \<le> dex_owes s T + in_token u x T)"

lemma traded_exchanged: "traded env n a k b x y s s' \<Longrightarrow> exchanged env n a (token_paid b (dx_books s k)) x (token_received b (dx_books s k)) y s s'"
  by (simp add: traded_def exchanged_def)

lemma exchanged_trans: "exchanged env m a u x v y s s' \<Longrightarrow> exchanged env n a v y t z s' s'' \<Longrightarrow> exchanged env n a u x t z s s''"
  unfolding exchanged_def by (metis add.commute add_le_mono books_kept_trans nat_add_left_cancel_le order.trans)

lemma swap_route_in:
  fixes w :: "'x dex_world_scheme"
  assumes "swap_route (fill_orders_exact_in env gas) r x taker w = (Inr y, w')" "route_ok (w_dex w) u r v"
    "dex_ok env (length r * gas + n) a (w_dex w)" "keys_distinct env"
  shows "\<exists>D. w' = w\<lparr>w_dex := D\<rparr> \<and> exchanged env n a u (unat x) v (unat y) (w_dex w) D"
  using assms
proof (induction r arbitrary: u x w)
  case Nil
  then show ?case by (intro exI [of _ "w_dex w"]) (auto simp: eret_ok exchanged_def)
next
  case (Cons h r)
  obtain k b where h: "h = (k, b)" by fastforce
  let ?bk = "dx_books (w_dex w) k"
  from Cons.prems(1) h obtain z w1 where f: "fill_orders_exact_in env gas k b x taker w = (Inr z, w1)"
    and rest: "swap_route (fill_orders_exact_in env gas) r z taker w1 = (Inr y, w')" by (auto simp: ebind_ok)
  have ok: "dex_ok env (gas + (length r * gas + n)) a (w_dex w)" using Cons.prems(3) by (simp add: add.assoc)
  have k: "bk_base ?bk \<noteq> 0" "u = token_paid b ?bk" "route_ok (w_dex w) (token_received b ?bk) r v" using Cons.prems(2) h by auto
  from fill_orders_traded(1) [OF ok Cons.prems(4) k(1) f] obtain D where D: "w1 = w\<lparr>w_dex := D\<rparr>"
    "exchanged env (length r * gas + n) a u (unat x) (token_received b ?bk) (unat z) (w_dex w) D"
    using traded_exchanged k(2) by blast
  have "route_ok D (token_received b ?bk) r v" using D(2) route_ok_kept [OF _ k(3)] by (simp add: exchanged_def)
  with Cons.IH [OF rest, of "token_received b ?bk"] D Cons.prems(4) obtain D' where
    "w' = w\<lparr>w_dex := D'\<rparr>" "exchanged env n a (token_received b ?bk) (unat z) v (unat y) D D'" by (auto simp: exchanged_def)
  with exchanged_trans [OF D(2)] show ?case by blast
qed

text \<open>With an exact output the hops run from the last to the first; the amount of each hop is what the hop before has to
  deliver, so every hop is filled before what it receives has come in.\<close>

lemma swap_route_out:
  fixes w :: "'x dex_world_scheme"
  assumes "swap_route (fill_orders_exact_out env gas) r x taker w = (Inr y, w')" "route_ok (w_dex w) u (rev r) v"
    "dex_ok env (length r * gas + n) a (w_dex w)" "keys_distinct env"
  shows "\<exists>D. w' = w\<lparr>w_dex := D\<rparr> \<and> exchanged env n a u (unat y) v (unat x) (w_dex w) D"
  using assms
proof (induction r arbitrary: v x w)
  case Nil
  then show ?case by (intro exI [of _ "w_dex w"]) (auto simp: eret_ok exchanged_def)
next
  case (Cons h r)
  obtain k b where h: "h = (k, b)" by fastforce
  let ?bk = "dx_books (w_dex w) k"
  from Cons.prems(1) h obtain z w1 where f: "fill_orders_exact_out env gas k b x taker w = (Inr z, w1)"
    and rest: "swap_route (fill_orders_exact_out env gas) r z taker w1 = (Inr y, w')" by (auto simp: ebind_ok)
  have ok: "dex_ok env (gas + (length r * gas + n)) a (w_dex w)" using Cons.prems(3) by (simp add: add.assoc)
  have k: "bk_base ?bk \<noteq> 0" "v = token_received b ?bk" "route_ok (w_dex w) u (rev r) (token_paid b ?bk)" using Cons.prems(2) h by (auto simp: route_ok_append)
  from fill_orders_traded(2) [OF ok Cons.prems(4) k(1) f] obtain D where D: "w1 = w\<lparr>w_dex := D\<rparr>"
    "exchanged env (length r * gas + n) a (token_paid b ?bk) (unat z) v (unat x) (w_dex w) D"
    using traded_exchanged k(2) by blast
  have "route_ok D u (rev r) (token_paid b ?bk)" using D(2) route_ok_kept [OF _ k(3)] by (simp add: exchanged_def)
  with Cons.IH [OF rest, of "token_paid b ?bk"] D Cons.prems(4) obtain D' where
    D': "w' = w\<lparr>w_dex := D'\<rparr>" "exchanged env n a u (unat y) (token_paid b ?bk) (unat z) D D'" by (auto simp: exchanged_def)
  have "exchanged env n a u (unat y) v (unat x) (w_dex w) D'"
    unfolding exchanged_def
  proof (intro conjI allI)
    show "dex_owes D' T + in_token v (unat x) T \<le> dex_owes (w_dex w) T + in_token u (unat y) T" for T
    proof -
      have "dex_owes D T + in_token v (unat x) T \<le> dex_owes (w_dex w) T + in_token (token_paid b ?bk) (unat z) T"
        "dex_owes D' T + in_token (token_paid b ?bk) (unat z) T \<le> dex_owes D T + in_token u (unat y) T"
        using D(2) D'(2) by (simp_all add: exchanged_def)
      then show ?thesis by linarith
    qed
  qed (use D(2) D'(2) books_kept_trans in \<open>auto simp: exchanged_def\<close>)
  with D'(1) show ?case by blast
qed

end
