(* ===== verification/Dex_Solvency.thy ===== *)
theory Dex_Solvency
  imports Dex_Route
begin

section \<open>The exchange is solvent\<close>

text \<open>
  The calls of the exchange move tokens in and out; together with the changes of its own ledger they keep
  every token covered: what the exchange holds of a token is at least the internal balances of all users
  and the escrow of all orders. The calls of everybody else, the fee hooks included, never lower its
  holdings.
\<close>

subsection \<open>Changes of the backing\<close>

interpretation exchange: other_storage w_dex
  by unfold_locales simp_all

lemma backed_flow_dex:
  assumes "dex_backed env n a fl w" "flow DEX d w w'" "w_dex w' = w_dex w"
  shows "dex_backed env n a (\<lambda>T. fl T + d T) w'"
proof -
  have f: "no_allowance DEX (tokens w' T) \<and> bal (tokens w T) DEX + d T \<le> bal (tokens w' T) DEX" for T
    using assms(1,2) by (simp add: dex_backed_def flow_def tflow_def del: of_nat_unat)
  have "int (dex_owes (w_dex w) T) + fl T \<le> bal (tokens w T) DEX" for T using assms(1) by (simp add: dex_backed_def del: of_nat_unat)
  with f have "int (dex_owes (w_dex w') T) + (fl T + d T) \<le> bal (tokens w' T) DEX" for T using assms(3) by (smt (verit))
  with f assms(1,3) show ?thesis by (simp add: dex_backed_def del: of_nat_unat)
qed

lemma backed_mono_dex: "dex_backed env n a fl w \<Longrightarrow> (\<And>T. fl' T \<le> fl T) \<Longrightarrow> dex_backed env n a fl' w"
  unfolding dex_backed_def by (metis add_left_mono order_trans)

lemma backed_room: "dex_backed env n a fl w \<Longrightarrow> m \<le> n \<Longrightarrow> c \<le> a \<Longrightarrow> dex_backed env m c fl w"
  by (auto simp: dex_backed_def intro: dex_ok_mono)

lemma backed_stepped_dex:
  assumes "dex_backed env n a fl w" "m w = (Inr v, w')" "steps (flow DEX (\<lambda>_. 0)) m" "keeps w_dex m"
  shows "dex_backed env n a fl w'"
  using backed_flow_dex [OF assms(1) steps_run [OF assms(3,2)] keeps_run [OF assms(4,2)]] by simp

text \<open>A change of the exchange's own storage, by what it adds to the amounts in flight.\<close>

lemma backed_ledger:
  assumes "dex_backed env m c fl w" "dex_ok env n a D" "\<And>T. int (dex_owes D T) + fl' T \<le> int (dex_owes (w_dex w) T) + fl T"
  shows "dex_backed env n a fl' (w\<lparr>w_dex := D\<rparr>)"
proof -
  have "int (dex_owes D T) + fl' T \<le> bal (tokens w T) DEX" for T
    using assms(1) assms(3) [of T] by (auto simp: dex_backed_def simp del: of_nat_unat intro: order.trans)
  with assms(1,2) show ?thesis by (simp add: dex_backed_def del: of_nat_unat)
qed

lemma in_token_only: "int (in_token tok x T) = only tok (int x) T"
  by (simp add: in_token_def only_def)

lemma backed_exchanged:
  assumes "dex_backed env m c fl w" "exchanged env n a u x v y (w_dex w) D"
  shows "dex_backed env n a (\<lambda>T. fl T + only v (int y) T - only u (int x) T) (w\<lparr>w_dex := D\<rparr>)"
proof (rule backed_ledger [OF assms(1)])
  show "dex_ok env n a D" using assms(2) by (simp add: exchanged_def)
  show "int (dex_owes D T) + (fl T + only v (int y) T - only u (int x) T) \<le> int (dex_owes (w_dex w) T) + fl T" for T
  proof -
    have "int (dex_owes D T + in_token v y T) \<le> int (dex_owes (w_dex w) T + in_token u x T)"
      using assms(2) unfolding exchanged_def of_nat_le_iff by blast
    then show ?thesis by (simp add: in_token_only)
  qed
qed

subsection \<open>Tokens in and out\<close>

lemma dex_ok_balances [simp]: "dex_ok env n a (s\<lparr>dx_balances := f\<rparr>) = dex_ok env n a s"
proof -
  have "book_rep (s\<lparr>dx_balances := f\<rparr>) Q = book_rep s Q" for Q by (intro iffI; erule book_rep_frame [rotated 3]; simp)
  then show ?thesis by (simp add: dex_ok_def placed_def keyed_def)
qed

lemma transfer_from_flow:
  assumes "transfer_from env T s a b x w = (Inr v, w')" "a \<noteq> h"
  shows "flow h (only T (moved a b x h)) w w'"
proof -
  let ?t = "tokens w T"
  from assms(1) obtain t1 t' where b: "b \<noteq> 0" and t1: "t1 = ?t \<or> (\<exists>v. set_allowance a s v ?t = (Inr (), t1))"
    and r: "transfer_internal T a b x t1 = (Inr (), t')" and w': "w' = w\<lparr>tokens := (tokens w)(T := t')\<rparr>"
    by (auto simp: transfer_from_def transfer_from_internal_def ebind_ok erequire_ok eok_or_ok eret_ok on_token_ok token_checks
        split: if_splits dest!: authorization_reads)
  have "tflow h 0 ?t t1" using t1 tsteps.refl steps_run [OF set_allowance_stepped [OF assms(2)]] by blast
  from tflow_trans [OF this tmoves_flow [OF transfer_internal_moves [OF r b]]] show ?thesis
    by (auto simp: flow_def only_def w' tflow_def)
qed

text \<open>A user pays from the internal balance first, and the rest from the tokens in the user's account.\<close>

lemma user_pays:
  fixes w :: "'x dex_world_scheme"
  assumes "dex_backed env n a fl w" "decrement_balance_or_transfer_from e u tok x w = (Inr v, w')" "u \<noteq> DEX"
  shows "dex_backed env n a (\<lambda>T. fl T + only tok (int (unat x)) T) w'" "is_tip20_prefix tok" "\<exists>f. w_dex w' = (w_dex w)\<lparr>dx_balances := f\<rparr>"
proof -
  let ?b = "dx_balances (w_dex w) u tok"
  show "is_tip20_prefix tok" using assms(2) by (auto simp: decrement_balance_or_transfer_from_def ebind_ok lookup_reads)
  have pay: "dex_backed env n a (\<lambda>T. fl T + only tok (int (unat x)) T) w' \<and> (\<exists>f. w_dex w' = (w_dex w)\<lparr>dx_balances := f\<rparr>)"
  proof (cases "x \<le> ?b")
    case True
    with assms(2) have w': "w' = w\<lparr>w_dex := debit u tok x (w_dex w)\<rparr>"
      by (auto simp: decrement_balance_or_transfer_from_def ebind_ok lookup_reads on_dex_ok dex_prims sub_balance_run dest!: authorization_reads)
    have "int (dex_owes (debit u tok x (w_dex w)) T) + only tok (int (unat x)) T = int (dex_owes (w_dex w) T)" for T
      using owes_debit [OF True, of T] in_token_only by (metis of_nat_add)
    then have "dex_backed env n a (\<lambda>T. fl T + only tok (int (unat x)) T) (w\<lparr>w_dex := debit u tok x (w_dex w)\<rparr>)"
      by (intro backed_ledger [OF assms(1)]) (use assms(1) in \<open>simp_all add: dex_backed_def debit_def algebra_simps\<close>)
    then show ?thesis by (auto simp: w' debit_def)
  next
    case False
    let ?s = "(w_dex w)\<lparr>dx_balances := (dx_balances (w_dex w))(u := (dx_balances (w_dex w) u)(tok := 0))\<rparr>"
    from False assms(2) obtain r b w1 where r: "checked_sub x ?b = Some r"
      and t: "transfer_from e tok DEX u DEX (widen r) w = (Inr b, w1)" and w': "w' = w1\<lparr>w_dex := ?s\<rparr>"
      by (auto simp: decrement_balance_or_transfer_from_def dex_transfer_from_def evoid_def ebind_ok eok_or_ok eret_ok lookup_reads
          on_dex_ok dex_prims set_dex_balance_def emodify_ok dest!: authorization_reads
          simp: keeps_run [OF exchange.calls_keep(2)])
    have "flow DEX (only tok (int (unat r))) w w1"
      by (rule flow_mono [OF transfer_from_flow [OF t assms(3)]]) (use assms(3) in \<open>simp add: moved_def only_def\<close>)
    moreover have same: "w_dex w1 = w_dex w" by (rule keeps_run [OF exchange.calls_keep(2) t])
    ultimately have b1: "dex_backed env n a (\<lambda>T. fl T + only tok (int (unat r)) T) w1" by (rule backed_flow_dex [OF assms(1)])
    have "int (dex_owes ?s T) + only tok (int (unat ?b)) T = int (dex_owes (w_dex w) T)" for T
      using owes_balance [of "w_dex w" u tok 0 T] in_token_only [of tok 0 T] in_token_only [of tok "unat ?b" T]
      by (simp add: only_def in_token_def split: if_splits)
    moreover have "only tok (int (unat x)) T = only tok (int (unat r)) T + only tok (int (unat ?b)) T" for T
      using r by (auto simp: checked only_def simp del: of_nat_unat)
    ultimately have "dex_backed env n a (\<lambda>T. fl T + only tok (int (unat x)) T) (w1\<lparr>w_dex := ?s\<rparr>)"
      by (intro backed_ledger [OF b1]) (use assms(1) same in \<open>simp_all add: dex_backed_def algebra_simps\<close>)
    then show ?thesis by (auto simp: w')
  qed
  then show "dex_backed env n a (\<lambda>T. fl T + only tok (int (unat x)) T) w'" "\<exists>f. w_dex w' = (w_dex w)\<lparr>dx_balances := f\<rparr>" by simp_all
qed

text \<open>The exchange pays out.\<close>

lemma exchange_pays:
  fixes w :: "'x dex_world_scheme"
  assumes "dex_backed env n a fl w" "dex_transfer e tok u x w = (Inr v, w')"
  shows "dex_backed env n a (\<lambda>T. fl T - only tok (int (unat x)) T) w'"
proof -
  from assms(2) obtain b where t: "transfer e tok DEX u (widen x) w = (Inr b, w')"
    by (auto simp: dex_transfer_def evoid_def ebind_ok eret_ok lookup_reads)
  have "w_dex w' = w_dex w" by (rule keeps_run [OF exchange.calls_keep(1) t])
  from backed_flow_dex [OF assms(1) wmoves_flow [OF transfer_moves [OF disjI1 [OF t]]] this] show ?thesis
    by (rule backed_mono_dex) (auto simp: moved_def only_def)
qed

subsection \<open>Placing orders\<close>

lemma entry_backed:
  fixes w :: "'x dex_world_scheme" and fl :: "address \<Rightarrow> int" and u :: address and fp :: bool and ft :: int
  assumes backed: "dex_backed env (Suc n) (a + unat x) (\<lambda>T. fl T + only et (int (unat ea)) T) w" and kd: "keys_distinct env"
    and pre: "is_tip20_prefix tok" "is_tip20_prefix quote" and key: "key = compute_book_key env tok quote"
    and init: "bk_base (dx_books (w_dex w) key) \<noteq> 0" and tick: "MIN_TICK \<le> t" "t \<le> MAX_TICK" and nz: "x \<noteq> 0"
    and terms: "order_escrow tok quote x b t w0 = (Inr (et, ea, nt), w1)"
  defines "ord \<equiv> new_order (max (dx_next_order_id (w_dex w)) 1) u key x t b fp ft"
  shows "enterable (w_dex w) ord" "dex_backed env n a fl (w\<lparr>w_dex := log_event e (entered ord (w_dex w))\<rparr>)"
proof -
  let ?s = "w_dex w"
  have ok: "dex_ok env (Suc n) (a + unat x) ?s" using backed by (simp add: dex_backed_def)
  then obtain Q where Q: "book_rep ?s Q" "unat (max (dx_next_order_id ?s) 1) + Suc n < 2 ^ 128" "placed ?s + (a + unat x) < 2 ^ 128" "keyed env ?s"
    by (rule dex_okD)
  note tm = order_terms [OF terms tick]
  show en: "enterable ?s ord"
    using Q(2,3) liquidity_placed(1) [OF Q(1), of "(key, b, t)"] tick nz init tm(5) by (simp add: enterable_def ord_def del: rdiv.simps)
  have "escrow_token (dx_books ?s key) ord = et"
    using keyed_pair [OF Q(4) kd pre] init tm(2) by (auto simp: escrow_token_def ord_def key)
  then have "dex_owes (entered ord ?s) T = dex_owes ?s T + in_token et (unat ea) T" for T
    using entered_rep(2) [OF Q(1) en, of T] tm(4) [of "max (dx_next_order_id ?s) 1" u key fp ft] by (simp add: ord_def)
  then have owes: "int (dex_owes (entered ord ?s) T) = int (dex_owes ?s T) + only et (int (unat ea)) T" for T
    using in_token_only by simp
  have "dex_ok env n a (log_event e (entered ord ?s))"
    using dex_ok_entered [OF _ en, of env n a] ok by (simp add: dex_ok_def ord_def)
  then show "dex_backed env n a fl (w\<lparr>w_dex := log_event e (entered ord ?s)\<rparr>)"
    by (rule backed_ledger [OF backed]) (simp add: owes)
qed

lemma pair_backed:
  fixes w :: "'x dex_world_scheme"
  assumes "dex_backed env n a fl w" "validate_or_create_pair env (dx_books (w_dex w) (compute_book_key env tok quote)) tok w = (Inr v, w')"
    "quote = quote_of w tok" "is_tip20_prefix tok"
  shows "dex_backed env n a fl w' \<and> bk_base (dx_books (w_dex w') (compute_book_key env tok quote)) \<noteq> 0"
proof (cases "bk_base (dx_books (w_dex w) (compute_book_key env tok quote)) = 0")
  case True
  with assms(2) obtain k where "create_pair env tok w = (Inr k, w')" by (auto simp: validate_or_create_pair_def evoid_def ebind_ok eret_ok)
  from create_pair_run [OF this] assms(3) have w': "w' = w\<lparr>w_dex := paired env tok quote (w_dex w)\<rparr>" and q: "is_tip20_prefix quote" by auto
  have ok: "dex_ok env n a (w_dex w)" using assms(1) by (simp add: dex_backed_def)
  then obtain Q where Q: "book_rep (w_dex w) Q" by (rule dex_okD)
  have "dex_backed env n a fl (w\<lparr>w_dex := paired env tok quote (w_dex w)\<rparr>)"
    by (rule backed_ledger [OF assms(1) dex_ok_paired [OF ok True assms(4) q]]) (simp add: paired_rep(2) [OF Q True prefix_nonzero [OF assms(4)]])
  then show ?thesis using prefix_nonzero [OF assms(4)] by (simp add: w' paired_books)
next
  case False
  with assms show ?thesis by (auto simp: validate_or_create_pair_def eret_ok)
qed

lemma create_pair_backed:
  fixes w :: "'x dex_world_scheme"
  assumes "dex_backed env n a fl w" "create_pair env tok w = (Inr v, w')"
  shows "dex_backed env n a fl w'"
proof -
  have new: "bk_base (dx_books (w_dex w) (compute_book_key env tok (quote_of w tok))) = 0" "is_tip20_prefix tok"
    using create_pair_run [OF assms(2)] by auto
  then have "validate_or_create_pair env (dx_books (w_dex w) (compute_book_key env tok (quote_of w tok))) tok w = (Inr (), w')"
    using assms(2) by (simp add: validate_or_create_pair_def evoid_def ebind_run run)
  from pair_backed [OF assms(1) this] new show ?thesis by simp
qed

text \<open>The two ways to place an order have the same last part.\<close>

lemma order_entry_backed:
  fixes w :: "'x dex_world_scheme"
  assumes backed: "dex_backed env (Suc n) (a + unat x) fl w" and kd: "keys_distinct env" and u: "u \<noteq> DEX"
    and tok: "is_tip20_prefix tok" and init: "bk_base (dx_books (w_dex w) (compute_book_key env tok quote)) \<noteq> 0"
    and tick: "MIN_TICK \<le> t" "t \<le> MAX_TICK" and nz: "x \<noteq> 0"
    and terms: "order_escrow tok quote x b t w = (Inr (et, ea, nt), w0)" and nt: "is_tip20_prefix nt"
    and pay: "decrement_balance_or_transfer_from env u et ea w0 = (Inr v, w1)"
    and run: "on_dex (ebind next_order_id (\<lambda>i. ebind increment_next_order_id (\<lambda>_.
      ebind (commit_order_to_book (new_order i u (compute_book_key env tok quote) x t b fp ft)) (\<lambda>_. ebind (emit_dex (e i)) (\<lambda>_. eret i))))) w1 = (Inr r, w')"
  shows "dex_backed env n a fl w'"
proof -
  have w0: "w0 = w" by (rule order_terms(1) [OF terms tick])
  note paid = user_pays [OF backed pay [unfolded w0] u]
  have quote: "is_tip20_prefix quote" using order_terms(2,3) [OF terms tick] paid(2) nt by (auto split: if_splits)
  have init1: "bk_base (dx_books (w_dex w1) (compute_book_key env tok quote)) \<noteq> 0" using paid(3) init by auto
  note entry = entry_backed [OF paid(1) kd tok quote refl init1 tick nz terms]
  from run enter_run [of "w_dex w1" "\<lambda>i. new_order i u (compute_book_key env tok quote) x t b fp ft" e, OF entry(1)] entry(2)
  show ?thesis by (auto simp: on_dex_ok)
qed

lemma new_order_side: "(if b then new_bid i u k x t else new_ask i u k x t) = new_order i u k x t b False 0"
  by (simp add: new_bid_def new_ask_def)

lemma place_backed:
  fixes w :: "'x dex_world_scheme"
  assumes backed: "dex_backed env (Suc n) (a + unat x) fl w" and kd: "keys_distinct env" and u: "u \<noteq> DEX"
    and run: "place env u tok x b t w = (Inr r, w')"
  shows "dex_backed env n a fl w'"
proof -
  let ?q = "quote_of w tok"
  from run obtain w1 where tok: "is_tip20_prefix tok"
    and pair: "validate_or_create_pair env (dx_books (w_dex w) (compute_book_key env tok ?q)) tok w = (Inr (), w1)"
    and enter: "enter_order env u tok ?q x b t w1 = (Inr r, w')"
    by (auto simp: place_def ebind_ok lookup_reads on_dex_ok [of "read_book _"] dex_prims quote_of_def)
  note p = pair_backed [OF backed pair refl tok]
  from enter obtain et ea nt w0 w2 where c: "MIN_TICK \<le> t" "t \<le> MAX_TICK" "\<not> x < MIN_ORDER_AMOUNT"
    and terms: "order_escrow tok ?q x b t w1 = (Inr (et, ea, nt), w0)" and nt: "is_tip20_prefix nt"
    and pay: "decrement_balance_or_transfer_from env u et ea w0 = (Inr (), w2)"
    and last: "on_dex (ebind next_order_id (\<lambda>i. ebind increment_next_order_id (\<lambda>_.
      ebind (commit_order_to_book (new_order i u (compute_book_key env tok ?q) x t b False 0)) (\<lambda>_.
      ebind (emit_dex (OrderPlaced i u tok x b t False 0)) (\<lambda>_. eret i))))) w2 = (Inr r, w')"
    by (auto simp: enter_order_def Let_def ebind_ok [of "erequire _ _"] ebind_ok [of "order_escrow _ _ _ _ _"] ebind_ok [of "from_address _"]
        ebind_ok [of "ensure_transfer_authorized _ _ _ _"] ebind_ok [of "decrement_balance_or_transfer_from _ _ _ _"] erequire_ok lookup_reads
        new_order_side dest!: authorization_reads)
  have "x \<noteq> 0" using c(3) by (auto simp: MIN_ORDER_AMOUNT_def)
  from order_entry_backed [OF conjunct1 [OF p] kd u tok conjunct2 [OF p] c(1,2) this terms nt pay last] show ?thesis .
qed

lemma place_flip_backed:
  fixes w :: "'x dex_world_scheme"
  assumes backed: "dex_backed env (Suc n) (a + unat x) fl w" and kd: "keys_distinct env" and u: "u \<noteq> DEX"
    and run: "place_flip env u tok x b t ft False w = (Inr r, w')"
  shows "dex_backed env n a fl w'"
proof -
  let ?q = "quote_of w tok"
  from run obtain w1 where tok: "is_tip20_prefix tok"
    and pair: "validate_or_create_pair env (dx_books (w_dex w) (compute_book_key env tok ?q)) tok w = (Inr (), w1)"
    and enter: "enter_flip_order env u tok ?q x b t ft False w1 = (Inr r, w')"
    by (auto simp: place_flip_def ebind_ok lookup_reads on_dex_ok [of "read_book _"] dex_prims quote_of_def)
  note p = pair_backed [OF backed pair refl tok]
  have ret: "ebind (eret y) f = f y" for y :: order and f :: "order \<Rightarrow> u128 dx" by (simp add: fun_eq_iff ebind_def eret_def)
  from enter obtain et ea nt w0 w2 where c: "MIN_TICK \<le> t" "t \<le> MAX_TICK" "\<not> x < MIN_ORDER_AMOUNT"
    and terms: "order_escrow tok ?q x b t w1 = (Inr (et, ea, nt), w0)" and nt: "is_tip20_prefix nt"
    and pay: "decrement_balance_or_transfer_from env u et ea w0 = (Inr (), w2)"
    and last: "on_dex (ebind next_order_id (\<lambda>i. ebind increment_next_order_id (\<lambda>_.
      ebind (commit_order_to_book (new_order i u (compute_book_key env tok ?q) x t b True ft)) (\<lambda>_.
      ebind (emit_dex (OrderPlaced i u tok x b t True ft)) (\<lambda>_. eret i))))) w2 = (Inr r, w')"
    by (auto simp: enter_flip_order_def pay_flip_escrow_def Let_def ebind_ok [of "erequire _ _"] ebind_ok [of "order_escrow _ _ _ _ _"]
        ebind_ok [of "from_address _"] ebind_ok [of "ensure_transfer_authorized _ _ _ _"]
        ebind_ok [of "decrement_balance_or_transfer_from _ _ _ _"] erequire_ok lookup_reads new_flip_def ret dest!: authorization_reads)
  have "x \<noteq> 0" using c(3) by (auto simp: MIN_ORDER_AMOUNT_def)
  from order_entry_backed [OF conjunct1 [OF p] kd u tok conjunct2 [OF p] c(1,2) this terms nt pay last] show ?thesis .
qed

subsection \<open>Cancelling, withdrawing and swapping\<close>

lemma cancel_active_backed:
  fixes w :: "'x dex_world_scheme"
  assumes backed: "dex_backed env n a fl w" and ord: "ord = dx_orders (w_dex w) i" "o_maker ord \<noteq> 0"
    and run: "on_dex (cancel_active_order ord) w = (Inr v, w')"
  shows "dex_backed env n a fl w'"
proof -
  let ?s = "w_dex w"
  have ok: "dex_ok env n a ?s" using backed by (simp add: dex_backed_def)
  then obtain Q where Q: "book_rep ?s Q" "unat (max (dx_next_order_id ?s) 1) + n < 2 ^ 128" "placed ?s + a < 2 ^ 128" "keyed env ?s" by (rule dex_okD)
  have ne: "ord \<noteq> empty_order" using ord(2) by (auto simp: empty_order_def)
  obtain k b t where h: "home ord = (k, b, t)" by (cases "home ord") auto
  have i: "i \<in> set (Q (k, b, t))" using book_repD(2) [OF Q(1), of i "(k, b, t)"] ne h ord(1) by simp
  have o: "o_id ord = i" "o_book_key ord = k" "ord = dx_orders ?s (o_id ord)"
    using book_repD(3) [OF Q(1), of i] ne ord(1) h by (auto simp: live_order_def home_def)
  let ?tok = "escrow_token (dx_books ?s k) ord"
  note cases = cancel_active_run [OF Q(1) i ord(1)]
  have room: "unat (dx_balances ?s (o_maker ord) ?tok) + escrow ord < 2 ^ 128"
  proof (rule ccontr)
    assume "\<not> ?thesis"
    from cases(2) [OF this] run show False by (auto simp: on_dex_ok)
  qed
  from cases(1) [OF room] run have w': "w' = w\<lparr>w_dex := log_event (OrderCancelled i) (credit (o_maker ord) ?tok (of_nat (escrow ord)) (dropped ord ?s))\<rparr>"
    by (auto simp: on_dex_ok)
  have esc: "unat (of_nat (escrow ord) :: u128) = escrow ord" using room by (simp add: unsigned_of_nat take_bit_eq_mod)
  have owes: "dex_owes (credit (o_maker ord) ?tok (of_nat (escrow ord)) (dropped ord ?s)) T = dex_owes ?s T" for T
    using owes_credit [of "dropped ord ?s" "o_maker ord" ?tok "of_nat (escrow ord)" T] room esc owes_dropped(1) [OF o(3), of T] o(2)
    by (simp add: dropped_unchanged)
  have "keyed env (dropped ord ?s)" by (rule keyed_frame [OF Q(4)]) (simp add: dropped_unchanged)
  then have "dex_ok env n a (w_dex w')"
    using dropped_rep [OF Q(1) i ord(1)] Q(2,3) owes_dropped(2) [OF o(3)] by (auto simp: w' dex_ok_def dropped_unchanged)
  from backed_ledger [OF backed this, of fl] owes show ?thesis by (simp add: w')
qed

lemma cancel_backed:
  fixes w :: "'x dex_world_scheme"
  assumes "dex_backed env n a fl w"
  shows "on_dex (cancel u i) w = (Inr v, w') \<Longrightarrow> dex_backed env n a fl w'"
    and "cancel_stale_order e i w = (Inr v, w') \<Longrightarrow> dex_backed env n a fl w'"
proof -
  show "dex_backed env n a fl w'" if "on_dex (cancel u i) w = (Inr v, w')"
    using that by (intro cancel_active_backed [OF assms refl]) (auto simp: on_dex_ok cancel_def ebind_ok erequire_ok dex_prims)
  show "dex_backed env n a fl w'" if "cancel_stale_order e i w = (Inr v, w')"
    using that by (intro cancel_active_backed [OF assms refl])
      (auto simp: on_dex_ok [of "read_order _"] on_dex_ok [of "read_book _"] cancel_stale_order_def ebind_ok erequire_ok dex_prims Let_def lookup_reads
        dest!: authorization_reads)
qed

lemma withdraw_backed:
  fixes w :: "'x dex_world_scheme"
  assumes "dex_backed env n a fl w" "withdraw e u tok x w = (Inr v, w')"
  shows "dex_backed env n a fl w'"
proof -
  let ?D = "debit u tok x (w_dex w)"
  from assms(2) have x: "x \<le> dx_balances (w_dex w) u tok" and t: "dex_transfer e tok u x (w\<lparr>w_dex := ?D\<rparr>) = (Inr v, w')"
    by (auto simp: withdraw_def ebind_ok erequire_ok on_dex_ok dex_prims sub_balance_run not_less)
  have "int (dex_owes ?D T) + only tok (int (unat x)) T = int (dex_owes (w_dex w) T)" for T
    using owes_debit [OF x, of T] in_token_only by (metis of_nat_add)
  then have "dex_backed env n a (\<lambda>T. fl T + only tok (int (unat x)) T) (w\<lparr>w_dex := ?D\<rparr>)"
    by (intro backed_ledger [OF assms(1)]) (use assms(1) in \<open>simp_all add: dex_backed_def debit_def algebra_simps\<close>)
  from exchange_pays [OF this t] show ?thesis by simp
qed

text \<open>The number of order ids that a swap can use up: each hop fills at most as many orders as there is gas for, and the
  route has at most \<open>2 * gas + 1\<close> hops.\<close>

definition swap_ids :: "nat \<Rightarrow> nat" where
  "swap_ids gas = (2 * gas + 1) * gas"

lemma swap_in_backed:
  fixes w :: "'x dex_world_scheme"
  assumes backed: "dex_backed env (swap_ids gas + n) a fl w" and kd: "keys_distinct env" and u: "u \<noteq> DEX"
    and run: "swap_exact_amount_in env gas u ti to x least w = (Inr r, w')"
  shows "dex_backed env n a fl w'"
proof -
  have keyed: "keyed env (w_dex w)" using backed by (simp add: dex_backed_def dex_ok_def)
  from run obtain route wr w1 w2 where path: "find_trade_path env gas ti to w = (Inr route, wr)"
    and pay: "decrement_balance_or_transfer_from env u ti x wr = (Inr (), w1)"
    and swap: "swap_route (fill_orders_exact_in env gas) route x u w1 = (Inr r, w2)"
    and out: "dex_transfer env to u r w2 = (Inr (), w')"
    by (auto simp: swap_exact_amount_in_def ebind_ok erequire_ok eret_ok)
  from trade_path_ok [OF path keyed kd] have route: "wr = w" "route_ok (w_dex w) ti route to" "length route \<le> 2 * gas + 1" by auto
  note paid = user_pays [OF backed pay [unfolded route(1)] u]
  have "length route * gas \<le> swap_ids gas" unfolding swap_ids_def using route(3) by (rule mult_le_mono1)
  then have "dex_ok env (length route * gas + n) a (w_dex w1)"
    using paid(1) by (auto simp: dex_backed_def intro: dex_ok_mono)
  moreover have "route_ok (w_dex w1) ti route to"
    using route_ok_kept [OF _ route(2), of "w_dex w1"] paid(3) by (auto simp: books_kept_def)
  ultimately obtain D where D: "w2 = w1\<lparr>w_dex := D\<rparr>" "exchanged env n a ti (unat x) to (unat r) (w_dex w1) D"
    using swap_route_in [OF swap _ _ kd] by blast
  from exchange_pays [OF backed_exchanged [OF paid(1) D(2)] out [unfolded D(1)]] show ?thesis by simp
qed

lemma swap_out_backed:
  fixes w :: "'x dex_world_scheme"
  assumes backed: "dex_backed env (swap_ids gas + n) a fl w" and kd: "keys_distinct env" and u: "u \<noteq> DEX"
    and run: "swap_exact_amount_out env gas u ti to x most w = (Inr r, w')"
  shows "dex_backed env n a fl w'"
proof -
  have keyed: "keyed env (w_dex w)" using backed by (simp add: dex_backed_def dex_ok_def)
  from run obtain route wr w1 w2 where path: "find_trade_path env gas ti to w = (Inr route, wr)"
    and swap: "swap_route (fill_orders_exact_out env gas) (rev route) x u wr = (Inr r, w1)"
    and pay: "decrement_balance_or_transfer_from env u ti r w1 = (Inr (), w2)"
    and out: "dex_transfer env to u x w2 = (Inr (), w')"
    by (auto simp: swap_exact_amount_out_def ebind_ok erequire_ok eret_ok)
  from trade_path_ok [OF path keyed kd] have route: "wr = w" "route_ok (w_dex w) ti route to" "length route \<le> 2 * gas + 1" by auto
  have "length route * gas \<le> swap_ids gas" unfolding swap_ids_def using route(3) by (rule mult_le_mono1)
  then have "dex_ok env (length (rev route) * gas + n) a (w_dex w)"
    using backed by (auto simp: dex_backed_def intro: dex_ok_mono)
  then obtain D where D: "w1 = w\<lparr>w_dex := D\<rparr>" "exchanged env n a ti (unat r) to (unat x) (w_dex w) D"
    using swap_route_out [OF swap [unfolded route(1)], of ti to n a] kd route(2) by auto
  from exchange_pays [OF user_pays(1) [OF backed_exchanged [OF backed D(2)] pay [unfolded D(1)] u] out] show ?thesis by simp
qed

subsection \<open>Calls of others\<close>

lemma dex_not_fees [simp]: "DEX \<noteq> TIP_FEE_MANAGER_ADDRESS"
  by (metis system_addresses_distinct(4))

lemma on_fees_apart [kept, stepped]: "keeps w_dex (on_fees m)" "steps (flow h (\<lambda>_. 0)) (on_fees m)"
  unfolding on_fees_def by (rule keeps_ezoom; simp) (auto simp: steps_def ezoom_ok intro: flow_same)

lemma usd_stepped [stepped]: "steps (flow h (\<lambda>_. 0)) (validate_usd_currency t)"
  unfolding validate_usd_currency_def by (intro stepped)

lemma fee_calls_keep_dex: "keeps w_dex (fee_dispatch env b s c)"
  by (cases c) (auto simp: set_validator_token_def set_user_token_def distribute_fees_def amm_mint_def amm_burn_def rebalance_swap_def evoid_def intro!: kept)

lemma fee_calls_stepped:
  assumes "s \<noteq> DEX"
  shows "steps (flow DEX (\<lambda>_. 0)) (fee_dispatch env b s c)"
proof -
  have "TIP_FEE_MANAGER_ADDRESS \<noteq> DEX" by simp
  note pays = transfers_stepped [OF this] transfers_stepped [OF assms]
  show ?thesis
    by (cases c) (auto simp: set_validator_token_def set_user_token_def distribute_fees_def amm_mint_def amm_burn_def rebalance_swap_def
        intro!: stepped pays)
qed

lemma fee_hooks_flow:
  "transfer_fee_pre_tx env T a x w = (Inr v, w') \<Longrightarrow> a \<noteq> DEX \<Longrightarrow> flow DEX (\<lambda>_. 0) w w'"
  "on_token T (transfer_fee_post_tx T b x y) w = (Inr v', w') \<Longrightarrow> flow DEX (\<lambda>_. 0) w w'"
  by (drule fee_hooks_move, rule flow_mono [OF wmoves_flow], assumption, simp add: only_def moved_def)+

lemma fee_collection_apart:
  "keeps w_dex (validate_caller env b tx)" "fee_payer tx \<noteq> DEX \<Longrightarrow> steps (flow DEX (\<lambda>_. 0)) (validate_caller env b tx)"
  "keeps w_dex (reimburse_caller env b tx)" "steps (flow DEX (\<lambda>_. 0)) (reimburse_caller env b tx)"
proof -
  have "steps (flow DEX (\<lambda>_. 0)) (on_token T (transfer_fee_post_tx T a x y))" for T a x y
    unfolding steps_def by (blast intro: fee_hooks_flow)
  note post = this
  show "steps (flow DEX (\<lambda>_. 0)) (reimburse_caller env b tx)"
    unfolding reimburse_caller_def collect_fee_post_tx_def Let_def by (rule post | rule stepped)+
  show "steps (flow DEX (\<lambda>_. 0)) (validate_caller env b tx)" if "fee_payer tx \<noteq> DEX"
  proof -
    have "steps (flow DEX (\<lambda>_. 0)) (transfer_fee_pre_tx env T (fee_payer tx) x)" for T x
      unfolding steps_def using that by (blast intro: fee_hooks_flow)
    then show ?thesis unfolding validate_caller_def collect_fee_pre_tx_def by (intro stepped)
  qed
qed (auto simp: validate_caller_def reimburse_caller_def collect_fee_pre_tx_def collect_fee_post_tx_def evoid_def Let_def intro!: kept)

subsection \<open>The chain with the exchange\<close>

text \<open>What can happen between two states of the chain: a call of a token, of the factory, of the registry or of the fee
  manager, the two fee hooks of a transaction, and a call of the exchange. A step that fails is reverted.\<close>

datatype exchange_step =
    Call env address chain_call
  | PreFee env address fee_tx
  | PostFee env address fee_tx
  | Trade env nat address dex_call

fun step_op :: "exchange_step \<Rightarrow> ('x, unit) dop" where
  "step_op (Call env beneficiary c) = chain_op env beneficiary c"
| "step_op (PreFee env beneficiary tx) = validate_caller env beneficiary tx"
| "step_op (PostFee env beneficiary tx) = reimburse_caller env beneficiary tx"
| "step_op (Trade env gas sender c) = dex_dispatch env gas sender c"

definition exchange_exec :: "exchange_step \<Rightarrow> 'x dex_world_scheme \<Rightarrow> 'x dex_world_scheme" where
  "exchange_exec st = commit (step_op st)"

fun step_env :: "exchange_step \<Rightarrow> env" where
  "step_env (Call env beneficiary c) = env"
| "step_env (PreFee env beneficiary tx) = env"
| "step_env (PostFee env beneficiary tx) = env"
| "step_env (Trade env gas sender c) = env"

text \<open>The exchange itself makes no calls: nobody has its key.\<close>

fun by_others :: "exchange_step \<Rightarrow> bool" where
  "by_others (Call env beneficiary (WorldCall c)) = foreign DEX c"
| "by_others (Call env beneficiary (FeeCall sender c)) = (sender \<noteq> DEX)"
| "by_others (PreFee env beneficiary tx) = (fee_payer tx \<noteq> DEX)"
| "by_others (PostFee env beneficiary tx) = True"
| "by_others (Trade env gas sender c) = (sender \<noteq> DEX)"

text \<open>Order ids that a step can use up, and the size of the order that it places.\<close>

fun step_ids :: "exchange_step \<Rightarrow> nat" where
  "step_ids (Trade env gas sender (Place tok x b t)) = 1"
| "step_ids (Trade env gas sender (PlaceFlip tok x b t ft)) = 1"
| "step_ids (Trade env gas sender (SwapExactAmountIn ti to x y)) = swap_ids gas"
| "step_ids (Trade env gas sender (SwapExactAmountOut ti to x y)) = swap_ids gas"
| "step_ids st = 0"

fun step_size :: "exchange_step \<Rightarrow> nat" where
  "step_size (Trade env gas sender (Place tok x b t)) = unat x"
| "step_size (Trade env gas sender (PlaceFlip tok x b t ft)) = unat x"
| "step_size st = 0"

lemma trade_backed:
  fixes w :: "'x dex_world_scheme"
  assumes "dex_backed env (step_ids (Trade env gas u c) + n) (a + step_size (Trade env gas u c)) fl w" "keys_distinct env" "u \<noteq> DEX"
    "dex_dispatch env gas u c w = (Inr v, w')"
  shows "dex_backed env n a fl w'"
  using assms
  by (cases c) (auto simp: evoid_def ebind_ok eret_ok intro: place_backed place_flip_backed create_pair_backed withdraw_backed cancel_backed
      swap_in_backed swap_out_backed)

lemma dex_env:
  assumes "keccak256 e = keccak256 env"
  shows "dex_backed e = dex_backed env" "keys_distinct e = keys_distinct env"
  using assms by (simp_all add: dex_backed_def dex_ok_def keyed_def keys_distinct_def compute_book_key_def fun_eq_iff)

lemma step_backed:
  fixes w :: "'x dex_world_scheme"
  assumes "dex_backed env (step_ids st + n) (a + step_size st) fl w" "keys_distinct env" "by_others st" "keccak256 (step_env st) = keccak256 env"
  shows "dex_backed env n a fl (exchange_exec st w)"
proof -
  have stay: "dex_backed env n a fl w" by (rule backed_room [OF assms(1)]) simp_all
  have ca: "contract_account DEX" by (simp add: contract_account_def)
  have "dex_backed env n a fl w'" if r: "step_op st w = (Inr v, w')" for v w'
  proof (cases st)
    case (Call e b c)
    show ?thesis
    proof (cases c)
      case (WorldCall wc)
      with Call assms(3) r show ?thesis
        by (intro backed_stepped_dex [OF stay _ world_op_stepped [OF ca] exchange.world_op_keeps, of e wc v]) simp_all
    next
      case (FeeCall s fc)
      with Call assms(3) r show ?thesis
        by (intro backed_stepped_dex [OF stay _ fee_calls_stepped fee_calls_keep_dex, of e b s fc v]) simp_all
    qed
  next
    case (PreFee e b tx)
    with assms(3) r show ?thesis by (intro backed_stepped_dex [OF stay _ fee_collection_apart(2,1), of e b tx v]) simp_all
  next
    case (PostFee e b tx)
    with r show ?thesis by (intro backed_stepped_dex [OF stay _ fee_collection_apart(4,3), of e b tx v]) simp_all
  next
    case (Trade e gas u c)
    have e: "keccak256 e = keccak256 env" using assms(4) Trade by simp
    have eq: "dex_backed e n a fl x = dex_backed env n a fl x" for n a fl and x :: "'x dex_world_scheme" by (simp add: dex_env [OF e])
    show ?thesis
      using trade_backed [of e gas u c n a fl w v w', unfolded eq dex_env(2) [OF e]] Trade assms r by simp
  qed
  with stay show ?thesis using commit_cases [of "step_op st" w] unfolding exchange_exec_def by metis
qed

lemma steps_backed:
  fixes w :: "'x dex_world_scheme"
  assumes "keys_distinct env" "dex_backed env (sum_list (map step_ids sts) + n) (a + sum_list (map step_size sts)) fl w"
    "list_all (\<lambda>st. by_others st \<and> keccak256 (step_env st) = keccak256 env) sts"
  shows "dex_backed env n a fl (fold exchange_exec sts w)"
  using assms(2,3)
proof (induction sts arbitrary: w)
  case (Cons st sts)
  have "dex_backed env (sum_list (map step_ids sts) + n) (a + sum_list (map step_size sts)) fl (exchange_exec st w)"
    by (rule step_backed [OF _ assms(1)]) (use Cons.prems in \<open>simp_all add: ac_simps\<close>)
  with Cons show ?case by simp
qed simp

lemma empty_book_rep: "book_rep empty_dex (\<lambda>_. [])"
  by (simp add: book_rep_def empty_dex_def queue_rep_empty level_of_def book_level_def empty_book_def bitmap_def tick_bit_def split: prod.split)

lemma backed_genesis:
  assumes "n + 1 < 2 ^ 128" "a < 2 ^ 128"
  shows "dex_backed env n a (\<lambda>_. 0) empty_dex_world"
proof -
  have "dex_owes empty_dex T = 0" for T by (simp add: dex_owes_def order_owes_def empty_dex_def)
  moreover have "placed empty_dex = 0" by (simp add: placed_def empty_dex_def)
  moreover have "keyed env empty_dex" by (simp add: keyed_def empty_dex_def empty_book_def)
  moreover have "no_allowance DEX (tokens empty_dex_world T)" for T
    by (simp add: no_allowance_def empty_dex_world_def empty_fee_world_def empty_world_def fee_world.extend_def world.extend_def empty_tip20_def)
  moreover have "w_dex empty_dex_world = empty_dex" by (simp add: empty_dex_world_def fee_world.extend_def)
  moreover have "dx_next_order_id empty_dex = 0" by (simp add: empty_dex_def)
  ultimately show ?thesis using assms empty_book_rep by (auto simp: dex_backed_def dex_ok_def max_def)
qed

end
