(* ===== verification/Dex_Supply.thy ===== *)
theory Dex_Supply
  imports Dex_Solvency
begin

section \<open>Token supplies on the chain with the exchange\<close>

text \<open>
  The fee manager and the exchange move tokens only by the operations of the tokens, so the balances of every
  token still add up to its supply, which is within 128 bits. What the exchange owes to one user is therefore
  within the type of the internal balances, and crediting it cannot overflow.
\<close>

definition booked :: "'x world_scheme \<Rightarrow> 'x world_scheme \<Rightarrow> bool" where
  "booked w w' \<longleftrightarrow> (world_books w \<longrightarrow> world_books w')"

interpretation bsteps: step_preorder "booked :: 'x world_scheme \<Rightarrow> 'x world_scheme \<Rightarrow> bool"
  by unfold_locales (auto simp: booked_def)

lemmas [stepped] = bsteps.rules

lemma booked_keeps: "keeps tokens m \<Longrightarrow> steps booked m"
  by (rule bsteps.steps_keeps [where f = tokens]) (auto simp: booked_def world_books_def)

lemma reads_tokens: "reads m \<Longrightarrow> keeps tokens m"
  by (simp add: keeps_def)

lemma zooms_keep_tokens [kept]: "keeps tokens (on_dex m)" "keeps tokens (on_fees m')"
  unfolding on_dex_def on_fees_def by (rule keeps_ezoom; simp)+

lemma lookups_keep_tokens [kept]:
  "keeps tokens (from_address a)" "keeps tokens (is_tip20 a)" "keeps tokens (token_quote a)" "keeps tokens (validate_usd_currency a)"
  "keeps tokens (ensure_transfer_authorized env self a b)" "keeps tokens (is_user_authorized env self a)" "keeps tokens (order_escrow tok quote x b' t)"
  "keeps tokens (exact_in_fill b' x ord)" "keeps tokens (exact_out_fill b' x ord)" "keeps tokens (exact_in_left b' x ord)" "keeps tokens (exact_out_left b' x ord r)"
  by (rule reads_tokens; rule token_reads escrow_reads fill_reads left_reads)+

lemmas [stepped] = zooms_keep_tokens [THEN booked_keeps] lookups_keep_tokens [THEN booked_keeps]

subsection \<open>Operations of the exchange\<close>

lemma moves_booked [stepped]:
  "steps booked (transfer env T a b x)" "steps booked (transfer_from env T s a b x)" "steps booked (system_transfer_from env T a b x)"
  by (auto simp: steps_def booked_def dest: transfer_token_step transfer_from_token_step system_transfer_from_token_step token_step_world(1))

lemma evoid_booked [stepped]: "steps booked m \<Longrightarrow> steps booked (evoid m)"
  unfolding evoid_def by (intro stepped)

lemma payments_booked [stepped]:
  "steps booked (dex_transfer env tok u x)" "steps booked (decrement_balance_or_transfer_from env u tok x)"
  unfolding dex_transfer_def decrement_balance_or_transfer_from_def dex_transfer_from_def
  by (intro stepped)+

lemma pairs_keep_tokens [kept]: "keeps tokens (create_pair env base)" "keeps tokens (validate_or_create_pair env bk base)"
  unfolding create_pair_def validate_or_create_pair_def evoid_def by (intro kept)+

lemma flip_keeps_tokens [kept]: "keeps tokens (place_flip env u tok x b t ft True)"
  unfolding place_flip_def enter_flip_order_def pay_flip_escrow_def if_True by (intro kept)

lemma fill_keeps_tokens [kept]: "keeps tokens (fill_order env k ord l taker)"
  unfolding fill_order_def flip_filled_def by (intro kept)

lemma loops_keep_tokens [kept]:
  "keeps tokens (fill_loop_in env gas k b taker x l ord tot)" "keeps tokens (fill_loop_out env gas k b taker x l ord tot)"
  "keeps tokens (path_loop gas tok p)" "keeps tokens (validate_and_build_route env p')"
proof -
  show "keeps tokens (fill_loop_in env gas k b taker x l ord tot)"
    by (induction gas arbitrary: x l ord tot) (auto intro!: kept split: option.split)
  show "keeps tokens (fill_loop_out env gas k b taker x l ord tot)"
    by (induction gas arbitrary: x l ord tot) (auto intro!: kept split: option.split)
  show "keeps tokens (path_loop gas tok p)" by (induction gas arbitrary: tok p) (auto intro!: kept)
  show "keeps tokens (validate_and_build_route env p')"
    by (induction env p' rule: validate_and_build_route.induct) (auto simp: route_hop_def intro!: kept)
qed

lemma swaps_keep_tokens [kept]:
  "keeps tokens (swap_route (fill_orders_exact_in env gas) r x u)" "keeps tokens (swap_route (fill_orders_exact_out env gas) r x u)"
  "keeps tokens (find_trade_path env gas ti to)"
proof -
  have "keeps tokens (fill_orders_exact_in env gas k b x u)" "keeps tokens (fill_orders_exact_out env gas k b x u)" for k b x u
    unfolding fill_orders_exact_in_def fill_orders_exact_out_def by (intro kept)+
  note f = this
  show "keeps tokens (swap_route (fill_orders_exact_in env gas) r x u)"
    by (induction r arbitrary: x) (auto intro!: kept f)
  show "keeps tokens (swap_route (fill_orders_exact_out env gas) r x u)"
    by (induction r arbitrary: x) (auto intro!: kept f)
  show "keeps tokens (find_trade_path env gas ti to)" unfolding find_trade_path_def find_path_to_root_def by (intro kept)
qed

lemmas [stepped] = pairs_keep_tokens [THEN booked_keeps] swaps_keep_tokens [THEN booked_keeps]

lemma trade_booked: "steps booked (dex_dispatch env gas u c)"
proof (cases c)
  case (Place tok x b t)
  then show ?thesis
    unfolding Place dex_dispatch.simps place_def enter_order_def Let_def by (intro stepped)+
next
  case (PlaceFlip tok x b t ft)
  then show ?thesis
    unfolding PlaceFlip dex_dispatch.simps place_flip_def enter_flip_order_def pay_flip_escrow_def if_False Let_def
    by (intro stepped)+
next
  case (CreatePair base)
  then show ?thesis by (auto intro!: stepped booked_keeps kept)
next
  case (Withdraw tok x)
  then show ?thesis unfolding Withdraw dex_dispatch.simps withdraw_def by (intro stepped)+
next
  case (Cancel i)
  then show ?thesis by (auto intro!: booked_keeps kept)
next
  case (CancelStaleOrder i)
  then show ?thesis by (auto simp: cancel_stale_order_def Let_def intro!: booked_keeps kept)
next
  case (SwapExactAmountIn ti to x y)
  then show ?thesis
    unfolding SwapExactAmountIn dex_dispatch.simps swap_exact_amount_in_def by (intro stepped)+
next
  case (SwapExactAmountOut ti to x y)
  then show ?thesis
    unfolding SwapExactAmountOut dex_dispatch.simps swap_exact_amount_out_def by (intro stepped)+
qed

subsection \<open>The other calls\<close>

lemma fee_calls_booked: "steps booked (fee_dispatch env b s c)"
  by (cases c) (auto simp: set_validator_token_def set_user_token_def distribute_fees_def amm_mint_def amm_burn_def rebalance_swap_def intro!: stepped)

lemma fee_hooks_booked: "steps booked (validate_caller env b tx)" "steps booked (reimburse_caller env b tx)"
proof -
  have "steps booked (transfer_fee_pre_tx env T a x)" for T a x
    by (auto simp: steps_def booked_def dest: transfer_fee_pre_tx_token_step token_step_world(1))
  then show "steps booked (validate_caller env b tx)"
    unfolding validate_caller_def collect_fee_pre_tx_def by (intro stepped)
  have "steps booked (on_token T (transfer_fee_post_tx T a x y))" if "is_tip20_prefix T" for T a x y
    using tip20_prefix_distinct [OF that]
    by (auto simp: steps_def booked_def dest!: transfer_fee_post_tx_token_step token_step_world(1))
  then have "steps booked (collect_fee_post_tx env a x y T b)" for a x y T
    unfolding collect_fee_post_tx_def from_address_def by (intro bsteps.steps_require) (intro stepped)
  then show "steps booked (reimburse_caller env b tx)"
    unfolding reimburse_caller_def Let_def by (intro stepped)
qed

text \<open>System accounts do not opt in to rewards.\<close>

fun books_step :: "exchange_step \<Rightarrow> bool" where
  "books_step (Call env beneficiary (WorldCall c)) = books_admissible c"
| "books_step st = True"

lemma step_booked:
  assumes "books_step st" "world_books w"
  shows "world_books (exchange_exec st w)"
proof -
  have "steps booked (step_op st)"
  proof (cases st)
    case (Call e b c)
    with assms(1) show ?thesis
      using world_op_books [of e _ _ _ _] by (cases c) (auto simp: steps_def [of booked "world_op _ _"] booked_def intro: fee_calls_booked)
  qed (auto intro: fee_hooks_booked trade_booked)
  from bsteps.steps_commit [OF this, of w] assms(2) show ?thesis by (simp add: booked_def exchange_exec_def)
qed

lemma run_booked:
  assumes "list_all books_step sts"
  shows "world_books (fold exchange_exec sts empty_dex_world)"
proof -
  have "world_books (fold exchange_exec sts w)" if "world_books w" for w :: dex_world
    using assms that by (induction sts arbitrary: w) (auto intro: step_booked)
  moreover have "world_books empty_dex_world"
  proof -
    have "tokens empty_dex_world = tokens empty_world"
      by (simp add: empty_dex_world_def empty_fee_world_def fee_world.extend_def world.extend_def)
    then show ?thesis using empty_world_books(1) by (simp add: world_books_def)
  qed
  ultimately show ?thesis by blast
qed

lemma credit_fits:
  assumes "dex_backed env n a (\<lambda>_. 0) w" "world_books w"
  shows "unat (dx_balances (w_dex w) u T) + order_owes (w_dex w) T i < 2 ^ 128"
proof -
  let ?t = "tokens w T"
  have "unat (dx_balances (w_dex w) u T) \<le> (\<Sum>u\<in>UNIV. unat (dx_balances (w_dex w) u T))"
    "order_owes (w_dex w) T i \<le> (\<Sum>i\<in>UNIV. order_owes (w_dex w) T i)" by (rule member_le_sum; simp)+
  then have "unat (dx_balances (w_dex w) u T) + order_owes (w_dex w) T i \<le> dex_owes (w_dex w) T" by (simp add: dex_owes_def)
  also have "int \<dots> \<le> bal ?t DEX" using assms(1) by (simp add: dex_backed_def del: of_nat_unat)
  finally have "unat (dx_balances (w_dex w) u T) + order_owes (w_dex w) T i \<le> unat (balances ?t DEX)" by (simp del: of_nat_unat)
  also have "\<dots> \<le> total_of (balances ?t)" by (rule le_total)
  also have "\<dots> < 2 ^ 128"
  proof -
    from assms(2) have "books_ok T ?t" by (simp add: world_books_def)
    then show ?thesis by (simp add: books_ok_def)
  qed
  finally show ?thesis .
qed

subsection \<open>Runs from an empty chain\<close>

text \<open>What the hypotheses say about a run: book keys do not collide, the hash function stays the same, the
  exchange itself makes no calls, and ids and sizes stay within 128 bits.\<close>

definition run_ok :: "env \<Rightarrow> nat \<Rightarrow> exchange_step list \<Rightarrow> bool" where
  "run_ok env extra sts \<longleftrightarrow> keys_distinct env \<and> list_all (\<lambda>st. by_others st \<and> keccak256 (step_env st) = keccak256 env) sts \<and>
     sum_list (map step_ids sts) + extra + 1 < 2 ^ 128 \<and> sum_list (map step_size sts) < 2 ^ 128"

lemma run_backed:
  assumes "run_ok env extra sts"
  shows "dex_backed env extra 0 (\<lambda>_. 0) (fold exchange_exec sts empty_dex_world)"
  by (rule steps_backed) (use assms in \<open>auto simp: run_ok_def intro!: backed_genesis\<close>)

lemma run_ok_mono: "run_ok env n sts \<Longrightarrow> m \<le> n \<Longrightarrow> run_ok env m sts"
  by (auto simp: run_ok_def)

end
