(* ===== verification/Dex_Sample.thy ===== *)
theory Dex_Sample
  imports Dex_Supply Tip20_Properties
begin

section \<open>A sample chain for the exchange\<close>

text \<open>
  A concrete run, evaluated call by call: two tokens are created, a maker is funded, approves the exchange and places a bid. The
  properties of the exchange are instantiated on it.
\<close>

subsection \<open>A hash function\<close>

text \<open>A hash function that is injective on pairs of TIP-20 addresses: it reads the last eight bytes of both.\<close>

definition bytes_value :: "u8 list \<Rightarrow> nat" where
  "bytes_value bs = fold (\<lambda>b n. n * 256 + unat b) bs 0"

definition sample_dex_env :: env where
  "sample_dex_env = sample_env\<lparr>keccak256 := (\<lambda>bs. of_nat (bytes_value (drop 12 (take 20 bs) @ drop 32 bs)))\<rparr>"

lemma bytes_value_snoc: "bytes_value (bs @ [b]) = bytes_value bs * 256 + unat b"
  by (simp add: bytes_value_def)

lemma bytes_value_less: "bytes_value bs < 256 ^ length bs"
proof (induction bs rule: rev_induct)
  case (snoc b bs)
  have "unat b < 256" using unsigned_less [of b, where ?'a = nat] by simp
  with snoc show ?case by (simp add: bytes_value_snoc)
qed (simp add: bytes_value_def)

lemma bytes_value_inj: "length bs = length cs \<Longrightarrow> bytes_value bs = bytes_value cs \<Longrightarrow> bs = cs"
proof (induction bs arbitrary: cs rule: rev_induct)
  case (snoc b bs)
  then obtain c cs' where cs: "cs = cs' @ [c]" by (cases cs rule: rev_cases) auto
  have less: "unat x < 256" for x :: u8 using unsigned_less [of x, where ?'a = nat] by simp
  have eq: "bytes_value bs * 256 + unat b = bytes_value cs' * 256 + unat c" using snoc.prems(2) by (simp add: cs bytes_value_snoc)
  then have "unat b = unat c" using less [of b] less [of c] by (metis mod_less mod_mult_self3)
  with eq snoc show ?case by (simp add: cs word_unat_eq_iff)
qed simp

lemma address_bytes_inj: "address_bytes a = address_bytes b \<Longrightarrow> a = b"
proof (rule bit_word_eqI)
  fix n assume eq: "address_bytes a = address_bytes b" and n: "n < LENGTH(160)"
  let ?i = "19 - n div 8"
  have i: "?i < 20" "8 * (19 - ?i) = 8 * (n div 8)" "8 * (n div 8) + n mod 8 = n" using n by auto
  have "address_bytes a ! ?i = address_bytes b ! ?i" using eq by simp
  then have "(ucast (drop_bit (8 * (n div 8)) a) :: u8) = ucast (drop_bit (8 * (n div 8)) b)"
    using i(1,2) by (simp add: address_bytes_def)
  then have "bit (ucast (drop_bit (8 * (n div 8)) a) :: u8) (n mod 8) = bit (ucast (drop_bit (8 * (n div 8)) b) :: u8) (n mod 8)" by simp
  then show "bit a n = bit b n" using i(3) by (simp add: bit_simps)
qed

lemma sample_keys_distinct: "keys_distinct sample_dex_env"
proof -
  let ?v = "\<lambda>a b. bytes_value (drop 12 (address_bytes a) @ drop 12 (address_bytes b))"
  have len: "length (address_bytes a) = 20" for a by (simp add: address_bytes_def)
  have key: "compute_book_key sample_dex_env a b = of_nat (?v a b)" for a b
    using len [of a] by (simp add: compute_book_key_def sample_dex_env_def)
  have small: "?v a b < 2 ^ 256" for a b
  proof -
    have "?v a b < 256 ^ 16" using bytes_value_less [of "drop 12 (address_bytes a) @ drop 12 (address_bytes b)"] by (simp add: len)
    then show ?thesis by simp
  qed
  have "a = a' \<and> b = b'"
    if "is_tip20_prefix a" "is_tip20_prefix b" "is_tip20_prefix a'" "is_tip20_prefix b'"
      "compute_book_key sample_dex_env a b = compute_book_key sample_dex_env a' b'" for a b a' b'
  proof -
    have "unat (of_nat (?v a b) :: b256) = unat (of_nat (?v a' b') :: b256)" using that(5) by (simp only: key)
    then have "?v a b = ?v a' b'" using small by (simp add: unsigned_of_nat take_bit_eq_mod)
    then have "drop 12 (address_bytes a) @ drop 12 (address_bytes b) = drop 12 (address_bytes a') @ drop 12 (address_bytes b')"
      by (rule bytes_value_inj [rotated]) (simp add: len)
    then have "drop 12 (address_bytes a) = drop 12 (address_bytes a')" "drop 12 (address_bytes b) = drop 12 (address_bytes b')"
      by (simp_all add: len)
    moreover have "take 12 (address_bytes a) = take 12 (address_bytes a')" "take 12 (address_bytes b) = take 12 (address_bytes b')"
      using that(1-4) by (simp_all add: is_tip20_prefix_def)
    ultimately have "address_bytes a = address_bytes a'" "address_bytes b = address_bytes b'" by (metis append_take_drop_id)+
    then show ?thesis using address_bytes_inj by blast
  qed
  then show ?thesis by (auto simp: keys_distinct_def inj_on_def)
qed

subsection \<open>Sample books\<close>

text \<open>A pair with one bid of 100 tokens at the highest tick.\<close>

definition sample_key :: b256 where
  "sample_key = compute_book_key sample_dex_env second_token PATH_USD_ADDRESS"

definition sample_pair :: dex where
  "sample_pair = paired sample_dex_env second_token PATH_USD_ADDRESS empty_dex"

definition sample_bid :: order where
  "sample_bid = new_order 1 7 sample_key 100000000 2000 True False 0"

lemma sample_pair_rep: "book_rep sample_pair (\<lambda>_. [])" "bk_base (dx_books sample_pair sample_key) = second_token" "second_token \<noteq> 0"
  "bk_quote (dx_books sample_pair sample_key) = PATH_USD_ADDRESS" "dx_balances sample_pair = (\<lambda>_ _. 0)"
proof -
  show nz: "second_token \<noteq> 0" by (simp add: second_token_def)
  have "bk_base (dx_books empty_dex (compute_book_key sample_dex_env second_token PATH_USD_ADDRESS)) = 0" by (simp add: empty_dex_def empty_book_def)
  from paired_rep(1) [OF empty_book_rep this nz] show "book_rep sample_pair (\<lambda>_. [])" by (simp add: sample_pair_def)
  show "bk_base (dx_books sample_pair sample_key) = second_token" "bk_quote (dx_books sample_pair sample_key) = PATH_USD_ADDRESS"
    "dx_balances sample_pair = (\<lambda>_ _. 0)"
    by (simp_all add: sample_pair_def sample_key_def paired_books empty_dex_def)
qed

lemma sample_bid_enterable: "enterable sample_pair sample_bid" "home sample_bid = (sample_key, True, 2000)" "o_id sample_bid = 1"
proof -
  have "lv_liquidity (level_of sample_pair (sample_key, True, 2000)) = 0"
    using book_repD(1) [OF sample_pair_rep(1), of "(sample_key, True, 2000)"] by (simp add: queue_rep_empty empty_level_def)
  moreover have "dx_next_order_id sample_pair = 0" by (simp add: sample_pair_def paired_books empty_dex_def)
  ultimately show "enterable sample_pair sample_bid"
    using sample_pair_rep(2,3) by (simp add: enterable_def sample_bid_def MIN_TICK_def MAX_TICK_def price_def max_def)
qed (simp_all add: sample_bid_def)

lemma sample_book_rep:
  "book_rep (entered sample_bid sample_pair) ((\<lambda>_. [])((sample_key, True, 2000) := [1]))"
  "bk_base (dx_books (entered sample_bid sample_pair) sample_key) \<noteq> 0"
  using entered_rep(1) [OF sample_pair_rep(1) sample_bid_enterable(1)] sample_pair_rep(2,3) sample_bid_enterable(2,3)
  by (simp_all add: entered_unchanged)

lemma sample_book_views:
  "book_level True 2000 (dx_books (entered sample_bid sample_pair) sample_key) = \<lparr>lv_head = 1, lv_tail = 1, lv_liquidity = 100000000\<rparr>"
  "dx_orders (entered sample_bid sample_pair) 1 = sample_bid"
proof -
  have "book_level True 2000 (dx_books sample_pair sample_key) = empty_level"
    using book_repD(1) [OF sample_pair_rep(1), of "(sample_key, True, 2000)"] by (simp add: queue_rep_empty)
  then show "book_level True 2000 (dx_books (entered sample_bid sample_pair) sample_key) = \<lparr>lv_head = 1, lv_tail = 1, lv_liquidity = 100000000\<rparr>"
    "dx_orders (entered sample_bid sample_pair) 1 = sample_bid"
    using sample_bid_enterable(2,3) by (simp_all add: entered_def committed_def empty_level_def Let_def sample_bid_def)
qed

lemma sample_bid_facts:
  "o_maker sample_bid = 7" "o_id sample_bid = 1" "o_book_key sample_bid = sample_key" "escrow sample_bid = 102000000"
  "escrow_token (dx_books sample_pair sample_key) sample_bid = PATH_USD_ADDRESS"
  "escrow_token (dx_books (entered sample_bid sample_pair) sample_key) sample_bid = PATH_USD_ADDRESS"
  using sample_pair_rep(4) by (simp_all add: sample_bid_def escrow_token_def escrow_def price_def entered_unchanged)

subsection \<open>The run\<close>

text \<open>The state of pathUSD, by its supply, balances, allowances and log, and the chain with both tokens.\<close>

definition usd_tok :: "u256 \<Rightarrow> (address \<Rightarrow> u256) \<Rightarrow> (address \<Rightarrow> address \<Rightarrow> u256) \<Rightarrow> tip20_event list \<Rightarrow> tip20" where
  "usd_tok s b a l = empty_tip20\<lparr>roles := (\<lambda>_ _. False)(7 := (\<lambda>_. False)(DEFAULT_ADMIN_ROLE := True)),
     role_admins := (\<lambda>_. 0)(UNGRANTABLE_ROLE := UNGRANTABLE_ROLE), token_name := ''pathUSD'', token_symbol := ''pathUSD'',
     currency := ''USD'', transfer_policy_id := 1, total_supply := s, balances := b, allowances := a, supply_cap := widen MAX_WORD,
     token_log := l\<rparr>"

lemma usd_address [simp]: "is_tip20_prefix PATH_USD_ADDRESS" "is_tip20_prefix second_token" "(ucast PATH_USD_ADDRESS :: u64) = 0" "(ucast second_token :: u64) = 1"
  "second_token \<noteq> 0" "PATH_USD_ADDRESS \<noteq> 0" "second_token \<noteq> PATH_USD_ADDRESS" "PATH_USD_ADDRESS \<noteq> second_token" "0 < RESERVED_SIZE" "1 < RESERVED_SIZE" "\<not> RESERVED_SIZE \<le> 1" "RESERVED_SIZE \<noteq> 0"
  by (simp_all add: is_tip20_prefix_def PATH_USD_ADDRESS_def second_token_def address_bytes_def TIP20_TOKEN_PREFIX_def RESERVED_SIZE_def word_le_nat_alt upt_rec)

lemmas dex_eval = exchange_exec_def token_eval create_eval token_currency_def token_quote_def empty_world_def empty_dex_world_def empty_fee_world_def
  fee_world.extend_def world.extend_def empty_tip20_def usd_tok_def UNGRANTABLE_ROLE_def empty_keychain_def

lemma run_create_usd: "exchange_exec (Call sample_dex_env 3 (WorldCall (CreateTokenReserved PATH_USD_ADDRESS ''pathUSD'' ''pathUSD'' ''USD'' 0 7))) empty_dex_world =
   empty_dex_world\<lparr>tokens := (\<lambda>_. empty_tip20)(PATH_USD_ADDRESS := usd_tok 0 (\<lambda>_. 0) (\<lambda>_ _. 0) [RoleMembershipUpdated 0 7 7 True]), has_code := (\<lambda>_. False)(PATH_USD_ADDRESS := True),
      factory_log := [(PATH_USD_ADDRESS, ''pathUSD'', ''pathUSD'', ''USD'', 0, 7, 0)]\<rparr>"
  by (simp add: dex_eval)

definition second_tok :: tip20 where
  "second_tok = (usd_tok 0 (\<lambda>_. 0) (\<lambda>_ _. 0) [NextQuoteTokenSet 7 PATH_USD_ADDRESS])\<lparr>token_name := ''second'', token_symbol := ''second'',
     quote_token := PATH_USD_ADDRESS, next_quote_token := PATH_USD_ADDRESS, token_log := [RoleMembershipUpdated 0 7 7 True]\<rparr>"

definition usd_world :: "tip20 \<Rightarrow> dex_world" where
  "usd_world t = empty_dex_world\<lparr>tokens := (\<lambda>_. empty_tip20)(second_token := second_tok, PATH_USD_ADDRESS := t),
      has_code := (\<lambda>_. False)(PATH_USD_ADDRESS := True, second_token := True),
      factory_log := [(PATH_USD_ADDRESS, ''pathUSD'', ''pathUSD'', ''USD'', 0, 7, 0), (second_token, ''second'', ''second'', ''USD'', PATH_USD_ADDRESS, 7, 0)]\<rparr>"

lemma run_create_second: "exchange_exec (Call sample_dex_env 3 (WorldCall (CreateTokenReserved second_token ''second'' ''second'' ''USD'' PATH_USD_ADDRESS 7)))
   (empty_dex_world\<lparr>tokens := (\<lambda>_. empty_tip20)(PATH_USD_ADDRESS := usd_tok 0 (\<lambda>_. 0) (\<lambda>_ _. 0) l), has_code := (\<lambda>_. False)(PATH_USD_ADDRESS := True),
      factory_log := [(PATH_USD_ADDRESS, ''pathUSD'', ''pathUSD'', ''USD'', 0, 7, 0)]\<rparr>) = usd_world (usd_tok 0 (\<lambda>_. 0) (\<lambda>_ _. 0) l)"
  by (simp add: dex_eval usd_world_def second_tok_def USD_CURRENCY_def fun_upd_twist [of PATH_USD_ADDRESS second_token])

lemma run_mint: "exchange_exec (Call sample_dex_env 3 (WorldCall (TokenCall 10 PATH_USD_ADDRESS 7 (MintCall 7 200000000)))) (usd_world (usd_tok 0 (\<lambda>_. 0) (\<lambda>_ _. 0) l)) =
    usd_world (usd_tok 200000000 ((\<lambda>_. 0)(7 := 200000000)) (\<lambda>_ _. 0) (l @ [Transfer 0 7 200000000, Mint 7 200000000]))"
  by (simp add: dex_eval usd_world_def mint_def mint_internal_def empty_keychain_def ISSUER_ROLE_def sample_dex_env_def ascii_def bytes_value_def unsigned_minus_1_eq_mask mask_eq_exp_minus_1)

lemma run_approve: "exchange_exec (Call sample_dex_env 3 (WorldCall (TokenCall 10 PATH_USD_ADDRESS 7 (ApproveCall STABLECOIN_DEX_ADDRESS 200000000)))) (usd_world (usd_tok s b (\<lambda>_ _. 0) l)) =
    usd_world (usd_tok s b ((\<lambda>_ _. 0)(7 := (\<lambda>_. 0)(STABLECOIN_DEX_ADDRESS := 200000000))) (l @ [Approval 7 STABLECOIN_DEX_ADDRESS 200000000]))"
  by (simp add: dex_eval usd_world_def approve_def authorize_approve_def get_allowance_def set_allowance_def)


lemma usd_world_views:
  "tokens (usd_world t) = (\<lambda>_. empty_tip20)(second_token := second_tok, PATH_USD_ADDRESS := t)" "w_registry (usd_world t) = empty_registry"
  "w_keychain (usd_world t) = empty_keychain" "w_dex (usd_world t) = empty_dex" "has_code (usd_world t) second_token"  "has_code (usd_world t) PATH_USD_ADDRESS"
  by (simp_all add: usd_world_def empty_dex_world_def empty_fee_world_def empty_world_def fee_world.extend_def world.extend_def)

lemma run_pair: "currency t = ''USD'' \<Longrightarrow> validate_or_create_pair sample_dex_env (dx_books empty_dex sample_key) second_token (usd_world t) = (Inr (), (usd_world t)\<lparr>w_dex := sample_pair\<rparr>)"
  by (simp add: token_eval token_quote_def token_currency_def dex_run on_dex_def usd_world_views second_tok_def usd_tok_def validate_or_create_pair_def create_pair_def is_tip20_def validate_usd_currency_def USD_CURRENCY_def empty_dex_def is_initialized_def empty_book_def
    write_new_orderbook_def sample_pair_def paired_def sample_key_def emit_dex_def)


lemma run_allowed_fst: "w_registry w = empty_registry \<Longrightarrow> w_keychain w = empty_keychain \<Longrightarrow> transfer_policy_id (tokens w T) = 1 \<Longrightarrow> fst (ensure_transfer_authorized sample_dex_env T u v w) = Inr ()"
  by (simp add: token_eval)


lemma dex_plain: "\<not> is_tip20_prefix STABLECOIN_DEX_ADDRESS" "STABLECOIN_DEX_ADDRESS \<noteq> 0" "STABLECOIN_DEX_ADDRESS \<noteq> 7"
  by (simp_all add: is_tip20_prefix_def STABLECOIN_DEX_ADDRESS_def address_bytes_def TIP20_TOKEN_PREFIX_def upt_rec)

lemma run_allowed: "w_registry w = empty_registry \<Longrightarrow> w_keychain w = empty_keychain \<Longrightarrow> transfer_policy_id (tokens w T) = 1 \<Longrightarrow> ensure_transfer_authorized sample_dex_env T u v w = (Inr (), w)"
  using run_allowed_fst [of w T u v] authorization_reads(3) [of sample_dex_env T u v w "()" "snd (ensure_transfer_authorized sample_dex_env T u v w)"]
   by (metis prod.collapse)

lemma run_pull: "w_registry w = empty_registry \<Longrightarrow> w_keychain w = empty_keychain \<Longrightarrow> tokens w PATH_USD_ADDRESS = usd_tok 200000000 ((\<lambda>_. 0)(7 := 200000000)) ((\<lambda>_ _. 0)(7 := (\<lambda>_. 0)(STABLECOIN_DEX_ADDRESS := 200000000))) l \<Longrightarrow>
   \<exists>t. dex_transfer_from sample_dex_env PATH_USD_ADDRESS 7 102000000 w = (Inr (), w\<lparr>tokens := (tokens w)(PATH_USD_ADDRESS := t)\<rparr>)"
  by (simp add: dex_transfer_from_def transfer_from_def transfer_from_internal_def run_allowed run evoid_def ezoom_def on_token_def Let_def emit_def from_address_def transfer_internal_def get_balance_def set_balance_def handle_rewards_on_transfer_def
      check_not_paused_def update_rewards_def get_user_reward_info_def set_user_reward_info_def checked_add_def checked_sub_def widen_def usd_tok_def check_recipient_def get_allowance_def set_allowance_def empty_tip20_def dex_plain)
    (rule exI, rule refl)
 
lemma run_place: fixes l defines "w \<equiv> usd_world (usd_tok 200000000 ((\<lambda>_. 0)(7 := 200000000)) ((\<lambda>_ _. 0)(7 := (\<lambda>_. 0)(STABLECOIN_DEX_ADDRESS := 200000000))) l)"
  shows "\<exists>ts e. exchange_exec (Trade sample_dex_env 10 7 (Place second_token 100000000 True 2000)) w = w\<lparr>tokens := ts, w_dex := log_event e (entered sample_bid sample_pair)\<rparr>"
proof -
  let ?w1 = "w\<lparr>w_dex := sample_pair\<rparr>"
  have pol: "transfer_policy_id (tokens w PATH_USD_ADDRESS) = 1" "transfer_policy_id (tokens w second_token) = 1" by (simp_all add: w_def usd_world_views usd_tok_def second_tok_def)
  have env: "w_registry w = empty_registry" "w_keychain w = empty_keychain" by (simp_all add: w_def usd_world_views)
  have dex: "w_dex w = empty_dex" by (simp add: w_def usd_world_views)
  have quote: "token_quote second_token w = (Inr PATH_USD_ADDRESS, w)"
    by (simp add: token_quote_def run from_address_def on_token_def ezoom_def w_def usd_world_views second_tok_def)
  have pair: "validate_or_create_pair sample_dex_env (dx_books empty_dex sample_key) second_token w = (Inr (), ?w1)"
    unfolding w_def by (rule run_pair) (simp add: usd_tok_def)
  have esc: "base_to_quote 100000000 2000 Up = Some 102000000" by (simp add: base_to_quote_Some is_i16_def price_def I16_MIN_def I16_MAX_def)
  obtain t where tr: "dex_transfer_from sample_dex_env PATH_USD_ADDRESS 7 102000000 ?w1 = (Inr (), ?w1\<lparr>tokens := (tokens w)(PATH_USD_ADDRESS := t)\<rparr>)"
    using run_pull [of ?w1 l] by (auto simp: env w_def usd_world_views)
  have com: "commit_order_to_book sample_bid (sample_pair\<lparr>dx_next_order_id := 2\<rparr>) = (Inr (), entered sample_bid sample_pair)"
  proof -
    have "level_of (sample_pair\<lparr>dx_next_order_id := 2\<rparr>) L = level_of sample_pair L" for L by (cases L) simp
    then show ?thesis
    unfolding entered_def using sample_bid_enterable by (subst commit_run) (auto simp: enterable_def)
  qed
  have nxt: "dx_next_order_id sample_pair = 0" by (simp add: sample_pair_def paired_books empty_dex_def)
  have "((\<lambda>_ _. 0)(7 := (\<lambda>_. 0)(PATH_USD_ADDRESS := 0)) :: address \<Rightarrow> address \<Rightarrow> u128) = dx_balances sample_pair"
    by (simp add: sample_pair_rep(5) fun_eq_iff)
  then have keep: "sample_pair\<lparr>dx_balances := (\<lambda>_ _. 0)(7 := (\<lambda>_. 0)(PATH_USD_ADDRESS := 0))\<rparr> = sample_pair" by (simp only:) simp
  show ?thesis
    by (simp add: keep nxt max_def exchange_exec_def commit_def place_def evoid_def run quote dex_run on_dex_def ezoom_def dex pair sample_key_def [symmetric] enter_order_def order_escrow_def esc run_allowed env pol com decrement_balance_or_transfer_from_def tr  balance_of_def set_dex_balance_def sample_pair_rep(5) checked_sub_def
       next_order_id_def increment_next_order_id_def emit_dex_def log_event_def new_bid_def sample_bid_def [symmetric] from_address_def MIN_TICK_def MAX_TICK_def TICK_SPACING_def MIN_ORDER_AMOUNT_def)
      (intro exI, rule refl)
qed

text \<open>A maker places a bid; then a flip order is tried, a taker sells into the bid, and the maker cancels and withdraws.\<close>

definition bid_steps :: "exchange_step list" where
  "bid_steps =
    [Call sample_dex_env 3 (WorldCall (CreateTokenReserved PATH_USD_ADDRESS ''pathUSD'' ''pathUSD'' ''USD'' 0 7)),
     Call sample_dex_env 3 (WorldCall (CreateTokenReserved second_token ''second'' ''second'' ''USD'' PATH_USD_ADDRESS 7)),
     Call sample_dex_env 3 (WorldCall (TokenCall 10 PATH_USD_ADDRESS 7 (MintCall 7 200000000))),
     Call sample_dex_env 3 (WorldCall (TokenCall 10 PATH_USD_ADDRESS 7 (ApproveCall STABLECOIN_DEX_ADDRESS 200000000))),
     Trade sample_dex_env 10 7 (Place second_token 100000000 True 2000)]"

definition sample_steps :: "exchange_step list" where
  "sample_steps = bid_steps @
    [Trade sample_dex_env 10 7 (PlaceFlip second_token 100000000 True 10 20),
     Call sample_dex_env 3 (WorldCall (TokenCall 10 second_token 7 (MintCall 8 1000))),
     Call sample_dex_env 3 (WorldCall (TokenCall 10 second_token 8 (ApproveCall STABLECOIN_DEX_ADDRESS 1000))),
     Trade sample_dex_env 10 8 (SwapExactAmountIn second_token PATH_USD_ADDRESS 50 0),
     Trade sample_dex_env 10 8 (SwapExactAmountOut second_token PATH_USD_ADDRESS 50 1000),
     Trade sample_dex_env 10 7 (Cancel 1),
     Trade sample_dex_env 10 7 (Withdraw PATH_USD_ADDRESS 5)]"

lemma bid_run_ok: "run_ok sample_dex_env 100 bid_steps" "list_all books_step bid_steps"
  using sample_keys_distinct by (simp_all add: run_ok_def bid_steps_def swap_ids_def STABLECOIN_DEX_ADDRESS_def)

lemma sample_run_ok: "run_ok sample_dex_env 100 sample_steps"
  using sample_keys_distinct by (simp add: run_ok_def sample_steps_def bid_steps_def swap_ids_def STABLECOIN_DEX_ADDRESS_def)

lemmas sample_run = run_ok_mono [OF sample_run_ok] and bid_run = run_ok_mono [OF bid_run_ok(1)]

lemma bid_steps_dex:
  obtains e where "w_dex (fold exchange_exec bid_steps empty_dex_world) = log_event e (entered sample_bid sample_pair)"
  using run_place [of "[RoleMembershipUpdated 0 7 7 True, Transfer 0 7 200000000, Mint 7 200000000, Approval 7 STABLECOIN_DEX_ADDRESS 200000000]"]
  by (auto simp: bid_steps_def run_create_usd run_create_second run_mint run_approve)

lemma bid_views:
  defines "s \<equiv> w_dex (fold exchange_exec bid_steps empty_dex_world)"
  shows "dx_orders s 1 = sample_bid" "dx_books s sample_key = dx_books (entered sample_bid sample_pair) sample_key" "dx_balances s = (\<lambda>_ _. 0)"
    "side_orders sample_key True s = {1}"
proof -
  obtain e where s: "s = log_event e (entered sample_bid sample_pair)" unfolding s_def by (rule bid_steps_dex)
  have "book_rep s ((\<lambda>_. [])((sample_key, True, 2000) := [1]))" using sample_book_rep(1) by (simp add: s)
  from side_orders_queues [OF this, of sample_key True] show "side_orders sample_key True s = {1}" by (auto split: if_splits)
  show "dx_orders s 1 = sample_bid" "dx_books s sample_key = dx_books (entered sample_bid sample_pair) sample_key" "dx_balances s = (\<lambda>_ _. 0)"
    by (simp_all add: s log_event_def entered_unchanged sample_pair_rep(5) sample_book_views)
qed

end
