(* ===== verification/Dex_Properties.thy ===== *)
theory Dex_Properties
  imports Dex_Sample
begin

section \<open>Properties of the exchange\<close>

text \<open>
  The main results about the stablecoin exchange, instantiated on the sample chain. They
  range over every sequence of calls from an empty chain, in any interleaving with calls of the other contracts.
\<close>

subsection \<open>Solvency\<close>



subsection \<open>Books and queues\<close>

text \<open>C9. The books represent queues, and filling follows price-time priority. In a state that represents queues, let \<open>i\<close> be
  the first order of the best non-empty level of a side. Then the exchange offers exactly that order to the taker; after it
  was filled completely, the storage represents the queues without it, and the order that comes next is the first one of the level that is
  then the best, or there is none because the side is empty.\<close>

theorem fills_follow_priority:
  assumes "book_rep s Q" "bk_base (dx_books s k) \<noteq> 0" "Q (k, b, t) = i # q" "\<forall>u. Q (k, b, u) \<noteq> [] \<longrightarrow> \<not> better b u t"
  defines "Q' \<equiv> Q((k, b, t) := q)"
  shows "\<exists>l nxt s'. get_best_price_level k b s = (Inr l, s) \<and> lv_head l = i \<and> advance_book k (dx_orders s i) l s = (Inr nxt, s') \<and>
    book_rep s' Q' \<and>
    (case nxt of None \<Rightarrow> \<forall>u. Q' (k, b, u) = []
      | Some (l', ord') \<Rightarrow> \<exists>u j r. Q' (k, b, u) = j # r \<and> ord' = dx_orders s' j \<and> (\<forall>v. Q' (k, b, v) \<noteq> [] \<longrightarrow> \<not> better b v u))"
proof -
  let ?bk = "dx_books s k" and ?ord = "dx_orders s i" and ?l = "book_level b t (dx_books s k)"
  have top: "best_rep (\<lambda>t. Q (k, b, t) \<noteq> []) b (best_tick b ?bk)" by (rule book_repD(5) [OF assms(1,2)])
  then have used: "Q (k, b, best_tick b ?bk) \<noteq> []" "\<And>u. Q (k, b, u) \<noteq> [] \<Longrightarrow> \<not> better b u (best_tick b ?bk)"
    using assms(3) by (auto simp: best_rep_def better_def split: if_splits)
  have tick: "best_tick b ?bk = t"
    using used(2) [of t] assms(4) used(1) assms(3) by (cases b) (auto simp: better_def)
  have hd: "lv_head ?l = i" using book_repD(1) [OF assms(1), of "(k, b, t)"] assms(3) by (simp add: queue_rep_def)
  have ne: "t \<noteq> empty_best b" using book_rep_initialized(2,3) [OF assms(1), of k b t] assms(3)
    by (auto simp: empty_best_def I16_MIN_def I16_MAX_def MIN_TICK_def MAX_TICK_def)
  then have best: "best_order k b s = Some (?l, ?ord)" by (simp add: best_order_def tick hd Let_def)
  have get: "get_best_price_level k b s = (Inr ?l, s)"
    using ne tick by (cases b) (simp_all add: get_best_price_level_def dex_run best_tick_def empty_best_def)
  let ?s = "dropped ?ord s"
  have rep: "book_rep ?s Q'" using dropped_rep [OF assms(1), of i k b t ?ord] assms(3) by (simp add: Q'_def)
  have init: "bk_base (dx_books ?s k) \<noteq> 0" using assms(2) by (simp add: dropped_unchanged)
  have "case best_order k b ?s of None \<Rightarrow> \<forall>u. Q' (k, b, u) = []
      | Some (l', ord') \<Rightarrow> \<exists>u j r. Q' (k, b, u) = j # r \<and> ord' = dx_orders ?s j \<and> (\<forall>v. Q' (k, b, v) \<noteq> [] \<longrightarrow> \<not> better b v u)"
  proof (cases "best_order k b ?s")
    case None
    with best_order_None [OF rep init] show ?thesis by simp
  next
    case (Some p)
    obtain l' ord' where p: "p = (l', ord')" by (cases p)
    from best_order_Some [OF rep init Some [unfolded p]] obtain j r u where
      j: "Q' (k, b, u) = j # r" "best_tick b (dx_books ?s k) = u" "ord' = dx_orders ?s j" by blast
    have "best_rep (\<lambda>t. Q' (k, b, t) \<noteq> []) b u" using book_repD(5) [OF rep init, of b] j(2) by simp
    then have "\<forall>v. Q' (k, b, v) \<noteq> [] \<longrightarrow> \<not> better b v u" using j(1) by (auto simp: best_rep_def better_def split: if_splits)
    with j Some p show ?thesis by auto
  qed
  with get hd rep advance_book_run [OF assms(1,2) best] show ?thesis by blast
qed

theorem fills_follow_priority_witness:
  "\<exists>l nxt s'. get_best_price_level sample_key True (entered sample_bid sample_pair) = (Inr l, entered sample_bid sample_pair) \<and> lv_head l = 1 \<and>
    advance_book sample_key (dx_orders (entered sample_bid sample_pair) 1) l (entered sample_bid sample_pair) = (Inr nxt, s') \<and>
    book_rep s' ((\<lambda>_. [])((sample_key, True, 2000) := [1], (sample_key, True, 2000) := []))"
proof -
  let ?Q = "(\<lambda>_. [])((sample_key, True, 2000) := [1 :: u128])"
  have q: "?Q (sample_key, True, 2000) = 1 # []" "\<forall>u. ?Q (sample_key, True, u) \<noteq> [] \<longrightarrow> \<not> better True u 2000" by (auto simp: better_def)
  from fills_follow_priority [OF sample_book_rep q] show ?thesis by blast
qed

lemma cancel_by_maker:
  assumes "ord = dx_orders s i" "o_maker ord \<noteq> 0" "o_remaining ord \<noteq> 0"
  shows "cancel (o_maker ord) i s = cancel_active_order ord s"
  using assms by (simp add: cancel_def dex_run)

text \<open>C12. Placing and cancelling an order restores the books: a new order goes to the end of the queue of its level, and when its maker
  cancels it, the storage represents the same queues as before, the order is gone, and the maker is credited with exactly what was in
  escrow for it.\<close>

theorem place_then_cancel_restores_books:
  assumes "book_rep s Q" "enterable s ord" "o_maker ord \<noteq> 0"
    and "unat (dx_balances s (o_maker ord) (escrow_token (dx_books s (o_book_key ord)) ord)) + escrow ord < 2 ^ 128"
  shows "\<exists>s1 s2. commit_order_to_book ord (s\<lparr>dx_next_order_id := o_id ord + 1\<rparr>) = (Inr (), s1) \<and>
    book_rep s1 (Q(home ord := Q (home ord) @ [o_id ord])) \<and>
    cancel (o_maker ord) (o_id ord) s1 = (Inr (), s2) \<and> book_rep s2 Q \<and> dx_orders s2 (o_id ord) = empty_order \<and>
    unat (dx_balances s2 (o_maker ord) (escrow_token (dx_books s (o_book_key ord)) ord)) =
      unat (dx_balances s (o_maker ord) (escrow_token (dx_books s (o_book_key ord)) ord)) + escrow ord"
proof -
  let ?i = "o_id ord" and ?s0 = "s\<lparr>dx_next_order_id := o_id ord + 1\<rparr>" and ?s1 = "entered ord s" and ?L = "home ord"
  let ?tok = "escrow_token (dx_books s (o_book_key ord)) ord"
  have "level_of ?s0 L = level_of s L" for L by (cases L) simp
  then have commit: "commit_order_to_book ord ?s0 = (Inr (), ?s1)"
    unfolding entered_def by (intro commit_run) (use assms(2) in \<open>auto simp: enterable_def\<close>)
  note rep1 = entered_rep(1) [OF assms(1,2)]
  obtain k b t where h: "?L = (k, b, t)" by (cases ?L) auto
  define ord1 where "ord1 = dx_orders ?s1 ?i"
  have ord1: "o_maker ord1 = o_maker ord" "o_remaining ord1 = o_remaining ord" "o_book_key ord1 = o_book_key ord" "o_is_bid ord1 = o_is_bid ord" "o_tick ord1 = o_tick ord"
    using enterable_id(4) [OF assms(1,2)] by (auto simp: ord1_def entered_def committed_def h Let_def)
  have rem: "o_remaining ord \<noteq> 0" using assms(2) by (simp add: enterable_def)
  have k: "o_book_key ord = k" using h by (simp add: home_def)
  have esc: "escrow ord1 = escrow ord" "escrow_token (dx_books ?s1 k) ord1 = ?tok"
    using ord1 k by (simp_all add: escrow_def escrow_token_def entered_unchanged)
  have mem: "?i \<in> set ((Q(?L := Q ?L @ [?i])) (k, b, t))" using h by simp
  have room: "unat (dx_balances ?s1 (o_maker ord1) (escrow_token (dx_books ?s1 k) ord1)) + escrow ord1 < 2 ^ 128"
    using assms(4) esc ord1(1) by (simp add: entered_unchanged)
  let ?s2 = "log_event (OrderCancelled ?i) (credit (o_maker ord1) (escrow_token (dx_books ?s1 k) ord1) (of_nat (escrow ord1)) (dropped ord1 ?s1))"
  have cancel: "cancel (o_maker ord) ?i ?s1 = (Inr (), ?s2)"
    using cancel_active_run(1) [OF rep1 mem ord1_def room] cancel_by_maker [OF ord1_def] ord1(1,2) rem assms(3) by simp
  have "?i \<notin> set (Q ?L)" using book_repD(2) [OF assms(1), of ?i ?L] enterable_id(2) [OF assms(1,2)] by simp
  then have "(Q(?L := Q ?L @ [?i]))((k, b, t) := remove1 ?i ((Q(?L := Q ?L @ [?i])) (k, b, t))) = Q"
    by (auto simp: h remove1_append fun_eq_iff)
  with dropped_rep [OF rep1 mem ord1_def] have "book_rep (dropped ord1 ?s1) Q" by (simp only:)
  then have "book_rep ?s2 Q" by simp
  moreover have "unat (dx_balances ?s2 (o_maker ord) ?tok) = unat (dx_balances s (o_maker ord) ?tok) + escrow ord"
    using assms(4) esc ord1(1) by (simp add: credit_def log_event_def dropped_unchanged entered_unchanged unat_word_ariths unsigned_of_nat take_bit_eq_mod)
  moreover have "o_id ord1 = ?i" using book_rep_ids(2) [OF rep1 mem] by (simp add: ord1_def)
  then have "dx_orders ?s2 ?i = empty_order" by (simp add: dropped_def home_def Let_def)
  ultimately show ?thesis using commit rep1 cancel by blast
qed

theorem place_then_cancel_restores_books_witness:
  "\<exists>s1 s2. commit_order_to_book sample_bid (sample_pair\<lparr>dx_next_order_id := o_id sample_bid + 1\<rparr>) = (Inr (), s1) \<and>
    cancel 7 1 s1 = (Inr (), s2) \<and> book_rep s2 (\<lambda>_. []) \<and> unat (dx_balances s2 7 PATH_USD_ADDRESS) = 102000000"
proof -
  have "o_maker sample_bid \<noteq> 0" "unat (dx_balances sample_pair (o_maker sample_bid) (escrow_token (dx_books sample_pair (o_book_key sample_bid)) sample_bid)) + escrow sample_bid < 2 ^ 128"
    unfolding sample_bid_facts by (simp_all add: sample_pair_rep(5))
  from place_then_cancel_restores_books [OF sample_pair_rep(1) sample_bid_enterable(1) this]
  show ?thesis unfolding sample_bid_facts by (auto simp: sample_pair_rep(5))
qed



subsection \<open>Termination of the matching loops\<close>



subsection \<open>Quotes\<close>


end
