(* ===== verification/Proxy_Health.thy ===== *)
theory Proxy_Health
  imports Prelude "HOL-Library.AList"
begin

section \<open>Proxy health: the ban list\<close>

text \<open>
  The ban list of \<open>proxy_health.rs\<close>. The hash map from proxy indices to the start of the ban is an association list, since its
  entries are enumerated; times are nanoseconds of the monotonic clock and are arguments of the operations that read the clock. The
  outcome of the HTTP request that \<open>check_proxy_health\<close> makes is an argument too: a scan gets the outcomes in the order in which the
  concurrent checks complete.
\<close>

type_synonym instant = nat

record banlist =
  banned :: "(nat \<times> instant) list"
  ban_duration :: nat

definition new_banlist :: "u64 \<Rightarrow> banlist" where
  "new_banlist ban_duration_minutes = \<lparr>banned = [], ban_duration = unat (ban_duration_minutes * 60) * 1000000000\<rparr>"

text \<open>\<open>elapsed\<close> and the difference of instants saturate at zero, as the subtraction of naturals does.\<close>

definition is_banned :: "instant \<Rightarrow> nat \<Rightarrow> banlist \<Rightarrow> bool" where
  "is_banned now proxy_index b =
     (case map_of (banned b) proxy_index of Some ban_time \<Rightarrow> now - ban_time < ban_duration b | None \<Rightarrow> False)"

definition ban :: "instant \<Rightarrow> nat \<Rightarrow> banlist \<Rightarrow> banlist" where
  "ban now proxy_index b = b\<lparr>banned := AList.update proxy_index now (banned b)\<rparr>"

definition unban :: "nat \<Rightarrow> banlist \<Rightarrow> banlist" where
  "unban proxy_index b = b\<lparr>banned := AList.delete proxy_index (banned b)\<rparr>"

definition get_banned_indices :: "instant \<Rightarrow> banlist \<Rightarrow> nat list" where
  "get_banned_indices now b = map fst (filter (\<lambda>(_, ban_time). now - ban_time < ban_duration b) (banned b))"

definition cleanup_expired :: "instant \<Rightarrow> banlist \<Rightarrow> banlist" where
  "cleanup_expired now b = b\<lparr>banned := filter (\<lambda>(_, ban_time). now - ban_time < ban_duration b) (banned b)\<rparr>"

subsection \<open>Scans\<close>

text \<open>One outcome: the index of the proxy, whether it answered, and the time at which the result is recorded.\<close>

type_synonym outcome = "nat \<times> bool \<times> instant"

definition record_outcome :: "outcome \<Rightarrow> nat \<times> nat \<times> banlist \<Rightarrow> nat \<times> nat \<times> banlist" where
  "record_outcome r st = (case (r, st) of ((idx, is_healthy, now), healthy_count, banned_count, b) \<Rightarrow>
     if is_healthy then (healthy_count + 1, banned_count, unban idx b) else (healthy_count, banned_count + 1, ban now idx b))"

definition scan_proxies :: "outcome list \<Rightarrow> banlist \<Rightarrow> nat \<times> nat \<times> banlist" where
  "scan_proxies results b = fold record_outcome results (0, 0, b)"

text \<open>The foreground loop of \<open>scan_proxies_partial\<close> checks the proxies in order and stops when enough are healthy; the background task runs
  \<open>scan_proxies_with_progress\<close>, whose effect is that of \<open>scan_proxies\<close>.\<close>

fun scan_until :: "nat \<Rightarrow> outcome list \<Rightarrow> nat \<times> nat \<times> banlist \<Rightarrow> nat \<times> nat \<times> banlist" where
  "scan_until min_healthy [] st = st"
| "scan_until min_healthy (r # rs) st =
     (if fst st \<ge> min_healthy then st else scan_until min_healthy rs (record_outcome r st))"

definition scan_proxies_partial :: "nat \<Rightarrow> outcome list \<Rightarrow> banlist \<Rightarrow> nat \<times> nat \<times> banlist" where
  "scan_proxies_partial min_healthy results b = scan_until min_healthy results (0, 0, b)"

text \<open>One round of the background task: the banned proxies that exist and answer are unbanned, then expired bans are dropped.\<close>

definition recheck_one :: "nat \<Rightarrow> (nat \<Rightarrow> bool) \<Rightarrow> nat \<Rightarrow> banlist \<Rightarrow> banlist" where
  "recheck_one proxies healthy idx b = (if idx < proxies \<and> healthy idx then unban idx b else b)"

definition recheck :: "nat \<Rightarrow> (nat \<Rightarrow> bool) \<Rightarrow> instant \<Rightarrow> instant \<Rightarrow> banlist \<Rightarrow> banlist" where
  "recheck proxies healthy start done b =
     (let banned_indices = get_banned_indices start b in
      if banned_indices = [] then b
      else cleanup_expired done (fold (recheck_one proxies healthy) banned_indices b))"

subsection \<open>Views\<close>

lemma ban_views:
  "is_banned t i (ban now j b) = (if i = j then t - now < ban_duration b else is_banned t i b)"
  "is_banned t i (unban j b) = (i \<noteq> j \<and> is_banned t i b)"
  "ban_duration (ban now j b) = ban_duration b" "ban_duration (unban j b) = ban_duration b"
  by (auto simp: is_banned_def ban_def unban_def update_conv' delete_conv' split: option.splits)

lemma outcome_views:
  "ban_duration (snd (snd (record_outcome (i, h, now) st))) = ban_duration (snd (snd st))"
  "is_banned t j (snd (snd (record_outcome (i, h, now) st))) =
     (if i = j then \<not> h \<and> t - now < ban_duration (snd (snd st)) else is_banned t j (snd (snd st)))"
  "fst (record_outcome (i, h, now) st) = fst st + (if h then 1 else 0)"
  "fst (snd (record_outcome (i, h, now) st)) = fst (snd st) + (if h then 0 else 1)"
  by (cases st; simp add: record_outcome_def ban_views)+

lemma scan_duration: "ban_duration (snd (snd (fold record_outcome rs st))) = ban_duration (snd (snd st))"
  by (induction rs arbitrary: st) (auto simp: outcome_views)

lemma scan_counts: "fst (fold record_outcome rs st) + fst (snd (fold record_outcome rs st)) = fst st + fst (snd st) + length rs"
  by (induction rs arbitrary: st) (auto simp: outcome_views)

lemma scan_other: "i \<notin> fst ` set rs \<Longrightarrow> is_banned t i (snd (snd (fold record_outcome rs st))) = is_banned t i (snd (snd st))"
  by (induction rs arbitrary: st) (auto simp: outcome_views)

lemma scan_member:
  assumes "distinct (map fst rs)" "(i, h, now) \<in> set rs"
  shows "is_banned t i (snd (snd (fold record_outcome rs st))) = (\<not> h \<and> t - now < ban_duration (snd (snd st)))"
  using assms
proof (induction rs arbitrary: st)
  case (Cons r rs)
  obtain j g u where r: "r = (j, g, u)" by (cases r)
  show ?case
  proof (cases "i = j")
    case True
    with Cons.prems have "i \<notin> fst ` set rs" "h = g" "now = u" by (auto simp: r image_iff)
    then show ?thesis by (simp add: r True [symmetric] scan_other outcome_views)
  next
    case False
    with Cons.prems have "distinct (map fst rs)" "(i, h, now) \<in> set rs" by (auto simp: r)
    from Cons.IH [OF this] show ?thesis by (simp add: r outcome_views)
  qed
qed simp

text \<open>A scan bans exactly the proxies that did not answer: whatever was banned before and in whatever order the checks complete, a proxy is
  banned afterwards iff its check failed and less than the ban duration has passed since, and every proxy is counted once.\<close>

theorem scan_bans_unhealthy:
  assumes "distinct (map fst rs)" "(i, h, now) \<in> set rs"
  shows "case scan_proxies rs b of (healthy_count, banned_count, b') \<Rightarrow>
    is_banned t i b' = (\<not> h \<and> t - now < ban_duration b) \<and> healthy_count + banned_count = length rs"
  using scan_member [OF assms, of t "(0, 0, b)"] scan_counts [of rs "(0, 0, b)"]
  by (auto simp: scan_proxies_def split: prod.splits)

theorem scan_bans_unhealthy_witness:
  "case scan_proxies [(1, False, 5), (0, True, 6)] (new_banlist 10) of (healthy_count, banned_count, b') \<Rightarrow>
    is_banned 600 1 b' = (\<not> False \<and> 600 - 5 < ban_duration (new_banlist 10)) \<and> healthy_count + banned_count = 2"
  using scan_bans_unhealthy [of "[(1, False, 5), (0, True, 6)]" 1 False 5 600 "new_banlist 10"] by (simp add: numeral_2_eq_2)

end
