(* ===== verification/Client_Pool.thy ===== *)
theory Client_Pool
  imports Proxy_Health "HOL-Library.Multiset"
begin

section \<open>The client pool: leasing wallets to workers\<close>

text \<open>
  The pool of \<open>client_pool.rs\<close>. Its shared state is a record; every critical section of the Rust code, that is, everything between taking and
  giving back one of the locks, is one function on that record. Workers, leases and the spawned releases are tasks, and a step of the system
  runs one critical section of one task, so every interleaving of the async runtime is a run. What comes from outside is an
  argument of the step: the random index, the clock, and whether wallet, proxy and direct connection work.
\<close>

record client_pool =
  wallet_count :: nat
  locked_wallets :: "nat set"
  available_wallets :: "nat list"
  available_positions :: "nat \<rightharpoonup> nat"
  clients :: "nat \<rightharpoonup> nat option"
  proxies :: nat
  proxy_banlist :: "banlist option"
  proxy_rotation_counter :: u64
  permits :: nat

text \<open>A cached client is represented by the index of the proxy that it uses, if any.\<close>

definition new_pool :: "nat \<Rightarrow> nat \<Rightarrow> client_pool" where
  "new_pool total_wallets connection_semaphore_size = \<lparr>wallet_count = total_wallets, locked_wallets = {},
     available_wallets = [0..<total_wallets], available_positions = (\<lambda>i. if i < total_wallets then Some i else None),
     clients = (\<lambda>_. None), proxies = 0, proxy_banlist = Some (new_banlist 10), proxy_rotation_counter = 0,
     permits = connection_semaphore_size\<rparr>"

definition with_proxies :: "nat \<Rightarrow> client_pool \<Rightarrow> client_pool" where
  "with_proxies n p = p\<lparr>proxies := n\<rparr>"

definition with_proxy_banlist :: "banlist \<Rightarrow> client_pool \<Rightarrow> client_pool" where
  "with_proxy_banlist b p = p\<lparr>proxy_banlist := Some b\<rparr>"

definition available_count :: "client_pool \<Rightarrow> nat" where
  "available_count p = length (available_wallets p)"

definition check_proxy_cached :: "instant \<Rightarrow> client_pool \<Rightarrow> bool" where
  "check_proxy_cached now p = (proxies p = 0 \<or>
     (case proxy_banlist p of None \<Rightarrow> True | Some b \<Rightarrow> list_ex (\<lambda>idx. \<not> is_banned now idx b) [0..<proxies p]))"

text \<open>\<open>Vec::swap\<close> with the last element, then \<open>pop\<close>.\<close>

definition swap_remove :: "'a list \<Rightarrow> nat \<Rightarrow> 'a list" where
  "swap_remove xs i = (let last = length xs - 1 in butlast (xs[i := xs ! last, last := xs ! i]))"

definition remove_from_available :: "nat \<Rightarrow> client_pool \<Rightarrow> client_pool" where
  "remove_from_available w p =
     (case available_positions p w of
       None \<Rightarrow> p
     | Some pos \<Rightarrow>
         let available = available_wallets p; last_idx = length available - 1 in
         if pos < length available then
           let last_wallet = available ! last_idx; available = swap_remove available pos;
             positions = (if pos \<noteq> last_idx \<and> pos < length available then (available_positions p)(last_wallet \<mapsto> pos) else available_positions p)
           in p\<lparr>available_wallets := available, available_positions := positions(w := None)\<rparr>
         else p)"

text \<open>The two critical sections of \<open>lock_wallet_fast\<close>. The first fails when the wallet is in the set already.\<close>

definition lock_insert :: "nat \<Rightarrow> client_pool \<Rightarrow> client_pool option" where
  "lock_insert w p = (if w \<in> locked_wallets p then None else Some (p\<lparr>locked_wallets := insert w (locked_wallets p)\<rparr>))"

definition lock_remove :: "nat \<Rightarrow> nat \<Rightarrow> client_pool \<Rightarrow> client_pool" where
  "lock_remove w i p =
     (let available = available_wallets p in
      if i < length available \<and> available ! i = w then
        let last_idx = length available - 1; last_wallet = available ! last_idx;
          positions = (if i \<noteq> last_idx then (available_positions p)(last_wallet \<mapsto> i) else available_positions p)
        in p\<lparr>available_wallets := swap_remove available i, available_positions := positions(w := None)\<rparr>
      else p)"

text \<open>The two critical sections of \<open>unlock_wallet_fast\<close>.\<close>

definition unlock_remove :: "nat \<Rightarrow> client_pool \<Rightarrow> client_pool" where
  "unlock_remove w p = p\<lparr>locked_wallets := locked_wallets p - {w}\<rparr>"

definition unlock_push :: "nat \<Rightarrow> client_pool \<Rightarrow> client_pool" where
  "unlock_push w p = p\<lparr>available_wallets := available_wallets p @ [w],
     available_positions := (available_positions p)(w \<mapsto> length (available_wallets p))\<rparr>"

definition legacy_available :: "client_pool \<Rightarrow> nat list" where
  "legacy_available p = filter (\<lambda>i. i \<notin> locked_wallets p) [0..<wallet_count p]"

definition put_permit :: "client_pool \<Rightarrow> client_pool" where
  "put_permit p = p\<lparr>permits := permits p + 1\<rparr>"

subsection \<open>Creating clients\<close>

text \<open>Which of the outside calls succeed: decrypting the wallet, building the HTTP client of the proxy, connecting through it, and the
  same for the direct connection.\<close>

record connection =
  wallet_ok :: bool
  proxy_http_ok :: bool
  proxy_ok :: bool
  direct_http_ok :: bool
  direct_ok :: bool

definition ban_proxy :: "instant \<Rightarrow> nat \<Rightarrow> client_pool \<Rightarrow> client_pool" where
  "ban_proxy now idx p = p\<lparr>proxy_banlist := map_option (ban now idx) (proxy_banlist p)\<rparr>"

definition direct_client :: "connection \<Rightarrow> nat option option" where
  "direct_client c = (if direct_http_ok c \<and> direct_ok c then Some None else None)"

definition try_create_client_with_fallback ::
  "instant \<Rightarrow> connection \<Rightarrow> nat option \<Rightarrow> client_pool \<Rightarrow> nat option option \<times> client_pool" where
  "try_create_client_with_fallback now c proxy_idx p =
     (case proxy_idx of
       None \<Rightarrow> (direct_client c, p)
     | Some idx \<Rightarrow>
         if proxy_http_ok c then
           if proxy_ok c then (Some (Some idx), p) else (direct_client c, ban_proxy now idx p)
         else (direct_client c, p))"

definition next_proxy :: "client_pool \<Rightarrow> nat option \<times> client_pool" where
  "next_proxy p =
     (if proxies p = 0 then (None, p)
      else (Some (unat (proxy_rotation_counter p) mod proxies p), p\<lparr>proxy_rotation_counter := proxy_rotation_counter p + 1\<rparr>))"

definition get_or_create_client :: "instant \<Rightarrow> connection \<Rightarrow> nat \<Rightarrow> client_pool \<Rightarrow> nat option option \<times> client_pool" where
  "get_or_create_client now c w p =
     (case clients p w of
       Some used \<Rightarrow> (Some used, p)
     | None \<Rightarrow>
         if \<not> wallet_ok c then (None, p)
         else
           let (proxy_idx, p) = next_proxy p; (client, p) = try_create_client_with_fallback now c proxy_idx p in
           case client of None \<Rightarrow> (None, p) | Some used \<Rightarrow> (Some used, p\<lparr>clients := (clients p)(w \<mapsto> used)\<rparr>))"

definition get_client :: "instant \<Rightarrow> connection \<Rightarrow> nat \<Rightarrow> client_pool \<Rightarrow> nat option option \<times> client_pool" where
  "get_client now c w p = (if w \<ge> wallet_count p then (None, p) else get_or_create_client now c w p)"

definition rotated_proxy :: "nat \<Rightarrow> nat \<Rightarrow> client_pool \<Rightarrow> nat option" where
  "rotated_proxy w offset p = (if proxies p = 0 then None else Some ((w + offset) mod proxies p))"

text \<open>The nonce manager of a wallet: the index of its shard, or the shared one.\<close>

definition nonce_shard :: "bool \<Rightarrow> nat \<Rightarrow> nat \<Rightarrow> nat option" where
  "nonce_shard per_wallet shards w = (if per_wallet \<and> shards \<noteq> 0 then Some (w mod shards) else None)"

subsection \<open>Tasks and their steps\<close>

text \<open>Where a task is: in \<open>try_acquire_client_fast\<close> (all \<open>Fast\<close> tasks hold a connection permit), in \<open>try_acquire_client_legacy\<close>, holding a
  lease (with or without permit), in \<open>release_immediate\<close>, or a spawned release.\<close>

datatype task =
    Acquire
  | FastCount
  | FastPick nat
  | FastCheck nat nat nat
  | FastLock nat nat nat
  | FastRemove nat nat
  | FastClient nat
  | FastUnlock nat
  | FastPush nat
  | Legacy
  | LegacyLock nat
  | LegacyClient nat
  | Lease nat bool
  | ImmediateUnlock nat bool
  | ImmediatePush nat bool
  | Release nat
  | Push nat

definition MAX_RETRIES :: nat where
  "MAX_RETRIES = 5"

text \<open>How the worker ends a lease. Both explicit ways take the lease by value, so its \<open>drop\<close> runs as well and spawns a release of its own.\<close>

datatype action = Internal | DropLease | ReleaseLease | ReleaseImmediate

definition drop_permit :: "bool \<Rightarrow> client_pool \<Rightarrow> client_pool" where
  "drop_permit h p = (if h then put_permit p else p)"

inductive task_step :: "action \<Rightarrow> client_pool \<Rightarrow> task \<Rightarrow> client_pool \<Rightarrow> task list \<Rightarrow> bool" where
  enter: "permits p > 0 \<Longrightarrow> task_step Internal p Acquire (p\<lparr>permits := permits p - 1\<rparr>) [FastCount]"
| enter_full: "permits p = 0 \<Longrightarrow> task_step Internal p Acquire p [Legacy]"
| count: "available_count p \<noteq> 0 \<Longrightarrow> task_step Internal p FastCount p [FastPick 0]"
| count_none: "available_count p = 0 \<Longrightarrow> task_step Internal p FastCount (put_permit p) [Legacy]"
| pick: "i < length (available_wallets p) \<Longrightarrow> task_step Internal p (FastPick r) p [FastCheck r (available_wallets p ! i) i]"
| pick_none: "available_wallets p = [] \<Longrightarrow> task_step Internal p (FastPick r) (put_permit p) [Legacy]"
| check: "check_proxy_cached now p \<Longrightarrow> task_step Internal p (FastCheck r w i) p [FastLock r w i]"
| check_retry: "\<not> check_proxy_cached now p \<Longrightarrow> r < MAX_RETRIES \<Longrightarrow> task_step Internal p (FastCheck r w i) p [FastPick (r + 1)]"
| check_stop: "\<not> check_proxy_cached now p \<Longrightarrow> \<not> r < MAX_RETRIES \<Longrightarrow> task_step Internal p (FastCheck r w i) (put_permit p) [Legacy]"
| lock: "lock_insert w p = Some p' \<Longrightarrow> task_step Internal p (FastLock r w i) p' [FastRemove w i]"
| lock_retry: "lock_insert w p = None \<Longrightarrow> r < MAX_RETRIES \<Longrightarrow> task_step Internal p (FastLock r w i) p [FastPick (r + 1)]"
| lock_stop: "lock_insert w p = None \<Longrightarrow> \<not> r < MAX_RETRIES \<Longrightarrow> task_step Internal p (FastLock r w i) (put_permit p) [Legacy]"
| remove: "task_step Internal p (FastRemove w i) (lock_remove w i p) [FastClient w]"
| client: "get_or_create_client now c w p = (Some used, p') \<Longrightarrow> task_step Internal p (FastClient w) p' [Lease w True]"
| client_error: "get_or_create_client now c w p = (None, p') \<Longrightarrow> task_step Internal p (FastClient w) p' [FastUnlock w]"
| fast_unlock: "task_step Internal p (FastUnlock w) (unlock_remove w p) [FastPush w]"
| fast_push: "task_step Internal p (FastPush w) (put_permit (unlock_push w p)) [Legacy]"
| legacy: "w \<in> set (legacy_available p) \<Longrightarrow> task_step Internal p Legacy p [LegacyLock w]"
| legacy_none: "legacy_available p = [] \<Longrightarrow> task_step Internal p Legacy p []"
| legacy_lock: "lock_insert w p = Some p' \<Longrightarrow> task_step Internal p (LegacyLock w) p' [LegacyClient w]"
| legacy_taken: "lock_insert w p = None \<Longrightarrow> task_step Internal p (LegacyLock w) p []"
| legacy_client: "get_or_create_client now c w p = (Some used, p') \<Longrightarrow> task_step Internal p (LegacyClient w) p' [Lease w False]"
| legacy_error: "get_or_create_client now c w p = (None, p') \<Longrightarrow> task_step Internal p (LegacyClient w) p' [Release w]"
| drop_lease: "task_step DropLease p (Lease w h) (drop_permit h p) [Release w]"
| release_lease: "task_step ReleaseLease p (Lease w h) (drop_permit h p) [Release w, Release w]"
| release_now: "task_step ReleaseImmediate p (Lease w h) p [ImmediateUnlock w h]"
| immediate_unlock: "task_step Internal p (ImmediateUnlock w h) (unlock_remove w p) [ImmediatePush w h]"
| immediate_push: "task_step Internal p (ImmediatePush w h) (drop_permit h (unlock_push w p)) [Release w]"
| release: "task_step Internal p (Release w) (unlock_remove w p) [Push w]"
| push: "task_step Internal p (Push w) (unlock_push w p) []"

text \<open>The system: the pool with the multiset of tasks. Workers can start at any time, and the health checks can change the ban list.\<close>

type_synonym system = "client_pool \<times> task multiset"

inductive system_step :: "action \<Rightarrow> system \<Rightarrow> system \<Rightarrow> bool" where
  task: "task_step a p t p' ts \<Longrightarrow> system_step a (p, add_mset t T) (p', T + mset ts)"
| worker: "system_step Internal (p, T) (p, add_mset Acquire T)"
| bans: "system_step Internal (p, T) (p\<lparr>proxy_banlist := b\<rparr>, T)"

inductive system_run :: "action list \<Rightarrow> system \<Rightarrow> system \<Rightarrow> bool" where
  stop: "system_run [] s s"
| step: "system_step a s s1 \<Longrightarrow> system_run as s1 s2 \<Longrightarrow> system_run (a # as) s s2"

inductive_simps system_run_simps [simp]: "system_run [] s s'" "system_run (a # as) s s'"


lemma system_run_append: "system_run as s s1 \<Longrightarrow> system_run bs s1 s2 \<Longrightarrow> system_run (as @ bs) s s2"
  by (induction rule: system_run.induct) auto

subsection \<open>Who holds a wallet\<close>

text \<open>The wallets that a task has locked and must unlock, and those that a task will put back into the list.\<close>

fun holds :: "task \<Rightarrow> nat multiset" where
  "holds (FastRemove w i) = {#w#}"
| "holds (FastClient w) = {#w#}"
| "holds (FastUnlock w) = {#w#}"
| "holds (LegacyClient w) = {#w#}"
| "holds (Lease w h) = {#w#}"
| "holds (Release w) = {#w#}"
| "holds t = {#}"


fun leased :: "task \<Rightarrow> nat multiset" where
  "leased (Lease w h) = {#w#}"
| "leased t = {#}"


lemma pool_views:
  "locked_wallets (put_permit p) = locked_wallets p" "available_wallets (put_permit p) = available_wallets p" "wallet_count (put_permit p) = wallet_count p"
  "locked_wallets (drop_permit h p) = locked_wallets p" "available_wallets (drop_permit h p) = available_wallets p" "wallet_count (drop_permit h p) = wallet_count p"
  "locked_wallets (lock_remove w i p) = locked_wallets p" "wallet_count (lock_remove w i p) = wallet_count p"
  "locked_wallets (unlock_remove w p) = locked_wallets p - {w}" "available_wallets (unlock_remove w p) = available_wallets p" "wallet_count (unlock_remove w p) = wallet_count p"
  "locked_wallets (unlock_push w p) = locked_wallets p" "available_wallets (unlock_push w p) = available_wallets p @ [w]" "wallet_count (unlock_push w p) = wallet_count p"
  by (auto simp: put_permit_def drop_permit_def lock_remove_def unlock_remove_def unlock_push_def Let_def)

lemma client_views:
  assumes "get_or_create_client now c w p = (r, p')"
  shows "locked_wallets p' = locked_wallets p" "available_wallets p' = available_wallets p" "wallet_count p' = wallet_count p"
  using assms by (auto simp: get_or_create_client_def next_proxy_def try_create_client_with_fallback_def ban_proxy_def Let_def
      split: option.splits if_splits prod.splits)

lemma lock_insert_Some: "lock_insert w p = Some p' \<longleftrightarrow> w \<notin> locked_wallets p \<and> p' = p\<lparr>locked_wallets := insert w (locked_wallets p)\<rparr>"
  by (auto simp: lock_insert_def)



lemma mset_set_take:
  assumes "finite A" "add_mset w X = mset_set A"
  shows "X = mset_set (A - {w})"
proof -
  have "w \<in># mset_set A" using assms(2) by (metis union_single_eq_member)
  then have "mset_set A = add_mset w (mset_set (A - {w}))" using assms(1) by (simp add: mset_set.remove)
  with assms(2) show ?thesis by (metis add_mset_add_mset_same_iff)
qed

text \<open>As long as leases are only dropped, every locked wallet is held by exactly one task.\<close>

fun immediate :: "task \<Rightarrow> bool" where
  "immediate (ImmediateUnlock w h) = True"
| "immediate (ImmediatePush w h) = True"
| "immediate t = False"

definition locks_held :: "system \<Rightarrow> bool" where
  "locks_held s = (case s of (p, T) \<Rightarrow> finite (locked_wallets p) \<and> \<Sum>\<^sub># (image_mset holds T) = mset_set (locked_wallets p) \<and>
     (\<forall>t. t \<in># T \<longrightarrow> \<not> immediate t))"

lemma task_locks:
  assumes "task_step a p t p' ts" "a \<in> {Internal, DropLease}" "finite (locked_wallets p)"
    "holds t + X = mset_set (locked_wallets p)" "\<not> immediate t"
  shows "finite (locked_wallets p') \<and> \<Sum>\<^sub># (image_mset holds (mset ts)) + X = mset_set (locked_wallets p') \<and> list_all (\<lambda>t. \<not> immediate t) ts"
  using assms by cases (auto simp: pool_views client_views lock_insert_Some intro: mset_set_take)

lemma step_locks:
  assumes "system_step a s s'" "a \<in> {Internal, DropLease}" "locks_held s"
  shows "locks_held s'"
  using assms(1)
proof cases
  case (task p t p' ts T)
  with assms task_locks [of a p t p' ts "\<Sum>\<^sub># (image_mset holds T)"] show ?thesis
    by (auto simp: locks_held_def list_all_iff add.commute)
qed (use assms in \<open>auto simp: locks_held_def\<close>)

lemma run_locks: "system_run as s s' \<Longrightarrow> set as \<subseteq> {Internal, DropLease} \<Longrightarrow> locks_held s \<Longrightarrow> locks_held s'"
  by (induction rule: system_run.induct) (auto intro: step_locks)

lemma leased_held: "leased t \<subseteq># holds t"
  by (cases t) auto

lemma leased_le: "\<Sum>\<^sub># (image_mset leased T) \<subseteq># \<Sum>\<^sub># (image_mset holds T)"
  by (induction T) (auto intro: subset_mset.add_mono leased_held)

text \<open>Runs of single tasks.\<close>

lemma task_one: "task_step a p t p' [t'] \<Longrightarrow> system_step a (p, add_mset t T) (p', add_mset t' T)"
  using task [of a p t p' "[t']" T] by simp

lemma task_none: "task_step a p t p' [] \<Longrightarrow> system_step a (p, add_mset t T) (p', T)"
  using task [of a p t p' "[]" T] by simp

lemma spawned_run: "system_run [Internal, Internal] (p, add_mset (Release w) T) (unlock_push w (unlock_remove w p), T)"
  by (rule system_run.step [OF task_one [OF release] system_run.step [OF task_none [OF push] system_run.stop]])

text \<open>An undisturbed acquisition on a pool without proxies.\<close>

definition fast_leased :: "nat \<Rightarrow> client_pool \<Rightarrow> client_pool" where
  "fast_leased i p = (let w = available_wallets p ! i; q = lock_remove w i (p\<lparr>permits := permits p - 1, locked_wallets := insert w (locked_wallets p)\<rparr>)
     in q\<lparr>clients := (clients q)(w \<mapsto> case clients q w of Some used \<Rightarrow> used | None \<Rightarrow> None)\<rparr>)"

lemma fast_acquire:
  assumes "permits p > 0" "i < length (available_wallets p)" "available_wallets p ! i \<notin> locked_wallets p" "proxies p = 0"
  shows "system_run (replicate 8 Internal) (p, T) (fast_leased i p, add_mset (Lease (available_wallets p ! i) True) T)"
proof -
  let ?w = "available_wallets p ! i" and ?p1 = "p\<lparr>permits := permits p - 1\<rparr>"
  let ?p2 = "p\<lparr>permits := permits p - 1, locked_wallets := insert ?w (locked_wallets p)\<rparr>" and ?c = "\<lparr>wallet_ok = True, proxy_http_ok = True, proxy_ok = True, direct_http_ok = True, direct_ok = True\<rparr>"
  let ?p3 = "lock_remove ?w i ?p2"
  have "proxies ?p3 = 0" using assms(4) by (simp add: lock_remove_def Let_def)
  then have client: "\<exists>used. get_or_create_client 0 ?c ?w ?p3 = (Some used, fast_leased i p)"
    by (auto simp: get_or_create_client_def next_proxy_def try_create_client_with_fallback_def direct_client_def fast_leased_def Let_def fun_upd_idem
        split: option.splits)
  have "system_run [Internal, Internal, Internal, Internal, Internal, Internal, Internal, Internal] (p, T) (fast_leased i p, add_mset (Lease ?w True) T)"
  proof (intro system_run.intros)
    show "system_step Internal (p, T) (p, add_mset Acquire T)" by (rule worker)
    show "system_step Internal (p, add_mset Acquire T) (?p1, add_mset FastCount T)" by (intro task_one enter assms)
    show "system_step Internal (?p1, add_mset FastCount T) (?p1, add_mset (FastPick 0) T)"
      using assms(2) by (intro task_one count) (auto simp: available_count_def)
    show "system_step Internal (?p1, add_mset (FastPick 0) T) (?p1, add_mset (FastCheck 0 ?w i) T)"
      using pick [of i ?p1 0] assms(2) by (auto intro: task_one)
    show "system_step Internal (?p1, add_mset (FastCheck 0 ?w i) T) (?p1, add_mset (FastLock 0 ?w i) T)"
      using assms(4) by (intro task_one check [where now = 0]) (simp add: check_proxy_cached_def)
    show "system_step Internal (?p1, add_mset (FastLock 0 ?w i) T) (?p2, add_mset (FastRemove ?w i) T)"
      using assms(3) by (intro task_one lock) (simp add: lock_insert_def)
    show "system_step Internal (?p2, add_mset (FastRemove ?w i) T) (?p3, add_mset (FastClient ?w) T)" by (intro task_one remove)
    show "system_step Internal (?p3, add_mset (FastClient ?w) T) (fast_leased i p, add_mset (Lease ?w True) T)"
      using client by (auto intro!: task_one intro: task_step.client)
  qed (rule system_run.stop)
  then show ?thesis by (simp add: numeral_eq_Suc)
qed


text \<open>C33. Leases are exclusive as long as they are only dropped: in every interleaving of workers that acquire and drop leases, with retries,
  fallbacks and failing connections, no wallet is leased to two workers at the same time.\<close>

theorem leases_exclusive:
  assumes "system_run as (new_pool n k, {#}) (p, T)" "set as \<subseteq> {Internal, DropLease}"
  shows "count (\<Sum>\<^sub># (image_mset leased T)) w \<le> 1"
proof -
  have "locks_held (p, T)" by (rule run_locks [OF assms]) (simp add: locks_held_def new_pool_def)
  then have "\<Sum>\<^sub># (image_mset leased T) \<subseteq># mset_set (locked_wallets p)" "finite (locked_wallets p)" using leased_le [of T] by (auto simp: locks_held_def)
  then have "count (\<Sum>\<^sub># (image_mset leased T)) w \<le> count (mset_set (locked_wallets p)) w" by (simp add: subseteq_mset_def)
  then show ?thesis by (simp add: count_mset_set' split: if_splits)
qed

theorem leases_exclusive_witness:
  "count (\<Sum>\<^sub># (image_mset leased {#Lease 1 True, Lease 0 True#})) 0 \<le> 1"
proof -
  have "system_run (replicate 8 Internal) (new_pool 2 3, {#}) (fast_leased 0 (new_pool 2 3), {#Lease 0 True#})"
    using fast_acquire [of "new_pool 2 3" 0 "{#}"] by (simp add: new_pool_def)
  moreover have "system_run (replicate 8 Internal) (fast_leased 0 (new_pool 2 3), {#Lease 0 True#})
      (fast_leased 0 (fast_leased 0 (new_pool 2 3)), {#Lease 1 True, Lease 0 True#})"
    using fast_acquire [of "fast_leased 0 (new_pool 2 3)" 0 "{#Lease 0 True#}"]
    by (simp add: new_pool_def fast_leased_def lock_remove_def swap_remove_def Let_def upt_rec)
  ultimately have "system_run (replicate 8 Internal @ replicate 8 Internal) (new_pool 2 3, {#})
      (fast_leased 0 (fast_leased 0 (new_pool 2 3)), {#Lease 1 True, Lease 0 True#})" by (rule system_run_append)
  from leases_exclusive [OF this] show ?thesis by simp
qed






subsection \<open>Explicit releases\<close>

text \<open>A worker acquires the only wallet and releases it at once; the release that its \<open>drop\<close> has spawned fires only after a second worker has got
  the wallet, and lets a third one in.\<close>

lemma release_run:
  "system_run [ReleaseImmediate, Internal, Internal] (p, add_mset (Lease w h) T)
     (drop_permit h (unlock_push w (unlock_remove w p)), add_mset (Release w) T)"
  by (rule system_run.step [OF task_one [OF release_now] system_run.step [OF task_one [OF immediate_unlock]
      system_run.step [OF task_one [OF immediate_push] system_run.stop]]])

text \<open>C34. An explicit release breaks the exclusion: \<open>release_immediate\<close> and \<open>release\<close> take the lease by value, so \<open>drop\<close> runs as well and
  spawns a second release of the same wallet. There is a run in which two workers hold leases of one wallet at the same time.\<close>

theorem explicit_release_breaks_exclusion:
  "\<exists>as p T. system_run as (new_pool 1 3, {#}) (p, T) \<and> \<Sum>\<^sub># (image_mset leased T) = {#0, 0#}"
proof -
  define p1 where "p1 = fast_leased 0 (new_pool 1 3)"
  define p2 where "p2 = put_permit (unlock_push 0 (unlock_remove 0 p1))"
  define p3 where "p3 = fast_leased 0 p2"
  define p4 where "p4 = unlock_push 0 (unlock_remove 0 p3)"
  note defs = p1_def p2_def p3_def p4_def fast_leased_def new_pool_def lock_remove_def unlock_push_def unlock_remove_def put_permit_def swap_remove_def Let_def
  have "system_run (replicate 8 Internal) (new_pool 1 3, {#}) (p1, {#Lease 0 True#})"
    using fast_acquire [of "new_pool 1 3" 0 "{#}"] by (simp add: p1_def new_pool_def)
  moreover have "system_run [ReleaseImmediate, Internal, Internal] (p1, {#Lease 0 True#}) (p2, {#Release 0#})"
    using release_run [of p1 0 True "{#}"] by (simp add: p2_def drop_permit_def)
  moreover have "system_run (replicate 8 Internal) (p2, {#Release 0#}) (p3, {#Lease 0 True, Release 0#})"
    using fast_acquire [of p2 0 "{#Release 0#}"] by (simp add: defs)
  moreover have "system_run [Internal, Internal] (p3, {#Lease 0 True, Release 0#}) (p4, {#Lease 0 True#})"
    using spawned_run [of p3 0 "{#Lease 0 True#}"] by (simp add: p4_def add_mset_commute)
  moreover have "system_run (replicate 8 Internal) (p4, {#Lease 0 True#}) (fast_leased 0 p4, {#Lease 0 True, Lease 0 True#})"
    using fast_acquire [of p4 0 "{#Lease 0 True#}"] by (simp add: defs)
  ultimately obtain as where "system_run as (new_pool 1 3, {#}) (fast_leased 0 p4, {#Lease 0 True, Lease 0 True#})"
    by (meson system_run_append)
  moreover have "\<Sum>\<^sub># (image_mset leased {#Lease 0 True, Lease 0 True#}) = {#0, 0#}" by simp
  ultimately show ?thesis by blast
qed

end
