(* ===== verification/Robust_Nonce.thy ===== *)
theory Robust_Nonce
  imports Proxy_Health "HOL-Library.Multiset"
begin

section \<open>The robust nonce manager\<close>

text \<open>
  The manager of \<open>robust_nonce_manager.rs\<close>, which hands out nonces to concurrent requests of the same wallet. The mutexes of a wallet are part of
  its state: a section that takes a mutex that is held does not return (\<open>Blocked\<close>), and leaves behind what it holds. The operations are
  interleaved as a whole; a reservation that is dropped spawns its release, which runs later.
\<close>

datatype nonce_state =
    Reserved instant
  | InFlight instant
  | Confirmed instant
  | Failed string

datatype mutex = RequestsLock | InFlightLock | FailedLock

datatype stuck = Blocked

text \<open>The atomics and the contents of the mutexes of a wallet. The hash map of requests is an association list, as it is enumerated.\<close>

record wallet_nonce_state =
  cached_nonce :: u64
  confirmed_nonce :: u64
  requests :: "(u64 \<times> u64 \<times> nonce_state) list"
  in_flight :: "u64 set"
  failed_nonces :: "u64 list"
  last_sync :: instant
  held :: "mutex set"

type_synonym 'a wal = "(wallet_nonce_state, stuck, 'a) pre"

definition new_wallet_state :: "instant \<Rightarrow> wallet_nonce_state" where
  "new_wallet_state now = \<lparr>cached_nonce = 0, confirmed_nonce = 0, requests = [], in_flight = {}, failed_nonces = [], last_sync = now, held = {}\<rparr>"

record nonce_config =
  reservation_timeout :: nat
  in_flight_timeout :: nat
  auto_sync_interval :: nat
  max_failed_cache :: nat

definition default_config :: nonce_config where
  "default_config = \<lparr>reservation_timeout = 30, in_flight_timeout = 120, auto_sync_interval = 60, max_failed_cache = 100\<rparr>"

record robust_nonce_manager =
  wallets :: "address \<rightharpoonup> wallet_nonce_state"
  global_request_id :: u64
  config :: nonce_config

type_synonym 'a mgr = "(robust_nonce_manager, stuck, 'a) pre"

definition new_manager :: robust_nonce_manager where
  "new_manager = \<lparr>wallets = (\<lambda>_. None), global_request_id = 1, config = default_config\<rparr>"

record reservation =
  request_id :: u64
  res_address :: address
  res_nonce :: u64

subsection \<open>Locks\<close>

definition lock :: "mutex \<Rightarrow> unit wal" where
  "lock l = ebind (egets held) (\<lambda>h. ebind (erequire (l \<notin> h) Blocked) (\<lambda>_. emodify (\<lambda>s. s\<lparr>held := insert l (held s)\<rparr>)))"

definition unlock :: "mutex \<Rightarrow> unit wal" where
  "unlock l = emodify (\<lambda>s. s\<lparr>held := held s - {l}\<rparr>)"

text \<open>A scope that owns a guard.\<close>

definition guarded :: "mutex \<Rightarrow> 'a wal \<Rightarrow> 'a wal" where
  "guarded l m = ebind (lock l) (\<lambda>_. ebind m (\<lambda>x. ebind (unlock l) (\<lambda>_. eret x)))"

text \<open>\<open>if let Some(state) = self.wallets.read().await.get(&address)\<close>.\<close>

definition with_wallet :: "address \<Rightarrow> unit wal \<Rightarrow> unit mgr" where
  "with_wallet a m r = (case wallets r a of
     None \<Rightarrow> (Inr (), r)
   | Some s \<Rightarrow> let (x, s') = m s in (x, r\<lparr>wallets := (wallets r)(a \<mapsto> s')\<rparr>))"

definition get_or_create_wallet :: "instant \<Rightarrow> address \<Rightarrow> robust_nonce_manager \<Rightarrow> wallet_nonce_state" where
  "get_or_create_wallet now a r = (case wallets r a of Some s \<Rightarrow> s | None \<Rightarrow> new_wallet_state now)"

text \<open>An operation on the state that \<open>get_or_create_wallet\<close> returns.\<close>

definition on_wallet :: "instant \<Rightarrow> address \<Rightarrow> 'a wal \<Rightarrow> 'a mgr" where
  "on_wallet now a m r = (let (x, s') = m (get_or_create_wallet now a r) in (x, r\<lparr>wallets := (wallets r)(a \<mapsto> s')\<rparr>))"

subsection \<open>Operations\<close>

definition take_nonce :: "u64 option wal" where
  "take_nonce = guarded FailedLock
     (ebind (egets failed_nonces) (\<lambda>failed.
      case failed of
        nonce # rest \<Rightarrow> ebind (emodify (\<lambda>s. s\<lparr>failed_nonces := rest\<rparr>)) (\<lambda>_. eret (Some nonce))
      | [] \<Rightarrow>
          ebind (egets cached_nonce) (\<lambda>cached.
          if cached = 0 then eret None
          else ebind (emodify (\<lambda>s. s\<lparr>cached_nonce := cached_nonce s + 1\<rparr>)) (\<lambda>_. eret (Some cached)))))"

text \<open>The entry of a request is set to a new state, keeping its request id, if there is one.\<close>

definition set_request :: "u64 \<Rightarrow> nonce_state \<Rightarrow> wallet_nonce_state \<Rightarrow> wallet_nonce_state" where
  "set_request nonce st s = (case map_of (requests s) nonce of
     None \<Rightarrow> s | Some (req_id, _) \<Rightarrow> s\<lparr>requests := AList.update nonce (req_id, st) (requests s)\<rparr>)"

definition track_request :: "u64 \<Rightarrow> u64 \<Rightarrow> nonce_state \<Rightarrow> unit wal" where
  "track_request nonce req_id st = guarded RequestsLock (emodify (\<lambda>s. s\<lparr>requests := AList.update nonce (req_id, st) (requests s)\<rparr>))"

definition next_request_id :: "u64 mgr" where
  "next_request_id = ebind (egets global_request_id) (\<lambda>i. ebind (emodify (\<lambda>r. r\<lparr>global_request_id := i + 1\<rparr>)) (\<lambda>_. eret i))"

definition reserve_nonce :: "instant \<Rightarrow> address \<Rightarrow> reservation option mgr" where
  "reserve_nonce now a =
     ebind (on_wallet now a take_nonce) (\<lambda>taken.
     case taken of
       None \<Rightarrow> eret None
     | Some nonce \<Rightarrow>
         ebind next_request_id (\<lambda>req_id.
         ebind (on_wallet now a (track_request nonce req_id (Reserved now))) (\<lambda>_.
         eret (Some \<lparr>request_id = req_id, res_address = a, res_nonce = nonce\<rparr>))))"

definition initialize_nonce :: "instant \<Rightarrow> address \<Rightarrow> u64 \<Rightarrow> unit mgr" where
  "initialize_nonce now a confirmed_count = on_wallet now a
     (ebind (egets cached_nonce) (\<lambda>current_cached.
      ebind (egets confirmed_nonce) (\<lambda>current_confirmed.
      if confirmed_count > current_cached \<or> confirmed_count > current_confirmed then
        emodify (\<lambda>s. s\<lparr>cached_nonce := confirmed_count, confirmed_nonce := saturating_sub confirmed_count 1, last_sync := now\<rparr>)
      else eret ())))"

definition mark_submitted :: "instant \<Rightarrow> address \<Rightarrow> u64 \<Rightarrow> unit mgr" where
  "mark_submitted now a nonce = with_wallet a (guarded RequestsLock
     (ebind (emodify (set_request nonce (InFlight now))) (\<lambda>_.
      guarded InFlightLock (emodify (\<lambda>s. s\<lparr>in_flight := insert nonce (in_flight s)\<rparr>)))))"

definition cleanup_confirmed :: "unit wal" where
  "cleanup_confirmed = ebind (egets confirmed_nonce) (\<lambda>confirmed.
     guarded RequestsLock (emodify (\<lambda>s. s\<lparr>requests := filter (\<lambda>(nonce, _). nonce \<ge> saturating_sub confirmed 50) (requests s)\<rparr>)))"

definition confirm_nonce :: "instant \<Rightarrow> address \<Rightarrow> u64 \<Rightarrow> unit mgr" where
  "confirm_nonce now a nonce = with_wallet a (guarded RequestsLock
     (ebind (emodify (set_request nonce (Confirmed now))) (\<lambda>_.
      ebind (guarded InFlightLock (emodify (\<lambda>s. s\<lparr>in_flight := in_flight s - {nonce}\<rparr>))) (\<lambda>_.
      ebind (emodify (\<lambda>s. if nonce > confirmed_nonce s then s\<lparr>confirmed_nonce := nonce\<rparr> else s)) (\<lambda>_.
      if nonce mod 10 = 0 then cleanup_confirmed else eret ())))))"

text \<open>The queue of reusable nonces is cut to its last \<open>max_failed_cache\<close> entries.\<close>

definition push_failed :: "nat \<Rightarrow> u64 \<Rightarrow> u64 list \<Rightarrow> u64 list" where
  "push_failed limit nonce failed = (if nonce \<in> set failed then failed else (let q = failed @ [nonce] in drop (length q - limit) q))"

definition mark_failed :: "address \<Rightarrow> u64 \<Rightarrow> string \<Rightarrow> bool \<Rightarrow> unit mgr" where
  "mark_failed a nonce error recycle = ebind (egets (\<lambda>r. max_failed_cache (config r))) (\<lambda>limit.
     with_wallet a (guarded RequestsLock
       (ebind (emodify (set_request nonce (Failed error))) (\<lambda>_.
        ebind (guarded InFlightLock (emodify (\<lambda>s. s\<lparr>in_flight := in_flight s - {nonce}\<rparr>))) (\<lambda>_.
        if recycle then guarded FailedLock (emodify (\<lambda>s. s\<lparr>failed_nonces := push_failed limit nonce (failed_nonces s)\<rparr>))
        else eret ())))))"

definition release_nonce :: "address \<Rightarrow> u64 \<Rightarrow> unit mgr" where
  "release_nonce a nonce = with_wallet a (guarded RequestsLock
     (ebind (emodify (\<lambda>s. s\<lparr>requests := AList.delete nonce (requests s)\<rparr>)) (\<lambda>_.
      guarded FailedLock (emodify (\<lambda>s. if nonce \<in> set (failed_nonces s) then s else s\<lparr>failed_nonces := failed_nonces s @ [nonce]\<rparr>)))))"

fun show_nat :: "nat \<Rightarrow> string" where
  "show_nat n = (if n < 10 then [char_of (48 + n)] else show_nat (n div 10) @ [char_of (48 + n mod 10)])"

declare show_nat.simps [simp del]

definition nonce_error_text :: "u64 \<Rightarrow> u64 \<Rightarrow> string" where
  "nonce_error_text attempted actual = ''nonce too low: attempted '' @ show_nat (unat attempted) @ '', actual next is '' @ show_nat (unat actual)"

text \<open>One stale nonce: its request fails, and it leaves the set of nonces in flight and, once, the queue of reusable ones.\<close>

definition invalidate :: "u64 \<Rightarrow> unit wal" where
  "invalidate stale = ebind (emodify (set_request stale (Failed ''Stale: superseded by chain state''))) (\<lambda>_.
     emodify (\<lambda>s. s\<lparr>in_flight := in_flight s - {stale}, failed_nonces := remove1 stale (failed_nonces s)\<rparr>))"

definition raise_cached :: "u64 \<Rightarrow> u64 \<Rightarrow> unit wal" where
  "raise_cached attempted actual =
     ebind (egets cached_nonce) (\<lambda>current_cached.
     if actual > current_cached then
       ebind (emodify (\<lambda>s. s\<lparr>cached_nonce := actual\<rparr>)) (\<lambda>_.
       guarded RequestsLock (guarded InFlightLock (guarded FailedLock
         (ebind (egets (\<lambda>s. filter (\<lambda>n. n < actual \<and> n \<noteq> attempted) (map fst (requests s)))) (\<lambda>stale_nonces.
          efor stale_nonces invalidate)))))
     else eret ())"

definition handle_nonce_error :: "address \<Rightarrow> u64 \<Rightarrow> u64 \<Rightarrow> unit mgr" where
  "handle_nonce_error a attempted_nonce actual_next_nonce =
     ebind (mark_failed a attempted_nonce (nonce_error_text attempted_nonce actual_next_nonce) False) (\<lambda>_.
     with_wallet a
       (ebind (raise_cached attempted_nonce actual_next_nonce) (\<lambda>_.
        emodify (\<lambda>s. s\<lparr>confirmed_nonce := saturating_sub actual_next_nonce 1\<rparr>))))"

definition peek_next_nonce :: "address \<Rightarrow> robust_nonce_manager \<Rightarrow> u64 option" where
  "peek_next_nonce a r = map_option cached_nonce (wallets r a)"

definition reset :: "address \<Rightarrow> unit mgr" where
  "reset a = emodify (\<lambda>r. r\<lparr>wallets := (wallets r)(a := None)\<rparr>)"

record nonce_stats =
  cached_next :: u64
  stat_confirmed :: u64
  stat_reserved :: nat
  stat_in_flight :: nat
  failed_cached :: nat
  total_tracked :: nat

fun is_reserved :: "nonce_state \<Rightarrow> bool" where
  "is_reserved (Reserved t) = True"
| "is_reserved _ = False"

definition get_stats :: "address \<Rightarrow> nonce_stats option mgr" where
  "get_stats a r = (case wallets r a of
     None \<Rightarrow> (Inr None, r)
   | Some s \<Rightarrow>
       let (x, s') = guarded RequestsLock (guarded InFlightLock (guarded FailedLock (egets (\<lambda>s. Some
          \<lparr>cached_next = cached_nonce s, stat_confirmed = confirmed_nonce s,
           stat_reserved = length (filter (\<lambda>(_, _, st). is_reserved st) (requests s)), stat_in_flight = card (in_flight s),
           failed_cached = length (failed_nonces s), total_tracked = length (requests s)\<rparr>)))) s
       in (x, r\<lparr>wallets := (wallets r)(a \<mapsto> s')\<rparr>))"


subsection \<open>Blocking\<close>

lemma guarded_blocks: "l \<in> held s \<Longrightarrow> guarded l m s = (Inl Blocked, s)"
  by (simp add: guarded_def lock_def run)

lemma guarded_run:
  "l \<notin> held s \<Longrightarrow> guarded l m s = (case m (s\<lparr>held := insert l (held s)\<rparr>) of (Inl e, s') \<Rightarrow> (Inl e, s') | (Inr x, s') \<Rightarrow> (Inr x, s'\<lparr>held := held s' - {l}\<rparr>))"
  by (auto simp: guarded_def lock_def unlock_def run split: prod.splits sum.splits)

lemma set_request_views [simp]:
  "held (set_request n st s) = held s" "cached_nonce (set_request n st s) = cached_nonce s" "failed_nonces (set_request n st s) = failed_nonces s"
  by (auto simp: set_request_def split: option.splits)



lemmas nonce_eval = run guarded_run guarded_blocks lock_def unlock_def on_wallet_def with_wallet_def get_or_create_wallet_def new_wallet_state_def new_manager_def
  default_config_def initialize_nonce_def reserve_nonce_def take_nonce_def next_request_id_def track_request_def mark_submitted_def set_request_def saturating_sub_def
  release_nonce_def



subsection \<open>Nonces that are handed out\<close>

text \<open>What the operations do to the counter and to the queue of reusable nonces.\<close>

abbreviation counters :: "wallet_nonce_state \<Rightarrow> u64 \<times> u64 list" where
  "counters s \<equiv> (cached_nonce s, failed_nonces s)"

lemma guarded_ok:
  "guarded l m s = (Inr x, s') \<longleftrightarrow> l \<notin> held s \<and> (\<exists>s1. m (s\<lparr>held := insert l (held s)\<rparr>) = (Inr x, s1) \<and> s' = s1\<lparr>held := held s1 - {l}\<rparr>)"
  by (auto simp: guarded_def lock_def unlock_def ok)

lemma counters_kept:
  "guarded l m s = (Inr x, s') \<Longrightarrow> (\<And>s s'. m s = (Inr x, s') \<Longrightarrow> counters s' = counters s) \<Longrightarrow> counters s' = counters s"
  by (fastforce simp: guarded_ok)

lemma take_nonce_counters:
  assumes "take_nonce s = (Inr v, s')"
  shows "case v of None \<Rightarrow> counters s' = counters s
    | Some n \<Rightarrow> (failed_nonces s = n # failed_nonces s' \<and> cached_nonce s' = cached_nonce s) \<or>
        (failed_nonces s = [] \<and> failed_nonces s' = [] \<and> cached_nonce s = n \<and> n \<noteq> 0 \<and> cached_nonce s' = n + 1)"
  using assms by (auto simp: take_nonce_def guarded_ok ok split: list.splits if_splits)

lemma invalidate_ok:
  "invalidate n s = (Inr u, s') \<Longrightarrow> cached_nonce s' = cached_nonce s \<and> failed_nonces s' = remove1 n (failed_nonces s)"
  by (auto simp: ok invalidate_def)

lemma invalidate_all:
  "efor ns invalidate s = (Inr u, s') \<Longrightarrow> cached_nonce s' = cached_nonce s \<and> mset (failed_nonces s') \<subseteq># mset (failed_nonces s)"
proof (induction ns arbitrary: s)
  case (Cons n ns)
  from Cons.prems obtain s1 where s1: "efor ns invalidate s1 = (Inr u, s')" "cached_nonce s1 = cached_nonce s" "failed_nonces s1 = remove1 n (failed_nonces s)"
    by (auto simp: ebind_ok dest!: invalidate_ok)
  have "mset (remove1 n (failed_nonces s)) \<subseteq># mset (failed_nonces s)" by simp
  with Cons.IH [OF s1(1)] s1(2,3) show ?case by (auto intro: subset_mset.order_trans)
qed (simp add: ok)

lemma raise_cached_counters:
  assumes "raise_cached n c s = (Inr u, s')"
  shows "cached_nonce s' = max (cached_nonce s) c \<and> mset (failed_nonces s') \<subseteq># mset (failed_nonces s)"
  using assms by (fastforce simp: raise_cached_def guarded_ok ok max_def split: if_splits dest!: invalidate_all)


text \<open>The nonces that are out: reserved or sent and not yet confirmed, failed or given back. A step is an operation on the manager, by the
  owner of a nonce where there is one; a dropped reservation gives its nonce back with the release that it has spawned. A wallet is initialised only as long
  as it has not been, and the chain reports nonces below half of the range.\<close>

definition fresh :: "address \<Rightarrow> robust_nonce_manager \<Rightarrow> bool" where
  "fresh a r = (case wallets r a of None \<Rightarrow> True | Some s \<Rightarrow> cached_nonce s = 0)"

inductive nonce_step :: "robust_nonce_manager \<times> (address \<times> u64) multiset \<Rightarrow> robust_nonce_manager \<times> (address \<times> u64) multiset \<Rightarrow> bool" where
  reserve: "reserve_nonce now a r = (Inr (Some v), r') \<Longrightarrow> nonce_step (r, N) (r', add_mset (a, res_nonce v) N)"
| reserve_none: "reserve_nonce now a r = (Inr None, r') \<Longrightarrow> nonce_step (r, N) (r', N)"
| init: "initialize_nonce now a c r = (Inr (), r') \<Longrightarrow> fresh a r \<Longrightarrow> unat c < 2 ^ 63 \<Longrightarrow> nonce_step (r, N) (r', N)"
| submit: "mark_submitted now a n r = (Inr (), r') \<Longrightarrow> (a, n) \<in># N \<Longrightarrow> nonce_step (r, N) (r', N)"
| confirm: "confirm_nonce now a n r = (Inr (), r') \<Longrightarrow> nonce_step (r, add_mset (a, n) N) (r', N)"
| fail: "mark_failed a n e recycle r = (Inr (), r') \<Longrightarrow> nonce_step (r, add_mset (a, n) N) (r', N)"
| release: "release_nonce a n r = (Inr (), r') \<Longrightarrow> nonce_step (r, add_mset (a, n) N) (r', N)"
| error: "handle_nonce_error a n c r = (Inr (), r') \<Longrightarrow> unat c < 2 ^ 63 \<Longrightarrow> nonce_step (r, add_mset (a, n) N) (r', N)"
| stats: "get_stats a r = (Inr x, r') \<Longrightarrow> nonce_step (r, N) (r', N)"

text \<open>The counter and the queue of a wallet with the nonces that are out: no nonce is in two places, and all are below the counter.\<close>

definition wallet_ok :: "nat \<Rightarrow> u64 \<times> u64 list \<Rightarrow> u64 multiset \<Rightarrow> bool" where
  "wallet_ok k cf N \<longleftrightarrow> unat (fst cf) < 2 ^ 63 + k + 1 \<and> (\<forall>n. count (mset (snd cf) + N) n \<le> 1) \<and> (\<forall>n. n \<in># mset (snd cf) + N \<longrightarrow> n < fst cf)"

definition out_of :: "address \<Rightarrow> (address \<times> u64) multiset \<Rightarrow> u64 multiset" where
  "out_of a N = image_mset snd (filter_mset (\<lambda>p. fst p = a) N)"

definition wallet_counters :: "address \<Rightarrow> robust_nonce_manager \<Rightarrow> u64 \<times> u64 list" where
  "wallet_counters a r = (case wallets r a of None \<Rightarrow> (0, []) | Some s \<Rightarrow> counters s)"

definition nonces_ok :: "nat \<Rightarrow> robust_nonce_manager \<times> (address \<times> u64) multiset \<Rightarrow> bool" where
  "nonces_ok k s = (\<forall>a. wallet_ok k (wallet_counters a (fst s)) (out_of a (snd s)))"

lemma out_of_simps [simp]: "out_of a (add_mset (b, n) N) = (if a = b then add_mset n (out_of a N) else out_of a N)" "out_of a {#} = {#}"
  by (auto simp: out_of_def)

lemma wallet_counters_update [simp]:
  "wallet_counters b (r\<lparr>wallets := (wallets r)(a \<mapsto> s)\<rparr>) = (if b = a then counters s else wallet_counters b r)"
  "wallet_counters b (r\<lparr>global_request_id := i\<rparr>) = wallet_counters b r"
  by (auto simp: wallet_counters_def)

lemma get_or_create_counters: "counters (get_or_create_wallet now a r) = wallet_counters a r"
  by (simp add: wallet_counters_def get_or_create_wallet_def new_wallet_state_def split: option.splits)

lemma on_wallet_ok:
  "on_wallet now a m r = (Inr x, r') \<longleftrightarrow> (\<exists>s'. m (get_or_create_wallet now a r) = (Inr x, s') \<and> r' = r\<lparr>wallets := (wallets r)(a \<mapsto> s')\<rparr>)"
  by (auto simp: on_wallet_def Let_def split: prod.splits)

lemma with_wallet_ok:
  "with_wallet a m r = (Inr u, r') \<longleftrightarrow> (wallets r a = None \<and> r' = r) \<or>
     (\<exists>s s'. wallets r a = Some s \<and> m s = (Inr (), s') \<and> r' = r\<lparr>wallets := (wallets r)(a \<mapsto> s')\<rparr>)"
  by (auto simp: with_wallet_def Let_def split: prod.splits option.splits)

text \<open>An operation that works on one wallet, by its effect on that wallet.\<close>

definition steps_to :: "address \<Rightarrow> robust_nonce_manager \<Rightarrow> u64 \<times> u64 list \<Rightarrow> robust_nonce_manager \<Rightarrow> bool" where
  "steps_to a r cf r' \<longleftrightarrow> wallet_counters a r' = cf \<and> (\<forall>b. b \<noteq> a \<longrightarrow> wallet_counters b r' = wallet_counters b r)"

lemma with_wallet_steps:
  assumes "with_wallet a m r = (Inr (), r')" "\<And>s s'. m s = (Inr (), s') \<Longrightarrow> P (counters s) (counters s')" "P (0, []) (0, [])"
  shows "\<exists>cf. P (wallet_counters a r) cf \<and> steps_to a r cf r'"
  using assms by (fastforce simp: with_wallet_ok steps_to_def wallet_counters_def)

lemma track_request_counters: "track_request n i st s = (Inr u, s') \<Longrightarrow> counters s' = counters s"
  by (auto simp: track_request_def guarded_ok emodify_ok)

lemma reserve_nonce_steps:
  assumes "reserve_nonce now a r = (Inr v, r')"
  shows "case v of None \<Rightarrow> steps_to a r (wallet_counters a r) r'
    | Some v \<Rightarrow> (\<exists>q. snd (wallet_counters a r) = res_nonce v # q \<and> steps_to a r (fst (wallet_counters a r), q) r') \<or>
        (wallet_counters a r = (res_nonce v, []) \<and> res_nonce v \<noteq> 0 \<and> steps_to a r (res_nonce v + 1, []) r')"
proof -
  let ?s = "get_or_create_wallet now a r"
  from assms obtain t s1 where t: "take_nonce ?s = (Inr t, s1)"
    and r: "(case t of None \<Rightarrow> eret None | Some nonce \<Rightarrow> ebind next_request_id (\<lambda>req_id. ebind (on_wallet now a (track_request nonce req_id (Reserved now)))
         (\<lambda>_. eret (Some \<lparr>request_id = req_id, res_address = a, res_nonce = nonce\<rparr>)))) (r\<lparr>wallets := (wallets r)(a \<mapsto> s1)\<rparr>) = (Inr v, r')"
    by (auto simp: reserve_nonce_def ebind_ok on_wallet_ok)
  note c = take_nonce_counters [OF t] get_or_create_counters [of now a r, symmetric]
  show ?thesis
  proof (cases t)
    case None
    with r c show ?thesis by (auto simp: eret_ok steps_to_def)
  next
    case (Some n)
    from r obtain i s2 where s2: "track_request n i (Reserved now) s1 = (Inr (), s2)" and v: "v = Some \<lparr>request_id = i, res_address = a, res_nonce = n\<rparr>"
      and r': "steps_to a r (counters s2) r'"
      by (auto simp: Some ebind_ok next_request_id_def egets_ok emodify_ok eret_ok on_wallet_ok get_or_create_wallet_def steps_to_def wallet_counters_def)
    with c track_request_counters [OF s2] show ?thesis by (auto simp: Some)
  qed
qed

lemma quiet_steps:
  "initialize_nonce now a c r = (Inr (), r') \<Longrightarrow> \<exists>c'. (c' = c \<or> c' = fst (wallet_counters a r)) \<and> steps_to a r (c', snd (wallet_counters a r)) r'"
  "mark_submitted now a n r = (Inr (), r') \<Longrightarrow> steps_to a r (wallet_counters a r) r'"
  "confirm_nonce now a n r = (Inr (), r') \<Longrightarrow> steps_to a r (wallet_counters a r) r'"
  "get_stats a r = (Inr x, r') \<Longrightarrow> steps_to a r (wallet_counters a r) r'"
  subgoal using get_or_create_counters [of now a r, symmetric] by (auto simp: initialize_nonce_def on_wallet_ok ok steps_to_def split: if_splits)
  subgoal unfolding mark_submitted_def by (drule with_wallet_steps [where P = "\<lambda>x y. y = x"]) (auto simp: guarded_ok ok)
  subgoal unfolding confirm_nonce_def by (drule with_wallet_steps [where P = "\<lambda>x y. y = x"]) (auto simp: guarded_ok ok cleanup_confirmed_def split: if_splits)
  subgoal by (auto simp: get_stats_def guarded_ok egets_ok steps_to_def wallet_counters_def Let_def split: option.splits prod.splits)
  done

lemma giving_steps:
  "mark_failed a n e recycle r = (Inr (), r') \<Longrightarrow> \<exists>f'. mset f' \<subseteq># add_mset n (mset (snd (wallet_counters a r))) \<and> steps_to a r (fst (wallet_counters a r), f') r'"
  "release_nonce a n r = (Inr (), r') \<Longrightarrow> \<exists>f'. mset f' \<subseteq># add_mset n (mset (snd (wallet_counters a r))) \<and> steps_to a r (fst (wallet_counters a r), f') r'"
  "handle_nonce_error a n c r = (Inr (), r') \<Longrightarrow> \<exists>f' c'. mset f' \<subseteq># mset (snd (wallet_counters a r)) \<and> (c' = fst (wallet_counters a r) \<or> c' = c) \<and>
     fst (wallet_counters a r) \<le> c' \<and> steps_to a r (c', f') r'"
proof -
  let ?P = "\<lambda>x y. fst y = fst x \<and> mset (snd y) \<subseteq># add_mset n (mset (snd x))"
  have pick: "\<exists>f'. mset f' \<subseteq># add_mset n (mset (snd (wallet_counters a r))) \<and> steps_to a r (fst (wallet_counters a r), f') r'"
    if "\<exists>cf. ?P (wallet_counters a r) cf \<and> steps_to a r cf r'" using that by (metis prod.collapse)
  have sub: "mset (push_failed l n f) \<subseteq># add_mset n (mset f)" for l f
  proof -
    have "mset (drop i q) \<subseteq># mset q" for i and q :: "u64 list" by (metis append_take_drop_id mset_append mset_subset_eq_add_right)
    from this [of "length (f @ [n]) - l" "f @ [n]"] show ?thesis by (simp add: push_failed_def Let_def)
  qed
  show "mark_failed a n e recycle r = (Inr (), r') \<Longrightarrow> \<exists>f'. mset f' \<subseteq># add_mset n (mset (snd (wallet_counters a r))) \<and> steps_to a r (fst (wallet_counters a r), f') r'"
    by (rule pick, rule with_wallet_steps [where P = ?P and a = a]) (auto simp: mark_failed_def guarded_ok ok sub split: if_splits)
  show "release_nonce a n r = (Inr (), r') \<Longrightarrow> \<exists>f'. mset f' \<subseteq># add_mset n (mset (snd (wallet_counters a r))) \<and> steps_to a r (fst (wallet_counters a r), f') r'"
    unfolding release_nonce_def by (rule pick, erule with_wallet_steps [where P = ?P]) (auto simp: guarded_ok ok split: if_splits)
  assume h: "handle_nonce_error a n c r = (Inr (), r')"
  show "\<exists>f' c'. mset f' \<subseteq># mset (snd (wallet_counters a r)) \<and> (c' = fst (wallet_counters a r) \<or> c' = c) \<and>
     fst (wallet_counters a r) \<le> c' \<and> steps_to a r (c', f') r'"
  proof -
    from h obtain r1 e where e: "mark_failed a n e False r = (Inr (), r1)"
      and r1: "with_wallet a (ebind (raise_cached n c) (\<lambda>_. emodify (\<lambda>s. s\<lparr>confirmed_nonce := saturating_sub c 1\<rparr>))) r1 = (Inr (), r')"
      by (auto simp: handle_nonce_error_def ebind_ok)
    have "\<exists>cf. cf = wallet_counters a r \<and> steps_to a r cf r1"
      by (rule with_wallet_steps [where P = "\<lambda>x y. y = x"]) (use e in \<open>auto simp: mark_failed_def guarded_ok ok\<close>)
    moreover have "\<exists>cf. ((fst cf = fst (wallet_counters a r1) \<or> fst cf = max (fst (wallet_counters a r1)) c) \<and>
        mset (snd cf) \<subseteq># mset (snd (wallet_counters a r1))) \<and> steps_to a r1 cf r'"
      by (rule with_wallet_steps [OF r1, where P = "\<lambda>x y. (fst y = fst x \<or> fst y = max (fst x) c) \<and> mset (snd y) \<subseteq># mset (snd x)"])
        (auto simp: ok dest!: raise_cached_counters)
    ultimately obtain cf where cf: "fst cf = fst (wallet_counters a r) \<or> fst cf = max (fst (wallet_counters a r)) c"
      "mset (snd cf) \<subseteq># mset (snd (wallet_counters a r))" "steps_to a r cf r'" by (auto simp: steps_to_def)
    then show ?thesis by (intro exI [of _ "snd cf"] exI [of _ "fst cf"]) (auto simp: max_def split: if_splits)
  qed
qed

lemma wallet_ok_le:
  assumes "wallet_ok k cf N" "mset (snd cf') + N' \<subseteq># mset (snd cf) + N" "fst cf \<le> fst cf'" "unat (fst cf') < 2 ^ 63 + k' + 1"
  shows "wallet_ok k' cf' N'"
proof -
  have "count (mset (snd cf') + N') n \<le> 1" for n
    using mset_subset_eq_count [OF assms(2), of n] assms(1) unfolding wallet_ok_def by (meson order.trans)
  moreover have "n < fst cf'" if "n \<in># mset (snd cf') + N'" for n
  proof -
    have "n < fst cf" using mset_subset_eqD [OF assms(2) that] assms(1) unfolding wallet_ok_def by blast
    with assms(3) show ?thesis by order
  qed
  ultimately show ?thesis using assms(4) unfolding wallet_ok_def by blast
qed

lemma nonces_ok_step:
  assumes "nonces_ok k (r, N)" "steps_to a r cf r'" "\<And>b. b \<noteq> a \<Longrightarrow> out_of b N' = out_of b N" "wallet_ok (Suc k) cf (out_of a N')"
  shows "nonces_ok (Suc k) (r', N')"
  unfolding nonces_ok_def fst_conv snd_conv
proof
  fix b
  show "wallet_ok (Suc k) (wallet_counters b r') (out_of b N')"
  proof (cases "b = a")
    case True
    with assms(2,4) show ?thesis by (simp add: steps_to_def)
  next
    case False
    with assms(1-3) have "wallet_ok k (wallet_counters b r') (out_of b N')" by (simp add: nonces_ok_def steps_to_def)
    then show ?thesis by (rule wallet_ok_le) (use \<open>wallet_ok k (wallet_counters b r') (out_of b N')\<close> in \<open>simp_all add: wallet_ok_def\<close>)
  qed
qed

lemma wallet_ok_take:
  assumes "wallet_ok k (n, []) N" "k < 2 ^ 62"
  shows "wallet_ok (Suc k) (n + 1, []) (add_mset n N)"
proof -
  have n: "unat (n + 1) = unat n + 1" using assms by (simp add: wallet_ok_def unat_word_ariths)
  have less: "m < n" if "m \<in># N" for m using assms(1) that by (simp add: wallet_ok_def)
  then have "n \<notin># N" by blast
  moreover have "m < n + 1" if "m = n \<or> m \<in># N" for m using that less [of m] n by (auto simp: word_less_nat_alt)
  ultimately show ?thesis using assms(1) n by (auto simp: wallet_ok_def not_in_iff)
qed

lemma nonces_ok_giving:
  assumes "nonces_ok k (r, N)" "steps_to a r cf r'" "\<And>b. b \<noteq> a \<Longrightarrow> out_of b N' = out_of b N"
    and "mset (snd cf) + out_of a N' \<subseteq># mset (snd (wallet_counters a r)) + out_of a N" "fst (wallet_counters a r) \<le> fst cf"
    and "fst cf = fst (wallet_counters a r) \<or> unat (fst cf) < 2 ^ 63"
  shows "nonces_ok (Suc k) (r', N')"
proof (rule nonces_ok_step [OF assms(1-3)])
  have ok: "wallet_ok k (wallet_counters a r) (out_of a N)" using assms(1) by (simp add: nonces_ok_def)
  show "wallet_ok (Suc k) cf (out_of a N')"
    by (rule wallet_ok_le [OF ok assms(4,5)]) (use ok assms(6) in \<open>auto simp: wallet_ok_def\<close>)
qed

lemma nonce_step_ok:
  assumes "nonce_step s s'" "nonces_ok k s" "k < 2 ^ 62"
  shows "nonces_ok (Suc k) s'"
  using assms(1)
proof cases
  case (reserve now a r v r' N)
  let ?c = "wallet_counters a r"
  have ok: "nonces_ok k (r, N)" "wallet_ok k ?c (out_of a N)" using assms(2) by (simp_all add: reserve nonces_ok_def)
  from reserve_nonce_steps [OF reserve(3)]
  consider q where "snd ?c = res_nonce v # q" "steps_to a r (fst ?c, q) r'" | "?c = (res_nonce v, [])" "steps_to a r (res_nonce v + 1, []) r'" by auto
  then show ?thesis
  proof cases
    case 1
    then show ?thesis unfolding reserve by (intro nonces_ok_giving [OF ok(1) 1(2)]) auto
  next
    case 2
    then show ?thesis unfolding reserve
      by (intro nonces_ok_step [OF ok(1) 2(2)]) (use wallet_ok_take [of k "res_nonce v" "out_of a N"] ok(2) assms(3) in auto)
  qed
next
  case (reserve_none now a r r' N)
  with assms(2) reserve_nonce_steps [OF reserve_none(3)] show ?thesis by (auto intro: nonces_ok_giving)
next
  case (init now a c r r' N)
  have "fst (wallet_counters a r) = 0" using init(4) by (simp add: fresh_def wallet_counters_def split: option.splits)
  with assms(2) quiet_steps(1) [OF init(3)] init show ?thesis by (auto intro: nonces_ok_giving)
next
  case (submit now a n r r' N)
  with assms(2) quiet_steps(2) [OF submit(3)] show ?thesis by (auto intro: nonces_ok_giving)
next
  case (confirm now a n r r' N)
  with assms(2) quiet_steps(3) [OF confirm(3)] show ?thesis by (auto intro!: nonces_ok_giving)
next
  case (fail a n e recycle r r' N)
  from giving_steps(1) [OF fail(3)] obtain f where f: "mset f \<subseteq># add_mset n (mset (snd (wallet_counters a r)))" "steps_to a r (fst (wallet_counters a r), f) r'" by blast
  show ?thesis unfolding fail by (rule nonces_ok_giving [OF assms(2) [unfolded fail] f(2)]) (use f(1) subset_mset.add_right_mono [OF f(1), of "out_of a N"] in auto)
next
  case (release a n r r' N)
  from giving_steps(2) [OF release(3)] obtain f where f: "mset f \<subseteq># add_mset n (mset (snd (wallet_counters a r)))" "steps_to a r (fst (wallet_counters a r), f) r'" by blast
  show ?thesis unfolding release by (rule nonces_ok_giving [OF assms(2) [unfolded release] f(2)]) (use f(1) subset_mset.add_right_mono [OF f(1), of "out_of a N"] in auto)
next
  case (error a n c r r' N)
  from giving_steps(3) [OF error(3)] obtain f c' where f: "mset f \<subseteq># mset (snd (wallet_counters a r))" "c' = fst (wallet_counters a r) \<or> c' = c"
    "fst (wallet_counters a r) \<le> c'" "steps_to a r (c', f) r'" by blast
  have "mset f + out_of a N \<subseteq># mset (snd (wallet_counters a r)) + add_mset n (out_of a N)" using f(1) by (intro subset_mset.add_mono) auto
  then show ?thesis unfolding error by (intro nonces_ok_giving [OF assms(2) [unfolded error] f(4)]) (use f error(4) in auto)
next
  case (stats a r x r' N)
  with assms(2) quiet_steps(4) [OF stats(3)] show ?thesis by (auto intro: nonces_ok_giving)
qed

text \<open>C36. Reserved nonces are unique: in every sequence of operations on the manager in which each nonce is confirmed, failed or given back once by its
  owner and wallets are initialised only when they have not been, no nonce of a wallet is out twice, and none that is out waits for reuse.\<close>

theorem reserved_nonces_unique:
  assumes "(nonce_step ^^ k) (new_manager, {#}) (r, N)" "k < 2 ^ 62"
  shows "count N (a, n) \<le> 1 \<and> ((a, n) \<in># N \<longrightarrow> n \<notin> set (snd (wallet_counters a r)))"
proof -
  have "nonces_ok k (r, N)" using assms
  proof (induction k arbitrary: r N)
    case 0
    then show ?case by (auto simp: nonces_ok_def wallet_ok_def wallet_counters_def new_manager_def)
  next
    case (Suc k)
    from Suc.prems(1) obtain s where s: "(nonce_step ^^ k) (new_manager, {#}) s" "nonce_step s (r, N)" by auto
    obtain r1 N1 where r1: "s = (r1, N1)" by (cases s)
    from Suc.IH [of r1 N1] s Suc.prems(2) have "nonces_ok k s" by (simp add: r1)
    from nonce_step_ok [OF s(2) this] Suc.prems(2) show ?case by simp
  qed
  then have c: "count (mset (snd (wallet_counters a r)) + out_of a N) n \<le> 1" by (simp add: nonces_ok_def wallet_ok_def)
  have "count (out_of a N) n = count N (a, n)"
    unfolding out_of_def by (induction N) auto
  with c have le: "count (mset (snd (wallet_counters a r))) n + count N (a, n) \<le> 1" by simp
  then have "n \<notin> set (snd (wallet_counters a r))" if "(a, n) \<in># N"
  proof -
    from that have "count N (a, n) \<ge> 1" by (simp add: Suc_leI)
    with le have "count (mset (snd (wallet_counters a r))) n = 0" by linarith
    then show ?thesis by (simp add: count_mset_0_iff)
  qed
  with le show ?thesis by simp
qed

lemma first_reservation:
  "fst (initialize_nonce 0 7 5 new_manager) = Inr ()"
  "fst (reserve_nonce 0 7 (snd (initialize_nonce 0 7 5 new_manager))) = Inr (Some \<lparr>request_id = 1, res_address = 7, res_nonce = 5\<rparr>)"
  by (simp_all add: nonce_eval)

theorem reserved_nonces_unique_witness:
  "count {#(7, 5)#} (7, 5) \<le> 1 \<and> 5 \<notin> set (snd (wallet_counters 7 (snd (reserve_nonce 0 7 (snd (initialize_nonce 0 7 5 new_manager))))))"
proof -
  let ?r1 = "snd (initialize_nonce 0 7 5 new_manager)" and ?r2 = "snd (reserve_nonce 0 7 (snd (initialize_nonce 0 7 5 new_manager)))"
  have "initialize_nonce 0 7 5 new_manager = (Inr (), ?r1)" by (metis first_reservation(1) prod.collapse)
  then have "nonce_step (new_manager, {#}) (?r1, {#})" by (rule init) (simp_all add: fresh_def new_manager_def)
  moreover have "reserve_nonce 0 7 ?r1 = (Inr (Some \<lparr>request_id = 1, res_address = 7, res_nonce = 5\<rparr>), ?r2)"
    by (metis first_reservation(2) prod.collapse)
  then have "nonce_step (?r1, {#}) (?r2, {#(7, 5)#})" using reserve by fastforce
  ultimately have "(nonce_step ^^ 2) (new_manager, {#}) (?r2, {#(7, 5)#})" by (auto simp: numeral_2_eq_2)
  from reserved_nonces_unique [OF this, of 7 5] show ?thesis by simp
qed

subsection \<open>Nonces that are handed out twice\<close>

text \<open>\<open>initialize_nonce\<close> can set the counter back: it stores the transaction count whenever that is above the confirmed nonce, also when it is below the
  counter, so the next reservation repeats a nonce that is still in flight.\<close>

theorem initialize_repeats_nonce:
  assumes "wallets r a = Some s" "held s = {}" "failed_nonces s = []" "confirmed_nonce s < c" "c \<le> cached_nonce s"
  shows "\<exists>v r'. reserve_nonce t a (snd (initialize_nonce t a c r)) = (Inr (Some v), r') \<and> res_nonce v = c"
proof -
  have "c \<noteq> 0" using assms(4) by auto
  with assms show ?thesis by (simp add: nonce_eval)
qed

text \<open>Two tasks find the wallet uninitialised, both fetch the count 5 and initialise it: the first reserves 5 and sends it, and the second gets 5 again.\<close>

theorem initialize_repeats_nonce_witness:
  "\<exists>v r'. reserve_nonce 1 7 (snd (initialize_nonce 1 7 5 (snd (mark_submitted 1 7 5 (snd (reserve_nonce 0 7 (snd (initialize_nonce 0 7 5 new_manager)))))))) = (Inr (Some v), r') \<and>
    res_nonce v = 5"
proof -
  let ?r = "snd (mark_submitted 1 7 5 (snd (reserve_nonce 0 7 (snd (initialize_nonce 0 7 5 new_manager)))))"
  have "\<exists>s. wallets ?r 7 = Some s \<and> held s = {} \<and> failed_nonces s = [] \<and> confirmed_nonce s = 4 \<and> cached_nonce s = 6" by (simp add: nonce_eval)
  then obtain s where s: "wallets ?r 7 = Some s" "held s = {}" "failed_nonces s = []" "confirmed_nonce s = 4" "cached_nonce s = 6" by blast
  show ?thesis by (rule initialize_repeats_nonce [OF s(1-3)]) (simp_all add: s)
qed

text \<open>An explicit \<open>release\<close> gives the nonce back twice: it takes the reservation by value, so \<open>drop\<close> runs as well and spawns a second release. When
  that one runs after the nonce has been reserved again, the nonce is handed out a second time although its owner still has it.\<close>

theorem explicit_release_repeats_nonce:
  "\<exists>v w r1 r2. reserve_nonce 1 7 (snd (release_nonce 7 5 (snd (reserve_nonce 0 7 (snd (initialize_nonce 0 7 5 new_manager)))))) = (Inr (Some v), r1) \<and>
    reserve_nonce 2 7 (snd (release_nonce 7 5 r1)) = (Inr (Some w), r2) \<and> res_nonce v = 5 \<and> res_nonce w = 5"
  by (simp add: nonce_eval)

end
