(* ===== verification/Resilience.thy ===== *)
theory Resilience
  imports Proxy_Health "HOL-Library.Sublist"
begin

section \<open>Rate limits, endpoints, retries and the circuit breaker\<close>

text \<open>
  The utilities of \<open>core-logic\<close> that the spammers share: \<open>utils/rate_limiter.rs\<close>, \<open>utils/rpc_manager.rs\<close> and \<open>utils/retry.rs\<close>, with the
  retry loops of the spammer's own \<open>utils/retry.rs\<close>. Clock readings, in nanoseconds, are arguments. Atomics are plain fields; the
  compare-and-exchange loops are modelled without contention, where they succeed in the first round. The backoff delays, which are
  floating-point numbers with random jitter, do not influence any result and are left out.
\<close>

subsection \<open>Token buckets\<close>

record token_bucket =
  tokens :: u64
  capacity :: u64
  refill_rate :: u64
  last_refill :: u64

text \<open>\<open>Instant::now().elapsed().as_millis() as u64\<close> reads the clock twice: for the new instant and for the time elapsed since.\<close>

type_synonym readings = "instant \<times> instant"

definition now_ms :: "readings \<Rightarrow> u64" where
  "now_ms c = of_nat ((snd c - fst c) div 1000000)"

definition new_bucket :: "readings \<Rightarrow> u64 \<Rightarrow> u64 \<Rightarrow> token_bucket" where
  "new_bucket c cap rate = \<lparr>tokens = cap, capacity = cap, refill_rate = rate, last_refill = now_ms c\<rparr>"

definition refill :: "readings \<Rightarrow> token_bucket \<Rightarrow> token_bucket" where
  "refill c b =
     (let now = now_ms c; elapsed = saturating_sub now (last_refill b) in
      if elapsed > 0 then
        let added = (elapsed * refill_rate b) div 1000; new_tokens = min (tokens b + added) (capacity b)
        in b\<lparr>tokens := new_tokens, last_refill := now\<rparr>
      else b)"

definition try_acquire :: "readings \<Rightarrow> u64 \<Rightarrow> token_bucket \<Rightarrow> bool \<times> token_bucket" where
  "try_acquire c cost b = (let b = refill c b in
     if tokens b \<ge> cost then (True, b\<lparr>tokens := tokens b - cost\<rparr>) else (False, b))"

definition available :: "readings \<Rightarrow> token_bucket \<Rightarrow> u64 \<times> token_bucket" where
  "available c b = (let b = refill c b in (tokens b, b))"

subsection \<open>The limiter\<close>

record rate_config =
  tps :: u32
  burst_multiplier :: u32
  backoff_factor :: u32
  max_backoff_ms :: u64

definition default_rate_config :: rate_config where
  "default_rate_config = \<lparr>tps = 10, burst_multiplier = 2, backoff_factor = 2, max_backoff_ms = 30000\<rparr>"

record rate_limiter =
  buckets :: "(string \<times> token_bucket) list"
  global_bucket :: token_bucket
  rate_config :: rate_config
  backoff_ms :: "string \<rightharpoonup> u64"

definition config_capacity :: "rate_config \<Rightarrow> u64" where
  "config_capacity cfg = ucast (tps cfg) * ucast (burst_multiplier cfg)"

definition with_config :: "readings \<Rightarrow> rate_config \<Rightarrow> rate_limiter" where
  "with_config c cfg = \<lparr>buckets = [], global_bucket = new_bucket c (config_capacity cfg) (ucast (tps cfg)), rate_config = cfg, backoff_ms = (\<lambda>_. None)\<rparr>"

definition new_limiter :: "readings \<Rightarrow> u32 \<Rightarrow> rate_limiter" where
  "new_limiter c t = \<lparr>buckets = [], global_bucket = new_bucket c (ucast t * 2) (ucast t), rate_config = default_rate_config\<lparr>tps := t\<rparr>, backoff_ms = (\<lambda>_. None)\<rparr>"

definition get_or_create_bucket :: "readings \<Rightarrow> string \<Rightarrow> rate_limiter \<Rightarrow> token_bucket" where
  "get_or_create_bucket c wallet_id l = (case map_of (buckets l) wallet_id of
     Some b \<Rightarrow> b | None \<Rightarrow> new_bucket c (config_capacity (rate_config l)) (ucast (tps (rate_config l))))"

text \<open>\<open>acquire\<close> waits for a pending backoff first, which clears it; the global bucket is tried only when the bucket of the wallet has granted.\<close>

definition acquire :: "readings \<Rightarrow> readings \<Rightarrow> readings \<Rightarrow> string \<Rightarrow> rate_limiter \<Rightarrow> bool \<times> rate_limiter" where
  "acquire c0 c1 c2 wallet_id l =
     (let l = (case backoff_ms l wallet_id of Some b \<Rightarrow> if b > 0 then l\<lparr>backoff_ms := (backoff_ms l)(wallet_id := None)\<rparr> else l | None \<Rightarrow> l);
        (ok, b) = try_acquire c1 1 (get_or_create_bucket c0 wallet_id l);
        l = l\<lparr>buckets := AList.update wallet_id b (buckets l)\<rparr>
      in if ok then let (ok, g) = try_acquire c2 1 (global_bucket l) in (ok, l\<lparr>global_bucket := g\<rparr>) else (False, l))"

definition on_429 :: "string \<Rightarrow> rate_limiter \<Rightarrow> rate_limiter" where
  "on_429 wallet_id l =
     (let current = (case backoff_ms l wallet_id of Some b \<Rightarrow> b | None \<Rightarrow> 100);
        new_backoff = min (current * ucast (backoff_factor (rate_config l))) (max_backoff_ms (rate_config l))
      in l\<lparr>backoff_ms := (backoff_ms l)(wallet_id \<mapsto> new_backoff)\<rparr>)"

definition on_success :: "string \<Rightarrow> rate_limiter \<Rightarrow> rate_limiter" where
  "on_success wallet_id l = l\<lparr>backoff_ms := (backoff_ms l)(wallet_id := None)\<rparr>"

definition set_tps :: "readings \<Rightarrow> u32 \<Rightarrow> rate_limiter \<Rightarrow> rate_limiter" where
  "set_tps c t l = (let cfg = (rate_config l)\<lparr>tps := t\<rparr> in
     l\<lparr>rate_config := cfg, global_bucket := new_bucket c (config_capacity cfg) (ucast t)\<rparr>)"








subsection \<open>Endpoints\<close>

record rpc_endpoint =
  ep_url :: string
  ep_chain_id :: u64
  last_latency_ms :: u64
  failure_count :: u64
  healthy :: bool

record rpc_manager =
  rpc_chain_id :: u64
  endpoints :: "rpc_endpoint list"
  current_index :: u64

definition new_endpoint :: "string \<Rightarrow> u64 \<Rightarrow> rpc_endpoint" where
  "new_endpoint url chain = \<lparr>ep_url = url, ep_chain_id = chain, last_latency_ms = 0, failure_count = 0, healthy = True\<rparr>"

definition new_rpc_manager :: "u64 \<Rightarrow> string list \<Rightarrow> rpc_manager" where
  "new_rpc_manager chain urls = \<lparr>rpc_chain_id = chain, endpoints = map (\<lambda>url. new_endpoint url chain) urls, current_index = 0\<rparr>"

text \<open>Round robin. The remainder by zero panics when there is no endpoint, after the counter was advanced.\<close>

definition get_endpoint :: "rpc_manager \<Rightarrow> rpc_endpoint option \<times> rpc_manager" where
  "get_endpoint m =
     (let idx = unat (current_index m); m = m\<lparr>current_index := current_index m + 1\<rparr>; n = length (endpoints m)
      in (if n = 0 then None else Some (endpoints m ! (idx mod n)), m))"

text \<open>\<open>Iterator::min_by_key\<close> returns the first of the minimal elements.\<close>

fun min_by_key :: "('a \<Rightarrow> u64) \<Rightarrow> 'a list \<Rightarrow> 'a option" where
  "min_by_key f [] = None"
| "min_by_key f (x # xs) = (case min_by_key f xs of None \<Rightarrow> Some x | Some y \<Rightarrow> Some (if f x \<le> f y then x else y))"

definition get_fastest :: "rpc_manager \<Rightarrow> rpc_endpoint option" where
  "get_fastest m = min_by_key last_latency_ms (filter healthy (endpoints m))"

definition get_most_reliable :: "rpc_manager \<Rightarrow> rpc_endpoint option" where
  "get_most_reliable m = min_by_key failure_count (filter healthy (endpoints m))"

definition healthy_count :: "rpc_manager \<Rightarrow> nat" where
  "healthy_count m = length (filter healthy (endpoints m))"

text \<open>The loops over the endpoints update the first one with the URL.\<close>

fun update_first :: "string \<Rightarrow> (rpc_endpoint \<Rightarrow> rpc_endpoint) \<Rightarrow> rpc_endpoint list \<Rightarrow> rpc_endpoint list" where
  "update_first url f [] = []"
| "update_first url f (e # es) = (if ep_url e = url then f e # es else e # update_first url f es)"

definition record_success :: "string \<Rightarrow> rpc_manager \<Rightarrow> rpc_manager" where
  "record_success url m = m\<lparr>endpoints := update_first url (\<lambda>e. e\<lparr>failure_count := 0, healthy := True\<rparr>) (endpoints m)\<rparr>"

definition record_failure :: "string \<Rightarrow> rpc_manager \<Rightarrow> rpc_manager" where
  "record_failure url m = m\<lparr>endpoints := update_first url
     (\<lambda>e. let failures = failure_count e + 1 in e\<lparr>failure_count := failures, healthy := (if failures \<ge> 3 then False else healthy e)\<rparr>) (endpoints m)\<rparr>"

definition record_latency :: "string \<Rightarrow> u64 \<Rightarrow> rpc_manager \<Rightarrow> rpc_manager" where
  "record_latency url ms m = m\<lparr>endpoints := update_first url (\<lambda>e. e\<lparr>last_latency_ms := ms\<rparr>) (endpoints m)\<rparr>"

definition update_health :: "string \<Rightarrow> bool \<Rightarrow> u64 \<Rightarrow> rpc_manager \<Rightarrow> rpc_manager" where
  "update_health url h ms m = m\<lparr>endpoints := update_first url
     (\<lambda>e. e\<lparr>last_latency_ms := ms, healthy := h, failure_count := (if h then 0 else failure_count e + 1)\<rparr>) (endpoints m)\<rparr>"

lemma min_by_key_None: "min_by_key f xs = None \<longleftrightarrow> xs = []"
  by (cases xs) (auto split: option.splits)

lemma min_by_key_Some:
  "min_by_key f xs = Some y \<Longrightarrow> y \<in> set xs \<and> (\<forall>x\<in>set xs. f y \<le> f x)"
proof (induction xs arbitrary: y)
  case (Cons x xs)
  show ?case
  proof (cases "min_by_key f xs")
    case None
    with Cons.prems show ?thesis by (simp add: min_by_key_None)
  next
    case (Some z)
    with Cons.prems Cons.IH [OF Some] show ?thesis by (auto split: if_splits intro: order.trans less_imp_le)
  qed
qed simp

text \<open>The endpoints that the two selectors return are healthy and minimal, and they return one as long as any is healthy.\<close>

lemma get_fastest_minimal:
  "get_fastest m = Some e \<Longrightarrow> healthy e \<and> e \<in> set (endpoints m) \<and> (\<forall>x\<in>set (endpoints m). healthy x \<longrightarrow> last_latency_ms e \<le> last_latency_ms x)"
  "get_fastest m = None \<longleftrightarrow> healthy_count m = 0"
  using min_by_key_Some [of last_latency_ms "filter healthy (endpoints m)" e]
  by (simp add: get_fastest_def) (simp add: get_fastest_def min_by_key_None healthy_count_def)

subsection \<open>Retries\<close>

text \<open>An operation is a function of a state, which stands for everything it can touch; it succeeds or fails. The loop makes one attempt and up to
  \<open>max_retries\<close> more.\<close>

fun retry_loop :: "nat \<Rightarrow> ('s \<Rightarrow> ('e + 'a) \<times> 's) \<Rightarrow> 's \<Rightarrow> ('e + 'a) \<times> 's" where
  "retry_loop 0 operation s = operation s"
| "retry_loop (Suc left) operation s =
     (case operation s of (Inr x, s') \<Rightarrow> (Inr x, s') | (Inl e, s') \<Rightarrow> retry_loop left operation s')"


text \<open>\<open>str::contains\<close>, and the retry loop for nonce errors, which resets the nonce cache after each of them. It uses five retries.\<close>

definition contains :: "string \<Rightarrow> string \<Rightarrow> bool" where
  "contains msg pattern = sublist pattern msg"

definition is_nonce_error :: "string \<Rightarrow> bool" where
  "is_nonce_error e = (contains e ''nonce too low'' \<or> contains e ''already known'')"

definition resetting :: "('s \<Rightarrow> 's) \<Rightarrow> ('s \<Rightarrow> (string + 'a) \<times> 's) \<Rightarrow> 's \<Rightarrow> (string + 'a) \<times> 's" where
  "resetting reset operation s = (case operation s of (Inl e, s') \<Rightarrow> (Inl e, if is_nonce_error e then reset s' else s') | r \<Rightarrow> r)"

definition with_nonce_retry :: "('s \<Rightarrow> (string + 'a) \<times> 's) \<Rightarrow> ('s \<Rightarrow> 's) \<Rightarrow> 's \<Rightarrow> (string + 'a) \<times> 's" where
  "with_nonce_retry operation reset s = retry_loop 5 (resetting reset operation) s"

definition transient_patterns :: "string list" where
  "transient_patterns = [''timeout'', ''connection refused'', ''connection reset'', ''network error'', ''temporary failure'', ''service unavailable'',
     ''rate limited'', ''too many requests'', ''nonce too low'', ''already known'', ''replacement transaction underpriced'', ''database is locked'', ''busy'']"

text \<open>\<open>to_lowercase\<close>, for ASCII messages.\<close>

definition to_lowercase :: "string \<Rightarrow> string" where
  "to_lowercase = map (\<lambda>c. let n = of_char c :: nat in if 65 \<le> n \<and> n \<le> 90 then char_of (n + 32) else c)"

definition is_transient_error :: "string \<Rightarrow> bool" where
  "is_transient_error error = (let error_msg = to_lowercase error in list_ex (contains error_msg) transient_patterns)"






subsection \<open>The circuit breaker\<close>

definition STATE_CLOSED :: u8 where "STATE_CLOSED = 0"
definition STATE_OPEN :: u8 where "STATE_OPEN = 1"
definition STATE_HALF_OPEN :: u8 where "STATE_HALF_OPEN = 2"

record breaker =
  cb_failure_count :: u64
  cb_last_failure :: u64
  cb_state :: u8
  failure_threshold :: u64
  success_threshold :: u64
  reset_timeout_ms :: u64

definition new_breaker :: "u64 \<Rightarrow> u64 \<Rightarrow> u64 \<Rightarrow> breaker" where
  "new_breaker ft st rt = \<lparr>cb_failure_count = 0, cb_last_failure = 0, cb_state = STATE_CLOSED, failure_threshold = ft, success_threshold = st, reset_timeout_ms = rt\<rparr>"

definition should_attempt_reset :: "u64 \<Rightarrow> breaker \<Rightarrow> bool" where
  "should_attempt_reset now b = (saturating_sub now (cb_last_failure b) \<ge> reset_timeout_ms b)"

definition breaker_success :: "breaker \<Rightarrow> breaker" where
  "breaker_success b =
     (if cb_state b = STATE_HALF_OPEN then
        if cb_failure_count b \<ge> success_threshold b then b\<lparr>cb_state := STATE_CLOSED, cb_failure_count := 0\<rparr>
        else b\<lparr>cb_failure_count := cb_failure_count b + 1\<rparr>
      else b\<lparr>cb_failure_count := 0\<rparr>)"

definition breaker_failure :: "u64 \<Rightarrow> breaker \<Rightarrow> breaker" where
  "breaker_failure now b =
     (let failures = cb_failure_count b + 1; b = b\<lparr>cb_failure_count := failures, cb_last_failure := now\<rparr>
      in if failures \<ge> failure_threshold b then b\<lparr>cb_state := STATE_OPEN\<rparr> else b)"

text \<open>\<open>execute\<close>: \<open>None\<close> when the request is rejected, otherwise whether the operation succeeded.\<close>

definition breaker_execute :: "u64 \<Rightarrow> bool \<Rightarrow> breaker \<Rightarrow> bool option \<times> breaker" where
  "breaker_execute now succeeds b =
     (if cb_state b = STATE_OPEN \<and> \<not> should_attempt_reset now b then (None, b)
      else let b = (if cb_state b = STATE_OPEN then b\<lparr>cb_state := STATE_HALF_OPEN\<rparr> else b)
           in (Some succeeds, if succeeds then breaker_success b else breaker_failure now b))"

text \<open>The breaker opens with the failure in a row that reaches its threshold, not before, and rejects until the timeout has passed.\<close>

lemma breaker_counts_failures:
  assumes "length ts < unat ft"
  shows "let b = fold breaker_failure ts (new_breaker ft st rt) in
    cb_state b = STATE_CLOSED \<and> unat (cb_failure_count b) = length ts \<and> failure_threshold b = ft \<and> reset_timeout_ms b = rt \<and> success_threshold b = st"
  using assms
proof (induction ts rule: rev_induct)
  case (snoc t ts)
  let ?b = "fold breaker_failure ts (new_breaker ft st rt)"
  from snoc have IH: "cb_state ?b = STATE_CLOSED" "unat (cb_failure_count ?b) = length ts" "failure_threshold ?b = ft" "reset_timeout_ms ?b = rt" "success_threshold ?b = st"
    by (simp_all add: Let_def)
  have "Suc (length ts) < unat ft" using snoc.prems by simp
  moreover have "unat ft < 2 ^ 64" using unsigned_less [of ft] by simp
  ultimately have n: "unat (cb_failure_count ?b + 1) = Suc (length ts)" using IH(2) by (simp add: unat_word_ariths)
  then have "\<not> failure_threshold ?b \<le> cb_failure_count ?b + 1" using \<open>Suc (length ts) < unat ft\<close> IH(3) by (simp add: word_le_nat_alt)
  then show ?case using IH n by (simp add: breaker_failure_def [of t ?b] Let_def)
qed (simp add: new_breaker_def)

lemma breaker_opens:
  assumes "Suc (length ts) = unat ft"
  shows "cb_state (fold breaker_failure (ts @ [now]) (new_breaker ft st rt)) = STATE_OPEN"
    and "saturating_sub later now < rt \<Longrightarrow>
      breaker_execute later ok (fold breaker_failure (ts @ [now]) (new_breaker ft st rt)) = (None, fold breaker_failure (ts @ [now]) (new_breaker ft st rt))"
proof -
  let ?b = "fold breaker_failure ts (new_breaker ft st rt)"
  have IH: "cb_state ?b = STATE_CLOSED" "unat (cb_failure_count ?b) = length ts" "failure_threshold ?b = ft" "reset_timeout_ms ?b = rt"
    using breaker_counts_failures [of ts ft st rt] assms by (simp_all add: Let_def)
  have "unat ft < 2 ^ 64" using unsigned_less [of ft] by simp
  then have "unat (cb_failure_count ?b + 1) = unat ft" using IH(2) assms by (simp add: unat_word_ariths)
  then have o: "breaker_failure now ?b = ?b\<lparr>cb_failure_count := cb_failure_count ?b + 1, cb_last_failure := now, cb_state := STATE_OPEN\<rparr>"
    using IH(3) by (simp add: breaker_failure_def [of now ?b] Let_def word_le_nat_alt)
  then show "cb_state (fold breaker_failure (ts @ [now]) (new_breaker ft st rt)) = STATE_OPEN" by simp
  show "breaker_execute later ok (fold breaker_failure (ts @ [now]) (new_breaker ft st rt)) = (None, fold breaker_failure (ts @ [now]) (new_breaker ft st rt))"
    if "saturating_sub later now < rt"
    using that o IH(4) by (simp add: breaker_execute_def should_attempt_reset_def not_le)
qed

text \<open>The half-open state counts its successes in the failure counter, which still holds the failures that opened the breaker: with a success threshold
  up to the failure threshold, a single success closes it.\<close>

lemma breaker_closes_at_once:
  assumes "Suc (length ts) = unat ft" "st \<le> ft" "rt \<le> saturating_sub later now"
  shows "cb_state (snd (breaker_execute later True (fold breaker_failure (ts @ [now]) (new_breaker ft st rt)))) = STATE_CLOSED"
proof -
  let ?b = "fold breaker_failure ts (new_breaker ft st rt)"
  have IH: "cb_state ?b = STATE_CLOSED" "unat (cb_failure_count ?b) = length ts" "failure_threshold ?b = ft" "reset_timeout_ms ?b = rt" "success_threshold ?b = st"
    using breaker_counts_failures [of ts ft st rt] assms(1) by (simp_all add: Let_def)
  have "unat ft < 2 ^ 64" using unsigned_less [of ft] by simp
  then have "unat (cb_failure_count ?b + 1) = unat ft" using IH(2) assms(1) by (simp add: unat_word_ariths)
  then have "cb_failure_count ?b + 1 = ft" by (simp add: word_unat_eq_iff)
  then show ?thesis using IH assms(2,3)
    by (simp add: breaker_failure_def [of now ?b] Let_def breaker_execute_def should_attempt_reset_def breaker_success_def)
qed

end
