(* ===== verification/Nonce_Cache.thy ===== *)
theory Nonce_Cache
  imports Resilience "HOL-Library.Multiset"
begin

section \<open>The nonce cache and batch reservations\<close>

text \<open>
  \<open>nonce_manager.rs\<close>, the functions of \<open>client.rs\<close> that use it, and \<open>utils/batch_nonce.rs\<close>. Every method of the cache holds its lock, so it is one step;
  the functions that call several of them are sequences of steps, between which other tasks run. The transaction count that the chain reports is an argument
  of the step that reads it. The sums are those of a release build, which wrap.
\<close>

type_synonym nonce_cache = "address \<rightharpoonup> u64"

definition get_and_increment :: "address \<Rightarrow> nonce_cache \<Rightarrow> u64 option \<times> nonce_cache" where
  "get_and_increment a m = (case m a of Some nonce \<Rightarrow> (Some nonce, m(a \<mapsto> nonce + 1)) | None \<Rightarrow> (None, m))"

definition peek :: "address \<Rightarrow> nonce_cache \<Rightarrow> u64 option" where
  "peek a m = m a"

definition set_nonce :: "address \<Rightarrow> u64 \<Rightarrow> nonce_cache \<Rightarrow> nonce_cache" where
  "set_nonce a n m = m(a \<mapsto> n)"

definition reset_nonce :: "address \<Rightarrow> nonce_cache \<Rightarrow> nonce_cache" where
  "reset_nonce a m = m(a := None)"

subsection \<open>Callers\<close>

text \<open>A task of one wallet, with what it will do next: ask for a nonce, read the count of the chain after a miss, store it, reserve a batch, finish the
  reservation. \<open>Got\<close> holds the nonces it may use.\<close>

datatype caller = Ask | Missed | Counted u64 | Reserve nat | Started u64 nat | Got "u64 list" | Failed

definition batch :: "u64 \<Rightarrow> nat \<Rightarrow> u64 list" where
  "batch start n = map (\<lambda>i. start + of_nat i) [0..<n]"

definition get_pending_nonce :: "address \<Rightarrow> u64 option \<Rightarrow> caller \<Rightarrow> nonce_cache \<Rightarrow> caller \<times> nonce_cache" where
  "get_pending_nonce a reported t m = (case t of
     Ask \<Rightarrow> (case get_and_increment a m of (Some n, m) \<Rightarrow> (Got [n], m) | (None, m) \<Rightarrow> (Missed, m))
   | Missed \<Rightarrow> (case reported of Some n \<Rightarrow> (Counted n, m) | None \<Rightarrow> (Failed, m))
   | Counted n \<Rightarrow> (Got [n], set_nonce a (n + 1) m)
   | _ \<Rightarrow> (t, m))"

definition reserve_batch :: "address \<Rightarrow> caller \<Rightarrow> nonce_cache \<Rightarrow> caller \<times> nonce_cache" where
  "reserve_batch a t m = (case t of
     Reserve n \<Rightarrow> (case get_and_increment a m of (Some start, m) \<Rightarrow> (Started start n, m) | (None, m) \<Rightarrow> (Failed, m))
   | Started start n \<Rightarrow> (Got (batch start n), set_nonce a (start + of_nat n) m)
   | _ \<Rightarrow> (t, m))"

text \<open>Without a cache, the batch starts at the count of the chain.\<close>

definition reserve_batch_uncached :: "u64 option \<Rightarrow> nat \<Rightarrow> u64 list option" where
  "reserve_batch_uncached reported n = map_option (\<lambda>start. batch start n) reported"

definition advance_to :: "address \<Rightarrow> u64 \<Rightarrow> nonce_cache \<Rightarrow> nonce_cache" where
  "advance_to a last_success m = set_nonce a (last_success + 1) m"

text \<open>Tasks of one wallet run in any order: a step names the task that moves and the transaction count the chain would report to it.\<close>

definition caller_step :: "address \<Rightarrow> nat \<times> u64 option \<Rightarrow> nonce_cache \<times> caller list \<Rightarrow> nonce_cache \<times> caller list" where
  "caller_step a e s = (case e of (i, reported) \<Rightarrow> case s of (m, ts) \<Rightarrow>
     if i < length ts then
       let (t, m) = (case ts ! i of Reserve n \<Rightarrow> reserve_batch a (ts ! i) m | Started st n \<Rightarrow> reserve_batch a (ts ! i) m | _ \<Rightarrow> get_pending_nonce a reported (ts ! i) m)
       in (m, ts[i := t])
     else s)"

definition callers_run :: "address \<Rightarrow> (nat \<times> u64 option) list \<Rightarrow> nonce_cache \<times> caller list \<Rightarrow> nonce_cache \<times> caller list" where
  "callers_run a es s = fold (caller_step a) es s"

primrec nonces_of :: "caller \<Rightarrow> u64 list" where
  "nonces_of Ask = []"
| "nonces_of Missed = []"
| "nonces_of (Counted n) = []"
| "nonces_of (Reserve n) = []"
| "nonces_of (Started st n) = []"
| "nonces_of (Got ns) = ns"
| "nonces_of Failed = []"

text \<open>One caller alone.\<close>

lemma reserve_batch_alone:
  assumes "m a = Some start"
  shows "(case reserve_batch a (Reserve n) m of (t, m') \<Rightarrow> reserve_batch a t m') = (Got (batch start n), m(a \<mapsto> start + of_nat n))"
  using assms by (simp add: reserve_batch_def get_and_increment_def set_nonce_def)

lemma batch_nth: "i < n \<Longrightarrow> batch start n ! i = start + of_nat i"
  by (simp add: batch_def)

lemma batch_distinct:
  assumes "n < 2 ^ 64"
  shows "distinct (batch start n)"
proof -
  have "inj_on (\<lambda>i. start + of_nat i) {0..<n}"
  proof (rule inj_onI)
    fix i j assume "i \<in> {0..<n}" "j \<in> {0..<n}" "start + of_nat i = start + of_nat j"
    then have "(of_nat i :: u64) = of_nat j" by simp
    moreover have "i < 2 ^ 64" "j < 2 ^ 64" using \<open>i \<in> _\<close> \<open>j \<in> _\<close> assms by auto
    ultimately show "i = j" by (simp add: word_of_nat_eq_iff take_bit_nat_eq_self)
  qed
  then show ?thesis by (simp add: batch_def distinct_map)
qed

text \<open>The tasks that ask while the wallet is cached.\<close>

definition asking :: "caller \<Rightarrow> bool" where
  "asking t = (case t of Ask \<Rightarrow> True | Got [n] \<Rightarrow> True | _ \<Rightarrow> False)"

definition handed_out :: "caller list \<Rightarrow> u64 list" where
  "handed_out ts = concat (map nonces_of ts)"

definition cache_ok :: "address \<Rightarrow> u64 \<Rightarrow> nonce_cache \<times> caller list \<Rightarrow> bool" where
  "cache_ok a start s = (list_all asking (snd s) \<and>
     fst s a = Some (start + of_nat (length (handed_out (snd s)))) \<and>
     mset (handed_out (snd s)) = mset (batch start (length (handed_out (snd s)))))"

lemma handed_out_update:
  assumes "i < length ts" "ts ! i = Ask"
  shows "mset (handed_out (ts[i := Got [n]])) = add_mset n (mset (handed_out ts))"
    and "length (handed_out (ts[i := Got [n]])) = Suc (length (handed_out ts))"
proof -
  have "ts[i := Got [n]] = take i ts @ Got [n] # drop (Suc i) ts" using assms(1) by (simp add: upd_conv_take_nth_drop)
  then have "mset (handed_out (ts[i := Got [n]])) = add_mset n (mset (handed_out (take i ts @ Ask # drop (Suc i) ts)))"
    by (simp add: handed_out_def)
  also have "take i ts @ Ask # drop (Suc i) ts = ts" using assms by (metis id_take_nth_drop)
  finally show "mset (handed_out (ts[i := Got [n]])) = add_mset n (mset (handed_out ts))" .
  then show "length (handed_out (ts[i := Got [n]])) = Suc (length (handed_out ts))" by (metis size_add_mset size_mset)
qed

lemma batch_Suc: "mset (batch start (Suc n)) = add_mset (start + of_nat n) (mset (batch start n))"
  by (simp add: batch_def)

lemma caller_step_ok:
  assumes "cache_ok a start s"
  shows "cache_ok a start (caller_step a e s) \<and> length (snd (caller_step a e s)) = length (snd s)"
proof (cases "fst e < length (snd s) \<and> snd s ! fst e = Ask")
  case True
  let ?n = "start + of_nat (length (handed_out (snd s)))"
  obtain i c m ts where es: "e = (i, c)" "s = (m, ts)" by (cases e, cases s)
  from True assms have st: "caller_step a e s = ((fst s)(a \<mapsto> ?n + 1), (snd s)[fst e := Got [?n]])"
    by (simp add: es caller_step_def get_pending_nonce_def get_and_increment_def cache_ok_def)
  have "list_all asking ((snd s)[fst e := Got [?n]])"
    using assms set_update_subset_insert [of "snd s" "fst e" "Got [?n]"] by (auto simp: cache_ok_def list_all_iff asking_def)
  then show ?thesis using True assms by (simp add: st cache_ok_def handed_out_update batch_Suc add.assoc add.commute)
next
  case False
  have "caller_step a e s = s"
  proof (cases "fst e < length (snd s)")
    case True
    then have "asking (snd s ! fst e)" using assms by (simp add: cache_ok_def list_all_length)
    with True False obtain n where "snd s ! fst e = Got [n]" by (auto simp: asking_def split: caller.splits list.splits)
    then have "(snd s)[fst e := Got [n]] = snd s" by (metis list_update_id)
    with True \<open>snd s ! fst e = Got [n]\<close> show ?thesis by (cases e, cases s) (simp add: caller_step_def get_pending_nonce_def)
  next
    case False
    then show ?thesis by (cases e, cases s) (simp add: caller_step_def)
  qed
  with assms show ?thesis by simp
qed

lemma callers_run_ok: "cache_ok a start s \<Longrightarrow> cache_ok a start (callers_run a es s) \<and> length (snd (callers_run a es s)) = length (snd s)"
proof (induction es arbitrary: s)
  case (Cons e es)
  from caller_step_ok [OF Cons.prems, of e] Cons.IH [of "caller_step a e s"] show ?case by (simp add: callers_run_def)
qed (simp add: callers_run_def)

lemma handed_out_length: "list_all asking ts \<Longrightarrow> length (handed_out ts) \<le> length ts"
  by (induction ts) (auto simp: handed_out_def asking_def split: caller.splits list.splits)

text \<open>However the requests of tasks for one cached wallet interleave, the nonces they are given are distinct and leave no gap: they are the next ones after
  the cached nonce, and the cache continues after them.\<close>

theorem cached_nonces_consecutive:
  assumes "m a = Some start" "n < 2 ^ 64"
  shows "case callers_run a es (m, replicate n Ask) of (m', ts) \<Rightarrow>
    distinct (handed_out ts) \<and> set (handed_out ts) = set (batch start (length (handed_out ts))) \<and> m' a = Some (start + of_nat (length (handed_out ts)))"
proof -
  let ?s = "callers_run a es (m, replicate n Ask)"
  have "handed_out (replicate n Ask) = []" by (induction n) (simp_all add: handed_out_def)
  then have "cache_ok a start (m, replicate n Ask)" using assms(1) by (simp add: cache_ok_def batch_def asking_def list_all_iff)
  then have ok: "cache_ok a start ?s" "length (snd ?s) = n" using callers_run_ok [of a start "(m, replicate n Ask)" es] by simp_all
  then have "length (handed_out (snd ?s)) < 2 ^ 64" using handed_out_length [of "snd ?s"] assms(2) by (simp add: cache_ok_def)
  then have "distinct (batch start (length (handed_out (snd ?s))))" by (rule batch_distinct)
  with ok(1) show ?thesis by (auto simp: cache_ok_def split: prod.splits dest: mset_eq_imp_distinct_iff mset_eq_setD)
qed

theorem cached_nonces_consecutive_witness:
  "case callers_run 7 [(1, None), (0, None)] ((\<lambda>_. None)(7 \<mapsto> 5), replicate 3 Ask) of (m', ts) \<Rightarrow>
    distinct (handed_out ts) \<and> set (handed_out ts) = set (batch 5 (length (handed_out ts))) \<and> m' 7 = Some (5 + of_nat (length (handed_out ts)))"
  using cached_nonces_consecutive [of "(\<lambda>_. None)(7 \<mapsto> 5)" 7 5 3 "[(1, None), (0, None)]"] by simp


end
