(* ===== verification/BTree_Map.thy ===== *)
theory BTree_Map
  imports Prelude
begin

section \<open>Ordered maps\<close>

text \<open>
  Rust's \<open>BTreeMap\<close>, as a list of entries in the order of the keys. The maps of the pool that the code iterates over are modelled by it; for a \<open>HashMap\<close>,
  whose order of iteration is unspecified, it fixes one order. The locale \<open>ordered_map\<close> states what the users of a map rely on.
\<close>

type_synonym ('k, 'v) btree = "('k \<times> 'v) list"

fun bt_insert :: "'k::linorder \<Rightarrow> 'v \<Rightarrow> ('k, 'v) btree \<Rightarrow> ('k, 'v) btree" where
  "bt_insert k v [] = [(k, v)]"
| "bt_insert k v ((k', v') # m) = (if k < k' then (k, v) # (k', v') # m else if k = k' then (k, v) # m else (k', v') # bt_insert k v m)"

definition bt_remove :: "'k \<Rightarrow> ('k, 'v) btree \<Rightarrow> ('k, 'v) btree" where
  "bt_remove k m = filter (\<lambda>e. fst e \<noteq> k) m"

definition bt_keys :: "('k, 'v) btree \<Rightarrow> 'k list" where
  "bt_keys m = map fst m"

definition bt_values :: "('k, 'v) btree \<Rightarrow> 'v list" where
  "bt_values m = map snd m"

definition bt_ok :: "('k::linorder, 'v) btree \<Rightarrow> bool" where
  "bt_ok m = sorted_wrt (<) (map fst m)"

text \<open>The interface: lookups after updates, and the entries as the graph of the lookup in strictly increasing order.\<close>

locale ordered_map =
  fixes lookup :: "'m \<Rightarrow> 'k::linorder \<Rightarrow> 'v option"
    and insert_map :: "'k \<Rightarrow> 'v \<Rightarrow> 'm \<Rightarrow> 'm"
    and remove_map :: "'k \<Rightarrow> 'm \<Rightarrow> 'm"
    and entries :: "'m \<Rightarrow> ('k \<times> 'v) list"
    and ok_map :: "'m \<Rightarrow> bool"
  assumes lookup_insert: "lookup (insert_map k v m) = (lookup m)(k \<mapsto> v)"
    and lookup_remove: "lookup (remove_map k m) = (lookup m)(k := None)"
    and insert_ok: "ok_map m \<Longrightarrow> ok_map (insert_map k v m)"
    and remove_ok: "ok_map m \<Longrightarrow> ok_map (remove_map k m)"
    and entries_sorted: "ok_map m \<Longrightarrow> sorted_wrt (<) (map fst (entries m))"
    and entries_lookup: "ok_map m \<Longrightarrow> (k, v) \<in> set (entries m) \<longleftrightarrow> lookup m k = Some v"
begin

lemma entries_distinct: "ok_map m \<Longrightarrow> distinct (map fst (entries m))"
  using entries_sorted strict_sorted_iff by blast

lemma keys_dom: "ok_map m \<Longrightarrow> fst ` set (entries m) = dom (lookup m)"
proof -
  assume m: "ok_map m"
  then have "set (entries m) = {(k, v). lookup m k = Some v}" by (auto simp: entries_lookup)
  then show ?thesis by (auto simp: image_iff)
qed

lemma length_dom: "ok_map m \<Longrightarrow> length (entries m) = card (dom (lookup m))"
  by (metis keys_dom entries_distinct distinct_card length_map list.set_map)

lemma finite_dom_lookup: "ok_map m \<Longrightarrow> finite (dom (lookup m))"
  by (metis keys_dom finite_set finite_imageI)

lemma length_remove: "ok_map m \<Longrightarrow> lookup m k \<noteq> None \<Longrightarrow> Suc (length (entries (remove_map k m))) = length (entries m)"
proof -
  assume m: "ok_map m" "lookup m k \<noteq> None"
  have "card (dom (lookup m)) = Suc (card (dom (lookup m) - {k}))"
    using m(2) by (metis card_Suc_Diff1 finite_dom_lookup [OF m(1)] domIff)
  then show ?thesis by (simp add: length_dom m remove_ok lookup_remove)
qed

lemma values_lookup: "ok_map m \<Longrightarrow> v \<in> snd ` set (entries m) \<longleftrightarrow> (\<exists>k. lookup m k = Some v)"
  by (auto simp: entries_lookup image_iff) (metis entries_lookup snd_conv)

lemma list_all_entries: "ok_map m \<Longrightarrow> list_all P (entries m) \<longleftrightarrow> (\<forall>k v. lookup m k = Some v \<longrightarrow> P (k, v))"
  by (auto simp: list_all_iff entries_lookup)

end

lemma bt_insert_keys: "set (map fst (bt_insert k v m)) = insert k (set (map fst m))"
  by (induction k v m rule: bt_insert.induct) auto

lemma bt_insert_ok: "bt_ok m \<Longrightarrow> bt_ok (bt_insert k v m)"
proof (induction k v m rule: bt_insert.induct)
  case (2 k v k' v' m)
  have "set (map fst (bt_insert k v m)) = insert k (set (map fst m))" by (rule bt_insert_keys)
  with 2 show ?case by (fastforce simp: bt_ok_def)
qed (simp add: bt_ok_def)

lemma bt_insert_get: "map_of (bt_insert k v m) = (map_of m)(k \<mapsto> v)"
  by (induction k v m rule: bt_insert.induct) auto

lemma bt_remove_get: "map_of (bt_remove k m) = (map_of m)(k := None)"
  by (induction m) (auto simp: bt_remove_def)

lemma bt_ok_filter: "bt_ok m \<Longrightarrow> bt_ok (filter P m)"
  by (simp add: bt_ok_def sorted_wrt_map sorted_wrt_filter)

lemma bt_ok_distinct: "bt_ok m \<Longrightarrow> distinct (map fst m)"
  by (simp add: bt_ok_def strict_sorted_iff)

interpretation bt: ordered_map map_of bt_insert bt_remove "\<lambda>m. m" bt_ok
proof unfold_locales
  show "\<And>m k v. bt_ok m \<Longrightarrow> ((k, v) \<in> set m) = (map_of m k = Some v)"
    by (metis bt_ok_distinct map_of_eq_Some_iff)
  show "\<And>m. bt_ok m \<Longrightarrow> sorted_wrt (<) (map fst m)" by (simp add: bt_ok_def)
  show "\<And>m k. bt_ok m \<Longrightarrow> bt_ok (bt_remove k m)" by (simp add: bt_remove_def bt_ok_filter)
qed (simp_all add: bt_insert_get bt_remove_get bt_insert_ok)

lemma bt_empty [simp]: "bt_ok []" by (simp add: bt_ok_def)


end
