(* ===== verification/Pool_2d.thy ===== *)
theory Pool_2d
  imports BTree_Map
begin

section \<open>The pool of transactions with two-dimensional nonces\<close>

text \<open>
  \<open>transaction-pool/src/tt_2d_pool.rs\<close>. Every transaction of this pool is an AA transaction, so its nonce key is a field and not an option. What the pool takes
  from reth is an argument: the priority of a transaction, the test for an underpriced replacement and the order of pending transactions. The storage slot of
  a nonce, which is a hash, is an argument as well. Metrics are left out.
\<close>

subsection \<open>Identifiers\<close>

text \<open>The derived orders are lexicographic.\<close>

datatype aa_sequence_id = AASequenceId (sq_address: address) (sq_nonce_key: u256)

datatype aa_2d_transaction_id = AA2dTransactionId (seq_id: aa_sequence_id) (id_nonce: u64)

instantiation aa_sequence_id :: linorder
begin

definition less_eq_aa_sequence_id :: "aa_sequence_id \<Rightarrow> aa_sequence_id \<Rightarrow> bool" where
  "less_eq_aa_sequence_id a b = (sq_address a < sq_address b \<or> sq_address a = sq_address b \<and> sq_nonce_key a \<le> sq_nonce_key b)"

definition less_aa_sequence_id :: "aa_sequence_id \<Rightarrow> aa_sequence_id \<Rightarrow> bool" where
  "less_aa_sequence_id a b = (sq_address a < sq_address b \<or> sq_address a = sq_address b \<and> sq_nonce_key a < sq_nonce_key b)"

instance
  by intro_classes (auto simp: less_eq_aa_sequence_id_def less_aa_sequence_id_def aa_sequence_id.expand)

end

instantiation aa_2d_transaction_id :: linorder
begin

definition less_eq_aa_2d_transaction_id :: "aa_2d_transaction_id \<Rightarrow> aa_2d_transaction_id \<Rightarrow> bool" where
  "less_eq_aa_2d_transaction_id a b = (seq_id a < seq_id b \<or> seq_id a = seq_id b \<and> id_nonce a \<le> id_nonce b)"

definition less_aa_2d_transaction_id :: "aa_2d_transaction_id \<Rightarrow> aa_2d_transaction_id \<Rightarrow> bool" where
  "less_aa_2d_transaction_id a b = (seq_id a < seq_id b \<or> seq_id a = seq_id b \<and> id_nonce a < id_nonce b)"

instance
  by intro_classes (auto simp: less_eq_aa_2d_transaction_id_def less_aa_2d_transaction_id_def aa_2d_transaction_id.expand)

end

definition unlocks :: "aa_2d_transaction_id \<Rightarrow> aa_2d_transaction_id" where
  "unlocks i = AA2dTransactionId (seq_id i) (saturating_add (id_nonce i) 1)"

subsection \<open>Transactions\<close>

definition TEMPO_EXPIRING_NONCE_KEY :: u256 where
  "TEMPO_EXPIRING_NONCE_KEY = MAX_WORD"

datatype transaction_origin = Local | External | Private

record pool_tx =
  tx_hash :: b256
  tx_sender :: address
  tx_nonce_key :: u256
  tx_nonce :: u64
  tx_propagate :: bool
  tx_origin :: transaction_origin

definition is_expiring_nonce :: "pool_tx \<Rightarrow> bool" where
  "is_expiring_nonce tx = (tx_nonce_key tx = TEMPO_EXPIRING_NONCE_KEY)"

definition is_aa_2d :: "pool_tx \<Rightarrow> bool" where
  "is_aa_2d tx = (tx_nonce_key tx \<noteq> 0)"

definition aa_transaction_id :: "pool_tx \<Rightarrow> aa_2d_transaction_id" where
  "aa_transaction_id tx = AA2dTransactionId (AASequenceId (tx_sender tx) (tx_nonce_key tx)) (tx_nonce tx)"

record pending_tx =
  submission :: u64
  pd_priority :: "u128 option"
  transaction :: pool_tx

record internal_tx =
  inner :: pending_tx
  is_pending :: bool

record pool_env =
  priority :: "pool_tx \<Rightarrow> u128 option"
  is_underpriced :: "pool_tx \<Rightarrow> pool_tx \<Rightarrow> bool"
  rank :: "pending_tx \<Rightarrow> nat"
  nonce_slot :: "aa_sequence_id \<Rightarrow> u256"

datatype pool_error = AlreadyImported | NonceNotConsistent u64 u64 | ReplacementUnderpriced

datatype added_transaction =
    AddedPending pool_tx "pool_tx option" "pool_tx list" "pool_tx list"
  | AddedParked pool_tx "pool_tx option"

subsection \<open>The pool\<close>

record aa_2d_pool =
  submission_id :: u64
  independent_transactions :: "(aa_sequence_id, pending_tx) btree"
  by_id :: "(aa_2d_transaction_id, internal_tx) btree"
  by_hash :: "(b256, pool_tx) btree"
  expiring_nonce_txs :: "(b256, pending_tx) btree"
  slot_to_seq_id :: "u256 \<rightharpoonup> aa_sequence_id"
  seq_id_to_slot :: "aa_sequence_id \<rightharpoonup> u256"
  max_txs :: nat

definition new_2d_pool :: "nat \<Rightarrow> aa_2d_pool" where
  "new_2d_pool limit = \<lparr>submission_id = 0, independent_transactions = [], by_id = [], by_hash = [], expiring_nonce_txs = [],
     slot_to_seq_id = (\<lambda>_. None), seq_id_to_slot = (\<lambda>_. None), max_txs = limit\<rparr>"

definition next_id :: "aa_2d_pool \<Rightarrow> u64 \<times> aa_2d_pool" where
  "next_id p = (submission_id p, p\<lparr>submission_id := submission_id p + 1\<rparr>)"

definition contains_tx :: "b256 \<Rightarrow> aa_2d_pool \<Rightarrow> bool" where
  "contains_tx h p = (map_of (by_hash p) h \<noteq> None)"

definition pending_transaction :: "pool_env \<Rightarrow> u64 \<Rightarrow> pool_tx \<Rightarrow> pending_tx" where
  "pending_transaction env sid tx = \<lparr>submission = sid, pd_priority = priority env tx, transaction = tx\<rparr>"

definition pending_and_queued_txn_count :: "aa_2d_pool \<Rightarrow> nat \<times> nat" where
  "pending_and_queued_txn_count p =
     (let (pending_2d, queued_2d) = fold (\<lambda>t acc. if is_pending t then (fst acc + 1, snd acc) else (fst acc, snd acc + 1)) (bt_values (by_id p)) (0, 0)
      in (pending_2d + length (expiring_nonce_txs p), queued_2d))"

definition queued_transactions :: "aa_2d_pool \<Rightarrow> pool_tx list" where
  "queued_transactions p = map (transaction \<circ> inner) (filter (\<lambda>t. \<not> is_pending t) (bt_values (by_id p)))"

definition pending_transactions :: "aa_2d_pool \<Rightarrow> pool_tx list" where
  "pending_transactions p = map (transaction \<circ> inner) (filter is_pending (bt_values (by_id p))) @ map transaction (bt_values (expiring_nonce_txs p))"

definition get_transactions_by_sender :: "address \<Rightarrow> aa_2d_pool \<Rightarrow> pool_tx list" where
  "get_transactions_by_sender a p =
     filter (\<lambda>tx. tx_sender tx = a) (map (transaction \<circ> inner) (bt_values (by_id p))) @
     filter (\<lambda>tx. tx_sender tx = a) (map transaction (bt_values (expiring_nonce_txs p)))"

definition pooled_transactions_hashes :: "aa_2d_pool \<Rightarrow> b256 list" where
  "pooled_transactions_hashes p = map tx_hash (filter tx_propagate (bt_values (by_hash p)))"

definition get_transactions_by_origin :: "transaction_origin \<Rightarrow> aa_2d_pool \<Rightarrow> pool_tx list" where
  "get_transactions_by_origin origin p =
     map (transaction \<circ> inner) (filter (\<lambda>t. tx_origin (transaction (inner t)) = origin) (bt_values (by_id p))) @
     map transaction (filter (\<lambda>q. tx_origin (transaction q) = origin) (bt_values (expiring_nonce_txs p)))"

definition get_pending_transactions_by_origin :: "transaction_origin \<Rightarrow> aa_2d_pool \<Rightarrow> pool_tx list" where
  "get_pending_transactions_by_origin origin p =
     map (transaction \<circ> inner) (filter (\<lambda>t. is_pending t \<and> tx_origin (transaction (inner t)) = origin) (bt_values (by_id p))) @
     map transaction (filter (\<lambda>q. tx_origin (transaction q) = origin) (bt_values (expiring_nonce_txs p)))"

definition all_transaction_hashes :: "aa_2d_pool \<Rightarrow> b256 list" where
  "all_transaction_hashes p = bt_keys (by_hash p)"

definition get_tx :: "b256 \<Rightarrow> aa_2d_pool \<Rightarrow> pool_tx option" where
  "get_tx h p = map_of (by_hash p) h"

definition get_all :: "b256 list \<Rightarrow> aa_2d_pool \<Rightarrow> pool_tx list" where
  "get_all hs p = List.map_filter (\<lambda>h. get_tx h p) hs"

text \<open>The pooled form of a transaction and its encoded length are arguments; so is the test of the limit.\<close>

fun append_pooled_transaction_elements :: "(pool_tx \<Rightarrow> nat) \<Rightarrow> (pool_tx \<Rightarrow> 'p option) \<Rightarrow> (nat \<Rightarrow> bool) \<Rightarrow> aa_2d_pool \<Rightarrow> b256 list \<Rightarrow> nat \<times> 'p list \<Rightarrow> nat \<times> 'p list" where
  "append_pooled_transaction_elements encoded_length into_pooled exceeds p [] acc = acc"
| "append_pooled_transaction_elements encoded_length into_pooled exceeds p (h # hs) acc = (case map_of (by_hash p) h of
     None \<Rightarrow> append_pooled_transaction_elements encoded_length into_pooled exceeds p hs acc
   | Some tx \<Rightarrow> (case into_pooled tx of
       None \<Rightarrow> append_pooled_transaction_elements encoded_length into_pooled exceeds p hs acc
     | Some pooled \<Rightarrow>
         let acc = (fst acc + encoded_length tx, snd acc @ [pooled])
         in if exceeds (fst acc) then acc else append_pooled_transaction_elements encoded_length into_pooled exceeds p hs acc))"

definition senders :: "aa_2d_pool \<Rightarrow> address list" where
  "senders p = map (tx_sender \<circ> transaction \<circ> inner) (bt_values (by_id p)) @ map (tx_sender \<circ> transaction) (bt_values (expiring_nonce_txs p))"

definition pooled_transactions :: "aa_2d_pool \<Rightarrow> pool_tx list" where
  "pooled_transactions p = filter tx_propagate (bt_values (by_hash p))"

text \<open>The reverse index of storage slots.\<close>

definition record_2d_slot :: "pool_env \<Rightarrow> pool_tx \<Rightarrow> aa_2d_pool \<Rightarrow> aa_2d_pool" where
  "record_2d_slot env tx p =
     (let s = seq_id (aa_transaction_id tx); slot = nonce_slot env s; known = slot_to_seq_id p slot; p = p\<lparr>slot_to_seq_id := (slot_to_seq_id p)(slot \<mapsto> s)\<rparr>
      in if known = None then p\<lparr>seq_id_to_slot := (seq_id_to_slot p)(s \<mapsto> slot)\<rparr> else p)"

text \<open>The entries of one sequence from an identifier on, with what comes before and after them in the map.\<close>

definition split_range :: "aa_2d_transaction_id \<Rightarrow> (aa_2d_transaction_id, 'v) btree \<Rightarrow>
    (aa_2d_transaction_id, 'v) btree \<times> (aa_2d_transaction_id, 'v) btree \<times> (aa_2d_transaction_id, 'v) btree" where
  "split_range i m =
     (let before = takeWhile (\<lambda>e. fst e < i) m; from = dropWhile (\<lambda>e. fst e < i) m
      in (before, takeWhile (\<lambda>e. seq_id (fst e) = seq_id i) from, dropWhile (\<lambda>e. seq_id (fst e) = seq_id i) from))"

definition descendant_txs :: "aa_2d_transaction_id \<Rightarrow> (aa_2d_transaction_id, 'v) btree \<Rightarrow> (aa_2d_transaction_id, 'v) btree" where
  "descendant_txs i m = fst (snd (split_range i m))"

definition descendant_txs_exclusive :: "aa_2d_transaction_id \<Rightarrow> (aa_2d_transaction_id, 'v) btree \<Rightarrow> (aa_2d_transaction_id, 'v) btree" where
  "descendant_txs_exclusive i m = takeWhile (\<lambda>e. seq_id (fst e) = seq_id i) (dropWhile (\<lambda>e. fst e \<le> i) m)"

subsection \<open>Removing transactions\<close>

definition remove_independent :: "aa_2d_transaction_id \<Rightarrow> aa_2d_pool \<Rightarrow> aa_2d_pool" where
  "remove_independent i p = (case map_of (independent_transactions p) (seq_id i) of
     Some q \<Rightarrow> if tx_nonce (transaction q) = id_nonce i then p\<lparr>independent_transactions := bt_remove (seq_id i) (independent_transactions p)\<rparr> else p
   | None \<Rightarrow> p)"

definition forget_slot :: "aa_sequence_id \<Rightarrow> aa_2d_pool \<Rightarrow> aa_2d_pool" where
  "forget_slot s p =
     (if descendant_txs (AA2dTransactionId s 0) (by_id p) = [] then
        case seq_id_to_slot p s of
          Some slot \<Rightarrow> p\<lparr>seq_id_to_slot := (seq_id_to_slot p)(s := None), slot_to_seq_id := (slot_to_seq_id p)(slot := None)\<rparr>
        | None \<Rightarrow> p
      else p)"

definition remove_transaction_by_id :: "aa_2d_transaction_id \<Rightarrow> aa_2d_pool \<Rightarrow> pool_tx option \<times> aa_2d_pool" where
  "remove_transaction_by_id i p = (case map_of (by_id p) i of
     None \<Rightarrow> (None, p)
   | Some t \<Rightarrow>
       let p = p\<lparr>by_id := bt_remove i (by_id p)\<rparr>; p = forget_slot (seq_id i) p; p = remove_independent i p
       in (Some (transaction (inner t)), p\<lparr>by_hash := bt_remove (tx_hash (transaction (inner t))) (by_hash p)\<rparr>))"

definition remove_transaction_by_hash :: "b256 \<Rightarrow> aa_2d_pool \<Rightarrow> pool_tx option \<times> aa_2d_pool" where
  "remove_transaction_by_hash h p = (case map_of (by_hash p) h of
     None \<Rightarrow> (None, p)
   | Some tx \<Rightarrow>
       let p = p\<lparr>by_hash := bt_remove h (by_hash p)\<rparr> in
       if is_expiring_nonce tx then (Some tx, p\<lparr>expiring_nonce_txs := bt_remove h (expiring_nonce_txs p)\<rparr>)
       else case remove_transaction_by_id (aa_transaction_id tx) p of (None, p) \<Rightarrow> (None, p) | (Some _, p) \<Rightarrow> (Some tx, p))"

definition push_removed :: "pool_tx option \<times> aa_2d_pool \<Rightarrow> pool_tx list \<Rightarrow> pool_tx list \<times> aa_2d_pool" where
  "push_removed r removed = (case r of (None, p) \<Rightarrow> (removed, p) | (Some tx, p) \<Rightarrow> (removed @ [tx], p))"

definition remove_transactions :: "b256 list \<Rightarrow> aa_2d_pool \<Rightarrow> pool_tx list \<times> aa_2d_pool" where
  "remove_transactions hs p = fold (\<lambda>h (txs, p). push_removed (remove_transaction_by_hash h p) txs) hs ([], p)"

text \<open>The loop over the descendants: each round removes the first one and goes on from it.\<close>

fun remove_descendants_loop :: "nat \<Rightarrow> aa_2d_transaction_id \<Rightarrow> pool_tx list \<times> aa_2d_pool \<Rightarrow> pool_tx list \<times> aa_2d_pool" where
  "remove_descendants_loop 0 i s = s"
| "remove_descendants_loop (Suc fuel) i s = (case s of (removed, p) \<Rightarrow>
     case descendant_txs_exclusive i (by_id p) of
       [] \<Rightarrow> (removed, p)
     | (d, _) # _ \<Rightarrow> remove_descendants_loop fuel d (push_removed (remove_transaction_by_id d p) removed))"

definition remove_descendants :: "aa_2d_transaction_id \<Rightarrow> pool_tx list \<times> aa_2d_pool \<Rightarrow> pool_tx list \<times> aa_2d_pool" where
  "remove_descendants i s = remove_descendants_loop (Suc (length (by_id (snd s)))) i s"

definition remove_with_descendants :: "b256 \<Rightarrow> pool_tx list \<times> aa_2d_pool \<Rightarrow> pool_tx list \<times> aa_2d_pool" where
  "remove_with_descendants h s = (case s of (removed, p) \<Rightarrow> case remove_transaction_by_hash h p of
     (None, p) \<Rightarrow> (removed, p)
   | (Some tx, p) \<Rightarrow> remove_descendants (aa_transaction_id tx) (removed @ [tx], p))"

definition remove_transactions_and_descendants :: "b256 list \<Rightarrow> aa_2d_pool \<Rightarrow> pool_tx list \<times> aa_2d_pool" where
  "remove_transactions_and_descendants hs p = fold remove_with_descendants hs ([], p)"

definition remove_of_sender :: "pool_tx \<Rightarrow> pool_tx list \<times> aa_2d_pool \<Rightarrow> pool_tx list \<times> aa_2d_pool" where
  "remove_of_sender tx s = (case s of (removed, p) \<Rightarrow>
     if is_expiring_nonce tx then
       if map_of (expiring_nonce_txs p) (tx_hash tx) \<noteq> None then
         (removed @ [tx], p\<lparr>expiring_nonce_txs := bt_remove (tx_hash tx) (expiring_nonce_txs p), by_hash := bt_remove (tx_hash tx) (by_hash p)\<rparr>)
       else (removed, p)
     else push_removed (remove_transaction_by_id (aa_transaction_id tx) p) removed)"

definition remove_transactions_by_sender :: "address \<Rightarrow> aa_2d_pool \<Rightarrow> pool_tx list \<times> aa_2d_pool" where
  "remove_transactions_by_sender a p = fold remove_of_sender (get_transactions_by_sender a p) ([], p)"

definition remove_included :: "b256 \<Rightarrow> pool_tx list \<times> aa_2d_pool \<Rightarrow> pool_tx list \<times> aa_2d_pool" where
  "remove_included h s = (case s of (removed, p) \<Rightarrow> case map_of (expiring_nonce_txs p) h of
     None \<Rightarrow> (removed, p)
   | Some q \<Rightarrow> (removed @ [transaction q], p\<lparr>expiring_nonce_txs := bt_remove h (expiring_nonce_txs p), by_hash := bt_remove h (by_hash p)\<rparr>))"

definition remove_included_expiring_nonce_txs :: "b256 list \<Rightarrow> aa_2d_pool \<Rightarrow> pool_tx list \<times> aa_2d_pool" where
  "remove_included_expiring_nonce_txs hs p = fold remove_included hs ([], p)"

text \<open>Above the limit, the transaction with the largest identifier goes first.\<close>

fun discard_loop :: "nat \<Rightarrow> pool_tx list \<times> aa_2d_pool \<Rightarrow> pool_tx list \<times> aa_2d_pool" where
  "discard_loop 0 s = s"
| "discard_loop (Suc fuel) s = (case s of (removed, p) \<Rightarrow>
     if length (by_id p) > max_txs p then discard_loop fuel (push_removed (remove_transaction_by_id (fst (last (by_id p))) p) removed)
     else (removed, p))"

definition discard :: "aa_2d_pool \<Rightarrow> pool_tx list \<times> aa_2d_pool" where
  "discard p = discard_loop (length (by_id p)) ([], p)"

subsection \<open>Adding transactions\<close>

definition add_expiring_nonce_transaction :: "pool_env \<Rightarrow> pool_tx \<Rightarrow> aa_2d_pool \<Rightarrow> (pool_error + added_transaction) \<times> aa_2d_pool" where
  "add_expiring_nonce_transaction env tx p =
     (if map_of (expiring_nonce_txs p) (tx_hash tx) \<noteq> None then (Inl AlreadyImported, p)
      else let (sid, p) = next_id p in
        (Inr (AddedPending tx None [] []),
         p\<lparr>expiring_nonce_txs := bt_insert (tx_hash tx) (pending_transaction env sid tx) (expiring_nonce_txs p), by_hash := bt_insert (tx_hash tx) tx (by_hash p)\<rparr>))"

text \<open>The scan over the sequence from its on-chain nonce: the entries without a gap become pending from the new one on.\<close>

fun scan_inserted :: "u64 \<Rightarrow> u64 \<Rightarrow> (aa_2d_transaction_id, internal_tx) btree \<Rightarrow> (aa_2d_transaction_id, internal_tx) btree \<times> bool \<times> pool_tx list" where
  "scan_inserted n next [] = ([], False, [])"
| "scan_inserted n next ((i, t) # es) =
     (if id_nonce i = next then
        let (es', inserted, promoted) = scan_inserted n (saturating_add (id_nonce i) 1) es in
        if id_nonce i < n then ((i, t) # es', inserted, promoted)
        else if id_nonce i = n then ((i, t\<lparr>is_pending := True\<rparr>) # es', True, promoted)
        else ((i, t\<lparr>is_pending := True\<rparr>) # es', inserted, (if is_pending t then promoted else transaction (inner t) # promoted))
      else ((i, t) # es, False, []))"

definition insert_entry :: "pool_tx \<Rightarrow> u64 \<Rightarrow> internal_tx \<Rightarrow> aa_2d_pool \<Rightarrow> (pool_tx option \<times> bool \<times> pool_tx list) \<times> aa_2d_pool" where
  "insert_entry tx on_chain_nonce t p =
     (let i = aa_transaction_id tx;
        replaced = map_option (transaction \<circ> inner) (map_of (by_id p) i);
        hashes = (case replaced of None \<Rightarrow> by_hash p | Some old \<Rightarrow> bt_remove (tx_hash old) (by_hash p));
        (before, mine, after) = split_range (AA2dTransactionId (seq_id i) on_chain_nonce) (bt_insert i t (by_id p));
        (mine, inserted_as_pending, promoted) = scan_inserted (id_nonce i) on_chain_nonce mine;
        p = p\<lparr>by_id := before @ mine @ after, by_hash := bt_insert (tx_hash tx) tx hashes\<rparr>;
        p = (if inserted_as_pending \<and> id_nonce i = on_chain_nonce
             then p\<lparr>independent_transactions := bt_insert (seq_id i) (inner t) (independent_transactions p)\<rparr> else p)
      in ((replaced, inserted_as_pending, promoted), p))"

definition insert_sequential :: "pool_tx \<Rightarrow> u64 \<Rightarrow> internal_tx \<Rightarrow> aa_2d_pool \<Rightarrow> added_transaction \<times> aa_2d_pool" where
  "insert_sequential tx on_chain_nonce t p =
     (let ((replaced, inserted_as_pending, promoted), p) = insert_entry tx on_chain_nonce t p
      in if inserted_as_pending then let (discarded, p) = discard p in (AddedPending tx replaced promoted discarded, p)
         else (AddedParked tx replaced, p))"

definition add_transaction :: "pool_env \<Rightarrow> bool \<Rightarrow> pool_tx \<Rightarrow> u64 \<Rightarrow> aa_2d_pool \<Rightarrow> (pool_error + added_transaction) \<times> aa_2d_pool" where
  "add_transaction env is_t1 tx on_chain_nonce p =
     (if contains_tx (tx_hash tx) p then (Inl AlreadyImported, p)
      else if is_t1 \<and> is_expiring_nonce tx then add_expiring_nonce_transaction env tx p
      else
        let i = aa_transaction_id tx; p = (if is_aa_2d tx then record_2d_slot env tx p else p) in
        if tx_nonce tx < on_chain_nonce then (Inl (NonceNotConsistent (tx_nonce tx) on_chain_nonce), p)
        else
          let (sid, p) = next_id p; t = \<lparr>inner = pending_transaction env sid tx, is_pending = False\<rparr>;
            underpriced = (case map_of (by_id p) i of Some old \<Rightarrow> is_underpriced env (transaction (inner old)) tx | None \<Rightarrow> False)
          in if underpriced then (Inl ReplacementUnderpriced, p)
             else let (r, p) = insert_sequential tx on_chain_nonce t p in (Inr r, p))"

subsection \<open>State changes\<close>

text \<open>The entries of a sequence from the on-chain nonce on: those without a gap become pending, the first one after a gap does not stay pending. The transaction
  with the on-chain nonce becomes the independent one.\<close>

fun promote :: "u64 \<Rightarrow> u64 \<Rightarrow> (aa_2d_transaction_id, internal_tx) btree \<Rightarrow> (aa_2d_transaction_id, internal_tx) btree \<times> pool_tx list \<times> pending_tx option" where
  "promote c next [] = ([], [], None)"
| "promote c next ((i, t) # es) =
     (if id_nonce i = next then
        let (es', promoted, indep) = promote c (saturating_add next 1) es in
        ((i, t\<lparr>is_pending := True\<rparr>) # es', (if is_pending t then promoted else transaction (inner t) # promoted),
         if indep = None \<and> id_nonce i = c then Some (inner t) else indep)
      else ((i, t\<lparr>is_pending := False\<rparr>) # es, [], None))"

definition change_nonce :: "aa_sequence_id \<times> u64 \<Rightarrow> aa_2d_pool \<times> pool_tx list \<times> aa_2d_transaction_id list \<Rightarrow> aa_2d_pool \<times> pool_tx list \<times> aa_2d_transaction_id list" where
  "change_nonce change st = (case change of (s, c) \<Rightarrow> case st of (p, promoted, mined_ids) \<Rightarrow>
     let (before, mine, after) = split_range (AA2dTransactionId s 0) (by_id p);
       mined = takeWhile (\<lambda>e. id_nonce (fst e) < c) mine; (rest, more, indep) = promote c c (dropWhile (\<lambda>e. id_nonce (fst e) < c) mine);
       p = p\<lparr>by_id := before @ mined @ rest @ after\<rparr>;
       p = (case indep of Some q \<Rightarrow> p\<lparr>independent_transactions := bt_insert s q (independent_transactions p)\<rparr> | None \<Rightarrow> p)
     in (p, promoted @ more, mined_ids @ map fst mined))"

definition on_nonce_changes :: "(aa_sequence_id \<times> u64) list \<Rightarrow> aa_2d_pool \<Rightarrow> pool_tx list \<times> pool_tx list \<times> aa_2d_pool" where
  "on_nonce_changes on_chain_ids p =
     (let (p, promoted, mined_ids) = fold change_nonce on_chain_ids (p, [], []);
        (mined, p) = fold (\<lambda>i (mined, p). push_removed (remove_transaction_by_id i p) mined) mined_ids ([], p)
      in (promoted, mined, p))"

definition NONCE_PRECOMPILE_ADDRESS :: address where
  "NONCE_PRECOMPILE_ADDRESS = 0x4E4F4E4345000000000000000000000000000000"

record bundle_account =
  account_nonce :: "u64 option"
  account_storage :: "(u256 \<times> u256) list"

definition slot_change :: "aa_2d_pool \<Rightarrow> u256 \<times> u256 \<Rightarrow> (aa_sequence_id, u64) btree \<Rightarrow> (aa_sequence_id, u64) btree" where
  "slot_change p e changes = (case slot_to_seq_id p (fst e) of Some s \<Rightarrow> bt_insert s (saturating_to (snd e)) changes | None \<Rightarrow> changes)"

definition account_change :: "aa_2d_pool \<Rightarrow> address \<times> bundle_account \<Rightarrow> (aa_sequence_id, u64) btree \<Rightarrow> (aa_sequence_id, u64) btree" where
  "account_change p e changes = (case e of (account, state) \<Rightarrow>
     let changes = (if account = NONCE_PRECOMPILE_ADDRESS then fold (slot_change p) (account_storage state) changes else changes)
     in bt_insert (AASequenceId account 0) (case account_nonce state of Some n \<Rightarrow> n | None \<Rightarrow> 0) changes)"

definition on_state_updates :: "(address \<times> bundle_account) list \<Rightarrow> aa_2d_pool \<Rightarrow> pool_tx list \<times> pool_tx list \<times> aa_2d_pool" where
  "on_state_updates state p = on_nonce_changes (fold (account_change p) state []) p"

subsection \<open>The best transactions\<close>

record best_transactions =
  independent :: "pending_tx list"
  best_by_id :: "(aa_2d_transaction_id, pending_tx) btree"
  invalid :: "aa_sequence_id set"

text \<open>Insertion into the ordered set of pending transactions.\<close>

fun set_insert :: "(pending_tx \<Rightarrow> nat) \<Rightarrow> pending_tx \<Rightarrow> pending_tx list \<Rightarrow> pending_tx list" where
  "set_insert r q [] = [q]"
| "set_insert r q (x # xs) = (if r q < r x then q # x # xs else if r q = r x then x # xs else x # set_insert r q xs)"

definition best_transactions_of :: "pool_env \<Rightarrow> aa_2d_pool \<Rightarrow> best_transactions" where
  "best_transactions_of env p =
     \<lparr>independent = fold (set_insert (rank env)) (bt_values (expiring_nonce_txs p)) (fold (set_insert (rank env)) (bt_values (independent_transactions p)) []),
      best_by_id = map (\<lambda>(i, t). (i, inner t)) (filter (\<lambda>e. is_pending (snd e)) (by_id p)),
      invalid = {}\<rparr>"

definition pop_best :: "best_transactions \<Rightarrow> ((aa_2d_transaction_id \<times> pending_tx) \<times> best_transactions) option" where
  "pop_best b = (if independent b = [] then None
     else let q = last (independent b); i = aa_transaction_id (transaction q)
          in Some ((i, q), b\<lparr>independent := butlast (independent b), best_by_id := bt_remove i (best_by_id b)\<rparr>))"

function next_tx_and_priority :: "pool_env \<Rightarrow> best_transactions \<Rightarrow> ((pool_tx \<times> u128 option) \<times> best_transactions) option" where
  "next_tx_and_priority env b = (case pop_best b of
     None \<Rightarrow> None
   | Some ((i, q), b') \<Rightarrow>
       if seq_id i \<in> invalid b' then next_tx_and_priority env b'
       else let b' = (case map_of (best_by_id b') (unlocks i) of
              Some unlocked \<Rightarrow> b'\<lparr>independent := set_insert (rank env) unlocked (independent b')\<rparr> | None \<Rightarrow> b')
            in Some ((transaction q, pd_priority q), b'))"
  by pat_completeness auto

termination
  by (relation "measure (length \<circ> independent \<circ> snd)") (auto simp: pop_best_def Let_def split: if_splits)

declare next_tx_and_priority.simps [simp del]

definition mark_invalid :: "pool_tx \<Rightarrow> best_transactions \<Rightarrow> best_transactions" where
  "mark_invalid tx b = (if is_expiring_nonce tx then b else b\<lparr>invalid := insert (seq_id (aa_transaction_id tx)) (invalid b)\<rparr>)"

text \<open>The first results of the iterator.\<close>

fun best_take :: "pool_env \<Rightarrow> nat \<Rightarrow> best_transactions \<Rightarrow> pool_tx list" where
  "best_take env 0 b = []"
| "best_take env (Suc k) b = (case next_tx_and_priority env b of None \<Rightarrow> [] | Some ((tx, _), b) \<Rightarrow> tx # best_take env k b)"

end
