(* ===== verification/Pool_2d_Maps.thy ===== *)
theory Pool_2d_Maps
  imports Pool_2d
begin

section \<open>What the operations of the pool do to its maps\<close>

text \<open>
  The loops of the pool walk over a contiguous part of the map of identifiers. Here their effect is stated on the lookup function of the map: which entries become
  pending, and which are removed.
\<close>

definition gapless :: "(aa_2d_transaction_id \<Rightarrow> 'v option) \<Rightarrow> aa_sequence_id \<Rightarrow> u64 \<Rightarrow> u64 \<Rightarrow> bool" where
  "gapless m s c k \<longleftrightarrow> (\<forall>j. c \<le> j \<longrightarrow> j \<le> k \<longrightarrow> m (AA2dTransactionId s j) \<noteq> None)"

lemma unat_suc: "x < y \<Longrightarrow> unat (x + 1) = Suc (unat x)" for x y :: "'a::len word"
proof -
  assume "x < y"
  then have "Suc (unat x) < 2 ^ LENGTH('a)" using unsigned_less [of y, where ?'a = nat] unfolding word_less_nat_alt by linarith
  then show ?thesis by (simp add: unat_word_ariths)
qed

lemma sat_suc: "x < y \<Longrightarrow> saturating_add x 1 = x + 1" for x y :: "'a::len word"
proof -
  assume "x < y"
  then have "Suc (unat x) < 2 ^ LENGTH('a)" using unsigned_less [of y, where ?'a = nat] unfolding word_less_nat_alt by linarith
  then show ?thesis by (simp add: saturating_add_def)
qed

lemma suc_le: "x < y \<Longrightarrow> x + 1 \<le> j \<longleftrightarrow> x < j" for x y j :: "'a::len word"
  by (simp add: word_le_nat_alt word_less_nat_alt unat_suc [of x y] Suc_le_eq)

lemma gapless_step:
  assumes "c < k" "m (AA2dTransactionId s c) \<noteq> None"
  shows "gapless m s c k \<longleftrightarrow> gapless m s (saturating_add c 1) k"
proof -
  have eq: "c \<le> j \<longleftrightarrow> j = c \<or> saturating_add c 1 \<le> j" for j using suc_le [OF assms(1)] sat_suc [OF assms(1)] by (metis order_le_less)
  show ?thesis using assms(2) unfolding gapless_def eq by auto
qed

lemma gapless_cong: "(\<And>j. c \<le> j \<Longrightarrow> j \<le> k \<Longrightarrow> m (AA2dTransactionId s j) = None \<longleftrightarrow> m' (AA2dTransactionId s j) = None) \<Longrightarrow> gapless m s c k = gapless m' s c k"
  by (auto simp: gapless_def)

lemma gapless_head: "gapless m s c k \<Longrightarrow> c \<le> k \<Longrightarrow> m (AA2dTransactionId s c) \<noteq> None"
  by (simp add: gapless_def)

subsection \<open>Ranges\<close>

lemma id_less: "a < b \<Longrightarrow> seq_id a \<le> seq_id b" for a b :: aa_2d_transaction_id
  by (auto simp: less_aa_2d_transaction_id_def)

lemma id_le_iff: "AA2dTransactionId s n \<le> i \<longleftrightarrow> s < seq_id i \<or> s = seq_id i \<and> n \<le> id_nonce i"
  by (auto simp: less_eq_aa_2d_transaction_id_def)

lemma id_less_same: "seq_id a = seq_id b \<Longrightarrow> a < b \<longleftrightarrow> id_nonce a < id_nonce b"
  by (auto simp: less_aa_2d_transaction_id_def)

definition in_range :: "aa_2d_transaction_id \<Rightarrow> aa_2d_transaction_id \<Rightarrow> bool" where
  "in_range i k \<longleftrightarrow> i \<le> k \<and> seq_id k = seq_id i"

lemma bt_ok_append: "bt_ok (a @ b) \<longleftrightarrow> bt_ok a \<and> bt_ok b \<and> (\<forall>x\<in>fst ` set a. \<forall>y\<in>fst ` set b. x < y)"
  by (auto simp: bt_ok_def sorted_wrt_append)

lemma split_range_parts:
  assumes "bt_ok m" "split_range i m = (b, e, a)"
  shows "m = b @ e @ a" "bt_ok e" "\<forall>x\<in>fst ` set b. \<not> in_range i x" "\<forall>x\<in>fst ` set e. in_range i x" "\<forall>x\<in>fst ` set a. \<not> in_range i x"
proof -
  have b: "b = takeWhile (\<lambda>e. fst e < i) m" and e: "e = takeWhile (\<lambda>e. seq_id (fst e) = seq_id i) (dropWhile (\<lambda>e. fst e < i) m)"
    and a: "a = dropWhile (\<lambda>e. seq_id (fst e) = seq_id i) (dropWhile (\<lambda>e. fst e < i) m)"
    using assms(2) by (auto simp: split_range_def Let_def)
  let ?d = "dropWhile (\<lambda>e. fst e < i) m"
  have m: "m = b @ ?d" "?d = e @ a" by (simp_all add: b e a)
  then show "m = b @ e @ a" by simp
  with assms(1) have ok: "bt_ok b" "bt_ok e" "bt_ok a" by (auto simp: bt_ok_append)
  have okd: "bt_ok ?d" using assms(1) m(1) by (metis bt_ok_append)
  show "bt_ok e" by (rule ok(2))
  show "\<forall>x\<in>fst ` set b. \<not> in_range i x" by (auto simp: b in_range_def dest: set_takeWhileD)
  have d: "i \<le> x" if "x \<in> fst ` set ?d" for x
  proof (cases ?d)
    case (Cons y ys)
    then have "\<not> fst y < i" using hd_dropWhile [of "\<lambda>e. fst e < i" m] by auto
    with okd Cons that show ?thesis by (auto simp: bt_ok_def)
  next
    case Nil
    with that show ?thesis by (simp only: Nil) simp
  qed
  have "set e \<subseteq> set ?d" "set a \<subseteq> set ?d" unfolding m(2) by auto
  note sub = this
  have "seq_id (fst x) = seq_id i" if "x \<in> set e" for x using that unfolding e by (auto dest: set_takeWhileD)
  with d sub(1) show "\<forall>x\<in>fst ` set e. in_range i x" unfolding in_range_def by blast
  show "\<forall>x\<in>fst ` set a. \<not> in_range i x"
  proof (cases a)
    case (Cons y ys)
    then have "seq_id (fst y) \<noteq> seq_id i" using hd_dropWhile [of "\<lambda>e. seq_id (fst e) = seq_id i" ?d] by (auto simp: a [symmetric])
    moreover have "i \<le> fst y" using d sub(2) Cons by auto
    ultimately have "seq_id i < seq_id (fst y)" by (auto simp: less_eq_aa_2d_transaction_id_def)
    then have "seq_id i < seq_id x" if "x \<in> fst ` set a" for x
      using that ok(3) Cons by (auto simp: bt_ok_def dest!: id_less)
    then show ?thesis unfolding in_range_def by (metis less_irrefl)
  qed simp
qed

lemma split_range_get:
  assumes "bt_ok m" "split_range i m = (b, e, a)"
  shows "map_of e k = (if in_range i k then map_of m k else None)"
proof -
  have "map_of b k = None" "map_of a k = None" if "in_range i k"
    using split_range_parts(3,5) [OF assms] that by (auto simp: map_of_eq_None_iff)
  moreover have "map_of e k = None" if "\<not> in_range i k" using split_range_parts(4) [OF assms] that by (auto simp: map_of_eq_None_iff)
  ultimately show ?thesis using split_range_parts(1) [OF assms] by (auto simp: map_add_def split: option.splits)
qed

lemma bt_ok_keys: "map fst m = map fst m' \<Longrightarrow> bt_ok m = bt_ok m'"
  by (simp add: bt_ok_def)

text \<open>Rewriting the values in a range.\<close>

lemma update_range:
  assumes "bt_ok m" "split_range i m = (b, e, a)" "map fst e' = map fst e"
  shows "bt_ok (b @ e' @ a)" "map_of (b @ e' @ a) k = (if in_range i k then map_of e' k else map_of m k)"
proof -
  have m: "m = b @ e @ a" by (rule split_range_parts [OF assms(1,2)])
  with assms(1,3) show "bt_ok (b @ e' @ a)" using bt_ok_keys [of "b @ e' @ a" m] by simp
  have k: "fst ` set e' = fst ` set e" using assms(3) by (metis list.set_map)
  have "map_of b k = None" "map_of a k = None" if "in_range i k"
    using split_range_parts(3,5) [OF assms(1,2)] that by (auto simp: map_of_eq_None_iff)
  moreover have "map_of e' k = None" "map_of e k = None" if "\<not> in_range i k"
    using split_range_parts(4) [OF assms(1,2)] k that by (auto simp: map_of_eq_None_iff)
  ultimately show "map_of (b @ e' @ a) k = (if in_range i k then map_of e' k else map_of m k)"
    by (auto simp: m map_add_def split: option.splits)
qed

lemma map_of_map_keyed: "map_of (map (\<lambda>(i, t). (i, g i t)) es) k = map_option (g k) (map_of es k)"
  by (induction es) auto

subsection \<open>The scan after an insertion\<close>

lemma later_entries:
  assumes "bt_ok ((i, t) # es)" "\<forall>e\<in>set ((i, t) # es). seq_id (fst e) = s"
  shows "bt_ok es" "\<forall>e\<in>set es. id_nonce i < id_nonce (fst e)" "\<forall>e\<in>set es. saturating_add (id_nonce i) 1 \<le> id_nonce (fst e)"
proof -
  show "bt_ok es" using assms(1) by (simp add: bt_ok_def)
  show l: "\<forall>e\<in>set es. id_nonce i < id_nonce (fst e)" using assms by (auto simp: bt_ok_def id_less_same)
  show "\<forall>e\<in>set es. saturating_add (id_nonce i) 1 \<le> id_nonce (fst e)"
  proof
    fix e assume "e \<in> set es"
    with l have "id_nonce i < id_nonce (fst e)" by blast
    then show "saturating_add (id_nonce i) 1 \<le> id_nonce (fst e)" using sat_suc suc_le by metis
  qed
qed

lemma gapless_Cons:
  assumes "bt_ok ((i, t) # es)" "seq_id i = s" "id_nonce i < k"
  shows "gapless (map_of ((i, t) # es)) s (id_nonce i) k = gapless (map_of es) s (saturating_add (id_nonce i) 1) k"
proof -
  have i: "AA2dTransactionId s (id_nonce i) = i" using assms(2) by (cases i) auto
  have "gapless (map_of ((i, t) # es)) s (id_nonce i) k = gapless (map_of ((i, t) # es)) s (saturating_add (id_nonce i) 1) k"
    by (rule gapless_step) (use assms(3) i in auto)
  also have "\<dots> = gapless (map_of es) s (saturating_add (id_nonce i) 1) k"
  proof (rule gapless_cong)
    fix j assume "saturating_add (id_nonce i) 1 \<le> j" "j \<le> k"
    then have "id_nonce i < j" using sat_suc [OF assms(3)] suc_le [OF assms(3)] by metis
    then have "AA2dTransactionId s j \<noteq> i" by (metis aa_2d_transaction_id.sel(2) less_irrefl)
    then show "map_of ((i, t) # es) (AA2dTransactionId s j) = None \<longleftrightarrow> map_of es (AA2dTransactionId s j) = None" by simp
  qed
  finally show ?thesis .
qed

lemma gapless_gap:
  assumes "bt_ok ((i, t) # es)" "\<forall>e\<in>set ((i, t) # es). seq_id (fst e) = s \<and> c \<le> id_nonce (fst e)" "id_nonce i \<noteq> c" "c \<le> k"
  shows "\<not> gapless (map_of ((i, t) # es)) s c k"
proof -
  have "c < id_nonce i" using assms(2,3) by auto
  moreover have "\<forall>e\<in>set es. id_nonce i < id_nonce (fst e)" using later_entries(2) [OF assms(1), of s] assms(2) by auto
  ultimately have "map_of ((i, t) # es) (AA2dTransactionId s c) = None" by (force simp: map_of_eq_None_iff)
  then show ?thesis using assms(4) unfolding gapless_def by blast
qed

lemma scan_inserted_spec:
  assumes "bt_ok es" "\<forall>e\<in>set es. seq_id (fst e) = s \<and> c \<le> id_nonce (fst e)"
  shows "fst (scan_inserted n c es) = map (\<lambda>(i, t). (i, if n \<le> id_nonce i \<and> gapless (map_of es) s c (id_nonce i) then t\<lparr>is_pending := True\<rparr> else t)) es"
    and "c \<le> n \<Longrightarrow> fst (snd (scan_inserted n c es)) = gapless (map_of es) s c n"
proof -
  have "fst (scan_inserted n c es) = map (\<lambda>(i, t). (i, if n \<le> id_nonce i \<and> gapless (map_of es) s c (id_nonce i) then t\<lparr>is_pending := True\<rparr> else t)) es \<and>
      (c \<le> n \<longrightarrow> fst (snd (scan_inserted n c es)) = gapless (map_of es) s c n)"
    using assms
  proof (induction es arbitrary: c)
    case Nil
    then show ?case by (auto simp: gapless_def)
  next
    case (Cons e es)
    obtain i t where e: "e = (i, t)" by (cases e)
    have ok: "bt_ok ((i, t) # es)" using Cons.prems(1) e by simp
    have seq: "\<forall>x\<in>set ((i, t) # es). seq_id (fst x) = s" "seq_id i = s" using Cons.prems(2) e by auto
    note later = later_entries [OF ok seq(1)]
    define M where "M = map_of ((i, t) # es)"
    show ?case unfolding e M_def [symmetric]
    proof (cases "id_nonce i = c")
      case False
      then have "\<not> gapless M s c (id_nonce (fst x))" if "x \<in> set ((i, t) # es)" for x
        unfolding M_def using gapless_gap [OF ok, of s c "id_nonce (fst x)"] Cons.prems(2) that e by auto
      then have "map (\<lambda>(j, u). (j, if n \<le> id_nonce j \<and> gapless M s c (id_nonce j) then u\<lparr>is_pending := True\<rparr> else u)) ((i, t) # es) = (i, t) # es"
        by (intro map_idI) (simp add: case_prod_beta)
      moreover have "\<not> gapless M s c n" if "c \<le> n" unfolding M_def using gapless_gap [OF ok, of s c n] Cons.prems(2) that e False by auto
      ultimately show "fst (scan_inserted n c ((i, t) # es)) = map (\<lambda>(j, u). (j, if n \<le> id_nonce j \<and> gapless M s c (id_nonce j) then u\<lparr>is_pending := True\<rparr> else u)) ((i, t) # es) \<and>
          (c \<le> n \<longrightarrow> fst (snd (scan_inserted n c ((i, t) # es))) = gapless M s c n)"
        using False by (simp del: list.map)
    next
      case True
      let ?c = "saturating_add c 1"
      have IH: "fst (scan_inserted n ?c es) = map (\<lambda>(i, t). (i, if n \<le> id_nonce i \<and> gapless (map_of es) s ?c (id_nonce i) then t\<lparr>is_pending := True\<rparr> else t)) es"
          "?c \<le> n \<Longrightarrow> fst (snd (scan_inserted n ?c es)) = gapless (map_of es) s ?c n"
        using Cons.IH [of ?c] later seq(1) True by auto
      have g: "gapless M s c k = gapless (map_of es) s ?c k" if "c < k" for k
        unfolding M_def using gapless_Cons [OF ok seq(2)] that True by auto
      have i: "AA2dTransactionId s c = i" using seq(2) True by (cases i) auto
      have g0: "gapless M s c c" by (auto simp: gapless_def M_def i dest: antisym)
      have rest: "fst (scan_inserted n ?c es) = map (\<lambda>(j, u). (j, if n \<le> id_nonce j \<and> gapless M s c (id_nonce j) then u\<lparr>is_pending := True\<rparr> else u)) es"
        unfolding IH(1) using g later(2) True by (intro map_cong) auto
      obtain es' ins pr where sc: "scan_inserted n ?c es = (es', ins, pr)" by (metis prod_cases3)
      have ins: "ins = gapless M s c n" if "c < n" using IH(2) g [OF that] that sc by (simp add: sat_suc suc_le)
      consider "c < n" | "c = n" | "n < c" by fastforce
      then show "fst (scan_inserted n c ((i, t) # es)) = map (\<lambda>(j, u). (j, if n \<le> id_nonce j \<and> gapless M s c (id_nonce j) then u\<lparr>is_pending := True\<rparr> else u)) ((i, t) # es) \<and>
          (c \<le> n \<longrightarrow> fst (snd (scan_inserted n c ((i, t) # es))) = gapless M s c n)"
        by cases (use rest ins g0 True sc in \<open>auto simp: Let_def\<close>)
    qed
  qed
  then show "fst (scan_inserted n c es) = map (\<lambda>(i, t). (i, if n \<le> id_nonce i \<and> gapless (map_of es) s c (id_nonce i) then t\<lparr>is_pending := True\<rparr> else t)) es"
    "c \<le> n \<Longrightarrow> fst (snd (scan_inserted n c es)) = gapless (map_of es) s c n" by auto
qed

subsection \<open>The scan after a nonce change\<close>

lemma promote_keys: "map fst (fst (promote c0 c es)) = map fst es"
  by (induction c0 c es rule: promote.induct) (auto simp: Let_def split: prod.splits)

lemma promote_spec:
  assumes "bt_ok es" "\<forall>e\<in>set es. seq_id (fst e) = s \<and> c \<le> id_nonce (fst e)"
  shows "\<exists>f. fst (promote c0 c es) = map (\<lambda>(i, t). (i, t\<lparr>is_pending := f i\<rparr>)) es \<and> (\<forall>i. gapless (map_of es) s c (id_nonce i) \<longrightarrow> i \<in> fst ` set es \<longrightarrow> f i)"
  using assms
proof (induction es arbitrary: c)
  case (Cons e es)
  obtain i t where e: "e = (i, t)" by (cases e)
  have ok: "bt_ok ((i, t) # es)" using Cons.prems(1) e by simp
  have seq: "\<forall>x\<in>set ((i, t) # es). seq_id (fst x) = s" "seq_id i = s" using Cons.prems(2) e by auto
  note later = later_entries [OF ok seq(1)]
  define M where "M = map_of ((i, t) # es)"
  have i_notin: "i \<notin> fst ` set es" using later(2) by auto
  show ?case unfolding e M_def [symmetric]
  proof (cases "id_nonce i = c")
    case False
    let ?f = "\<lambda>j. j \<noteq> i \<and> (\<exists>u. map_of es j = Some u \<and> is_pending u)"
    have "map (\<lambda>(j, u). (j, u\<lparr>is_pending := ?f j\<rparr>)) es = es"
    proof (rule map_idI)
      fix x assume x: "x \<in> set es"
      then have "map_of es (fst x) = Some (snd x)" "fst x \<noteq> i" using i_notin bt_ok_distinct [OF later(1)] by auto
      then show "(case x of (j, u) \<Rightarrow> (j, u\<lparr>is_pending := ?f j\<rparr>)) = x" by (cases x) simp
    qed
    moreover have "\<not> gapless M s c (id_nonce j)" if "j \<in> fst ` set ((i, t) # es)" for j
      unfolding M_def using gapless_gap [OF ok, of s c "id_nonce j"] Cons.prems(2) that e False by auto
    ultimately show "\<exists>f. fst (promote c0 c ((i, t) # es)) = map (\<lambda>(j, u). (j, u\<lparr>is_pending := f j\<rparr>)) ((i, t) # es) \<and>
        (\<forall>j. gapless M s c (id_nonce j) \<longrightarrow> j \<in> fst ` set ((i, t) # es) \<longrightarrow> f j)"
      using False by (intro exI [of _ ?f], simp) blast
  next
    case True
    let ?c = "saturating_add c 1"
    obtain f where f: "fst (promote c0 ?c es) = map (\<lambda>(i, t). (i, t\<lparr>is_pending := f i\<rparr>)) es"
        "\<And>j. gapless (map_of es) s ?c (id_nonce j) \<Longrightarrow> j \<in> fst ` set es \<Longrightarrow> f j"
      using Cons.IH [of ?c] later seq(1) True by auto
    have g: "f j" if "gapless M s c (id_nonce j)" "j \<in> fst ` set es" for j
    proof (rule f(2) [OF _ that(2)])
      have "c < id_nonce j" using later(2) that(2) True by auto
      then show "gapless (map_of es) s ?c (id_nonce j)" using that(1) gapless_Cons [OF ok seq(2), of "id_nonce j"] True by (simp add: M_def)
    qed
    have "map (\<lambda>(j, u). (j, u\<lparr>is_pending := f j\<rparr>)) es = map (\<lambda>(j, u). (j, u\<lparr>is_pending := (f(i := True)) j\<rparr>)) es"
      using i_notin by (intro map_cong) (auto simp: image_iff)
    then show "\<exists>f. fst (promote c0 c ((i, t) # es)) = map (\<lambda>(j, u). (j, u\<lparr>is_pending := f j\<rparr>)) ((i, t) # es) \<and>
        (\<forall>j. gapless M s c (id_nonce j) \<longrightarrow> j \<in> fst ` set ((i, t) # es) \<longrightarrow> f j)"
      using True f(1) g by (intro exI [of _ "f(i := True)"]) (auto simp: Let_def split: prod.splits)
  qed
qed simp

lemma promote_later: "\<forall>e\<in>set es. c0 < id_nonce (fst e) \<Longrightarrow> snd (snd (promote c0 c es)) = None"
  by (induction c0 c es rule: promote.induct) (auto simp: Let_def split: prod.splits)

lemma promote_independent:
  assumes "bt_ok es" "\<forall>e\<in>set es. seq_id (fst e) = s \<and> c \<le> id_nonce (fst e)"
  shows "snd (snd (promote c c es)) = map_option inner (map_of es (AA2dTransactionId s c))"
proof (cases es)
  case (Cons e es')
  obtain i t where e: "e = (i, t)" by (cases e)
  have ok: "bt_ok ((i, t) # es')" using assms(1) Cons e by simp
  have seq: "\<forall>x\<in>set ((i, t) # es'). seq_id (fst x) = s" "seq_id i = s" using assms(2) Cons e by auto
  note later = later_entries [OF ok seq(1)]
  show ?thesis
  proof (cases "id_nonce i = c")
    case True
    then have "AA2dTransactionId s c = i" using seq(2) by (cases i) auto
    moreover have "snd (snd (promote c (saturating_add c 1) es')) = None" using later(2) True by (intro promote_later) auto
    ultimately show ?thesis using True by (auto simp: Cons e Let_def split: prod.splits)
  next
    case False
    then have "c < id_nonce i" using assms(2) Cons e by auto
    with later(2) have "map_of ((i, t) # es') (AA2dTransactionId s c) = None" by (force simp: map_of_eq_None_iff)
    with False show ?thesis by (simp add: Cons e)
  qed
qed simp

text \<open>The part of a sorted range below a nonce, and the rest.\<close>

lemma nonce_split:
  fixes c :: u64 and k :: aa_2d_transaction_id
  assumes "bt_ok es" "\<forall>e\<in>set es. seq_id (fst e) = s"
  defines "lo \<equiv> takeWhile (\<lambda>e. id_nonce (fst e) < c) es" and "hi \<equiv> dropWhile (\<lambda>e. id_nonce (fst e) < c) es"
  shows "es = lo @ hi" "bt_ok hi" "\<forall>e\<in>set lo. id_nonce (fst e) < c" "\<forall>e\<in>set hi. c \<le> id_nonce (fst e)"
    "map_of hi k = (if c \<le> id_nonce k then map_of es k else None)" "map_of lo k = (if id_nonce k < c then map_of es k else None)"
proof -
  show es: "es = lo @ hi" by (simp add: lo_def hi_def)
  then show ok: "bt_ok hi" using assms(1) by (metis bt_ok_append)
  show lo: "\<forall>e\<in>set lo. id_nonce (fst e) < c" by (auto simp: lo_def dest: set_takeWhileD)
  show hi: "\<forall>e\<in>set hi. c \<le> id_nonce (fst e)"
  proof (cases hi)
    case (Cons y ys)
    then have y: "c \<le> id_nonce (fst y)" using hd_dropWhile [of "\<lambda>e. id_nonce (fst e) < c" es] by (auto simp: hi_def)
    have "seq_id (fst e) = s" if "e \<in> set hi" for e using assms(2) that es by auto
    then have "id_nonce (fst y) < id_nonce (fst e)" if "e \<in> set ys" for e using that ok Cons by (auto simp: bt_ok_def id_less_same)
    with y show ?thesis unfolding Cons by (metis order.trans less_imp_le set_ConsD)
  qed simp
  have "map_of lo k = None" if "c \<le> id_nonce k" using lo that by (force simp: map_of_eq_None_iff)
  moreover have "map_of hi k = None" if "id_nonce k < c" using hi that by (force simp: map_of_eq_None_iff)
  ultimately show "map_of hi k = (if c \<le> id_nonce k then map_of es k else None)" "map_of lo k = (if id_nonce k < c then map_of es k else None)"
    by (auto simp: es not_le not_less map_add_def split: option.splits)
qed

end
