(* ===== verification/Pool_2d_Invariant.thy ===== *)
theory Pool_2d_Invariant
  imports Pool_2d_Maps
begin

section \<open>The invariant of the pool\<close>

text \<open>
  How the indexes of the pool belong together, relative to the nonces \<open>ch\<close> that the chain has for every sequence. \<open>A\<close> is a set of sequences whose nonces are in
  different storage slots.
\<close>

abbreviation get_id :: "aa_2d_pool \<Rightarrow> aa_2d_transaction_id \<Rightarrow> internal_tx option" where
  "get_id p \<equiv> map_of (by_id p)"

definition maps_ok :: "aa_2d_pool \<Rightarrow> bool" where
  "maps_ok p \<longleftrightarrow> bt_ok (independent_transactions p) \<and> bt_ok (by_id p) \<and> bt_ok (by_hash p) \<and> bt_ok (expiring_nonce_txs p)"

text \<open>The index by hash: it holds the sequential transactions and the expiring ones, each under its hash.\<close>

definition hashes_ok :: "aa_2d_pool \<Rightarrow> bool" where
  "hashes_ok p \<longleftrightarrow>
     (\<forall>i t. get_id p i = Some t \<longrightarrow> aa_transaction_id (transaction (inner t)) = i \<and> \<not> is_expiring_nonce (transaction (inner t)) \<and>
        map_of (by_hash p) (tx_hash (transaction (inner t))) = Some (transaction (inner t))) \<and>
     (\<forall>h tx. map_of (by_hash p) h = Some tx \<longrightarrow> tx_hash tx = h \<and>
        (if is_expiring_nonce tx then \<exists>q. map_of (expiring_nonce_txs p) h = Some q
         else \<exists>t. get_id p (aa_transaction_id tx) = Some t \<and> transaction (inner t) = tx)) \<and>
     (\<forall>h q. map_of (expiring_nonce_txs p) h = Some q \<longrightarrow> is_expiring_nonce (transaction q) \<and> map_of (by_hash p) h = Some (transaction q))"

text \<open>The independent transaction of a sequence is a pending one of its entries, not above the nonce of the chain, and the entry with that nonce is independent.\<close>

definition independent_ok :: "(aa_sequence_id \<Rightarrow> u64) \<Rightarrow> aa_2d_pool \<Rightarrow> bool" where
  "independent_ok ch p \<longleftrightarrow>
     (\<forall>s q. map_of (independent_transactions p) s = Some q \<longrightarrow>
        (\<exists>k t. get_id p (AA2dTransactionId s k) = Some t \<and> inner t = q \<and> is_pending t \<and> k \<le> ch s)) \<and>
     (\<forall>s t. get_id p (AA2dTransactionId s (ch s)) = Some t \<longrightarrow> map_of (independent_transactions p) s = Some (inner t))"

text \<open>Every transaction that is executable, that is, without a gap between it and the chain, is marked as pending.\<close>

definition promoted_ok :: "(aa_sequence_id \<Rightarrow> u64) \<Rightarrow> aa_2d_pool \<Rightarrow> bool" where
  "promoted_ok ch p \<longleftrightarrow> (\<forall>s k t. get_id p (AA2dTransactionId s k) = Some t \<longrightarrow> ch s \<le> k \<longrightarrow> gapless (get_id p) s (ch s) k \<longrightarrow> is_pending t)"

definition slots_ok :: "pool_env \<Rightarrow> aa_sequence_id set \<Rightarrow> aa_2d_pool \<Rightarrow> bool" where
  "slots_ok env A p \<longleftrightarrow>
     (\<forall>i. get_id p i \<noteq> None \<longrightarrow> sq_nonce_key (seq_id i) \<noteq> 0 \<longrightarrow> seq_id_to_slot p (seq_id i) = Some (nonce_slot env (seq_id i))) \<and>
     (\<forall>sl s. slot_to_seq_id p sl = Some s \<longrightarrow> seq_id_to_slot p s = Some sl) \<and>
     (\<forall>s sl. seq_id_to_slot p s = Some sl \<longrightarrow> slot_to_seq_id p sl = Some s \<and> sl = nonce_slot env s \<and> s \<in> A \<and> sq_nonce_key s \<noteq> 0)"

definition no_outdated :: "(aa_sequence_id \<Rightarrow> u64) \<Rightarrow> aa_2d_pool \<Rightarrow> bool" where
  "no_outdated ch p \<longleftrightarrow> (\<forall>s k. get_id p (AA2dTransactionId s k) \<noteq> None \<longrightarrow> ch s \<le> k)"

text \<open>The invariant while mined transactions are still in the pool, and the invariant between the operations.\<close>

definition pool_mid :: "pool_env \<Rightarrow> aa_sequence_id set \<Rightarrow> (aa_sequence_id \<Rightarrow> u64) \<Rightarrow> aa_2d_pool \<Rightarrow> bool" where
  "pool_mid env A ch p \<longleftrightarrow> maps_ok p \<and> hashes_ok p \<and> independent_ok ch p \<and> promoted_ok ch p \<and> slots_ok env A p"

definition pool_inv :: "pool_env \<Rightarrow> aa_sequence_id set \<Rightarrow> (aa_sequence_id \<Rightarrow> u64) \<Rightarrow> aa_2d_pool \<Rightarrow> bool" where
  "pool_inv env A ch p \<longleftrightarrow> pool_mid env A ch p \<and> no_outdated ch p"

lemmas pool_parts = maps_ok_def hashes_ok_def independent_ok_def promoted_ok_def slots_ok_def

lemma hashes_entry:
  assumes "hashes_ok p" "get_id p i = Some t"
  shows "aa_transaction_id (transaction (inner t)) = i" "\<not> is_expiring_nonce (transaction (inner t))"
    "map_of (by_hash p) (tx_hash (transaction (inner t))) = Some (transaction (inner t))"
  using assms by (auto simp: hashes_ok_def)

lemma hashes_hash:
  assumes "hashes_ok p" "map_of (by_hash p) h = Some tx"
  shows "tx_hash tx = h" "is_expiring_nonce tx \<Longrightarrow> \<exists>q. map_of (expiring_nonce_txs p) h = Some q"
    "\<not> is_expiring_nonce tx \<Longrightarrow> \<exists>t. get_id p (aa_transaction_id tx) = Some t \<and> transaction (inner t) = tx"
  using assms by (auto simp: hashes_ok_def)

lemma hashes_expiring:
  assumes "hashes_ok p" "map_of (expiring_nonce_txs p) h = Some q"
  shows "is_expiring_nonce (transaction q)" "map_of (by_hash p) h = Some (transaction q)"
  using assms by (auto simp: hashes_ok_def)

lemma hashes_okI:
  assumes "\<And>i t. get_id p i = Some t \<Longrightarrow> aa_transaction_id (transaction (inner t)) = i"
    and "\<And>i t. get_id p i = Some t \<Longrightarrow> \<not> is_expiring_nonce (transaction (inner t))"
    and "\<And>i t. get_id p i = Some t \<Longrightarrow> map_of (by_hash p) (tx_hash (transaction (inner t))) = Some (transaction (inner t))"
    and "\<And>h tx. map_of (by_hash p) h = Some tx \<Longrightarrow> tx_hash tx = h"
    and "\<And>h tx. map_of (by_hash p) h = Some tx \<Longrightarrow> is_expiring_nonce tx \<Longrightarrow> \<exists>q. map_of (expiring_nonce_txs p) h = Some q"
    and "\<And>h tx. map_of (by_hash p) h = Some tx \<Longrightarrow> \<not> is_expiring_nonce tx \<Longrightarrow> \<exists>t. get_id p (aa_transaction_id tx) = Some t \<and> transaction (inner t) = tx"
    and "\<And>h q. map_of (expiring_nonce_txs p) h = Some q \<Longrightarrow> is_expiring_nonce (transaction q)"
    and "\<And>h q. map_of (expiring_nonce_txs p) h = Some q \<Longrightarrow> map_of (by_hash p) h = Some (transaction q)"
  shows "hashes_ok p"
  using assms by (auto simp: hashes_ok_def)

lemma independent_entry:
  assumes "independent_ok ch p" "map_of (independent_transactions p) s = Some q"
  obtains k t where "get_id p (AA2dTransactionId s k) = Some t" "inner t = q" "is_pending t" "k \<le> ch s"
  using assms unfolding independent_ok_def by blast

lemma independent_head: "independent_ok ch p \<Longrightarrow> get_id p (AA2dTransactionId s (ch s)) = Some t \<Longrightarrow> map_of (independent_transactions p) s = Some (inner t)"
  unfolding independent_ok_def by blast

lemma slots_entry: "slots_ok env A p \<Longrightarrow> get_id p i = Some t \<Longrightarrow> sq_nonce_key (seq_id i) \<noteq> 0 \<Longrightarrow> seq_id_to_slot p (seq_id i) = Some (nonce_slot env (seq_id i))"
  unfolding slots_ok_def by blast

lemma slots_slot: "slots_ok env A p \<Longrightarrow> slot_to_seq_id p sl = Some s \<Longrightarrow> seq_id_to_slot p s = Some sl"
  unfolding slots_ok_def by blast

lemma slots_seq:
  "slots_ok env A p \<Longrightarrow> seq_id_to_slot p s = Some sl \<Longrightarrow> slot_to_seq_id p sl = Some s \<and> sl = nonce_slot env s \<and> s \<in> A \<and> sq_nonce_key s \<noteq> 0"
  unfolding slots_ok_def by blast

lemma slots_okI:
  assumes "\<And>i t. get_id p i = Some t \<Longrightarrow> sq_nonce_key (seq_id i) \<noteq> 0 \<Longrightarrow> seq_id_to_slot p (seq_id i) = Some (nonce_slot env (seq_id i))"
    and "\<And>sl s. slot_to_seq_id p sl = Some s \<Longrightarrow> seq_id_to_slot p s = Some sl"
    and "\<And>s sl. seq_id_to_slot p s = Some sl \<Longrightarrow> slot_to_seq_id p sl = Some s \<and> sl = nonce_slot env s \<and> s \<in> A \<and> sq_nonce_key s \<noteq> 0"
  shows "slots_ok env A p"
  using assms unfolding slots_ok_def by blast

lemma slots_ok_weaken:
  assumes "slots_ok env A p" "seq_id_to_slot p' = seq_id_to_slot p" "slot_to_seq_id p' = slot_to_seq_id p"
    and "\<And>i. get_id p' i \<noteq> None \<Longrightarrow> get_id p i \<noteq> None \<or> sq_nonce_key (seq_id i) = 0"
  shows "slots_ok env A p'"
proof (rule slots_okI, unfold assms(2,3))
  fix i t assume "get_id p' i = Some t" "sq_nonce_key (seq_id i) \<noteq> 0"
  then obtain t' where "get_id p i = Some t'" using assms(4) [of i] by auto
  then show "seq_id_to_slot p (seq_id i) = Some (nonce_slot env (seq_id i))" by (rule slots_entry [OF assms(1)]) fact
qed (rule slots_slot [OF assms(1)] slots_seq [OF assms(1)], assumption)+

lemma new_pool_inv: "pool_inv env A ch (new_2d_pool limit)"
  by (simp add: pool_inv_def pool_mid_def pool_parts no_outdated_def new_2d_pool_def)

subsection \<open>Removal\<close>

lemma forget_slot_parts:
  "by_id (forget_slot s q) = by_id q" "by_hash (forget_slot s q) = by_hash q" "expiring_nonce_txs (forget_slot s q) = expiring_nonce_txs q"
  "independent_transactions (forget_slot s q) = independent_transactions q" "max_txs (forget_slot s q) = max_txs q" "submission_id (forget_slot s q) = submission_id q"
  by (auto simp: forget_slot_def split: option.splits)

text \<open>The pool after the removal of an entry, by its parts.\<close>

lemma remove_by_id_parts:
  assumes "get_id p i = Some t" "remove_transaction_by_id i p = (r, p')"
  shows "r = Some (transaction (inner t))" "by_id p' = bt_remove i (by_id p)" "by_hash p' = bt_remove (tx_hash (transaction (inner t))) (by_hash p)"
    "expiring_nonce_txs p' = expiring_nonce_txs p"
    "independent_transactions p' = (case map_of (independent_transactions p) (seq_id i) of
       Some q \<Rightarrow> if tx_nonce (transaction q) = id_nonce i then bt_remove (seq_id i) (independent_transactions p) else independent_transactions p
     | None \<Rightarrow> independent_transactions p)"
    "slot_to_seq_id p' = slot_to_seq_id (forget_slot (seq_id i) (p\<lparr>by_id := bt_remove i (by_id p)\<rparr>))"
    "seq_id_to_slot p' = seq_id_to_slot (forget_slot (seq_id i) (p\<lparr>by_id := bt_remove i (by_id p)\<rparr>))"
    "max_txs p' = max_txs p" "submission_id p' = submission_id p"
proof -
  have ri: "by_id (remove_independent i q) = by_id q" "by_hash (remove_independent i q) = by_hash q" "expiring_nonce_txs (remove_independent i q) = expiring_nonce_txs q"
      "slot_to_seq_id (remove_independent i q) = slot_to_seq_id q" "seq_id_to_slot (remove_independent i q) = seq_id_to_slot q" "max_txs (remove_independent i q) = max_txs q"
      "submission_id (remove_independent i q) = submission_id q" for q
    by (auto simp: remove_independent_def split: option.splits)
  have p': "p' = (let q = remove_independent i (forget_slot (seq_id i) (p\<lparr>by_id := bt_remove i (by_id p)\<rparr>)) in
      q\<lparr>by_hash := bt_remove (tx_hash (transaction (inner t))) (by_hash q)\<rparr>)" and "r = Some (transaction (inner t))"
    using assms by (simp_all add: remove_transaction_by_id_def Let_def)
  then show "r = Some (transaction (inner t))" by simp
  show "by_id p' = bt_remove i (by_id p)" "by_hash p' = bt_remove (tx_hash (transaction (inner t))) (by_hash p)" "expiring_nonce_txs p' = expiring_nonce_txs p"
    "slot_to_seq_id p' = slot_to_seq_id (forget_slot (seq_id i) (p\<lparr>by_id := bt_remove i (by_id p)\<rparr>))"
    "seq_id_to_slot p' = seq_id_to_slot (forget_slot (seq_id i) (p\<lparr>by_id := bt_remove i (by_id p)\<rparr>))"
    "max_txs p' = max_txs p" "submission_id p' = submission_id p"
    by (simp_all add: p' Let_def forget_slot_parts ri)
  show "independent_transactions p' = (case map_of (independent_transactions p) (seq_id i) of
       Some q \<Rightarrow> if tx_nonce (transaction q) = id_nonce i then bt_remove (seq_id i) (independent_transactions p) else independent_transactions p
     | None \<Rightarrow> independent_transactions p)"
    by (simp add: p' Let_def) (auto simp: remove_independent_def forget_slot_parts split: option.splits)
qed

lemma remove_by_id_none: "get_id p i = None \<Longrightarrow> remove_transaction_by_id i p = (None, p)"
  by (simp add: remove_transaction_by_id_def)

lemma descendants_empty:
  assumes "bt_ok m"
  shows "descendant_txs (AA2dTransactionId s 0) m = [] \<longleftrightarrow> (\<forall>k. map_of m (AA2dTransactionId s k) = None)"
proof -
  obtain b e a where sp: "split_range (AA2dTransactionId s 0) m = (b, e, a)" by (metis prod_cases3)
  have "e = [] \<longleftrightarrow> (\<forall>k. map_of e k = None)" by (cases e) (auto simp: map_of_eq_None_iff)
  also have "\<dots> \<longleftrightarrow> (\<forall>k. seq_id k = s \<longrightarrow> map_of m k = None)"
    using split_range_get [OF assms sp] by (auto simp: in_range_def less_eq_aa_2d_transaction_id_def)
  also have "\<dots> \<longleftrightarrow> (\<forall>k. map_of m (AA2dTransactionId s k) = None)" by (metis aa_2d_transaction_id.collapse aa_2d_transaction_id.sel(1))
  finally show ?thesis by (simp add: descendant_txs_def sp)
qed

lemma slots_ok_forget:
  assumes "slots_ok env A p" "maps_ok p"
  shows "slots_ok env A (forget_slot s (p\<lparr>by_id := bt_remove i (by_id p)\<rparr>))"
proof -
  let ?p = "p\<lparr>by_id := bt_remove i (by_id p)\<rparr>"
  have ok: "bt_ok (by_id ?p)" using assms(2) by (simp add: maps_ok_def bt.remove_ok)
  have p: "slots_ok env A ?p"
    by (rule slots_ok_weaken [OF assms(1)]) (auto simp: bt_remove_get split: if_splits)
  show ?thesis
  proof (cases "descendant_txs (AA2dTransactionId s 0) (by_id ?p) = [] \<and> seq_id_to_slot ?p s \<noteq> None")
    case True
    then obtain sl where sl: "seq_id_to_slot ?p s = Some sl" by auto
    have none: "get_id ?p k = None" if "seq_id k = s" for k
      using True that descendants_empty [OF ok, of s] by (metis aa_2d_transaction_id.collapse)
    have f: "forget_slot s ?p = ?p\<lparr>seq_id_to_slot := (seq_id_to_slot ?p)(s := None), slot_to_seq_id := (slot_to_seq_id ?p)(sl := None)\<rparr>"
      using True sl by (simp add: forget_slot_def)
    have sls: "slot_to_seq_id ?p sl = Some s" using slots_seq [OF p sl] by blast
    show ?thesis
    proof (rule slots_okI)
      fix k t assume "get_id (forget_slot s ?p) k = Some t" "sq_nonce_key (seq_id k) \<noteq> 0"
      then have "get_id ?p k = Some t" "seq_id k \<noteq> s" using none by (auto simp: f)
      then show "seq_id_to_slot (forget_slot s ?p) (seq_id k) = Some (nonce_slot env (seq_id k))"
        using slots_entry [OF p \<open>get_id ?p k = Some t\<close> \<open>sq_nonce_key (seq_id k) \<noteq> 0\<close>] by (simp add: f)
    next
      fix x s' assume "slot_to_seq_id (forget_slot s ?p) x = Some s'"
      then have "slot_to_seq_id ?p x = Some s'" "x \<noteq> sl" by (auto simp: f split: if_splits)
      moreover then have "seq_id_to_slot ?p s' = Some x" using slots_slot [OF p] by blast
      ultimately show "seq_id_to_slot (forget_slot s ?p) s' = Some x" using sl by (auto simp: f)
    next
      fix s' x assume "seq_id_to_slot (forget_slot s ?p) s' = Some x"
      then have "seq_id_to_slot ?p s' = Some x" "s' \<noteq> s" by (auto simp: f split: if_splits)
      with slots_seq [OF p, of s' x] sls show "slot_to_seq_id (forget_slot s ?p) x = Some s' \<and> x = nonce_slot env s' \<and> s' \<in> A \<and> sq_nonce_key s' \<noteq> 0"
        by (auto simp: f)
    qed
  next
    case False
    then have "forget_slot s ?p = ?p" by (auto simp: forget_slot_def split: option.splits)
    with p show ?thesis by simp
  qed
qed

lemma remove_by_id_mid:
  assumes "pool_mid env A ch p" "remove_transaction_by_id i p = (r, p')"
  shows "pool_mid env A ch p'"
proof (cases "get_id p i")
  case None
  with assms show ?thesis by (simp add: remove_by_id_none)
next
  case (Some t)
  note p' = remove_by_id_parts [OF Some assms(2)]
  have m: "maps_ok p" and h: "hashes_ok p" and ind: "independent_ok ch p" and pr: "promoted_ok ch p" and sl: "slots_ok env A p"
    using assms(1) by (auto simp: pool_mid_def)
  let ?tx = "transaction (inner t)"
  have tx: "aa_transaction_id ?tx = i" "map_of (by_hash p) (tx_hash ?tx) = Some ?tx" "\<not> is_expiring_nonce ?tx" using h Some by (auto simp: hashes_ok_def)
  have g: "get_id p' = (get_id p)(i := None)" "map_of (by_hash p') = (map_of (by_hash p))(tx_hash ?tx := None)" by (simp_all add: p' bt_remove_get)
  have "maps_ok p'" using m by (auto simp: maps_ok_def p' bt.remove_ok split: option.splits)
  moreover have "hashes_ok p'"
  proof -
    have old: "tx_hash (transaction (inner u)) \<noteq> tx_hash ?tx" if "get_id p j = Some u" "j \<noteq> i" for j u
      using hashes_entry(1,3) [OF h that(1)] that(2) tx(1,2) by (metis option.inject)
    show ?thesis
    proof (rule hashes_okI)
      fix j u assume "get_id p' j = Some u"
      then have u: "get_id p j = Some u" "j \<noteq> i" by (auto simp: g split: if_splits)
      show "aa_transaction_id (transaction (inner u)) = j" "\<not> is_expiring_nonce (transaction (inner u))"
        "map_of (by_hash p') (tx_hash (transaction (inner u))) = Some (transaction (inner u))"
        using hashes_entry [OF h u(1)] old [OF u] by (simp_all add: g)
    next
      fix k x assume "map_of (by_hash p') k = Some x"
      then have x: "map_of (by_hash p) k = Some x" "k \<noteq> tx_hash ?tx" by (auto simp: g split: if_splits)
      then show "tx_hash x = k" "is_expiring_nonce x \<Longrightarrow> \<exists>q. map_of (expiring_nonce_txs p') k = Some q" using hashes_hash [OF h x(1)] by (simp_all add: p')
      assume "\<not> is_expiring_nonce x"
      then obtain u where "get_id p (aa_transaction_id x) = Some u" "transaction (inner u) = x" using hashes_hash [OF h x(1)] by blast
      moreover then have "aa_transaction_id x \<noteq> i" using Some x(2) hashes_hash(1) [OF h x(1)] by auto
      ultimately show "\<exists>u. get_id p' (aa_transaction_id x) = Some u \<and> transaction (inner u) = x" by (simp add: g)
    next
      fix k q assume "map_of (expiring_nonce_txs p') k = Some q"
      then have "map_of (expiring_nonce_txs p) k = Some q" by (simp add: p')
      note q = hashes_expiring [OF h this]
      then have "k \<noteq> tx_hash ?tx" using tx by auto
      with q show "is_expiring_nonce (transaction q)" "map_of (by_hash p') k = Some (transaction q)" by (simp_all add: g)
    qed
  qed
  moreover have "independent_ok ch p'"
  proof -
    have nn: "tx_nonce (transaction (inner u)) = id_nonce j" if "get_id p j = Some u" for j u
      using hashes_entry(1) [OF h that] by (auto simp: aa_transaction_id_def)
    have I: "map_of (independent_transactions p') s = (if s = seq_id i \<and> map_of (independent_transactions p) s = Some (inner t) then None else map_of (independent_transactions p) s)" for s
    proof (cases "map_of (independent_transactions p) (seq_id i)")
      case (Some q)
      then obtain k u where u: "get_id p (AA2dTransactionId (seq_id i) k) = Some u" "inner u = q" by (rule independent_entry [OF ind])
      have "tx_nonce (transaction q) = id_nonce i \<longleftrightarrow> q = inner t"
        using nn [OF u(1)] nn [OF \<open>get_id p i = Some t\<close>] u \<open>get_id p i = Some t\<close> by (metis aa_2d_transaction_id.collapse aa_2d_transaction_id.sel(2) option.inject)
      then show ?thesis by (auto simp: p'(5) Some bt_remove_get)
    qed (auto simp: p'(5))
    have "\<exists>k u. get_id p' (AA2dTransactionId s k) = Some u \<and> inner u = q \<and> is_pending u \<and> k \<le> ch s" if q: "map_of (independent_transactions p') s = Some q" for s q
    proof -
      from q have "map_of (independent_transactions p) s = Some q" "\<not> (s = seq_id i \<and> q = inner t)" by (auto simp: I split: if_splits)
      moreover then obtain k u where u: "get_id p (AA2dTransactionId s k) = Some u" "inner u = q" "is_pending u" "k \<le> ch s" by - (rule independent_entry [OF ind])
      ultimately have "AA2dTransactionId s k \<noteq> i" using Some by auto
      with u show ?thesis by (auto simp: g)
    qed
    moreover have "map_of (independent_transactions p') s = Some (inner u)" if u: "get_id p' (AA2dTransactionId s (ch s)) = Some u" for s u
    proof -
      from u have u': "get_id p (AA2dTransactionId s (ch s)) = Some u" "AA2dTransactionId s (ch s) \<noteq> i" by (auto simp: g split: if_splits)
      then have "inner u \<noteq> inner t" using hashes_entry(1) [OF h] Some by metis
      then show ?thesis using independent_head [OF ind u'(1)] by (simp add: I)
    qed
    ultimately show ?thesis by (auto simp: independent_ok_def)
  qed
  moreover have "promoted_ok ch p'" using pr unfolding promoted_ok_def g gapless_def by (metis (mono_tags, lifting) fun_upd_apply option.distinct(1))
  moreover have "slots_ok env A p'" by (rule slots_ok_weaken [OF slots_ok_forget [OF sl m, of "seq_id i" i]]) (simp_all add: p' forget_slot_parts)
  ultimately show ?thesis by (simp add: pool_mid_def)
qed

end
