(* ===== verification/Pool_2d_Steps.thy ===== *)
theory Pool_2d_Steps
  imports Pool_2d_Invariant
begin

section \<open>Every operation of the pool keeps its invariant\<close>

subsection \<open>Removals\<close>

lemma remove_by_id_get: "remove_transaction_by_id i p = (r, p') \<Longrightarrow> get_id p' = (get_id p)(i := None)"
proof (cases "get_id p i")
  case None
  then show "remove_transaction_by_id i p = (r, p') \<Longrightarrow> ?thesis" by (simp add: remove_by_id_none fun_upd_idem)
next
  case (Some t)
  assume "remove_transaction_by_id i p = (r, p')"
  from remove_by_id_parts(2) [OF Some this] show ?thesis by (simp add: bt_remove_get)
qed

lemma remove_by_id_inv:
  assumes "pool_inv env A ch p" "remove_transaction_by_id i p = (r, p')"
  shows "pool_inv env A ch p'"
  using assms remove_by_id_mid [OF _ assms(2), of env A ch] by (auto simp: pool_inv_def no_outdated_def remove_by_id_get [OF assms(2)])

lemma push_removed_snd: "snd (push_removed r txs) = snd r"
  by (auto simp: push_removed_def split: prod.splits option.splits)

text \<open>Dropping an expiring transaction.\<close>

lemma drop_expiring_mid:
  assumes "pool_mid env A ch p" "map_of (expiring_nonce_txs p) h = Some q"
  shows "pool_mid env A ch (p\<lparr>expiring_nonce_txs := bt_remove h (expiring_nonce_txs p), by_hash := bt_remove h (by_hash p)\<rparr>)" (is "pool_mid env A ch ?p")
proof -
  have h: "hashes_ok p" "maps_ok p" "independent_ok ch p" "promoted_ok ch p" "slots_ok env A p" using assms(1) by (auto simp: pool_mid_def)
  have q: "is_expiring_nonce (transaction q)" "map_of (by_hash p) h = Some (transaction q)" using hashes_expiring [OF h(1) assms(2)] by simp_all
  have "hashes_ok ?p"
  proof (rule hashes_okI)
    fix i t assume "get_id ?p i = Some t"
    then have t: "get_id p i = Some t" by simp
    note e = hashes_entry [OF h(1) t]
    with q have "tx_hash (transaction (inner t)) \<noteq> h" by auto
    with e show "aa_transaction_id (transaction (inner t)) = i" "\<not> is_expiring_nonce (transaction (inner t))"
      "map_of (by_hash ?p) (tx_hash (transaction (inner t))) = Some (transaction (inner t))" by (simp_all add: bt_remove_get)
  next
    fix k x assume "map_of (by_hash ?p) k = Some x"
    then have x: "map_of (by_hash p) k = Some x" "k \<noteq> h" by (auto simp: bt_remove_get split: if_splits)
    note e = hashes_hash [OF h(1) x(1)]
    show "tx_hash x = k" by (rule e)
    show "is_expiring_nonce x \<Longrightarrow> \<exists>q. map_of (expiring_nonce_txs ?p) k = Some q" using e(2) x(2) by (simp add: bt_remove_get)
    show "\<not> is_expiring_nonce x \<Longrightarrow> \<exists>t. get_id ?p (aa_transaction_id x) = Some t \<and> transaction (inner t) = x" using e(3) by simp
  next
    fix k x assume "map_of (expiring_nonce_txs ?p) k = Some x"
    then have x: "map_of (expiring_nonce_txs p) k = Some x" "k \<noteq> h" by (auto simp: bt_remove_get split: if_splits)
    with hashes_expiring [OF h(1) x(1)] show "is_expiring_nonce (transaction x)" "map_of (by_hash ?p) k = Some (transaction x)" by (simp_all add: bt_remove_get)
  qed
  moreover have "slots_ok env A ?p" by (rule slots_ok_weaken [OF h(5)]) simp_all
  moreover have "maps_ok ?p" "independent_ok ch ?p" "promoted_ok ch ?p" using h by (simp_all add: maps_ok_def bt.remove_ok independent_ok_def promoted_ok_def)
  ultimately show ?thesis by (simp add: pool_mid_def)
qed

lemma drop_expiring_inv:
  "pool_inv env A ch p \<Longrightarrow> map_of (expiring_nonce_txs p) h = Some q \<Longrightarrow>
   pool_inv env A ch (p\<lparr>expiring_nonce_txs := bt_remove h (expiring_nonce_txs p), by_hash := bt_remove h (by_hash p)\<rparr>)"
  using drop_expiring_mid [of env A ch p h q] by (simp add: pool_inv_def no_outdated_def)

text \<open>Removing a hash first and then the entry is the same as removing the entry.\<close>

lemma remove_by_id_after_hash:
  assumes "get_id p i = Some t"
  shows "remove_transaction_by_id i (p\<lparr>by_hash := bt_remove (tx_hash (transaction (inner t))) (by_hash p)\<rparr>) = remove_transaction_by_id i p"
proof -
  have f: "forget_slot s (q\<lparr>by_hash := H\<rparr>) = (forget_slot s q)\<lparr>by_hash := H\<rparr>" for s q H by (simp add: forget_slot_def split: option.splits)
  have r: "remove_independent i (q\<lparr>by_hash := H\<rparr>) = (remove_independent i q)\<lparr>by_hash := H\<rparr>" for q H by (simp add: remove_independent_def split: option.splits)
  have id: "bt_remove h (bt_remove h m) = bt_remove h m" for h and m :: "(b256 \<times> pool_tx) list" by (simp add: bt_remove_def)
  have b: "by_hash (remove_independent i q) = by_hash q" for q by (simp add: remove_independent_def split: option.splits)
  have u: "p\<lparr>by_hash := H, by_id := m\<rparr> = p\<lparr>by_id := m, by_hash := H\<rparr>" for H m by simp
  show ?thesis using assms by (simp add: remove_transaction_by_id_def Let_def u f r id b forget_slot_parts)
qed

lemma remove_by_hash_inv:
  assumes "pool_inv env A ch p" "remove_transaction_by_hash h p = (r, p')"
  shows "pool_inv env A ch p'"
proof (cases "map_of (by_hash p) h")
  case None
  with assms show ?thesis by (simp add: remove_transaction_by_hash_def)
next
  case (Some tx)
  have h: "hashes_ok p" using assms(1) by (simp add: pool_inv_def pool_mid_def)
  show ?thesis
  proof (cases "is_expiring_nonce tx")
    case True
    then obtain q where "map_of (expiring_nonce_txs p) h = Some q" using hashes_hash(2) [OF h Some] by blast
    note inv = drop_expiring_inv [OF assms(1) this]
    have "p' = p\<lparr>expiring_nonce_txs := bt_remove h (expiring_nonce_txs p), by_hash := bt_remove h (by_hash p)\<rparr>"
      using True Some assms(2) by (auto simp: remove_transaction_by_hash_def Let_def)
    with inv show ?thesis by simp
  next
    case False
    then obtain t where t: "get_id p (aa_transaction_id tx) = Some t" "transaction (inner t) = tx" using hashes_hash(3) [OF h Some] by blast
    have "tx_hash tx = h" using hashes_hash(1) [OF h Some] .
    with remove_by_id_after_hash [OF t(1)] t(2)
    have eq: "remove_transaction_by_id (aa_transaction_id tx) (p\<lparr>by_hash := bt_remove h (by_hash p)\<rparr>) = remove_transaction_by_id (aa_transaction_id tx) p" by simp
    obtain r' p'' where r: "remove_transaction_by_id (aa_transaction_id tx) p = (r', p'')" by fastforce
    have "p' = p''" using assms(2) Some False by (auto simp: remove_transaction_by_hash_def Let_def eq r split: option.splits)
    with remove_by_id_inv [OF assms(1) r] show ?thesis by simp
  qed
qed

lemma remove_transactions_inv: "pool_inv env A ch p \<Longrightarrow> pool_inv env A ch (snd (remove_transactions hs p))"
proof -
  have "pool_inv env A ch (snd s) \<Longrightarrow> pool_inv env A ch (snd (fold (\<lambda>h (txs, p). push_removed (remove_transaction_by_hash h p) txs) hs s))" for s
  proof (induction hs arbitrary: s)
    case (Cons h hs)
    obtain txs q where s: "s = (txs, q)" by (cases s)
    have "pool_inv env A ch (snd (remove_transaction_by_hash h q))" using remove_by_hash_inv [OF _ prod.collapse [symmetric]] Cons.prems s by fastforce
    then show ?case using Cons.IH [of "push_removed (remove_transaction_by_hash h q) txs"] by (simp add: s push_removed_snd)
  qed simp
  then show "pool_inv env A ch p \<Longrightarrow> ?thesis" by (simp add: remove_transactions_def)
qed

lemma remove_by_id_inv_snd: "pool_inv env A ch p \<Longrightarrow> pool_inv env A ch (snd (remove_transaction_by_id i p))"
  using remove_by_id_inv [OF _ prod.collapse [symmetric]] by blast

lemma remove_descendants_inv: "pool_inv env A ch (snd s) \<Longrightarrow> pool_inv env A ch (snd (remove_descendants i s))"
proof -
  have "pool_inv env A ch (snd s) \<Longrightarrow> pool_inv env A ch (snd (remove_descendants_loop fuel i s))" for fuel
  proof (induction fuel i s rule: remove_descendants_loop.induct)
    case (2 fuel i s)
    then show ?case by (auto simp: push_removed_snd remove_by_id_inv_snd split: list.splits prod.splits)
  qed simp
  then show "pool_inv env A ch (snd s) \<Longrightarrow> ?thesis" by (simp only: remove_descendants_def)
qed

lemma remove_with_descendants_inv: "pool_inv env A ch (snd s) \<Longrightarrow> pool_inv env A ch (snd (remove_with_descendants h s))"
  using remove_by_hash_inv [of env A ch "snd s" h] by (cases s) (auto simp: remove_with_descendants_def remove_descendants_inv split: prod.splits option.splits)

lemma fold_snd_inv: "(\<And>x s. P (snd s) \<Longrightarrow> P (snd (f x s))) \<Longrightarrow> P (snd s) \<Longrightarrow> P (snd (fold f xs s))"
  by (induction xs arbitrary: s) auto

lemma remove_and_descendants_inv: "pool_inv env A ch p \<Longrightarrow> pool_inv env A ch (snd (remove_transactions_and_descendants hs p))"
  unfolding remove_transactions_and_descendants_def by (rule fold_snd_inv) (auto intro: remove_with_descendants_inv)

lemma remove_of_sender_inv: "pool_inv env A ch (snd s) \<Longrightarrow> pool_inv env A ch (snd (remove_of_sender tx s))"
  using drop_expiring_inv [of env A ch "snd s" "tx_hash tx"]
  by (cases s) (auto simp: remove_of_sender_def push_removed_snd remove_by_id_inv_snd)

lemma remove_by_sender_inv: "pool_inv env A ch p \<Longrightarrow> pool_inv env A ch (snd (remove_transactions_by_sender a p))"
  unfolding remove_transactions_by_sender_def by (rule fold_snd_inv) (auto intro: remove_of_sender_inv)

lemma remove_included_inv: "pool_inv env A ch (snd s) \<Longrightarrow> pool_inv env A ch (snd (remove_included h s))"
  using drop_expiring_inv [of env A ch "snd s" h] by (cases s) (auto simp: remove_included_def split: option.splits)

lemma remove_included_all_inv: "pool_inv env A ch p \<Longrightarrow> pool_inv env A ch (snd (remove_included_expiring_nonce_txs hs p))"
  unfolding remove_included_expiring_nonce_txs_def by (rule fold_snd_inv) (auto intro: remove_included_inv)

lemma discard_inv: "pool_inv env A ch p \<Longrightarrow> pool_inv env A ch (snd (discard p))"
proof -
  have "pool_inv env A ch (snd s) \<Longrightarrow> pool_inv env A ch (snd (discard_loop fuel s))" for fuel s
    by (induction fuel s rule: discard_loop.induct) (auto simp: push_removed_snd remove_by_id_inv_snd split: prod.splits)
  then show "pool_inv env A ch p \<Longrightarrow> ?thesis" by (simp add: discard_def)
qed

subsection \<open>Additions\<close>

text \<open>What an insertion does to the parts of the pool, before the limit is enforced.\<close>

lemma insert_entry_eq:
  assumes "insert_entry tx c t p = ((replaced, pend, promoted), p')"
  obtains b e a e' where "split_range (AA2dTransactionId (seq_id (aa_transaction_id tx)) c) (bt_insert (aa_transaction_id tx) t (by_id p)) = (b, e, a)"
    "scan_inserted (id_nonce (aa_transaction_id tx)) c e = (e', pend, promoted)" "by_id p' = b @ e' @ a"
    "by_hash p' = bt_insert (tx_hash tx) tx (case get_id p (aa_transaction_id tx) of None \<Rightarrow> by_hash p | Some old \<Rightarrow> bt_remove (tx_hash (transaction (inner old))) (by_hash p))"
    "independent_transactions p' = (if pend \<and> id_nonce (aa_transaction_id tx) = c
       then bt_insert (seq_id (aa_transaction_id tx)) (inner t) (independent_transactions p) else independent_transactions p)"
    "expiring_nonce_txs p' = expiring_nonce_txs p" "seq_id_to_slot p' = seq_id_to_slot p" "slot_to_seq_id p' = slot_to_seq_id p"
    "max_txs p' = max_txs p" "submission_id p' = submission_id p"
proof -
  obtain b e a where sp: "split_range (AA2dTransactionId (seq_id (aa_transaction_id tx)) c) (bt_insert (aa_transaction_id tx) t (by_id p)) = (b, e, a)"
    by (metis prod_cases3)
  obtain e' pe pr where sc: "scan_inserted (id_nonce (aa_transaction_id tx)) c e = (e', pe, pr)" by (metis prod_cases3)
  show ?thesis using assms by (intro that [OF sp, of e']) (auto simp: insert_entry_def Let_def sp sc split: option.splits)
qed

lemma inserted_parts:
  assumes "maps_ok p" "insert_entry tx c t p = ((replaced, pend, promoted), p')" "transaction (inner t) = tx" "c \<le> tx_nonce tx"
  defines "i \<equiv> aa_transaction_id tx" and "m \<equiv> (get_id p)(aa_transaction_id tx \<mapsto> t)"
  shows "bt_ok (by_id p')"
    and "get_id p' k = map_option (\<lambda>u. if seq_id k = seq_id i \<and> tx_nonce tx \<le> id_nonce k \<and> gapless m (seq_id i) c (id_nonce k) then u\<lparr>is_pending := True\<rparr> else u) (m k)"
    and "pend = gapless m (seq_id i) c (tx_nonce tx)"
proof -
  let ?m = "bt_insert i t (by_id p)"
  have okm: "bt_ok ?m" using assms(1) by (simp add: maps_ok_def bt_insert_ok)
  have gm: "map_of ?m = m" by (simp add: bt_insert_get m_def i_def)
  have ni: "id_nonce i = tx_nonce tx" by (simp add: i_def aa_transaction_id_def)
  obtain b e a where sp: "split_range (AA2dTransactionId (seq_id i) c) ?m = (b, e, a)" by (metis prod_cases3)
  from insert_entry_eq [OF assms(2)] sp obtain e' pr where sc: "scan_inserted (id_nonce i) c e = (e', pend, pr)" and p': "by_id p' = b @ e' @ a"
    unfolding i_def by (metis prod.inject)
  have e: "bt_ok e" "\<forall>x\<in>set e. seq_id (fst x) = seq_id i \<and> c \<le> id_nonce (fst x)"
    using split_range_parts(2,4) [OF okm sp] by (auto simp: in_range_def id_le_iff)
  have ge: "map_of e k = (if in_range (AA2dTransactionId (seq_id i) c) k then m k else None)" for k using split_range_get [OF okm sp] gm by simp
  have gap: "gapless (map_of e) (seq_id i) c n = gapless m (seq_id i) c n" for n
    by (rule gapless_cong) (simp add: ge in_range_def id_le_iff)
  have e': "e' = map (\<lambda>(j, u). (j, if tx_nonce tx \<le> id_nonce j \<and> gapless m (seq_id i) c (id_nonce j) then u\<lparr>is_pending := True\<rparr> else u)) e"
    using scan_inserted_spec(1) [OF e, of "id_nonce i"] by (simp add: sc [unfolded ni] ni gap)
  show "pend = gapless m (seq_id i) c (tx_nonce tx)" using scan_inserted_spec(2) [OF e, of "id_nonce i"] assms(4) by (simp add: sc [unfolded ni] ni gap)
  have keys: "map fst e' = map fst e" by (simp add: e' case_prod_beta comp_def)
  show "bt_ok (by_id p')" using update_range(1) [OF okm sp keys] by (simp add: p')
  have "get_id p' k = (if in_range (AA2dTransactionId (seq_id i) c) k then map_of e' k else m k)" using update_range(2) [OF okm sp keys] by (simp add: p' gm)
  also have "map_of e' k = map_option (\<lambda>u. if tx_nonce tx \<le> id_nonce k \<and> gapless m (seq_id i) c (id_nonce k) then u\<lparr>is_pending := True\<rparr> else u) (map_of e k)"
    by (simp add: e' map_of_map_keyed)
  finally have res: "get_id p' k = (if in_range (AA2dTransactionId (seq_id i) c) k then map_option (\<lambda>u. if tx_nonce tx \<le> id_nonce k \<and> gapless m (seq_id i) c (id_nonce k) then u\<lparr>is_pending := True\<rparr> else u) (map_of e k) else m k)" .
  show "get_id p' k = map_option (\<lambda>u. if seq_id k = seq_id i \<and> tx_nonce tx \<le> id_nonce k \<and> gapless m (seq_id i) c (id_nonce k) then u\<lparr>is_pending := True\<rparr> else u) (m k)"
  proof (cases "in_range (AA2dTransactionId (seq_id i) c) k")
    case True
    then show ?thesis using res by (simp add: ge) (simp add: in_range_def)
  next
    case False
    then have "\<not> (seq_id k = seq_id i \<and> tx_nonce tx \<le> id_nonce k)" using assms(4) by (auto simp: in_range_def id_le_iff)
    then show ?thesis using False res by (cases "m k") auto
  qed
qed

lemma inserted_hashes:
  assumes "pool_inv env A ch p" "insert_entry tx c t p = ((replaced, pend, promoted), p')" "transaction (inner t) = tx" "c \<le> tx_nonce tx"
    and "\<not> is_expiring_nonce tx" "map_of (by_hash p) (tx_hash tx) = None"
  shows "hashes_ok p'"
proof -
  have m: "maps_ok p" and h: "hashes_ok p" using assms(1) by (auto simp: pool_inv_def pool_mid_def)
  note parts = inserted_parts [OF m assms(2-4)]
  let ?i = "aa_transaction_id tx"
  have H: "map_of (by_hash p') k = (if k = tx_hash tx then Some tx else if \<exists>u. get_id p ?i = Some u \<and> k = tx_hash (transaction (inner u)) then None else map_of (by_hash p) k)" for k
    by (rule insert_entry_eq [OF assms(2)]) (auto simp: bt_insert_get bt_remove_get split: option.splits)
  have X: "expiring_nonce_txs p' = expiring_nonce_txs p" by (rule insert_entry_eq [OF assms(2)])
  have in_p': "\<exists>u. ((get_id p)(?i \<mapsto> t)) k = Some u \<and> inner u = inner v" if "get_id p' k = Some v" for k v
    using that unfolding parts(2) by (auto split: if_splits)
  have from_p: "\<exists>v. get_id p' k = Some v \<and> inner v = inner u" if "((get_id p)(?i \<mapsto> t)) k = Some u" for k u
    unfolding parts(2) using that by simp
  show ?thesis
  proof (rule hashes_okI)
    fix k v assume "get_id p' k = Some v"
    then obtain u where u: "((get_id p)(?i \<mapsto> t)) k = Some u" "inner u = inner v" using in_p' by blast
    show "aa_transaction_id (transaction (inner v)) = k" "\<not> is_expiring_nonce (transaction (inner v))"
      "map_of (by_hash p') (tx_hash (transaction (inner v))) = Some (transaction (inner v))"
    proof (atomize (full), cases "k = ?i")
      case True
      with u assms(3,5) show "aa_transaction_id (transaction (inner v)) = k \<and> \<not> is_expiring_nonce (transaction (inner v)) \<and>
          map_of (by_hash p') (tx_hash (transaction (inner v))) = Some (transaction (inner v))" by (auto simp: H)
    next
      case False
      then have g: "get_id p k = Some u" using u(1) by simp
      note e = hashes_entry [OF h g]
      have "tx_hash (transaction (inner u)) \<noteq> tx_hash tx" using e(3) assms(6) by auto
      moreover have "tx_hash (transaction (inner u)) \<noteq> tx_hash (transaction (inner w))" if "get_id p ?i = Some w" for w
        using e hashes_entry [OF h that] False by (metis option.inject)
      ultimately show "aa_transaction_id (transaction (inner v)) = k \<and> \<not> is_expiring_nonce (transaction (inner v)) \<and>
          map_of (by_hash p') (tx_hash (transaction (inner v))) = Some (transaction (inner v))" using e u(2) by (auto simp: H)
    qed
  next
    fix k x assume x: "map_of (by_hash p') k = Some x"
    have "tx_hash x = k \<and> (if is_expiring_nonce x then \<exists>q. map_of (expiring_nonce_txs p') k = Some q else \<exists>t. get_id p' (aa_transaction_id x) = Some t \<and> transaction (inner t) = x)"
    proof (cases "k = tx_hash tx")
      case True
      then have "x = tx" using x by (simp add: H)
      with True assms(3,5) from_p [of ?i t] show ?thesis by auto
    next
      case False
      with x have o: "map_of (by_hash p) k = Some x" "\<nexists>u. get_id p ?i = Some u \<and> k = tx_hash (transaction (inner u))" by (auto simp: H split: if_splits)
      note e = hashes_hash [OF h o(1)]
      show ?thesis
      proof (cases "is_expiring_nonce x")
        case True
        with e show ?thesis by (simp add: X)
      next
        case False
        then obtain u where u: "get_id p (aa_transaction_id x) = Some u" "transaction (inner u) = x" using e(3) by blast
        moreover have "aa_transaction_id x \<noteq> ?i" using o(2) u e(1) by metis
        ultimately show ?thesis using e(1) False from_p [of "aa_transaction_id x" u] by auto
      qed
    qed
    then show "tx_hash x = k" "is_expiring_nonce x \<Longrightarrow> \<exists>q. map_of (expiring_nonce_txs p') k = Some q"
      "\<not> is_expiring_nonce x \<Longrightarrow> \<exists>t. get_id p' (aa_transaction_id x) = Some t \<and> transaction (inner t) = x" by (auto split: if_splits)
  next
    fix k q assume "map_of (expiring_nonce_txs p') k = Some q"
    then have q: "map_of (expiring_nonce_txs p) k = Some q" by (simp add: X)
    note e = hashes_expiring [OF h q]
    have "k \<noteq> tx_hash tx" using e(2) assms(6) by auto
    moreover have "k \<noteq> tx_hash (transaction (inner u))" if "get_id p ?i = Some u" for u using hashes_entry [OF h that] e by auto
    ultimately show "is_expiring_nonce (transaction q)" "map_of (by_hash p') k = Some (transaction q)" using e by (auto simp: H)
  qed
qed

lemma inserted_inv:
  assumes inv: "pool_inv env A ch p" and ins: "insert_entry tx (ch s) t p = ((replaced, pend, promoted), p')" and t: "transaction (inner t) = tx" and n: "ch s \<le> tx_nonce tx"
    and new: "\<not> is_expiring_nonce tx" "map_of (by_hash p) (tx_hash tx) = None" and s: "s = seq_id (aa_transaction_id tx)"
    and slot: "sq_nonce_key s \<noteq> 0 \<Longrightarrow> seq_id_to_slot p s = Some (nonce_slot env s)"
  shows "pool_inv env A ch p'"
proof -
  have m: "maps_ok p" and ind: "independent_ok ch p" and pr: "promoted_ok ch p" and sl: "slots_ok env A p" and od: "no_outdated ch p"
    using inv by (auto simp: pool_inv_def pool_mid_def)
  let ?i = "aa_transaction_id tx"
  define mm where "mm = (get_id p)(?i \<mapsto> t)"
  note parts = inserted_parts [OF m ins t n, folded s, folded mm_def]
  have i: "?i = AA2dTransactionId s (tx_nonce tx)" by (simp add: s aa_transaction_id_def)
  have I: "independent_transactions p' = (if pend \<and> tx_nonce tx = ch s then bt_insert s (inner t) (independent_transactions p) else independent_transactions p)"
    by (rule insert_entry_eq [OF ins]) (simp add: s aa_transaction_id_def)
  have keys: "get_id p' k = None \<longleftrightarrow> mm k = None" for k by (simp add: parts(2))
  have gp: "gapless (get_id p') r c k = gapless mm r c k" for r c k by (rule gapless_cong) (simp add: keys)
  have "maps_ok p'" by (rule insert_entry_eq [OF ins]) (use m parts(1) in \<open>simp add: maps_ok_def bt_insert_ok bt.remove_ok split: option.splits\<close>)
  moreover have "hashes_ok p'" by (rule inserted_hashes [OF inv ins t n new])
  moreover have "promoted_ok ch p'" unfolding promoted_ok_def
  proof (intro allI impI)
    fix r k v assume v: "get_id p' (AA2dTransactionId r k) = Some v" "ch r \<le> k" "gapless (get_id p') r (ch r) k"
    obtain u where u: "mm (AA2dTransactionId r k) = Some u" "v = (if r = s \<and> tx_nonce tx \<le> k \<and> gapless mm s (ch s) k then u\<lparr>is_pending := True\<rparr> else u)"
      using v(1) by (auto simp: parts(2))
    show "is_pending v"
    proof (cases "r = s \<and> tx_nonce tx \<le> k")
      case True
      with u v(3) show ?thesis by (simp add: gp)
    next
      case False
      then have "AA2dTransactionId r j \<noteq> ?i" if "j \<le> k" for j using that by (auto simp: i)
      note ne = this
      have "gapless (get_id p) r (ch r) k = gapless mm r (ch r) k" by (rule gapless_cong) (simp add: mm_def ne)
      moreover have "get_id p (AA2dTransactionId r k) = Some u" using u(1) ne [of k] by (simp add: mm_def)
      ultimately have "get_id p (AA2dTransactionId r k) = Some u" "gapless (get_id p) r (ch r) k" using v(3) by (simp_all add: gp)
      with v(2) pr have "is_pending u" by (auto simp: promoted_ok_def)
      with u(2) show ?thesis by simp
    qed
  qed
  moreover have "independent_ok ch p'"
  proof (cases "tx_nonce tx = ch s")
    case True
    then have "gapless mm s (ch s) (tx_nonce tx)" by (auto simp: gapless_def mm_def i dest: antisym)
    then have "pend" by (simp add: parts(3))
    then have I': "map_of (independent_transactions p') = (map_of (independent_transactions p))(s \<mapsto> inner t)" using True by (simp add: I bt_insert_get)
    have it: "get_id p' (AA2dTransactionId s (ch s)) = Some (t\<lparr>is_pending := True\<rparr>)"
      using \<open>gapless mm s (ch s) (tx_nonce tx)\<close> True by (simp add: parts(2) mm_def i)
    have other: "get_id p' (AA2dTransactionId r k) = get_id p (AA2dTransactionId r k)" if "r \<noteq> s" for r k using that by (simp add: parts(2) mm_def i option.map_ident)
    show ?thesis unfolding independent_ok_def
    proof (intro conjI allI impI)
      fix r q assume q: "map_of (independent_transactions p') r = Some q"
      show "\<exists>k u. get_id p' (AA2dTransactionId r k) = Some u \<and> inner u = q \<and> is_pending u \<and> k \<le> ch r"
      proof (cases "r = s")
        case True
        with q it show ?thesis by (auto simp: I' intro!: exI [of _ "ch s"])
      next
        case False
        with q have "map_of (independent_transactions p) r = Some q" by (simp add: I')
        with False show ?thesis unfolding other [OF False] using ind unfolding independent_ok_def by blast
      qed
    next
      fix r u assume u: "get_id p' (AA2dTransactionId r (ch r)) = Some u"
      show "map_of (independent_transactions p') r = Some (inner u)"
        using u it other [of r] independent_head [OF ind, of r u] by (cases "r = s") (auto simp: I')
    qed
  next
    case False
    then have lt: "ch s < tx_nonce tx" using n by simp
    have I': "independent_transactions p' = independent_transactions p" using False by (simp add: I)
    have below: "get_id p' (AA2dTransactionId r k) = get_id p (AA2dTransactionId r k)" if "k \<le> ch r" for r k
    proof -
      have "\<not> (r = s \<and> tx_nonce tx \<le> k)" using that lt by auto
      then show ?thesis by (cases "get_id p (AA2dTransactionId r k)") (auto simp: parts(2) mm_def i)
    qed
    show ?thesis unfolding independent_ok_def
    proof (intro conjI allI impI)
      fix r q assume "map_of (independent_transactions p') r = Some q"
      then obtain k u where "get_id p (AA2dTransactionId r k) = Some u" "inner u = q" "is_pending u" "k \<le> ch r" unfolding I' by (rule independent_entry [OF ind])
      then show "\<exists>k u. get_id p' (AA2dTransactionId r k) = Some u \<and> inner u = q \<and> is_pending u \<and> k \<le> ch r" using below by metis
    next
      fix r u assume "get_id p' (AA2dTransactionId r (ch r)) = Some u"
      then show "map_of (independent_transactions p') r = Some (inner u)" unfolding I' using below [of "ch r" r] independent_head [OF ind, of r u] by simp
    qed
  qed
  moreover have "slots_ok env A p'"
  proof -
    have eq: "seq_id_to_slot p' = seq_id_to_slot p" "slot_to_seq_id p' = slot_to_seq_id p" by (rule insert_entry_eq [OF ins], simp)+
    show ?thesis
    proof (rule slots_okI, unfold eq)
      fix k v assume "get_id p' k = Some v" "sq_nonce_key (seq_id k) \<noteq> 0"
      then have "mm k \<noteq> None" using keys [of k] by simp
      then consider "k = ?i" | u where "get_id p k = Some u" by (auto simp: mm_def split: if_splits)
      then show "seq_id_to_slot p (seq_id k) = Some (nonce_slot env (seq_id k))"
        by cases (use slot s \<open>sq_nonce_key (seq_id k) \<noteq> 0\<close> slots_entry [OF sl] in auto)
    qed (rule slots_slot [OF sl] slots_seq [OF sl], assumption)+
  qed
  moreover have "no_outdated ch p'" using od n by (auto simp: no_outdated_def keys mm_def i split: if_splits)
  ultimately show ?thesis by (simp add: pool_inv_def pool_mid_def)
qed

lemma record_2d_slot_inv:
  assumes "pool_inv env A ch p" "inj_on (nonce_slot env) A" "s = seq_id (aa_transaction_id tx)" "s \<in> A" "is_aa_2d tx"
  shows "pool_inv env A ch (record_2d_slot env tx p)" "seq_id_to_slot (record_2d_slot env tx p) s = Some (nonce_slot env s)"
    "by_hash (record_2d_slot env tx p) = by_hash p"
proof -
  let ?p = "record_2d_slot env tx p"
  have sl: "slots_ok env A p" using assms(1) by (simp add: pool_inv_def pool_mid_def)
  have key: "sq_nonce_key s \<noteq> 0" using assms(3,5) by (simp add: aa_transaction_id_def is_aa_2d_def)
  have same: "by_id ?p = by_id p" "by_hash ?p = by_hash p" "expiring_nonce_txs ?p = expiring_nonce_txs p" "independent_transactions ?p = independent_transactions p"
    by (auto simp: record_2d_slot_def Let_def)
  then show "by_hash ?p = by_hash p" by simp
  have slots: "slots_ok env A ?p \<and> seq_id_to_slot ?p s = Some (nonce_slot env s)"
  proof (cases "slot_to_seq_id p (nonce_slot env s)")
    case None
    then have p: "seq_id_to_slot ?p = (seq_id_to_slot p)(s \<mapsto> nonce_slot env s)" "slot_to_seq_id ?p = (slot_to_seq_id p)(nonce_slot env s \<mapsto> s)"
      by (simp_all add: record_2d_slot_def Let_def assms(3))
    have "slots_ok env A ?p"
    proof (rule slots_okI, unfold p same)
      fix i t assume "get_id p i = Some t" "sq_nonce_key (seq_id i) \<noteq> 0"
      then show "((seq_id_to_slot p)(s \<mapsto> nonce_slot env s)) (seq_id i) = Some (nonce_slot env (seq_id i))" using slots_entry [OF sl] by auto
    next
      fix x r assume x: "((slot_to_seq_id p)(nonce_slot env s \<mapsto> s)) x = Some r"
      show "((seq_id_to_slot p)(s \<mapsto> nonce_slot env s)) r = Some x"
      proof (cases "x = nonce_slot env s")
        case False
        with x have "seq_id_to_slot p r = Some x" using slots_slot [OF sl] by simp
        with False slots_seq [OF sl, of r x] show ?thesis by auto
      qed (use x in auto)
    next
      fix r x assume x: "((seq_id_to_slot p)(s \<mapsto> nonce_slot env s)) r = Some x"
      show "((slot_to_seq_id p)(nonce_slot env s \<mapsto> s)) x = Some r \<and> x = nonce_slot env r \<and> r \<in> A \<and> sq_nonce_key r \<noteq> 0"
      proof (cases "r = s")
        case False
        with x have "seq_id_to_slot p r = Some x" by simp
        with slots_seq [OF sl this] None show ?thesis by auto
      qed (use x assms(4) key in auto)
    qed
    then show ?thesis by (simp add: p)
  next
    case (Some r)
    from slots_seq [OF sl slots_slot [OF sl Some]] have "r \<in> A" "nonce_slot env s = nonce_slot env r" by auto
    with assms(2,4) have "r = s" by (auto dest: inj_onD)
    then have p: "seq_id_to_slot ?p = seq_id_to_slot p" "slot_to_seq_id ?p = slot_to_seq_id p"
      using Some by (auto simp: record_2d_slot_def Let_def assms(3) [symmetric])
    have "slots_ok env A ?p" by (rule slots_ok_weaken [OF sl p]) (simp add: same)
    moreover have "seq_id_to_slot ?p s = Some (nonce_slot env s)" using slots_slot [OF sl Some] \<open>r = s\<close> by (simp add: p)
    ultimately show ?thesis by simp
  qed
  then show "seq_id_to_slot ?p s = Some (nonce_slot env s)" by simp
  show "pool_inv env A ch ?p" using assms(1) slots by (simp add: pool_inv_def pool_mid_def maps_ok_def hashes_ok_def independent_ok_def promoted_ok_def no_outdated_def same)
qed

lemma pool_inv_submission: "pool_inv env A ch (p\<lparr>submission_id := x\<rparr>) = pool_inv env A ch p"
  by (simp add: pool_inv_def pool_mid_def pool_parts no_outdated_def)

lemma add_expiring_inv:
  assumes "pool_inv env A ch p" "is_expiring_nonce tx" "\<not> contains_tx (tx_hash tx) p"
  shows "pool_inv env A ch (snd (add_expiring_nonce_transaction env tx p))"
proof (cases "map_of (expiring_nonce_txs p) (tx_hash tx)")
  case None
  let ?p = "snd (add_expiring_nonce_transaction env tx p)"
  have h: "hashes_ok p" "maps_ok p" "slots_ok env A p" using assms(1) by (auto simp: pool_inv_def pool_mid_def)
  have p: "by_id ?p = by_id p" "independent_transactions ?p = independent_transactions p" "seq_id_to_slot ?p = seq_id_to_slot p" "slot_to_seq_id ?p = slot_to_seq_id p"
      "expiring_nonce_txs ?p = bt_insert (tx_hash tx) (pending_transaction env (submission_id p) tx) (expiring_nonce_txs p)" "by_hash ?p = bt_insert (tx_hash tx) tx (by_hash p)"
    using None by (simp_all add: add_expiring_nonce_transaction_def next_id_def)
  have new: "map_of (by_hash p) (tx_hash tx) = None" using assms(3) by (simp add: contains_tx_def)
  have "hashes_ok ?p"
  proof (rule hashes_okI, unfold p bt_insert_get)
    fix i t assume "get_id p i = Some t"
    note e = hashes_entry [OF h(1) this]
    with new show "aa_transaction_id (transaction (inner t)) = i" "\<not> is_expiring_nonce (transaction (inner t))"
      "((map_of (by_hash p))(tx_hash tx \<mapsto> tx)) (tx_hash (transaction (inner t))) = Some (transaction (inner t))" by auto
  next
    fix k x assume x: "((map_of (by_hash p))(tx_hash tx \<mapsto> tx)) k = Some x"
    show "tx_hash x = k" using x hashes_hash(1) [OF h(1)] by (auto split: if_splits)
    show "is_expiring_nonce x \<Longrightarrow> \<exists>q. ((map_of (expiring_nonce_txs p))(tx_hash tx \<mapsto> pending_transaction env (submission_id p) tx)) k = Some q"
      using x hashes_hash(2) [OF h(1)] by (auto split: if_splits)
    show "\<not> is_expiring_nonce x \<Longrightarrow> \<exists>t. get_id p (aa_transaction_id x) = Some t \<and> transaction (inner t) = x"
      using x hashes_hash(3) [OF h(1)] assms(2) by (auto split: if_splits)
  next
    fix k q assume "((map_of (expiring_nonce_txs p))(tx_hash tx \<mapsto> pending_transaction env (submission_id p) tx)) k = Some q"
    then show "is_expiring_nonce (transaction q)" "((map_of (by_hash p))(tx_hash tx \<mapsto> tx)) k = Some (transaction q)"
      using hashes_expiring [OF h(1)] assms(2) by (auto simp: pending_transaction_def split: if_splits)
  qed
  moreover have "slots_ok env A ?p" by (rule slots_ok_weaken [OF h(3)]) (simp_all add: p)
  moreover have "maps_ok ?p" using h(2) by (simp add: maps_ok_def p bt_insert_ok)
  ultimately show ?thesis using assms(1) by (simp add: pool_inv_def pool_mid_def independent_ok_def promoted_ok_def no_outdated_def p)
qed (use assms in \<open>simp add: add_expiring_nonce_transaction_def\<close>)

lemma add_transaction_inv:
  assumes inv: "pool_inv env A ch p" and inj: "inj_on (nonce_slot env) A" and s: "s = seq_id (aa_transaction_id tx)" "s \<in> A"
  shows "pool_inv env A ch (snd (add_transaction env True tx (ch s) p))"
proof (cases "contains_tx (tx_hash tx) p \<or> is_expiring_nonce tx")
  case True
  then show ?thesis using inv add_expiring_inv [OF inv] by (auto simp: add_transaction_def)
next
  case False
  define q where "q = (if is_aa_2d tx then record_2d_slot env tx p else p)"
  have q: "pool_inv env A ch q" "by_hash q = by_hash p" "is_aa_2d tx \<Longrightarrow> seq_id_to_slot q s = Some (nonce_slot env s)"
    using inv record_2d_slot_inv [OF inv inj s] by (auto simp: q_def)
  have key: "is_aa_2d tx \<longleftrightarrow> sq_nonce_key s \<noteq> 0" by (simp add: s aa_transaction_id_def is_aa_2d_def)
  show ?thesis
  proof (cases "tx_nonce tx < ch s")
    case True
    with False q(1) show ?thesis by (simp add: add_transaction_def q_def Let_def)
  next
    case ge: False
    define r where "r = q\<lparr>submission_id := submission_id q + 1\<rparr>"
    define t where "t = \<lparr>inner = pending_transaction env (submission_id q) tx, is_pending = False\<rparr>"
    obtain rp pe pr p' where ins: "insert_entry tx (ch s) t r = ((rp, pe, pr), p')" by (metis prod.collapse)
    have r: "pool_inv env A ch r" using q(1) by (simp add: r_def pool_inv_submission)
    have "pool_inv env A ch p'"
    proof (rule inserted_inv [OF r ins])
      show "map_of (by_hash r) (tx_hash tx) = None" using False q(2) by (simp add: r_def contains_tx_def)
      show "sq_nonce_key s \<noteq> 0 \<Longrightarrow> seq_id_to_slot r s = Some (nonce_slot env s)" using q(3) key by (simp add: r_def)
    qed (use False ge s in \<open>auto simp: t_def pending_transaction_def\<close>)
    then have "pool_inv env A ch (snd (insert_sequential tx (ch s) t r))"
      using discard_inv [of env A ch p'] by (auto simp: insert_sequential_def ins Let_def split: prod.splits)
    then show ?thesis using False ge r by (auto simp: add_transaction_def q_def [symmetric] next_id_def Let_def r_def t_def split: prod.splits)
  qed
qed

subsection \<open>Nonce changes\<close>

lemma change_nonce_parts:
  assumes "bt_ok (by_id p)" "change_nonce (s, c) (p, pr, ids) = (p', pr', ids')"
  obtains f where "bt_ok (by_id p')"
    "\<And>k. get_id p' k = map_option (\<lambda>t. if seq_id k = s \<and> c \<le> id_nonce k then t\<lparr>is_pending := f k\<rparr> else t) (get_id p k)"
    "\<And>k. gapless (get_id p) s c (id_nonce k) \<Longrightarrow> seq_id k = s \<Longrightarrow> c \<le> id_nonce k \<Longrightarrow> f k"
    "independent_transactions p' = (case get_id p (AA2dTransactionId s c) of Some t \<Rightarrow> bt_insert s (inner t) (independent_transactions p) | None \<Rightarrow> independent_transactions p)"
    "by_hash p' = by_hash p" "expiring_nonce_txs p' = expiring_nonce_txs p" "seq_id_to_slot p' = seq_id_to_slot p" "slot_to_seq_id p' = slot_to_seq_id p"
    "set ids' = set ids \<union> {i. get_id p i \<noteq> None \<and> seq_id i = s \<and> id_nonce i < c}" "max_txs p' = max_txs p" "submission_id p' = submission_id p"
proof -
  obtain b e a where sp: "split_range (AA2dTransactionId s 0) (by_id p) = (b, e, a)" by (metis prod_cases3)
  have ir: "in_range (AA2dTransactionId s 0) k \<longleftrightarrow> seq_id k = s" for k by (auto simp: in_range_def id_le_iff)
  have e: "bt_ok e" "\<forall>x\<in>set e. seq_id (fst x) = s" using split_range_parts(2,4) [OF assms(1) sp] by (auto simp: ir)
  have ge: "map_of e k = (if seq_id k = s then get_id p k else None)" for k using split_range_get [OF assms(1) sp] by (simp add: ir)
  let ?lo = "takeWhile (\<lambda>x. id_nonce (fst x) < c) e" and ?hi = "dropWhile (\<lambda>x. id_nonce (fst x) < c) e"
  note ns = nonce_split [OF e, where c = c]
  have hi: "bt_ok ?hi" "\<forall>x\<in>set ?hi. seq_id (fst x) = s \<and> c \<le> id_nonce (fst x)" using ns(2,4) e(2) by (auto dest: set_dropWhileD)
  have gh: "map_of ?hi k = (if seq_id k = s \<and> c \<le> id_nonce k then get_id p k else None)" for k using ns(5) [of k] by (simp add: ge)
  have gap: "gapless (map_of ?hi) s c n = gapless (get_id p) s c n" for n by (rule gapless_cong) (simp add: gh)
  obtain f where f: "fst (promote c c ?hi) = map (\<lambda>(i, t). (i, t\<lparr>is_pending := f i\<rparr>)) ?hi"
      "\<And>i. gapless (get_id p) s c (id_nonce i) \<Longrightarrow> i \<in> fst ` set ?hi \<Longrightarrow> f i"
    using promote_spec [OF hi, of c] gap by auto
  obtain re mo ind where pm: "promote c c ?hi = (re, mo, ind)" by (metis prod_cases3)
  have ind: "ind = map_option inner (get_id p (AA2dTransactionId s c))" using promote_independent [OF hi] by (simp add: pm gh)
  have p': "p' = (case ind of Some q \<Rightarrow> p\<lparr>by_id := b @ ?lo @ re @ a, independent_transactions := bt_insert s q (independent_transactions p)\<rparr> | None \<Rightarrow> p\<lparr>by_id := b @ ?lo @ re @ a\<rparr>)"
      "ids' = ids @ map fst ?lo"
    using assms(2) by (auto simp: change_nonce_def sp pm Let_def split: option.splits)
  have b': "by_id p' = b @ (?lo @ re) @ a" by (simp add: p' split: option.splits)
  have "map fst (?lo @ re) = map fst (?lo @ ?hi)" using promote_keys [of c c ?hi] by (simp only: map_append pm fst_conv)
  then have keys: "map fst (?lo @ re) = map fst e" by (simp only: takeWhile_dropWhile_id)
  have "map_of (?lo @ re) k = map_option (\<lambda>t. if c \<le> id_nonce k then t\<lparr>is_pending := f k\<rparr> else t) (map_of e k)" for k
  proof -
    have "map_of re k = map_option (\<lambda>t. t\<lparr>is_pending := f k\<rparr>) (map_of ?hi k)" using f(1) by (simp add: pm map_of_map_keyed)
    then show ?thesis using ns(6) [of k] ns(5) [of k] by (cases "c \<le> id_nonce k") (auto simp: map_add_def not_le option.map_ident split: option.splits)
  qed
  then have g: "get_id p' k = map_option (\<lambda>t. if seq_id k = s \<and> c \<le> id_nonce k then t\<lparr>is_pending := f k\<rparr> else t) (get_id p k)" for k
    using update_range(2) [OF assms(1) sp keys, of k] by (cases "get_id p k") (auto simp: b' ir ge simp del: map_of_append)
  show thesis
  proof (rule that [OF _ g])
    show "bt_ok (by_id p')" using update_range(1) [OF assms(1) sp keys] by (simp add: b')
    show "f k" if k: "gapless (get_id p) s c (id_nonce k)" "seq_id k = s" "c \<le> id_nonce k" for k
    proof (rule f(2) [OF k(1)])
      have "get_id p k \<noteq> None" using k by (metis aa_2d_transaction_id.collapse gapless_def order_refl)
      then have "map_of ?hi k \<noteq> None" using k by (simp add: gh)
      then show "k \<in> fst ` set ?hi" by (simp add: map_of_eq_None_iff)
    qed
    have "k \<in> fst ` set ?lo \<longleftrightarrow> map_of ?lo k \<noteq> None" for k by (simp add: map_of_eq_None_iff)
    then have "k \<in> fst ` set ?lo \<longleftrightarrow> get_id p k \<noteq> None \<and> seq_id k = s \<and> id_nonce k < c" for k using ns(6) [of k] by (simp add: ge)
    then show "set ids' = set ids \<union> {i. get_id p i \<noteq> None \<and> seq_id i = s \<and> id_nonce i < c}" by (auto simp: p'(2))
  qed (auto simp: p' ind split: option.splits)
qed

lemma change_nonce_mid:
  assumes mid: "pool_mid env A ch p" and ch: "change_nonce (s, c) (p, pr, ids) = (p', pr', ids')" and le: "ch s \<le> c"
  shows "pool_mid env A (ch(s := c)) p'"
proof -
  have m: "maps_ok p" and h: "hashes_ok p" and ind: "independent_ok ch p" and pr: "promoted_ok ch p" and sl: "slots_ok env A p" using mid by (auto simp: pool_mid_def)
  obtain f where ok: "bt_ok (by_id p')" and g: "\<And>k. get_id p' k = map_option (\<lambda>t. if seq_id k = s \<and> c \<le> id_nonce k then t\<lparr>is_pending := f k\<rparr> else t) (get_id p k)"
    and f: "\<And>k. gapless (get_id p) s c (id_nonce k) \<Longrightarrow> seq_id k = s \<Longrightarrow> c \<le> id_nonce k \<Longrightarrow> f k"
    and I: "independent_transactions p' = (case get_id p (AA2dTransactionId s c) of Some t \<Rightarrow> bt_insert s (inner t) (independent_transactions p) | None \<Rightarrow> independent_transactions p)"
    and same: "by_hash p' = by_hash p" "expiring_nonce_txs p' = expiring_nonce_txs p" "seq_id_to_slot p' = seq_id_to_slot p" "slot_to_seq_id p' = slot_to_seq_id p"
  proof -
    have "bt_ok (by_id p)" using m by (simp add: maps_ok_def)
    then show thesis by (rule change_nonce_parts [OF _ ch]) (rule that, assumption+)
  qed
  have keys: "get_id p' k = None \<longleftrightarrow> get_id p k = None" for k by (simp add: g)
  have gp: "gapless (get_id p') r d k = gapless (get_id p) r d k" for r d k by (rule gapless_cong) (simp add: keys)
  have bwd: "\<exists>u. get_id p k = Some u \<and> inner u = inner t" if "get_id p' k = Some t" for k t using that by (auto simp: g split: if_splits)
  have fwd: "\<exists>u. get_id p' k = Some u \<and> inner u = inner t" if "get_id p k = Some t" for k t using that by (simp add: g)
  have "maps_ok p'" using m ok by (auto simp: maps_ok_def same I bt_insert_ok split: option.splits)
  moreover have "hashes_ok p'"
  proof (rule hashes_okI, unfold same)
    fix k t assume "get_id p' k = Some t"
    then obtain u where u: "get_id p k = Some u" "inner u = inner t" using bwd by blast
    from hashes_entry [OF h u(1)] u(2) show "aa_transaction_id (transaction (inner t)) = k" "\<not> is_expiring_nonce (transaction (inner t))"
      "map_of (by_hash p) (tx_hash (transaction (inner t))) = Some (transaction (inner t))" by simp_all
  next
    fix k x assume x: "map_of (by_hash p) k = Some x"
    show "tx_hash x = k" "is_expiring_nonce x \<Longrightarrow> \<exists>q. map_of (expiring_nonce_txs p) k = Some q" using hashes_hash [OF h x] by simp_all
    show "\<not> is_expiring_nonce x \<Longrightarrow> \<exists>t. get_id p' (aa_transaction_id x) = Some t \<and> transaction (inner t) = x" using hashes_hash(3) [OF h x] fwd by metis
  qed (use hashes_expiring [OF h] in simp_all)
  moreover have "slots_ok env A p'" by (rule slots_ok_weaken [OF sl same(3,4)]) (simp add: keys)
  moreover have "promoted_ok (ch(s := c)) p'" unfolding promoted_ok_def
  proof (intro allI impI)
    fix r k t assume t: "get_id p' (AA2dTransactionId r k) = Some t" "(ch(s := c)) r \<le> k" "gapless (get_id p') r ((ch(s := c)) r) k"
    show "is_pending t"
    proof (cases "r = s")
      case True
      with t f [of "AA2dTransactionId s k"] show ?thesis by (auto simp: g gp)
    next
      case False
      with t pr show ?thesis by (auto simp: g gp promoted_ok_def)
    qed
  qed
  moreover have "independent_ok (ch(s := c)) p'" unfolding independent_ok_def
  proof (intro conjI allI impI)
    fix r q assume q: "map_of (independent_transactions p') r = Some q"
    show "\<exists>k t. get_id p' (AA2dTransactionId r k) = Some t \<and> inner t = q \<and> is_pending t \<and> k \<le> (ch(s := c)) r"
    proof (cases "r = s \<and> get_id p (AA2dTransactionId s c) \<noteq> None")
      case True
      then obtain t where t: "get_id p (AA2dTransactionId s c) = Some t" by auto
      then have "gapless (get_id p) s c c" by (auto simp: gapless_def dest: antisym)
      then have "f (AA2dTransactionId s c)" using f [of "AA2dTransactionId s c"] by simp
      with t q True show ?thesis by (auto simp: I g bt_insert_get intro!: exI [of _ c])
    next
      case False
      then have "map_of (independent_transactions p) r = Some q" using q by (auto simp: I bt_insert_get split: option.splits if_splits)
      then obtain k t where t: "get_id p (AA2dTransactionId r k) = Some t" "inner t = q" "is_pending t" "k \<le> ch r" by (rule independent_entry [OF ind])
      have "\<not> (r = s \<and> c \<le> k)" using t(1,4) le False by (auto dest: antisym)
      then have "get_id p' (AA2dTransactionId r k) = Some t" using t(1) by (auto simp: g)
      with t le show ?thesis by (auto intro!: exI [of _ k])
    qed
  next
    fix r t assume t: "get_id p' (AA2dTransactionId r ((ch(s := c)) r)) = Some t"
    then obtain u where u: "get_id p (AA2dTransactionId r ((ch(s := c)) r)) = Some u" "inner u = inner t" using bwd by blast
    show "map_of (independent_transactions p') r = Some (inner t)"
    proof (cases "r = s")
      case True
      with u show ?thesis by (simp add: I bt_insert_get)
    next
      case False
      with u independent_head [OF ind, of r u] show ?thesis by (auto simp: I bt_insert_get split: option.splits)
    qed
  qed
  ultimately show ?thesis by (simp add: pool_mid_def)
qed

end
