(* ===== verification/Pool_2d_Properties.thy ===== *)
theory Pool_2d_Properties
  imports Pool_2d_Steps
begin

section \<open>The pool over time\<close>

text \<open>
  The pool is driven by new transactions, removals and the state changes of blocks. The chain is represented by the nonce of every sequence; a block can only
  raise nonces, and its state update reports every change.
\<close>

subsection \<open>Blocks\<close>

lemma pool_mid_chain:
  assumes "pool_mid env A ch p" "\<And>s. ch' s = ch s \<or> (\<forall>k. get_id p (AA2dTransactionId s k) = None)"
  shows "pool_mid env A ch' p"
proof -
  have ind: "independent_ok ch p" and pr: "promoted_ok ch p" using assms(1) by (auto simp: pool_mid_def)
  have eq: "ch' s = ch s" if "get_id p (AA2dTransactionId s k) = Some t" for s k t using assms(2) [of s] that by auto
  have "independent_ok ch' p" unfolding independent_ok_def
  proof (intro conjI allI impI)
    fix s q assume "map_of (independent_transactions p) s = Some q"
    then obtain k t where t: "get_id p (AA2dTransactionId s k) = Some t" "inner t = q" "is_pending t" "k \<le> ch s" by (rule independent_entry [OF ind])
    then show "\<exists>k t. get_id p (AA2dTransactionId s k) = Some t \<and> inner t = q \<and> is_pending t \<and> k \<le> ch' s" using eq [OF t(1)] by auto
  next
    fix s t assume t: "get_id p (AA2dTransactionId s (ch' s)) = Some t"
    with eq [OF t] show "map_of (independent_transactions p) s = Some (inner t)" using independent_head [OF ind, of s t] by simp
  qed
  moreover have "promoted_ok ch' p" unfolding promoted_ok_def
  proof (intro allI impI)
    fix s k t assume t: "get_id p (AA2dTransactionId s k) = Some t" "ch' s \<le> k" "gapless (get_id p) s (ch' s) k"
    then show "is_pending t" using pr eq [OF t(1)] by (auto simp: promoted_ok_def)
  qed
  ultimately show ?thesis using assms(1) by (simp add: pool_mid_def)
qed

lemma changes_mid:
  assumes "pool_mid env A ch p" "distinct (map fst cs)" "\<forall>(s, c)\<in>set cs. ch s \<le> c" "fold change_nonce cs (p, pr, ids) = (p', pr', ids')"
  shows "pool_mid env A (\<lambda>s. case map_of cs s of Some c \<Rightarrow> c | None \<Rightarrow> ch s) p'"
    and "\<And>k. get_id p' k = None \<longleftrightarrow> get_id p k = None"
    and "set ids' = set ids \<union> {i. get_id p i \<noteq> None \<and> (\<exists>c. (seq_id i, c) \<in> set cs \<and> id_nonce i < c)}"
proof -
  have "pool_mid env A (\<lambda>s. case map_of cs s of Some c \<Rightarrow> c | None \<Rightarrow> ch s) p' \<and> (\<forall>k. get_id p' k = None \<longleftrightarrow> get_id p k = None) \<and>
      set ids' = set ids \<union> {i. get_id p i \<noteq> None \<and> (\<exists>c. (seq_id i, c) \<in> set cs \<and> id_nonce i < c)}"
    using assms
  proof (induction cs arbitrary: ch p pr ids)
    case (Cons e cs)
    obtain s c where e: "e = (s, c)" by (cases e)
    obtain p1 pr1 ids1 where st: "change_nonce (s, c) (p, pr, ids) = (p1, pr1, ids1)" by (metis prod_cases3)
    have mid: "pool_mid env A (ch(s := c)) p1" using change_nonce_mid [OF Cons.prems(1) st] Cons.prems(3) by (simp add: e)
    have "bt_ok (by_id p)" using Cons.prems(1) by (simp add: pool_mid_def maps_ok_def)
    then have k1: "get_id p1 k = None \<longleftrightarrow> get_id p k = None" and i1: "set ids1 = set ids \<union> {i. get_id p i \<noteq> None \<and> seq_id i = s \<and> id_nonce i < c}" for k
      by (rule change_nonce_parts [OF _ st], simp)+
    have le: "\<forall>(r, d)\<in>set cs. (ch(s := c)) r \<le> d"
    proof clarify
      fix r d assume "(r, d) \<in> set cs"
      moreover then have "r \<noteq> s" using Cons.prems(2) by (force simp: e)
      ultimately show "(ch(s := c)) r \<le> d" using Cons.prems(3) by auto
    qed
    have IH: "pool_mid env A (\<lambda>r. case map_of cs r of Some c \<Rightarrow> c | None \<Rightarrow> (ch(s := c)) r) p' \<and> (\<forall>k. get_id p' k = None \<longleftrightarrow> get_id p1 k = None) \<and>
        set ids' = set ids1 \<union> {i. get_id p1 i \<noteq> None \<and> (\<exists>c. (seq_id i, c) \<in> set cs \<and> id_nonce i < c)}"
      by (rule Cons.IH [OF mid _ le]) (use Cons.prems(2,4) in \<open>auto simp: e st\<close>)
    have "map_of cs s = None" using Cons.prems(2) by (auto simp: e map_of_eq_None_iff image_iff)
    then have "(\<lambda>r. case map_of cs r of Some c \<Rightarrow> c | None \<Rightarrow> (ch(s := c)) r) = (\<lambda>r. case map_of (e # cs) r of Some c \<Rightarrow> c | None \<Rightarrow> ch r)"
      by (auto simp: e fun_eq_iff split: option.splits)
    with IH i1 k1 show ?case by (auto simp: e)
  qed simp
  then show "pool_mid env A (\<lambda>s. case map_of cs s of Some c \<Rightarrow> c | None \<Rightarrow> ch s) p'" "\<And>k. get_id p' k = None \<longleftrightarrow> get_id p k = None"
    "set ids' = set ids \<union> {i. get_id p i \<noteq> None \<and> (\<exists>c. (seq_id i, c) \<in> set cs \<and> id_nonce i < c)}" by auto
qed

lemma remove_mined:
  assumes "pool_mid env A ch p" "fold (\<lambda>i (mined, p). push_removed (remove_transaction_by_id i p) mined) ids (mined, p) = (mined', p')"
  shows "pool_mid env A ch p' \<and> (\<forall>k. get_id p' k = (if k \<in> set ids then None else get_id p k))"
  using assms
proof (induction ids arbitrary: p mined)
  case (Cons i ids)
  obtain r q where r: "remove_transaction_by_id i p = (r, q)" by fastforce
  obtain mined1 where "push_removed (r, q) mined = (mined1, q)" by (cases r) (auto simp: push_removed_def)
  then have "fold (\<lambda>i (mined, p). push_removed (remove_transaction_by_id i p) mined) ids (mined1, q) = (mined', p')" using Cons.prems(2) by (simp add: r)
  from Cons.IH [OF remove_by_id_mid [OF Cons.prems(1) r] this] show ?case by (auto simp: remove_by_id_get [OF r])
qed simp

lemma on_nonce_changes_inv:
  assumes "pool_inv env A ch p" "distinct (map fst cs)" "\<And>s c. map_of cs s = Some c \<Longrightarrow> c = ch' s" "\<And>s. ch s \<le> ch' s"
    and "\<And>s. map_of cs s = None \<Longrightarrow> ch' s = ch s \<or> (\<forall>k. get_id p (AA2dTransactionId s k) = None)"
    and "on_nonce_changes cs p = (promoted, mined, p')"
  shows "pool_inv env A ch' p'"
proof -
  have inv: "pool_mid env A ch p" "no_outdated ch p" using assms(1) by (auto simp: pool_inv_def)
  obtain p1 pr1 ids where f: "fold change_nonce cs (p, [], []) = (p1, pr1, ids)" by (metis prod_cases3)
  obtain mined1 where r: "fold (\<lambda>i (mined, p). push_removed (remove_transaction_by_id i p) mined) ids ([], p1) = (mined1, p')"
    using assms(6) by (auto simp: on_nonce_changes_def f split: prod.splits)
  have c: "(s, n) \<in> set cs \<longleftrightarrow> map_of cs s = Some n" for s n using assms(2) by (simp add: map_of_eq_Some_iff)
  have "\<forall>(s, n)\<in>set cs. ch s \<le> n"
  proof clarify
    fix s n assume "(s, n) \<in> set cs"
    then have "n = ch' s" using assms(3) c by blast
    with assms(4) show "ch s \<le> n" by simp
  qed
  note mid = changes_mid [OF inv(1) assms(2) this f]
  have "pool_mid env A ch' p1"
    by (rule pool_mid_chain [OF mid(1)]) (use assms(3,5) mid(2) in \<open>auto split: option.splits\<close>)
  from remove_mined [OF this r] have p': "pool_mid env A ch' p'" "\<And>k. get_id p' k = (if k \<in> set ids then None else get_id p1 k)" by auto
  moreover have "no_outdated ch' p'" unfolding no_outdated_def
  proof (intro allI impI)
    fix s k assume "get_id p' (AA2dTransactionId s k) \<noteq> None"
    then have k: "AA2dTransactionId s k \<notin> set ids" "get_id p (AA2dTransactionId s k) \<noteq> None" using p'(2) mid(2) by metis+
    show "ch' s \<le> k"
    proof (cases "map_of cs s")
      case None
      then have "ch' s = ch s" using assms(5) [OF None] k(2) by auto
      with inv(2) k(2) show ?thesis by (auto simp: no_outdated_def)
    next
      case (Some n)
      then have "\<not> k < n" using k by (auto simp: mid(3) c)
      with assms(3) [OF Some] show ?thesis by simp
    qed
  qed
  ultimately show ?thesis by (simp add: pool_inv_def)
qed

text \<open>A state update reports the nonces of \<open>ch'\<close> after the nonces of \<open>ch\<close>: what it contains is true, and every change is in it.\<close>

definition reports :: "pool_env \<Rightarrow> aa_sequence_id set \<Rightarrow> (address \<times> bundle_account) list \<Rightarrow> (aa_sequence_id \<Rightarrow> u64) \<Rightarrow> (aa_sequence_id \<Rightarrow> u64) \<Rightarrow> bool" where
  "reports env A st ch ch' \<longleftrightarrow> (\<forall>s. ch s \<le> ch' s) \<and>
     (\<forall>a acc. (a, acc) \<in> set st \<longrightarrow> (case account_nonce acc of Some n \<Rightarrow> n | None \<Rightarrow> 0) = ch' (AASequenceId a 0)) \<and>
     (\<forall>a. ch' (AASequenceId a 0) \<noteq> ch (AASequenceId a 0) \<longrightarrow> a \<in> fst ` set st) \<and>
     (\<forall>acc s v. (NONCE_PRECOMPILE_ADDRESS, acc) \<in> set st \<longrightarrow> s \<in> A \<longrightarrow> sq_nonce_key s \<noteq> 0 \<longrightarrow> (nonce_slot env s, v) \<in> set (account_storage acc) \<longrightarrow> v = ucast (ch' s)) \<and>
     (\<forall>s\<in>A. sq_nonce_key s \<noteq> 0 \<longrightarrow> ch' s \<noteq> ch s \<longrightarrow> (\<exists>acc. (NONCE_PRECOMPILE_ADDRESS, acc) \<in> set st \<and> nonce_slot env s \<in> fst ` set (account_storage acc)))"

definition truthful :: "(aa_sequence_id \<Rightarrow> u64) \<Rightarrow> (aa_sequence_id, u64) btree \<Rightarrow> bool" where
  "truthful ch' cs \<longleftrightarrow> bt_ok cs \<and> (\<forall>s n. map_of cs s = Some n \<longrightarrow> n = ch' s)"

lemma truthful_insert: "truthful ch' m \<Longrightarrow> v = ch' s \<Longrightarrow> truthful ch' (bt_insert s v m)"
  by (auto simp: truthful_def bt_insert_ok bt_insert_get split: if_splits)

lemma saturating_ucast: "saturating_to (ucast (x :: u64) :: u256) = x"
proof -
  have "unat x < 2 ^ 64" using unsigned_less [of x, where ?'a = nat] by simp
  then have "take_bit 256 (unat x) = unat x" by (intro take_bit_nat_eq_self) (simp add: order_less_le_trans)
  then have "unat (ucast x :: u256) = unat x" by (simp add: unsigned_ucast_eq unsigned_take_bit_eq)
  then show ?thesis using \<open>unat x < 2 ^ 64\<close>
    by (simp add: saturating_to_def word_unat_eq_iff unsigned_ucast_eq unsigned_take_bit_eq take_bit_nat_eq_self)
qed

lemma slot_changes:
  assumes "truthful ch' cs" "\<And>sl v s. (sl, v) \<in> set es \<Longrightarrow> slot_to_seq_id p sl = Some s \<Longrightarrow> v = ucast (ch' s)"
  shows "truthful ch' (fold (slot_change p) es cs) \<and> (\<forall>s. map_of cs s \<noteq> None \<longrightarrow> map_of (fold (slot_change p) es cs) s \<noteq> None) \<and>
    (\<forall>sl s. sl \<in> fst ` set es \<longrightarrow> slot_to_seq_id p sl = Some s \<longrightarrow> map_of (fold (slot_change p) es cs) s \<noteq> None)"
  using assms
proof (induction es arbitrary: cs)
  case (Cons e es)
  let ?cs = "slot_change p e cs"
  have "truthful ch' ?cs" using Cons.prems(1) Cons.prems(2) [of "fst e" "snd e"]
    by (auto simp: slot_change_def truthful_def bt_insert_ok bt_insert_get saturating_ucast split: option.splits if_splits)
  note t = this
  have "truthful ch' (fold (slot_change p) es ?cs) \<and> (\<forall>s. map_of ?cs s \<noteq> None \<longrightarrow> map_of (fold (slot_change p) es ?cs) s \<noteq> None) \<and>
    (\<forall>sl s. sl \<in> fst ` set es \<longrightarrow> slot_to_seq_id p sl = Some s \<longrightarrow> map_of (fold (slot_change p) es ?cs) s \<noteq> None)"
    by (rule Cons.IH [OF t]) (rule Cons.prems(2), auto)
  then have IH: "truthful ch' (fold (slot_change p) es ?cs)" "\<And>s. map_of ?cs s \<noteq> None \<Longrightarrow> map_of (fold (slot_change p) es ?cs) s \<noteq> None"
    "\<And>sl s. sl \<in> fst ` set es \<Longrightarrow> slot_to_seq_id p sl = Some s \<Longrightarrow> map_of (fold (slot_change p) es ?cs) s \<noteq> None" by auto
  have "map_of ?cs s \<noteq> None" if "map_of cs s \<noteq> None \<or> slot_to_seq_id p (fst e) = Some s" for s
    using that by (auto simp: slot_change_def bt_insert_get split: option.splits)
  with IH show ?case by (auto simp del: not_None_eq)
qed simp

lemma account_changes:
  assumes "truthful ch' cs" "\<And>a acc. (a, acc) \<in> set st \<Longrightarrow> (case account_nonce acc of Some n \<Rightarrow> n | None \<Rightarrow> 0) = ch' (AASequenceId a 0)"
    and "\<And>acc sl v s. (NONCE_PRECOMPILE_ADDRESS, acc) \<in> set st \<Longrightarrow> (sl, v) \<in> set (account_storage acc) \<Longrightarrow> slot_to_seq_id p sl = Some s \<Longrightarrow> v = ucast (ch' s)"
  shows "truthful ch' (fold (account_change p) st cs) \<and> (\<forall>s. map_of cs s \<noteq> None \<longrightarrow> map_of (fold (account_change p) st cs) s \<noteq> None) \<and>
    (\<forall>a. a \<in> fst ` set st \<longrightarrow> map_of (fold (account_change p) st cs) (AASequenceId a 0) \<noteq> None) \<and>
    (\<forall>acc sl s. (NONCE_PRECOMPILE_ADDRESS, acc) \<in> set st \<longrightarrow> sl \<in> fst ` set (account_storage acc) \<longrightarrow> slot_to_seq_id p sl = Some s \<longrightarrow>
       map_of (fold (account_change p) st cs) s \<noteq> None)"
  using assms
proof (induction st arbitrary: cs)
  case (Cons e st)
  obtain a acc where e: "e = (a, acc)" by (cases e)
  let ?cs1 = "if a = NONCE_PRECOMPILE_ADDRESS then fold (slot_change p) (account_storage acc) cs else cs"
  let ?cs = "account_change p e cs"
  have cs: "?cs = bt_insert (AASequenceId a 0) (case account_nonce acc of Some n \<Rightarrow> n | None \<Rightarrow> 0) ?cs1" by (simp add: account_change_def e Let_def)
  have s: "truthful ch' ?cs1" "map_of cs s \<noteq> None \<Longrightarrow> map_of ?cs1 s \<noteq> None"
      "a = NONCE_PRECOMPILE_ADDRESS \<Longrightarrow> sl \<in> fst ` set (account_storage acc) \<Longrightarrow> slot_to_seq_id p sl = Some s \<Longrightarrow> map_of ?cs1 s \<noteq> None" for s sl
  proof -
    have c: "truthful ch' (fold (slot_change p) (account_storage acc) cs) \<and> (\<forall>s. map_of cs s \<noteq> None \<longrightarrow> map_of (fold (slot_change p) (account_storage acc) cs) s \<noteq> None) \<and>
        (\<forall>sl s. sl \<in> fst ` set (account_storage acc) \<longrightarrow> slot_to_seq_id p sl = Some s \<longrightarrow> map_of (fold (slot_change p) (account_storage acc) cs) s \<noteq> None)"
      if "a = NONCE_PRECOMPILE_ADDRESS"
      by (rule slot_changes [OF Cons.prems(1)]) (rule Cons.prems(3) [of acc], use that in \<open>auto simp: e\<close>)
    show "truthful ch' ?cs1" using c Cons.prems(1) by simp
    show "map_of cs s \<noteq> None \<Longrightarrow> map_of ?cs1 s \<noteq> None" using c by (simp del: not_None_eq)
    show "a = NONCE_PRECOMPILE_ADDRESS \<Longrightarrow> sl \<in> fst ` set (account_storage acc) \<Longrightarrow> slot_to_seq_id p sl = Some s \<Longrightarrow> map_of ?cs1 s \<noteq> None"
      using c by (simp del: not_None_eq)
  qed
  have t: "truthful ch' ?cs" unfolding cs by (rule truthful_insert [OF s(1)]) (use Cons.prems(2) [of a acc] in \<open>simp add: e\<close>)
  have IH: "truthful ch' (fold (account_change p) st ?cs)" "\<And>s. map_of ?cs s \<noteq> None \<Longrightarrow> map_of (fold (account_change p) st ?cs) s \<noteq> None"
    "\<And>a. a \<in> fst ` set st \<Longrightarrow> map_of (fold (account_change p) st ?cs) (AASequenceId a 0) \<noteq> None"
    "\<And>acc sl s. (NONCE_PRECOMPILE_ADDRESS, acc) \<in> set st \<Longrightarrow> sl \<in> fst ` set (account_storage acc) \<Longrightarrow> slot_to_seq_id p sl = Some s \<Longrightarrow>
       map_of (fold (account_change p) st ?cs) s \<noteq> None"
    using Cons.IH [OF t] Cons.prems(2,3) by (meson list.set_intros(2))+
  have "map_of ?cs s \<noteq> None" if "map_of ?cs1 s \<noteq> None \<or> s = AASequenceId a 0" for s using that by (auto simp: cs bt_insert_get simp del: not_None_eq)
  note grow = IH(2) [OF this]
  show ?case
  proof (intro conjI allI impI)
    show "truthful ch' (fold (account_change p) (e # st) cs)" using IH(1) by simp
    show "map_of (fold (account_change p) (e # st) cs) s \<noteq> None" if "map_of cs s \<noteq> None" for s using grow s(2) that by simp
    show "map_of (fold (account_change p) (e # st) cs) (AASequenceId b 0) \<noteq> None" if "b \<in> fst ` set (e # st)" for b using that grow IH(3) by (auto simp: e simp del: not_None_eq)
    show "map_of (fold (account_change p) (e # st) cs) s \<noteq> None"
      if "(NONCE_PRECOMPILE_ADDRESS, b) \<in> set (e # st)" "sl \<in> fst ` set (account_storage b)" "slot_to_seq_id p sl = Some s" for b sl s
    proof -
      from that(1) consider "a = NONCE_PRECOMPILE_ADDRESS" "b = acc" | "(NONCE_PRECOMPILE_ADDRESS, b) \<in> set st" by (auto simp: e)
      then have "map_of (fold (account_change p) st ?cs) s \<noteq> None"
      proof cases
        case 1
        have "map_of ?cs1 s \<noteq> None" using s(3) [OF 1(1)] that(2,3) 1(2) by blast
        then show ?thesis by (intro grow disjI1)
      next
        case 2
        then show ?thesis by (rule IH(4) [OF _ that(2,3)])
      qed
      then show ?thesis by simp
    qed
  qed
qed simp

lemma on_state_updates_inv:
  assumes inv: "pool_inv env A ch p" and rep: "reports env A st ch ch'" and up: "on_state_updates st p = (promoted, mined, p')"
  shows "pool_inv env A ch' p'"
proof -
  have sl: "slots_ok env A p" using inv by (simp add: pool_inv_def pool_mid_def)
  have slot: "sl = nonce_slot env s \<and> s \<in> A \<and> sq_nonce_key s \<noteq> 0" if "slot_to_seq_id p sl = Some s" for sl s
    using slots_seq [OF sl slots_slot [OF sl that]] by simp
  let ?cs = "fold (account_change p) st []"
  have c: "truthful ch' ?cs" "\<And>a. a \<in> fst ` set st \<Longrightarrow> map_of ?cs (AASequenceId a 0) \<noteq> None"
    "\<And>acc sl s. (NONCE_PRECOMPILE_ADDRESS, acc) \<in> set st \<Longrightarrow> sl \<in> fst ` set (account_storage acc) \<Longrightarrow> slot_to_seq_id p sl = Some s \<Longrightarrow> map_of ?cs s \<noteq> None"
  proof -
    have "truthful ch' ?cs \<and> (\<forall>s. map_of ([] :: (aa_sequence_id, u64) btree) s \<noteq> None \<longrightarrow> map_of ?cs s \<noteq> None) \<and> (\<forall>a. a \<in> fst ` set st \<longrightarrow> map_of ?cs (AASequenceId a 0) \<noteq> None) \<and>
        (\<forall>acc sl s. (NONCE_PRECOMPILE_ADDRESS, acc) \<in> set st \<longrightarrow> sl \<in> fst ` set (account_storage acc) \<longrightarrow> slot_to_seq_id p sl = Some s \<longrightarrow> map_of ?cs s \<noteq> None)"
    proof (rule account_changes)
      show "truthful ch' []" by (simp add: truthful_def)
      show "(case account_nonce acc of Some n \<Rightarrow> n | None \<Rightarrow> 0) = ch' (AASequenceId a 0)" if "(a, acc) \<in> set st" for a acc
        using rep that unfolding reports_def by blast
      show "v = ucast (ch' s)" if "(NONCE_PRECOMPILE_ADDRESS, acc) \<in> set st" "(sl, v) \<in> set (account_storage acc)" "slot_to_seq_id p sl = Some s" for acc sl v s
        using rep that slot [OF that(3)] unfolding reports_def by blast
    qed
    then show "truthful ch' ?cs" "\<And>a. a \<in> fst ` set st \<Longrightarrow> map_of ?cs (AASequenceId a 0) \<noteq> None"
      "\<And>acc sl s. (NONCE_PRECOMPILE_ADDRESS, acc) \<in> set st \<Longrightarrow> sl \<in> fst ` set (account_storage acc) \<Longrightarrow> slot_to_seq_id p sl = Some s \<Longrightarrow> map_of ?cs s \<noteq> None"
      by blast+
  qed
  show ?thesis
  proof (rule on_nonce_changes_inv [OF inv _ _ _ _ up [unfolded on_state_updates_def]])
    show "distinct (map fst ?cs)" "\<And>s n. map_of ?cs s = Some n \<Longrightarrow> n = ch' s" using c(1) by (auto simp: truthful_def bt_ok_distinct)
    show "\<And>s. ch s \<le> ch' s" using rep by (simp add: reports_def)
    fix s assume none: "map_of ?cs s = None"
    show "ch' s = ch s \<or> (\<forall>k. get_id p (AA2dTransactionId s k) = None)"
    proof (rule ccontr)
      assume "\<not> ?thesis"
      then obtain k t where k: "get_id p (AA2dTransactionId s k) = Some t" and ne: "ch' s \<noteq> ch s" by auto
      show False
      proof (cases "sq_nonce_key s = 0")
        case True
        then have "s = AASequenceId (sq_address s) 0" by (metis aa_sequence_id.collapse)
        with ne rep have "sq_address s \<in> fst ` set st" unfolding reports_def by metis
        from c(2) [OF this] none \<open>s = AASequenceId (sq_address s) 0\<close> show False by metis
      next
        case False
        then have "seq_id_to_slot p s = Some (nonce_slot env s)" using slots_entry [OF sl k] by simp
        then have "slot_to_seq_id p (nonce_slot env s) = Some s" "s \<in> A" using slots_seq [OF sl] by blast+
        moreover obtain acc where "(NONCE_PRECOMPILE_ADDRESS, acc) \<in> set st" "nonce_slot env s \<in> fst ` set (account_storage acc)"
          using rep \<open>s \<in> A\<close> False ne unfolding reports_def by blast
        ultimately show False using c(3) none by blast
      qed
    qed
  qed
qed

subsection \<open>Runs\<close>

inductive aa_pool_step :: "pool_env \<Rightarrow> aa_sequence_id set \<Rightarrow> aa_2d_pool \<times> (aa_sequence_id \<Rightarrow> u64) \<Rightarrow> aa_2d_pool \<times> (aa_sequence_id \<Rightarrow> u64) \<Rightarrow> bool"
  for env A where
  add: "s = seq_id (aa_transaction_id tx) \<Longrightarrow> s \<in> A \<Longrightarrow> aa_pool_step env A (p, ch) (snd (add_transaction env True tx (ch s) p), ch)"
| remove: "aa_pool_step env A (p, ch) (snd (remove_transactions hs p), ch)"
| remove_descendants: "aa_pool_step env A (p, ch) (snd (remove_transactions_and_descendants hs p), ch)"
| remove_sender: "aa_pool_step env A (p, ch) (snd (remove_transactions_by_sender a p), ch)"
| remove_included: "aa_pool_step env A (p, ch) (snd (remove_included_expiring_nonce_txs hs p), ch)"
| block: "reports env A st ch ch' \<Longrightarrow> on_state_updates st p = (promoted, mined, p') \<Longrightarrow> aa_pool_step env A (p, ch) (p', ch')"

inductive_cases pool_stepE: "aa_pool_step env A s s'"

lemma pool_step_inv:
  assumes "aa_pool_step env A s s'" "inj_on (nonce_slot env) A" "pool_inv env A (snd s) (fst s)"
  shows "pool_inv env A (snd s') (fst s')"
  using assms(1)
proof cases
  case (add s tx p ch)
  with add_transaction_inv [of env A ch p s tx] assms(2,3) show ?thesis by simp
next
  case (block st ch ch' p promoted mined p')
  with on_state_updates_inv [of env A ch p st ch' promoted mined p'] assms(3) show ?thesis by simp
qed (use assms(3) in \<open>simp_all add: remove_transactions_inv remove_and_descendants_inv remove_by_sender_inv remove_included_all_inv\<close>)

lemma pool_run_inv:
  assumes "(aa_pool_step env A)\<^sup>*\<^sup>* (new_2d_pool limit, ch0) s" "inj_on (nonce_slot env) A"
  shows "pool_inv env A (snd s) (fst s)"
  using assms(1) by induction (auto simp: new_pool_inv intro: pool_step_inv [OF _ assms(2)])

subsection \<open>The assertions of the code\<close>







text \<open>A small pool: nonces in slots of their own for one sequence, priorities all equal, and two transactions that arrive in the wrong order.\<close>

definition sample_pool_env :: pool_env where
  "sample_pool_env = \<lparr>priority = (\<lambda>_. Some 0), is_underpriced = (\<lambda>_ _. True), rank = (\<lambda>q. 2 ^ 64 - unat (submission q)), nonce_slot = (\<lambda>s. sq_nonce_key s)\<rparr>"

definition sample_tx :: "b256 \<Rightarrow> u64 \<Rightarrow> pool_tx" where
  "sample_tx h n = \<lparr>tx_hash = h, tx_sender = 7, tx_nonce_key = 1, tx_nonce = n, tx_propagate = True, tx_origin = External\<rparr>"

definition sample_seq :: aa_sequence_id where
  "sample_seq = AASequenceId 7 1"

definition two_txs :: aa_2d_pool where
  "two_txs = snd (add_transaction sample_pool_env True (sample_tx 10 0) 0 (snd (add_transaction sample_pool_env True (sample_tx 11 1) 0 (new_2d_pool 100))))"

lemmas pool_eval = add_transaction_def contains_tx_def is_expiring_nonce_def TEMPO_EXPIRING_NONCE_KEY_def aa_transaction_id_def is_aa_2d_def record_2d_slot_def
  next_id_def pending_transaction_def insert_sequential_def insert_entry_def split_range_def discard_def sample_pool_env_def sample_tx_def sample_seq_def new_2d_pool_def
  saturating_add_def less_aa_2d_transaction_id_def less_aa_sequence_id_def less_eq_aa_2d_transaction_id_def Let_def

lemma two_txs_run: "(aa_pool_step sample_pool_env {sample_seq})\<^sup>*\<^sup>* (new_2d_pool 100, \<lambda>_. 0) (two_txs, \<lambda>_. 0)"
proof -
  let ?e = sample_pool_env and ?A = "{sample_seq}"
  have "seq_id (aa_transaction_id (sample_tx h n)) = sample_seq" for h n by (simp add: aa_transaction_id_def sample_tx_def sample_seq_def)
  then have s: "aa_pool_step ?e ?A (p, \<lambda>_. 0) (snd (add_transaction ?e True (sample_tx h n) 0 p), \<lambda>_. 0)" for p h n
    using aa_pool_step.add [of sample_seq "sample_tx h n" ?A ?e p "\<lambda>_. 0"] by simp
  show ?thesis unfolding two_txs_def
    using s [of "new_2d_pool 100" 11 1] s [of "snd (add_transaction ?e True (sample_tx 11 1) 0 (new_2d_pool 100))" 10 0] by (meson r_into_rtranclp rtranclp.rtrancl_into_rtrancl)
qed


lemma two_txs_entry: "map_of (by_id two_txs) (AA2dTransactionId sample_seq 1) = Some \<lparr>inner = pending_transaction sample_pool_env 0 (sample_tx 11 1), is_pending = True\<rparr>"
  by (simp add: two_txs_def pool_eval)

text \<open>C5. The pool knows which transactions are executable: a transaction whose predecessors from the nonce of the chain on are all in the pool is marked as
  pending, it is not outdated, and it is the independent transaction of its sequence exactly when it has the nonce of the chain.\<close>

theorem executable_transactions_pending:
  assumes "(aa_pool_step env A)\<^sup>*\<^sup>* (new_2d_pool limit, ch0) (p, ch)" "inj_on (nonce_slot env) A"
    and "map_of (by_id p) (AA2dTransactionId s k) = Some t" "gapless (map_of (by_id p)) s (ch s) k"
  shows "ch s \<le> k \<and> is_pending t \<and> (map_of (independent_transactions p) s = Some (inner t)) = (k = ch s)"
proof -
  have inv: "hashes_ok p" "promoted_ok ch p" "independent_ok ch p" "no_outdated ch p" using pool_run_inv [OF assms(1,2)] by (auto simp: pool_inv_def pool_mid_def)
  have le: "ch s \<le> k" using inv(4) assms(3) by (auto simp: no_outdated_def)
  moreover have "is_pending t" using inv(2) assms(3,4) le by (auto simp: promoted_ok_def)
  moreover have "k = ch s" if i: "map_of (independent_transactions p) s = Some (inner t)"
  proof -
    obtain j u where u: "get_id p (AA2dTransactionId s j) = Some u" "inner u = inner t" "is_pending u" "j \<le> ch s" by (rule independent_entry [OF inv(3) i])
    with hashes_entry(1) [OF inv(1) u(1)] hashes_entry(1) [OF inv(1) assms(3)] have "j = k" by simp
    with u(4) le show ?thesis by simp
  qed
  ultimately show ?thesis using independent_head [OF inv(3), of s t] assms(3) by auto
qed

theorem executable_transactions_pending_witness:
  "0 \<le> (1 :: u64) \<and> is_pending \<lparr>inner = pending_transaction sample_pool_env 0 (sample_tx 11 1), is_pending = True\<rparr> \<and>
   (map_of (independent_transactions two_txs) sample_seq = Some (pending_transaction sample_pool_env 0 (sample_tx 11 1))) = ((1 :: u64) = 0)"
proof -
  have "gapless (map_of (by_id two_txs)) sample_seq 0 1" unfolding gapless_def
  proof (intro allI impI)
    fix j :: u64 assume "j \<le> 1"
    then consider "j = 0" | "j = 1" by (metis inc_le order_antisym_conv word_le_less_eq word_less_1 le_numeral_extra(4) add_0 not_le)
    then show "map_of (by_id two_txs) (AA2dTransactionId sample_seq j) \<noteq> None" by cases (simp_all add: two_txs_def pool_eval)
  qed
  then show ?thesis using executable_transactions_pending [OF two_txs_run _ two_txs_entry] by simp
qed

subsection \<open>Where the pool does less than it says\<close>

text \<open>Only the first transaction after a gap loses its pending mark. Here the transaction with nonce 0 of four pending ones is removed, and a report of the unchanged
  nonce 0 demotes nonce 1 and leaves nonces 2 and 3 pending.\<close>

definition four_txs :: aa_2d_pool where
  "four_txs = fold (\<lambda>n p. snd (add_transaction sample_pool_env True (sample_tx (ucast n + 10) n) 0 p)) [0, 1, 2, 3] (new_2d_pool 100)"

lemma gap_demotes_first_only:
  "map (\<lambda>(i, t). (id_nonce i, is_pending t)) (by_id (snd (snd (on_nonce_changes [(sample_seq, 0)] (snd (remove_transactions [10] four_txs)))))) =
     [(1, False), (2, True), (3, True)]"
  by (simp add: four_txs_def pool_eval on_nonce_changes_def change_nonce_def remove_transactions_def remove_transaction_by_hash_def remove_transaction_by_id_def
      push_removed_def forget_slot_def remove_independent_def descendant_txs_def bt_remove_def)

text \<open>The limit is not enforced for transactions that are parked.\<close>

lemma parked_exceed_limit:
  "length (by_id (fold (\<lambda>n p. snd (add_transaction sample_pool_env True (sample_tx (ucast n + 10) n) 0 p)) [1, 2, 3] (new_2d_pool 1))) = 3"
  by (simp add: pool_eval)

text \<open>Before T1, a transaction with the nonce key of expiring nonces is stored by its identifier, but a removal by hash does not look there: the transaction stays,
  without its hash.\<close>

lemma pre_t1_removal_leaves_entry:
  "let tx = (sample_tx 10 0)\<lparr>tx_nonce_key := TEMPO_EXPIRING_NONCE_KEY\<rparr>;
       p = snd (remove_transactions [10] (snd (add_transaction sample_pool_env False tx 0 (new_2d_pool 100))))
   in by_hash p = [] \<and> map (transaction \<circ> inner \<circ> snd) (by_id p) = [tx]"
  by (simp add: pool_eval remove_transactions_def remove_transaction_by_hash_def push_removed_def bt_remove_def)

end
