(* ===== verification/Pool_2d_Best.thy ===== *)
theory Pool_2d_Best
  imports Pool_2d_Properties
begin

section \<open>The iterator over the best transactions\<close>

text \<open>
  What a block builder sees: the iterator yields transactions in an order in which they can be executed, and it yields all of them.
\<close>

definition after_tx :: "pool_tx \<Rightarrow> (aa_sequence_id \<Rightarrow> u64) \<Rightarrow> aa_sequence_id \<Rightarrow> u64" where
  "after_tx tx c = (if is_expiring_nonce tx then c else c(seq_id (aa_transaction_id tx) := saturating_add (tx_nonce tx) 1))"

text \<open>A list of transactions can be executed in this order: each of them has the nonce that its sequence has reached.\<close>

fun executes :: "(aa_sequence_id \<Rightarrow> u64) \<Rightarrow> pool_tx list \<Rightarrow> bool" where
  "executes c [] = True"
| "executes c (tx # txs) = ((is_expiring_nonce tx \<or> tx_nonce tx = c (seq_id (aa_transaction_id tx))) \<and> executes (after_tx tx c) txs)"

text \<open>The executable transactions of a pool: the expiring ones, and those without a gap between them and the chain.\<close>

definition executable :: "(aa_sequence_id \<Rightarrow> u64) \<Rightarrow> aa_2d_pool \<Rightarrow> pool_tx set" where
  "executable ch p = {transaction q |h q. map_of (expiring_nonce_txs p) h = Some q} \<union>
     {transaction (inner t) |s k t. map_of (by_id p) (AA2dTransactionId s k) = Some t \<and> gapless (map_of (by_id p)) s (ch s) k}"

definition pool_pendings :: "aa_2d_pool \<Rightarrow> pending_tx set" where
  "pool_pendings p = {q. \<exists>h. map_of (expiring_nonce_txs p) h = Some q} \<union> {inner t |i t. map_of (by_id p) i = Some t}"

subsection \<open>The ordered set of pending transactions\<close>

abbreviation ranked :: "(pending_tx \<Rightarrow> nat) \<Rightarrow> pending_tx list \<Rightarrow> bool" where
  "ranked r xs \<equiv> sorted_wrt (\<lambda>x y. r x < r y) xs"

lemma set_insert_subset: "set (set_insert r q xs) \<subseteq> insert q (set xs)"
  by (induction r q xs rule: set_insert.induct) auto

lemma set_insert_ranked: "ranked r xs \<Longrightarrow> ranked r (set_insert r q xs)"
proof (induction r q xs rule: set_insert.induct)
  case (2 r q x xs)
  then show ?case using set_insert_subset [of r q xs] by fastforce
qed simp

lemma set_insert_set: "inj_on r (insert q (set xs)) \<Longrightarrow> set (set_insert r q xs) = insert q (set xs)"
proof (induction r q xs rule: set_insert.induct)
  case (2 r q x xs)
  have "inj_on r (insert q (set xs))" using "2.prems" by (rule inj_on_subset) auto
  moreover have "q = x" if "r q = r x" using "2.prems" that by (auto dest: inj_onD)
  ultimately show ?case using "2.IH" by auto
qed simp

lemma fold_set_insert:
  assumes "ranked r ys" "inj_on r (set xs \<union> set ys)"
  shows "ranked r (fold (set_insert r) xs ys) \<and> set (fold (set_insert r) xs ys) = set xs \<union> set ys"
  using assms
proof (induction xs arbitrary: ys)
  case (Cons x xs)
  have i: "inj_on r (insert x (set ys))" using Cons.prems(2) by (rule inj_on_subset) auto
  have "ranked r (fold (set_insert r) xs (set_insert r x ys)) \<and> set (fold (set_insert r) xs (set_insert r x ys)) = set xs \<union> set (set_insert r x ys)"
    by (rule Cons.IH) (use Cons.prems set_insert_set [OF i] in \<open>auto simp: set_insert_ranked\<close>)
  with set_insert_set [OF i] show ?case by auto
qed simp

lemma ranked_distinct: "ranked r xs \<Longrightarrow> distinct xs"
  by (induction xs) auto

lemma ranked_butlast: "ranked r xs \<Longrightarrow> xs \<noteq> [] \<Longrightarrow> ranked r (butlast xs) \<and> set (butlast xs) = set xs - {last xs}"
proof (cases xs rule: rev_cases)
  case (snoc ys y)
  assume "ranked r xs"
  then have "y \<notin> set ys" "ranked r ys" by (auto simp: snoc sorted_wrt_append)
  then show ?thesis by (auto simp: snoc)
qed simp

subsection \<open>The state of the iteration\<close>

text \<open>\<open>c\<close> is the chain after the execution of the transactions \<open>Y\<close> that were yielded.\<close>

definition iterating :: "pool_env \<Rightarrow> aa_2d_pool \<Rightarrow> (aa_sequence_id \<Rightarrow> u64) \<Rightarrow> (aa_sequence_id \<Rightarrow> u64) \<Rightarrow> pool_tx set \<Rightarrow> best_transactions \<Rightarrow> bool" where
  "iterating env p ch c Y b \<longleftrightarrow> invalid b = {} \<and> ranked (rank env) (independent b) \<and>
     (\<forall>q. q \<in> set (independent b) \<longleftrightarrow> transaction q \<notin> Y \<and>
        ((\<exists>h. map_of (expiring_nonce_txs p) h = Some q) \<or>
         (\<exists>s t. get_id p (AA2dTransactionId s (c s)) = Some t \<and> inner t = q \<and> gapless (get_id p) s (ch s) (c s)))) \<and>
     (\<forall>i. map_of (best_by_id b) i = (case get_id p i of None \<Rightarrow> None | Some t \<Rightarrow> if is_pending t \<and> transaction (inner t) \<notin> Y then Some (inner t) else None)) \<and>
     (\<forall>s k t. get_id p (AA2dTransactionId s k) = Some t \<longrightarrow> transaction (inner t) \<in> Y \<longrightarrow> k < c s \<or> c s = MAX_WORD) \<and>
     (\<forall>s k. ch s \<le> k \<longrightarrow> k < c s \<longrightarrow> (\<exists>t. get_id p (AA2dTransactionId s k) = Some t \<and> transaction (inner t) \<in> Y)) \<and>
     (\<forall>s. ch s \<le> c s) \<and> Y \<subseteq> executable ch p"

lemma iterating_start:
  assumes "pool_inv env A ch p" "inj_on (rank env) (pool_pendings p)"
  shows "iterating env p ch ch {} (best_transactions_of env p)"
proof -
  have ok: "bt_ok (independent_transactions p)" "bt_ok (by_id p)" "bt_ok (expiring_nonce_txs p)" and ind: "independent_ok ch p" and od: "no_outdated ch p"
    using assms(1) by (auto simp: pool_inv_def pool_mid_def maps_ok_def)
  let ?I = "bt_values (independent_transactions p)" and ?X = "bt_values (expiring_nonce_txs p)"
  have X: "q \<in> set ?X \<longleftrightarrow> (\<exists>h. map_of (expiring_nonce_txs p) h = Some q)" for q by (simp add: bt_values_def bt.values_lookup [OF ok(3)])
  have g: "gapless (get_id p) s (ch s) (ch s)" if "get_id p (AA2dTransactionId s (ch s)) = Some t" for s t using that by (auto simp: gapless_def dest: antisym)
  have I: "q \<in> set ?I \<longleftrightarrow> (\<exists>s t. get_id p (AA2dTransactionId s (ch s)) = Some t \<and> inner t = q)" for q
  proof -
    have "(\<exists>s. map_of (independent_transactions p) s = Some q) \<longleftrightarrow> (\<exists>s t. get_id p (AA2dTransactionId s (ch s)) = Some t \<and> inner t = q)"
    proof
      assume "\<exists>s. map_of (independent_transactions p) s = Some q"
      then obtain s where s: "map_of (independent_transactions p) s = Some q" by blast
      obtain k t where t: "get_id p (AA2dTransactionId s k) = Some t" "inner t = q" "is_pending t" "k \<le> ch s" by (rule independent_entry [OF ind s])
      moreover have "ch s \<le> k" using od t(1) by (auto simp: no_outdated_def)
      ultimately show "\<exists>s t. get_id p (AA2dTransactionId s (ch s)) = Some t \<and> inner t = q" by (metis antisym)
    qed (auto dest: independent_head [OF ind])
    then show ?thesis by (simp add: bt_values_def bt.values_lookup [OF ok(1)])
  qed
  have sub: "set ?X \<union> set ?I \<subseteq> pool_pendings p" by (auto simp: X I pool_pendings_def)
  have i1: "inj_on (rank env) (set ?I)" by (rule inj_on_subset [OF assms(2)]) (use sub in auto)
  have f1: "ranked (rank env) (fold (set_insert (rank env)) ?I []) \<and> set (fold (set_insert (rank env)) ?I []) = set ?I"
    using fold_set_insert [of "rank env" "[]" ?I] i1 by simp
  have "inj_on (rank env) (set ?X \<union> set (fold (set_insert (rank env)) ?I []))" by (rule inj_on_subset [OF assms(2)]) (use sub f1 in auto)
  from fold_set_insert [OF _ this] f1
  have f2: "ranked (rank env) (independent (best_transactions_of env p))" "set (independent (best_transactions_of env p)) = set ?X \<union> set ?I"
    by (auto simp: best_transactions_of_def)
  have m: "map_of (best_by_id (best_transactions_of env p)) i = (case get_id p i of None \<Rightarrow> None | Some t \<Rightarrow> if is_pending t then Some (inner t) else None)" for i
  proof -
    have "map_of (map (\<lambda>(i, t). (i, inner t)) (filter (\<lambda>e. is_pending (snd e)) m)) i = (case map_of m i of None \<Rightarrow> None | Some t \<Rightarrow> if is_pending t then Some (inner t) else None)"
      if "bt_ok m" for m using that
    proof (induction m)
      case (Cons e m)
      have "bt_ok m" "fst e \<notin> fst ` set m" using bt_ok_distinct [OF Cons.prems] Cons.prems by (auto simp: bt_ok_def)
      moreover then have "map_of m (fst e) = None" by (simp add: map_of_eq_None_iff)
      ultimately show ?case using Cons.IH by (cases e) auto
    qed simp
    then show ?thesis using ok(2) by (simp add: best_transactions_of_def)
  qed
  show ?thesis unfolding iterating_def
    by (intro conjI allI impI) (use f2 m g in \<open>auto simp: X I best_transactions_of_def cong: option.case_cong\<close>)
qed

subsection \<open>One step of the iteration\<close>

lemma iterating_parts:
  assumes "iterating env p ch c Y b"
  shows "invalid b = {}" "ranked (rank env) (independent b)"
    "\<And>q. q \<in> set (independent b) \<longleftrightarrow> transaction q \<notin> Y \<and> ((\<exists>h. map_of (expiring_nonce_txs p) h = Some q) \<or>
        (\<exists>s t. get_id p (AA2dTransactionId s (c s)) = Some t \<and> inner t = q \<and> gapless (get_id p) s (ch s) (c s)))"
    "\<And>i. map_of (best_by_id b) i = (case get_id p i of None \<Rightarrow> None | Some t \<Rightarrow> if is_pending t \<and> transaction (inner t) \<notin> Y then Some (inner t) else None)"
    "\<And>s k t. get_id p (AA2dTransactionId s k) = Some t \<Longrightarrow> transaction (inner t) \<in> Y \<Longrightarrow> k < c s \<or> c s = MAX_WORD"
    "\<And>s k. ch s \<le> k \<Longrightarrow> k < c s \<Longrightarrow> \<exists>t. get_id p (AA2dTransactionId s k) = Some t \<and> transaction (inner t) \<in> Y"
    "\<And>s. ch s \<le> c s" "Y \<subseteq> executable ch p"
  using assms unfolding iterating_def by blast+

lemma next_result:
  assumes "invalid b = {}" "independent b \<noteq> []"
  defines "q \<equiv> last (independent b)" and "i \<equiv> aa_transaction_id (transaction (last (independent b)))"
  shows "next_tx_and_priority env b = Some ((transaction q, pd_priority q),
    b\<lparr>independent := (case map_of (bt_remove i (best_by_id b)) (unlocks i) of Some u \<Rightarrow> set_insert (rank env) u (butlast (independent b)) | None \<Rightarrow> butlast (independent b)),
      best_by_id := bt_remove i (best_by_id b)\<rparr>)"
  using assms by (subst next_tx_and_priority.simps) (simp add: pop_best_def Let_def split: option.splits)

lemma step_expiring:
  assumes inv: "pool_inv env A ch p" and it: "iterating env p ch c Y b" and ne: "independent b \<noteq> []" and q: "q = last (independent b)"
    and x: "map_of (expiring_nonce_txs p) h = Some q"
  shows "\<exists>b'. next_tx_and_priority env b = Some ((transaction q, pd_priority q), b') \<and> is_expiring_nonce (transaction q) \<and> iterating env p ch c (insert (transaction q) Y) b'"
proof -
  note parts = iterating_parts [OF it]
  have hs: "hashes_ok p" using inv by (simp add: pool_inv_def pool_mid_def)
  let ?tx = "transaction q" and ?i = "aa_transaction_id (transaction q)"
  have e: "is_expiring_nonce ?tx" "map_of (by_hash p) h = Some ?tx" using hashes_expiring [OF hs x] .
  have none: "get_id p j = None" if "sq_nonce_key (seq_id j) = TEMPO_EXPIRING_NONCE_KEY" for j
  proof (rule ccontr)
    assume "get_id p j \<noteq> None"
    then obtain t where "get_id p j = Some t" by auto
    from hashes_entry(1,2) [OF hs this] that show False by (auto simp: aa_transaction_id_def is_expiring_nonce_def)
  qed
  have i: "sq_nonce_key (seq_id ?i) = TEMPO_EXPIRING_NONCE_KEY" using e(1) by (simp add: aa_transaction_id_def is_expiring_nonce_def)
  have bg: "map_of (best_by_id b) ?i = None" "map_of (best_by_id b) (unlocks ?i) = None" using none [of ?i] none [of "unlocks ?i"] i by (simp_all add: parts(4) unlocks_def)
  let ?b = "b\<lparr>independent := butlast (independent b), best_by_id := bt_remove ?i (best_by_id b)\<rparr>"
  have nx: "next_tx_and_priority env b = Some ((?tx, pd_priority q), ?b)" using next_result [OF parts(1) ne, of env] bg q by (simp add: bt_remove_get)
  have ind: "ranked (rank env) (independent ?b)" "set (independent ?b) = set (independent b) - {q}" using ranked_butlast [OF parts(2) ne] by (simp_all add: q)
  have tx: "transaction (inner t) \<noteq> ?tx" if "get_id p j = Some t" for j t using hashes_entry(2) [OF hs that] e(1) by auto
  have uniq: "y = q" if y: "map_of (expiring_nonce_txs p) h' = Some y" "transaction y = ?tx" for h' y
  proof -
    have "h' = h" using hashes_expiring(2) [OF hs y(1)] hashes_hash(1) [OF hs] e(2) y(2) by metis
    with y x show ?thesis by simp
  qed
  have "iterating env p ch c (insert ?tx Y) ?b" unfolding iterating_def
  proof (intro conjI allI impI)
    fix y
    show "y \<in> set (independent ?b) \<longleftrightarrow> transaction y \<notin> insert ?tx Y \<and> ((\<exists>h. map_of (expiring_nonce_txs p) h = Some y) \<or>
        (\<exists>s t. get_id p (AA2dTransactionId s (c s)) = Some t \<and> inner t = y \<and> gapless (get_id p) s (ch s) (c s)))"
      unfolding ind(2) Diff_iff parts(3) using uniq tx by auto
  next
    fix j show "map_of (best_by_id ?b) j = (case get_id p j of None \<Rightarrow> None | Some t \<Rightarrow> if is_pending t \<and> transaction (inner t) \<notin> insert ?tx Y then Some (inner t) else None)"
      using bg(1) tx by (auto simp: bt_remove_get parts(4) split: option.splits)
  next
    fix s k t assume "get_id p (AA2dTransactionId s k) = Some t" "transaction (inner t) \<in> insert ?tx Y"
    then show "k < c s \<or> c s = MAX_WORD" using parts(5) tx by blast
  next
    fix s k assume "ch s \<le> k" "k < c s"
    then show "\<exists>t. get_id p (AA2dTransactionId s k) = Some t \<and> transaction (inner t) \<in> insert ?tx Y" using parts(6) by blast
  next
    show "insert ?tx Y \<subseteq> executable ch p" using parts(8) x by (auto simp: executable_def)
  qed (use parts(1,7) ind in simp_all)
  with nx e(1) show ?thesis by blast
qed

lemma step_sequential:
  assumes inv: "pool_inv env A ch p" and inj: "inj_on (rank env) (pool_pendings p)" and it: "iterating env p ch c Y b" and ne: "independent b \<noteq> []"
    and q: "q = last (independent b)" and t: "get_id p (AA2dTransactionId s (c s)) = Some t" "inner t = q" "gapless (get_id p) s (ch s) (c s)"
  shows "\<exists>b'. next_tx_and_priority env b = Some ((transaction q, pd_priority q), b') \<and> \<not> is_expiring_nonce (transaction q) \<and>
    aa_transaction_id (transaction q) = AA2dTransactionId s (c s) \<and> iterating env p ch (c(s := saturating_add (c s) 1)) (insert (transaction q) Y) b'"
proof -
  note parts = iterating_parts [OF it]
  have hs: "hashes_ok p" and pr: "promoted_ok ch p" using inv by (auto simp: pool_inv_def pool_mid_def)
  let ?tx = "transaction q" and ?i = "AA2dTransactionId s (c s)" and ?c = "c(s := saturating_add (c s) 1)"
  have e: "aa_transaction_id ?tx = ?i" "\<not> is_expiring_nonce ?tx" using hashes_entry(1,2) [OF hs t(1)] t(2) by simp_all
  have tx: "transaction (inner u) = ?tx \<longleftrightarrow> j = ?i" if "get_id p j = Some u" for j u
    using hashes_entry(1) [OF hs that] e(1) t that by (metis option.inject)
  have txX: "transaction y \<noteq> ?tx" if "map_of (expiring_nonce_txs p) h = Some y" for h y using hashes_expiring(1) [OF hs that] e(2) by auto
  have cs: "saturating_add (c s) 1 = (if c s = MAX_WORD then MAX_WORD else c s + 1)"
  proof (cases "c s = MAX_WORD")
    case True
    then show ?thesis by (simp add: saturating_add_def unsigned_minus_1_eq_mask mask_eq_exp_minus_1)
  next
    case False
    then have "c s < MAX_WORD" by (simp add: word_order.not_eq_extremum)
    from sat_suc [OF this] False show ?thesis by simp
  qed
  have cm: "saturating_add MAX_WORD 1 = (MAX_WORD :: u64)" by (simp add: saturating_add_def unsigned_minus_1_eq_mask mask_eq_exp_minus_1)
  have lt: "c s < c s + 1" "\<And>k. k < c s + 1 \<longleftrightarrow> k \<le> c s" if "c s \<noteq> MAX_WORD"
    using that suc_le [of "c s" MAX_WORD] by (auto simp: word_order.not_eq_extremum not_le [symmetric])
  have cx: "c s < ?c s \<or> ?c s = MAX_WORD" using lt by (cases "c s = MAX_WORD") (simp_all add: cs cm)
  have cle: "c r \<le> ?c r" for r using lt(1) by (cases "c s = MAX_WORD") (simp_all add: cs cm less_imp_le)
  have cnx: "k = c s" if "k < ?c s" "\<not> k < c s" for k using that lt(2) [of k] by (cases "c s = MAX_WORD") (simp_all add: cs cm)
  define un where "un = (if c s = MAX_WORD then None else get_id p (AA2dTransactionId s (c s + 1)))"
  have fut: "is_pending u \<and> transaction (inner u) \<notin> Y \<and> gapless (get_id p) s (ch s) (c s + 1)" if u: "get_id p (AA2dTransactionId s (c s + 1)) = Some u" and False: "c s \<noteq> MAX_WORD" for u
    proof -
      have "gapless (get_id p) s (ch s) (c s + 1)" using t(3) u lt [OF False] by (auto simp: gapless_def) (metis option.exhaust linorder_le_less_linear order_le_less)
      moreover have "ch s \<le> c s + 1" using parts(7) [of s] lt(1) [OF False] by (meson order.trans less_imp_le)
      moreover have "\<not> c s + 1 < c s" using lt(1) [OF False] by (rule less_not_sym)
      ultimately show ?thesis using pr u parts(5) [OF u] False by (auto simp: promoted_ok_def)
    qed
  have un: "map_of (bt_remove ?i (best_by_id b)) (unlocks ?i) = map_option inner un"
  proof (cases "c s = MAX_WORD")
    case False
    with fut lt [OF False] show ?thesis by (auto simp: un_def unlocks_def cs bt_remove_get parts(4) split: option.splits)
  next
    case True
    with cs have "saturating_add (c s) 1 = c s" by simp
    with True show ?thesis by (simp add: un_def unlocks_def bt_remove_get)
  qed
  let ?I = "case un of Some u \<Rightarrow> set_insert (rank env) (inner u) (butlast (independent b)) | None \<Rightarrow> butlast (independent b)"
  let ?b = "b\<lparr>independent := ?I, best_by_id := bt_remove ?i (best_by_id b)\<rparr>"
  have nx: "next_tx_and_priority env b = Some ((?tx, pd_priority q), ?b)"
    using next_result [OF parts(1) ne, of env] un e(1) q by (cases un) simp_all
  have bl: "ranked (rank env) (butlast (independent b))" "set (butlast (independent b)) = set (independent b) - {q}" using ranked_butlast [OF parts(2) ne] by (simp_all add: q)
  have sub: "set (independent b) \<subseteq> pool_pendings p" by (auto simp: parts(3) pool_pendings_def)
  have unp: "inner u \<in> pool_pendings p" if "un = Some u" for u using that by (auto simp: un_def pool_pendings_def split: if_splits)
  have I: "ranked (rank env) ?I \<and> set ?I = (set (independent b) - {q}) \<union> (case un of Some u \<Rightarrow> {inner u} | None \<Rightarrow> {})"
  proof (cases un)
    case (Some u)
    have "inj_on (rank env) (insert (inner u) (set (butlast (independent b))))" by (rule inj_on_subset [OF inj]) (use sub unp [OF Some] bl(2) in auto)
    from set_insert_set [OF this] bl set_insert_ranked [OF bl(1)] Some show ?thesis by auto
  qed (use bl in simp)
  have "iterating env p ch ?c (insert ?tx Y) ?b" unfolding iterating_def
  proof (intro conjI allI impI)
    fix y
    have new: "(case un of Some u \<Rightarrow> y = inner u | None \<Rightarrow> False) \<longleftrightarrow>
        transaction y \<notin> insert ?tx Y \<and> (\<exists>u. get_id p (AA2dTransactionId s (?c s)) = Some u \<and> inner u = y \<and> gapless (get_id p) s (ch s) (?c s))"
    proof (cases "c s = MAX_WORD")
      case True
      then have "?c s = c s" by (simp add: cs cm)
      then show ?thesis using t by (auto simp: un_def True)
    next
      case False
      have "transaction (inner u) \<notin> insert ?tx Y" if u: "get_id p (AA2dTransactionId s (c s + 1)) = Some u" for u
        using fut [OF u False] tx [OF u] lt [OF False] by auto
      then show ?thesis using False fut by (auto simp: un_def cs split: option.splits)
    qed
    have old: "y \<in> set (independent b) - {q} \<longleftrightarrow> transaction y \<notin> insert ?tx Y \<and> ((\<exists>h. map_of (expiring_nonce_txs p) h = Some y) \<or>
        (\<exists>r u. r \<noteq> s \<and> get_id p (AA2dTransactionId r (c r)) = Some u \<and> inner u = y \<and> gapless (get_id p) r (ch r) (c r)))"
    proof
      assume y: "y \<in> set (independent b) - {q}"
      then have "transaction y \<notin> Y" "y \<noteq> q" by (auto simp: parts(3))
      from y consider h where "map_of (expiring_nonce_txs p) h = Some y"
        | r u where "get_id p (AA2dTransactionId r (c r)) = Some u" "inner u = y" "gapless (get_id p) r (ch r) (c r)" by (auto simp: parts(3))
      then show "transaction y \<notin> insert ?tx Y \<and> ((\<exists>h. map_of (expiring_nonce_txs p) h = Some y) \<or>
          (\<exists>r u. r \<noteq> s \<and> get_id p (AA2dTransactionId r (c r)) = Some u \<and> inner u = y \<and> gapless (get_id p) r (ch r) (c r)))"
      proof cases
        case 1
        with txX \<open>transaction y \<notin> Y\<close> show ?thesis by auto
      next
        case 2
        then have "r \<noteq> s" using t \<open>y \<noteq> q\<close> by auto
        with 2 tx [OF 2(1)] \<open>transaction y \<notin> Y\<close> show ?thesis by auto
      qed
    qed (auto simp: parts(3))
    show "y \<in> set (independent ?b) \<longleftrightarrow> transaction y \<notin> insert ?tx Y \<and> ((\<exists>h. map_of (expiring_nonce_txs p) h = Some y) \<or>
        (\<exists>r u. get_id p (AA2dTransactionId r (?c r)) = Some u \<and> inner u = y \<and> gapless (get_id p) r (ch r) (?c r)))"
      using old new I by (cases un) (auto split: if_splits)
  next
    fix j show "map_of (best_by_id ?b) j = (case get_id p j of None \<Rightarrow> None | Some u \<Rightarrow> if is_pending u \<and> transaction (inner u) \<notin> insert ?tx Y then Some (inner u) else None)"
      using t tx [of j] by (auto simp: bt_remove_get parts(4) split: option.splits)
  next
    fix r k u assume u: "get_id p (AA2dTransactionId r k) = Some u" "transaction (inner u) \<in> insert ?tx Y"
    show "k < ?c r \<or> ?c r = MAX_WORD"
    proof (cases "transaction (inner u) = ?tx")
      case True
      then have "r = s" "k = c s" using tx [OF u(1)] by simp_all
      then show ?thesis using cx by auto
    next
      case False
      then have "k < c r \<or> c r = MAX_WORD" using u parts(5) by blast
      then show ?thesis
      proof
        assume "k < c r"
        then show ?thesis using cle [of r] by (blast intro: order_less_le_trans)
      next
        assume "c r = MAX_WORD"
        then show ?thesis using cle [of r] by (simp add: word_order.extremum_unique del: fun_upd_apply)
      qed
    qed
  next
    fix r k assume k: "ch r \<le> k" "k < ?c r"
    show "\<exists>u. get_id p (AA2dTransactionId r k) = Some u \<and> transaction (inner u) \<in> insert ?tx Y"
    proof (cases "k < c r")
      case True
      then show ?thesis using parts(6) [OF k(1)] by blast
    next
      case False
      then have "r = s" "k = c s" using k cnx [of k] by (auto split: if_splits)
      then show ?thesis using t by auto
    qed
  next
    fix r show "ch r \<le> ?c r" using parts(7) cle by (rule order.trans)
  next
    show "insert ?tx Y \<subseteq> executable ch p" using parts(8) t by (auto simp: executable_def)
  qed (use parts(1) I in simp_all)
  with nx e show ?thesis by blast
qed

subsection \<open>The whole iteration\<close>

lemma next_none: "independent b = [] \<Longrightarrow> next_tx_and_priority env b = None"
  by (subst next_tx_and_priority.simps) (simp add: pop_best_def)

lemma iterating_complete:
  assumes it: "iterating env p ch c Y b" and empty: "independent b = []" and od: "no_outdated ch p"
  shows "executable ch p \<subseteq> Y"
proof
  note parts = iterating_parts [OF it]
  fix tx assume "tx \<in> executable ch p"
  then consider h q where "map_of (expiring_nonce_txs p) h = Some q" "tx = transaction q"
    | s k t where "get_id p (AA2dTransactionId s k) = Some t" "tx = transaction (inner t)" "gapless (get_id p) s (ch s) k" by (auto simp: executable_def)
  then show "tx \<in> Y"
  proof cases
    case 1
    with parts(3) [of q] empty show ?thesis by auto
  next
    case 2
    have le: "ch s \<le> k" using od 2(1) by (auto simp: no_outdated_def)
    show ?thesis
    proof (cases "k < c s")
      case True
      with parts(6) [OF le] 2 show ?thesis by auto
    next
      case False
      then have "gapless (get_id p) s (ch s) (c s)" using 2(3) by (auto simp: gapless_def)
      moreover obtain u where u: "get_id p (AA2dTransactionId s (c s)) = Some u" using gapless_head [OF 2(3) le] parts(7) [of s] False 2(3) by (auto simp: gapless_def not_less)
      ultimately have "transaction (inner u) \<in> Y" using parts(3) [of "inner u"] empty by auto
      then have "c s = MAX_WORD" using parts(5) [OF u] by simp
      then have "k = c s" using False by (simp add: not_less word_order.extremum_unique)
      with u 2 \<open>transaction (inner u) \<in> Y\<close> show ?thesis by simp
    qed
  qed
qed

lemma iterating_take:
  assumes inv: "pool_inv env A ch p" and inj: "inj_on (rank env) (pool_pendings p)" and it: "iterating env p ch c Y b"
  shows "executes c (best_take env n b) \<and> distinct (best_take env n b) \<and> set (best_take env n b) \<inter> Y = {} \<and> set (best_take env n b) \<subseteq> executable ch p \<and>
    (length (best_take env n b) < n \<longrightarrow> executable ch p \<subseteq> Y \<union> set (best_take env n b))"
  using it
proof (induction n arbitrary: c Y b)
  case (Suc n)
  have od: "no_outdated ch p" using inv by (simp add: pool_inv_def)
  note parts = iterating_parts [OF Suc.prems]
  show ?case
  proof (cases "independent b = []")
    case True
    with iterating_complete [OF Suc.prems True od] show ?thesis by (simp add: next_none)
  next
    case False
    define q where "q = last (independent b)"
    have qin: "q \<in> set (independent b)" using False by (simp add: q_def)
    then have qY: "transaction q \<notin> Y" by (simp add: parts(3))
    have "\<exists>b'. next_tx_and_priority env b = Some ((transaction q, pd_priority q), b') \<and> (is_expiring_nonce (transaction q) \<or> tx_nonce (transaction q) = c (seq_id (aa_transaction_id (transaction q)))) \<and>
        iterating env p ch (after_tx (transaction q) c) (insert (transaction q) Y) b'"
    proof (cases "\<exists>h. map_of (expiring_nonce_txs p) h = Some q")
      case True
      then obtain h where "map_of (expiring_nonce_txs p) h = Some q" by blast
      from step_expiring [OF inv Suc.prems False q_def this] show ?thesis by (auto simp: after_tx_def)
    next
      case noX: False
      then obtain s t where t: "get_id p (AA2dTransactionId s (c s)) = Some t" "inner t = q" "gapless (get_id p) s (ch s) (c s)" using qin by (auto simp: parts(3))
      from step_sequential [OF inv inj Suc.prems False q_def t] obtain b' where b': "next_tx_and_priority env b = Some ((transaction q, pd_priority q), b')"
        "\<not> is_expiring_nonce (transaction q)" "aa_transaction_id (transaction q) = AA2dTransactionId s (c s)"
        "iterating env p ch (c(s := saturating_add (c s) 1)) (insert (transaction q) Y) b'" by blast
      moreover have "tx_nonce (transaction q) = c s" using b'(3) by (simp add: aa_transaction_id_def)
      ultimately show ?thesis by (auto simp: after_tx_def)
    qed
    then obtain b' where b': "next_tx_and_priority env b = Some ((transaction q, pd_priority q), b')"
      "is_expiring_nonce (transaction q) \<or> tx_nonce (transaction q) = c (seq_id (aa_transaction_id (transaction q)))"
      "iterating env p ch (after_tx (transaction q) c) (insert (transaction q) Y) b'" by blast
    note IH = Suc.IH [OF b'(3)]
    have "transaction q \<in> executable ch p" using iterating_parts(8) [OF b'(3)] by simp
    with IH b'(1,2) qY show ?thesis by auto
  qed
qed simp

lemma executable_bound:
  assumes "pool_inv env A ch p"
  shows "finite (executable ch p)" "card (executable ch p) \<le> length (by_id p) + length (expiring_nonce_txs p)"
proof -
  have sub: "executable ch p \<subseteq> set (map (transaction \<circ> inner \<circ> snd) (by_id p)) \<union> set (map (transaction \<circ> snd) (expiring_nonce_txs p))"
    by (auto simp: executable_def dest!: map_of_SomeD) force+
  then show "finite (executable ch p)" by (rule finite_subset) simp
  have "card (executable ch p) \<le> card (set (map (transaction \<circ> inner \<circ> snd) (by_id p)) \<union> set (map (transaction \<circ> snd) (expiring_nonce_txs p)))" using sub by (intro card_mono) auto
  also have "\<dots> \<le> card (set (map (transaction \<circ> inner \<circ> snd) (by_id p))) + card (set (map (transaction \<circ> snd) (expiring_nonce_txs p)))" by (rule card_Un_le)
  also have "\<dots> \<le> length (by_id p) + length (expiring_nonce_txs p)" by (metis add_mono card_length length_map)
  finally show "card (executable ch p) \<le> length (by_id p) + length (expiring_nonce_txs p)" .
qed

text \<open>C4. The iterator over the best transactions yields exactly the executable transactions of the pool, each of them once, and in an order in which they can
  be executed: whenever a transaction is yielded, its sequence has reached its nonce.\<close>

theorem best_transactions_executable:
  assumes "(aa_pool_step env A)\<^sup>*\<^sup>* (new_2d_pool limit, ch0) (p, ch)" "inj_on (nonce_slot env) A" "inj_on (rank env) (pool_pendings p)"
    and "length (by_id p) + length (expiring_nonce_txs p) \<le> n"
  shows "executes ch (best_take env n (best_transactions_of env p)) \<and> distinct (best_take env n (best_transactions_of env p)) \<and>
    set (best_take env n (best_transactions_of env p)) = executable ch p"
proof -
  let ?ys = "best_take env n (best_transactions_of env p)"
  have inv: "pool_inv env A ch p" using pool_run_inv [OF assms(1,2)] by simp
  note ys = iterating_take [OF inv assms(3) iterating_start [OF inv assms(3)], of n]
  have "set ?ys = executable ch p"
  proof (cases "length ?ys < n")
    case True
    with ys show ?thesis by auto
  next
    case False
    then have "card (executable ch p) \<le> card (set ?ys)" using ys executable_bound(2) [OF inv] assms(4) distinct_card [of ?ys] by simp
    with ys show ?thesis by (intro card_seteq [OF executable_bound(1) [OF inv]]) auto
  qed
  with ys show ?thesis by blast
qed

theorem best_transactions_executable_witness:
  "executes (\<lambda>_. 0) (best_take sample_pool_env 2 (best_transactions_of sample_pool_env two_txs)) \<and> distinct (best_take sample_pool_env 2 (best_transactions_of sample_pool_env two_txs)) \<and>
   set (best_take sample_pool_env 2 (best_transactions_of sample_pool_env two_txs)) = executable (\<lambda>_. 0) two_txs"
proof (rule best_transactions_executable [OF two_txs_run])
  have two: "bt_values (by_id two_txs) = [\<lparr>inner = pending_transaction sample_pool_env 1 (sample_tx 10 0), is_pending = True\<rparr>,
      \<lparr>inner = pending_transaction sample_pool_env 0 (sample_tx 11 1), is_pending = True\<rparr>]" "expiring_nonce_txs two_txs = []"
    by (simp_all add: two_txs_def pool_eval bt_values_def)
  have "pool_pendings two_txs \<subseteq> {pending_transaction sample_pool_env 1 (sample_tx 10 0), pending_transaction sample_pool_env 0 (sample_tx 11 1)}"
  proof
    fix q assume "q \<in> pool_pendings two_txs"
    then obtain i t where "(i, t) \<in> set (by_id two_txs)" "q = inner t" using two(2) by (auto simp: pool_pendings_def dest: map_of_SomeD)
    then have "q \<in> inner ` set (bt_values (by_id two_txs))" by (force simp: bt_values_def)
    then show "q \<in> {pending_transaction sample_pool_env 1 (sample_tx 10 0), pending_transaction sample_pool_env 0 (sample_tx 11 1)}" by (auto simp: two(1))
  qed
  moreover have "inj_on (rank sample_pool_env) {pending_transaction sample_pool_env 1 (sample_tx 10 0), pending_transaction sample_pool_env 0 (sample_tx 11 1)}"
    by (simp add: sample_pool_env_def pending_transaction_def)
  ultimately show "inj_on (rank sample_pool_env) (pool_pendings two_txs)" by (metis inj_on_subset)
  show "length (by_id two_txs) + length (expiring_nonce_txs two_txs) \<le> 2" using two by (metis add.right_neutral bt_values_def le_refl length_map list.size(3,4) numeral_2_eq_2 One_nat_def Suc_eq_plus1)
qed simp

end
