(* ===== verification/Spec2Isabelle.thy ===== *)
theory Spec2Isabelle
  imports Tip20_Properties Nonce Quote_Graph Validator_Config Slot_Layout Fee_Properties Dex_Properties
    Client_Pool Robust_Nonce Nonce_Cache Pool_2d_Best
begin

text \<open>
  Verification of the Tempo precompiles and of the spammer's runtime.
\<close>

end
